(* ===== verification/Prelude.thy ===== *)
theory Prelude
  imports Main "HOL-Library.Word"
begin

text \<open>
  Shared ground of the development: the machine integers of the Rust sources as words,
  the result type of fallible code, and the generic lemmas on words and lists the
  component theories use.

  A Rust \<open>u8\<close>, \<open>u32\<close> or \<open>u64\<close> is a word of that width; \<open>i32\<close> and \<open>i64\<close> are the
  same words read with \<^const>\<open>sint\<close>. A \<open>usize\<close> that counts bytes of a buffer is a
  \<^typ>\<open>nat\<close>: it never exceeds the length of the buffer, which the invariants state.
\<close>

unbundle bit_operations_syntax

type_synonym u8 = "8 word"
type_synonym u16 = "16 word"
type_synonym u32 = "32 word"
type_synonym u64 = "64 word"
type_synonym i32 = "32 word"
type_synonym i64 = "64 word"

text \<open>A half-open range of file offsets, Rust's \<open>Range<usize>\<close>.\<close>

type_synonym range = "nat \<times> nat"

abbreviation usize_MAX :: nat where
  "usize_MAX \<equiv> 2 ^ 64 - 1"

abbreviation u32_MAX :: nat where
  "u32_MAX \<equiv> 2 ^ 32 - 1"

text \<open>
  Rust's \<open>usize::saturating_mul\<close>, and the conversions \<open>u32::try_from\<close> of a \<open>usize\<close> and of
  an \<open>i64\<close>: \<^const>\<open>None\<close> where the value does not fit.
\<close>

definition saturating_mul :: "nat \<Rightarrow> nat \<Rightarrow> nat" where
  "saturating_mul a b = min (a * b) usize_MAX"

definition u32_try_from_usize :: "nat \<Rightarrow> u32 option" where
  "u32_try_from_usize n = (if n \<le> u32_MAX then Some (of_nat n) else None)"

definition u32_try_from_i64 :: "i64 \<Rightarrow> u32 option" where
  "u32_try_from_i64 x =
     (if 0 \<le> sint x \<and> sint x \<le> 2 ^ 32 - 1 then Some (word_of_int (sint x)) else None)"

named_theorems reads_intros \<open>how a parser is built from parsers that keep their bounds\<close>
named_theorems reads_facts \<open>what each parser of the model is known to keep\<close>

section \<open>Words\<close>

lemma unat_of_nat_u32 [simp]: "n \<le> u32_MAX \<Longrightarrow> unat (of_nat n :: u32) = n"
  by (simp add: unat_of_nat)

lemma unat_u32_le: "unat (x :: u32) \<le> u32_MAX"
  using unsigned_less [of x, where ?'a = nat] by simp

lemma unat_ucast_u32_u64 [simp]: "unat (ucast (x :: u32) :: u64) = unat x"
proof -
  have "unat x < 2 ^ 64" using unat_u32_le [of x] by simp
  then show ?thesis by (simp add: unsigned_ucast_eq take_bit_nat_eq_self)
qed

lemma u32_try_from_usize_Some:
  "u32_try_from_usize n = Some x \<longleftrightarrow> n \<le> u32_MAX \<and> unat x = n"
proof
  assume "u32_try_from_usize n = Some x"
  then show "n \<le> u32_MAX \<and> unat x = n"
    by (auto simp: u32_try_from_usize_def split: if_splits)
next
  assume "n \<le> u32_MAX \<and> unat x = n"
  then show "u32_try_from_usize n = Some x"
    by (auto simp: u32_try_from_usize_def)
qed

lemma bit_iff_odd_unat: "bit (w :: 'a::len word) n \<longleftrightarrow> odd (unat w div 2 ^ n)"
proof -
  have "bit (unat w) n \<longleftrightarrow> bit w n"
    using bit_imp_le_length by (auto simp: bit_unsigned_iff)
  then show ?thesis
    by (simp add: bit_iff_odd)
qed

text \<open>The low seven bits of a byte are its value modulo 128; its top bit is set from 128 on.\<close>

lemma unat_low7: "unat (b AND 0x7f :: u8) = unat b mod 128"
proof -
  have "b AND 0x7f = take_bit 7 b"
    by (simp add: take_bit_eq_mask mask_eq_exp_minus_1)
  then show ?thesis
    by (simp add: take_bit_eq_mod unat_mod)
qed

lemma high_bit_clear_iff: "(b AND 0x80 :: u8) = 0 \<longleftrightarrow> unat b < 128"
proof -
  have "(b AND 0x80 = 0) \<longleftrightarrow> \<not> bit b 7"
    using and_exp_eq_0_iff_not_bit [of b 7] by simp
  also have "\<dots> \<longleftrightarrow> unat b < 128"
  proof -
    have "bit b 7 \<longleftrightarrow> odd (unat b div 2 ^ 7)"
      by (simp add: bit_iff_odd_unat)
    moreover have "unat b div 128 < 2"
      using unsigned_less [of b, where ?'a = nat] by (simp add: less_mult_imp_div_less)
    ultimately show ?thesis
      by (auto simp: less_2_cases_iff)
  qed
  finally show ?thesis .
qed

text \<open>A bitwise or of two words that share no bit is their sum.\<close>

lemma or_push_bit_eq_add:
  fixes v p :: u64
  assumes "unat v < 2 ^ n"
  shows "v OR push_bit n p = v + push_bit n p"
proof (rule disjunctive_add [symmetric])
  fix m
  have "\<not> bit v m" if "n \<le> m"
  proof -
    have "unat v < 2 ^ m"
      using assms that by (meson less_le_trans one_le_numeral power_increasing)
    then have "unat v div 2 ^ m = 0" by simp
    then show ?thesis
      by (simp add: bit_iff_odd_unat)
  qed
  then show "\<not> bit v m \<or> \<not> bit (push_bit n p) m"
    by (auto simp: bit_push_bit_iff)
qed

section \<open>Lists\<close>

lemma nth_eq_drop_hd: "n < length xs \<Longrightarrow> drop n xs = xs ! n # drop (Suc n) xs"
  by (simp add: Cons_nth_drop_Suc)

text \<open>A list whose neighbours increase: a linear check that implies distinctness.\<close>

fun ascending :: "nat list \<Rightarrow> bool" where
  "ascending [] = True"
| "ascending [x] = True"
| "ascending (x # y # zs) = (x < y \<and> ascending (y # zs))"

lemma ascending_iff: "ascending xs \<longleftrightarrow> sorted_wrt (<) xs"
proof (induction xs rule: ascending.induct)
  case (3 x y zs)
  then show ?case by (auto intro: less_trans)
qed simp_all

lemma ascending_distinct: "ascending xs \<Longrightarrow> distinct xs"
  by (simp add: ascending_iff strict_sorted_iff)

end
