(* ===== verification/Wasm_Error.thy ===== *)
theory Wasm_Error
  imports Prelude
begin

text \<open>
  What can be wrong with a WebAssembly module, as \<open>src/crates/n0xis-wasm/src/error.rs\<close>
  states it. \<open>Problem\<close> has the source's constructors; \<open>Internal\<close> is what the guarded
  entry points make of a panic inside the reader, so every place of the model where the
  Rust code would panic (an index out of bounds, an arithmetic overflow, \<open>expect\<close>,
  \<open>unreachable!\<close>) yields it.
\<close>

datatype (plugins del: quickcheck_exhaustive quickcheck_random quickcheck_full_exhaustive quickcheck_narrowing size transfer lifting) Problem =
    Magic
  | Version u32
  | Component u16 u16
  | End nat nat
  | LebTooLong nat
  | LebTooBig nat
  | CountTooLarge u32 nat
  | Utf8
  | UnknownSection u8
  | SectionOrder u8 u8
  | SectionSize u8 u32 nat
  | SubsectionSize u8 u32 nat
  | UnknownValueType u8
  | UnknownRefType u8
  | UnknownHeapType u8
  | UnknownBlockType u8
  | UnknownTypeForm u8
  | UnknownImportKind u8
  | UnknownExportKind u8
  | UnknownLimitsFlags u8
  | UnknownMutability u8
  | UnknownElementForm u32
  | UnknownElementKind u8
  | UnknownDataForm u32
  | UnknownTagAttribute u8
  | UnknownCatchKind u8
  | CastFlags u8
  | ReservedByte u8
  | BodyCount u32 u32
  | DataCount u32 u32
  | IndexSpaceOverflow
  | TooManyLocals
  | UnknownOpcode "u8 option" u32
  | MemArgFlags u32
  | ElseWithoutIf
  | CatchOutsideTry
  | DelegateOutsideTry
  | NotEnded
  | BytesAfterEnd nat
  | BytesAfterItem nat
  | DataIndexWithoutDataCount

datatype Error =
    Unreadable nat Problem
  | Internal string

text \<open>Rust's \<open>Result<T, Error>\<close>.\<close>

type_synonym 'a result = "Error + 'a"

text \<open>Whether the code stopped in a panic; a caller that handles errors does not see one.\<close>

definition is_panic :: "Error \<Rightarrow> bool" where
  "is_panic e = (case e of Unreadable _ _ \<Rightarrow> False | Internal _ \<Rightarrow> True)"

text \<open>An error that states a fact about the file, at an offset within given bounds.\<close>

definition refusal_within :: "nat \<Rightarrow> nat \<Rightarrow> Error \<Rightarrow> bool" where
  "refusal_within lo hi e = (case e of Unreadable off _ \<Rightarrow> lo \<le> off \<and> off \<le> hi | Internal _ \<Rightarrow> False)"

lemma refusal_withinI [intro]: "lo \<le> off \<Longrightarrow> off \<le> hi \<Longrightarrow> refusal_within lo hi (Unreadable off p)"
  by (simp add: refusal_within_def)

lemma refusal_within_mono:
  "refusal_within lo hi e \<Longrightarrow> lo' \<le> lo \<Longrightarrow> hi \<le> hi' \<Longrightarrow> refusal_within lo' hi' e"
  by (auto simp: refusal_within_def split: Error.splits)

lemma refusal_not_internal: "refusal_within lo hi e \<Longrightarrow> e \<noteq> Internal why"
  by (auto simp: refusal_within_def)

lemma is_panic_refusal: "refusal_within lo hi e \<Longrightarrow> \<not> is_panic e"
  by (auto simp: refusal_within_def is_panic_def split: Error.splits)

lemma refusal_withinE:
  assumes "refusal_within lo hi e"
  obtains off p where "e = Unreadable off p" "lo \<le> off" "off \<le> hi"
  using assms by (auto simp: refusal_within_def split: Error.splits)

end
