(* ===== verification/Wasm_Reader.thy ===== *)
theory Wasm_Reader
  imports Wasm_Error
begin

text \<open>
  The byte cursor of \<open>src/crates/n0xis-wasm/src/reader.rs\<close>: a position and a limit over the
  whole file. A method \<open>fn f(&mut self) -> Result<T, Error>\<close> is a \<open>parser\<close>: it takes the
  reader and returns the error, or the value and the reader moved on. After an error no
  caller looks at the reader again (every caller propagates with \<open>?\<close>, or drops the
  reader), so an error carries no reader.

  The theory has three parts: the parser primitives and what it means for a parser to
  keep its bounds (\<open>reads\<close>); the operations of the cursor; LEB128 against the format's own
  definition of the encodings.
\<close>

record Reader =
  rbytes :: "u8 list"
  rpos :: nat
  rend :: nat

type_synonym 'a parser = "Reader \<Rightarrow> ('a \<times> Reader) result"

section \<open>Parsers\<close>

definition ret :: "'a \<Rightarrow> 'a parser" where
  "ret x r = Inr (x, r)"

text \<open>\<open>Reader::error\<close> returned with \<open>Err\<close>, and a panic at this point.\<close>

definition err :: "nat \<Rightarrow> Problem \<Rightarrow> 'a parser" where
  "err at problem r = Inl (Unreadable at problem)"

definition panic :: "string \<Rightarrow> 'a parser" where
  "panic why r = Inl (Internal why)"

text \<open>The \<open>?\<close> operator: go on with the value, or return the error.\<close>

definition bnd :: "'a parser \<Rightarrow> ('a \<Rightarrow> 'b parser) \<Rightarrow> 'b parser" where
  "bnd m f r = (case m r of Inl e \<Rightarrow> Inl e | Inr (x, r') \<Rightarrow> f x r')"

text \<open>\<open>let at = r.offset();\<close> and other looks at the reader that do not move it.\<close>

definition with_offset :: "(nat \<Rightarrow> 'a parser) \<Rightarrow> 'a parser" where
  "with_offset f r = f (rpos r) r"

definition with_reader :: "(Reader \<Rightarrow> 'a parser) \<Rightarrow> 'a parser" where
  "with_reader f r = f r r"

text \<open>A \<open>for _ in 0..n\<close> loop that pushes what \<open>p\<close> reads, and one that carries a state.\<close>

primrec rep :: "nat \<Rightarrow> 'a parser \<Rightarrow> 'a list parser" where
  "rep 0 p = ret []"
| "rep (Suc n) p = bnd p (\<lambda>x. bnd (rep n p) (\<lambda>xs. ret (x # xs)))"

primrec iter :: "nat \<Rightarrow> ('s \<Rightarrow> 's parser) \<Rightarrow> 's \<Rightarrow> 's parser" where
  "iter 0 f s = ret s"
| "iter (Suc n) f s = bnd (f s) (iter n f)"

lemmas parser_prims = ret_def err_def panic_def bnd_def with_offset_def with_reader_def

lemma bnd_Inr_iff: "bnd m f r = Inr (y, r'') \<longleftrightarrow> (\<exists>x r'. m r = Inr (x, r') \<and> f x r' = Inr (y, r''))"
  by (auto simp: bnd_def split: sum.splits)

lemma bnd_Inl_iff:
  "bnd m f r = Inl e \<longleftrightarrow> m r = Inl e \<or> (\<exists>x r'. m r = Inr (x, r') \<and> f x r' = Inl e)"
  by (auto simp: bnd_def split: sum.splits)

lemma bnd_cong [fundef_cong]:
  assumes "m r = m' r'" and "\<And>x s. m' r' = Inr (x, s) \<Longrightarrow> f x s = f' x s"
  shows "bnd m f r = bnd m' f' r'"
  using assms by (auto simp: bnd_def split: sum.splits)

lemma bnd_ret [simp]: "bnd (ret x) f = f x"
  by (rule ext) (simp add: bnd_def ret_def)

lemma bnd_assoc: "bnd (bnd m f) g = bnd m (\<lambda>x. bnd (f x) g)"
  by (rule ext) (auto simp: bnd_def split: sum.splits)

lemma iter_invariant:
  assumes "iter n f s r = Inr (s', r')" "I s"
    and "\<And>s r s' r'. I s \<Longrightarrow> f s r = Inr (s', r') \<Longrightarrow> I s'"
  shows "I s'"
  using assms(1,2)
  by (induction n arbitrary: s r) (auto simp: bnd_Inr_iff ret_def dest: assms(3))

lemma ret_Inr [simp]: "ret x r = Inr (y, r') \<longleftrightarrow> y = x \<and> r' = r"
  by (auto simp: ret_def)

lemma ret_Inl [simp]: "ret x r \<noteq> Inl e"
  by (simp add: ret_def)

lemma err_Inr [simp]: "err at p r \<noteq> Inr z"
  by (simp add: err_def)

section \<open>Keeping within bounds\<close>

text \<open>
  The invariant of the cursor, kept by every operation: its position is at most its
  limit and the limit at most the length of the file.
\<close>

definition reader_wf :: "Reader \<Rightarrow> bool" where
  "reader_wf r \<longleftrightarrow> rpos r \<le> rend r \<and> rend r \<le> length (rbytes r)"

text \<open>The bytes between position and limit: all a parser may look at.\<close>

definition window :: "Reader \<Rightarrow> u8 list" where
  "window r = take (rend r - rpos r) (drop (rpos r) (rbytes r))"

definition advance :: "nat \<Rightarrow> Reader \<Rightarrow> Reader" where
  "advance n r = r\<lparr>rpos := rpos r + n\<rparr>"

definition same_window :: "Reader \<Rightarrow> Reader \<Rightarrow> bool" where
  "same_window r s \<longleftrightarrow> reader_wf r \<and> reader_wf s \<and> rpos r = rpos s \<and> rend r = rend s \<and> window r = window s"

text \<open>
  For a parser that starts at \<open>hi\<close> or later. \<open>moves hi k p\<close>: success leaves the file and
  the limit alone and moves the position by at least \<open>k\<close> bytes, never past the limit.
  \<open>refuses lo hi p\<close>: an error is a refusal at an offset from \<open>lo\<close> up to the limit, never a
  panic. \<open>sees_window hi p\<close>: the outcome depends on no byte outside the window.
\<close>

definition moves :: "nat \<Rightarrow> nat \<Rightarrow> 'a parser \<Rightarrow> bool" where
  "moves hi k p \<longleftrightarrow> (\<forall>r x r'. hi \<le> rpos r \<longrightarrow> p r = Inr (x, r') \<longrightarrow>
     (\<exists>n \<ge> k. r' = advance n r \<and> (rpos r + n \<le> rend r \<or> n = 0)))"

definition refuses :: "nat \<Rightarrow> nat \<Rightarrow> 'a parser \<Rightarrow> bool" where
  "refuses lo hi p \<longleftrightarrow> (\<forall>r e. hi \<le> rpos r \<longrightarrow> reader_wf r \<longrightarrow> p r = Inl e \<longrightarrow>
     refusal_within lo (rend r) e)"

definition sees_window :: "nat \<Rightarrow> 'a parser \<Rightarrow> bool" where
  "sees_window hi p \<longleftrightarrow> (\<forall>r s. hi \<le> rpos r \<longrightarrow> same_window r s \<longrightarrow>
     rel_sum (=) (rel_prod (=) same_window) (p r) (p s))"

definition reads :: "nat \<Rightarrow> nat \<Rightarrow> nat \<Rightarrow> 'a parser \<Rightarrow> bool" where
  "reads lo hi k p \<longleftrightarrow> (lo \<le> hi \<longrightarrow> moves hi k p \<and> refuses lo hi p \<and> sees_window hi p)"

lemma advance_0 [simp]: "advance 0 r = r"
  by (simp add: advance_def)

lemma advance_advance [simp]: "advance m (advance n r) = advance (n + m) r"
  by (simp add: advance_def add.assoc)

lemma advance_simps [simp]:
  "rbytes (advance n r) = rbytes r" "rend (advance n r) = rend r" "rpos (advance n r) = rpos r + n"
  by (simp_all add: advance_def)

lemma reader_wf_advance [intro]:
  "reader_wf r \<Longrightarrow> rpos r + n \<le> rend r \<Longrightarrow> reader_wf (advance n r)"
  by (simp add: reader_wf_def)

lemma length_window: "reader_wf r \<Longrightarrow> length (window r) = rend r - rpos r"
  by (auto simp: window_def reader_wf_def)

lemma window_advance: "window (advance n r) = drop n (window r)"
  by (simp add: window_def drop_take add.commute)

lemma window_nth: "reader_wf r \<Longrightarrow> i < rend r - rpos r \<Longrightarrow> window r ! i = rbytes r ! (rpos r + i)"
  by (simp add: window_def reader_wf_def)

lemma same_window_refl: "reader_wf r \<Longrightarrow> same_window r r"
  by (simp add: same_window_def)

lemma same_window_advance:
  "same_window r s \<Longrightarrow> rpos r + n \<le> rend r \<Longrightarrow> same_window (advance n r) (advance n s)"
  by (auto simp: same_window_def window_advance)

lemma movesD:
  assumes "moves hi k p" "p r = Inr (x, r')" "hi \<le> rpos r"
  obtains n where "k \<le> n" "r' = advance n r" "rpos r + n \<le> rend r \<or> n = 0"
  using assms unfolding moves_def by blast

lemma moves_wf: "moves hi k p \<Longrightarrow> p r = Inr (x, r') \<Longrightarrow> hi \<le> rpos r \<Longrightarrow> reader_wf r \<Longrightarrow> reader_wf r'"
  by (elim movesD) auto

subsection \<open>Building parsers that keep within bounds\<close>

lemma reads_weaken: "reads lo hi k p \<Longrightarrow> j \<le> k \<Longrightarrow> reads lo hi j p"
  unfolding reads_def moves_def by (meson order_trans)

lemma moves_bnd:
  assumes p: "moves hi j p" and q: "\<And>x. moves hi k (q x)"
  shows "moves hi (j + k) (bnd p q)"
  unfolding moves_def
proof (intro allI impI)
  fix r y r'' assume hi: "hi \<le> rpos r" and "bnd p q r = Inr (y, r'')"
  then obtain x r' where x: "p r = Inr (x, r')" "q x r' = Inr (y, r'')"
    by (auto simp: bnd_Inr_iff)
  obtain m where m: "j \<le> m" "r' = advance m r" "rpos r + m \<le> rend r \<or> m = 0"
    using movesD [OF p x(1) hi] .
  with hi have "hi \<le> rpos r'" by simp
  from movesD [OF q x(2) this] obtain n
    where "k \<le> n" "r'' = advance n r'" "rpos r' + n \<le> rend r' \<or> n = 0" .
  with m show "\<exists>n\<ge>j + k. r'' = advance n r \<and> (rpos r + n \<le> rend r \<or> n = 0)"
    by (intro exI [of _ "m + n"]) auto
qed

lemma refuses_bnd:
  assumes p: "moves hi j p" "refuses lo hi p" and q: "\<And>x. refuses lo hi (q x)"
  shows "refuses lo hi (bnd p q)"
  unfolding refuses_def
proof (intro allI impI)
  fix r e assume r: "reader_wf r" "hi \<le> rpos r" and "bnd p q r = Inl e"
  then consider "p r = Inl e" | x r' where "p r = Inr (x, r')" "q x r' = Inl e"
    by (auto simp: bnd_Inl_iff)
  then show "refusal_within lo (rend r) e"
  proof cases
    case 1
    then show ?thesis using p(2) r by (simp add: refuses_def)
  next
    case 2
    obtain n where n: "r' = advance n r"
      using movesD [OF p(1) 2(1) r(2)] .
    have "reader_wf r'" by (rule moves_wf [OF p(1) 2(1) r(2,1)])
    moreover have "hi \<le> rpos r'" using n r(2) by simp
    ultimately have "refusal_within lo (rend r') e"
      using q [of x] 2(2) unfolding refuses_def by blast
    then show ?thesis using n by simp
  qed
qed

lemma sees_window_bnd:
  assumes p: "moves hi j p" "sees_window hi p" and q: "\<And>x. sees_window hi (q x)"
  shows "sees_window hi (bnd p q)"
  unfolding sees_window_def
proof (intro allI impI)
  fix r s assume hi: "hi \<le> rpos r" and "same_window r s"
  then have "rel_sum (=) (rel_prod (=) same_window) (p r) (p s)"
    using p(2) by (simp add: sees_window_def)
  then consider e where "p r = Inl e" "p s = Inl e"
    | x r' s' where "p r = Inr (x, r')" "p s = Inr (x, s')" "same_window r' s'"
    by cases auto
  then show "rel_sum (=) (rel_prod (=) same_window) (bnd p q r) (bnd p q s)"
  proof cases
    case 1
    then show ?thesis by (simp add: bnd_def)
  next
    case 2
    obtain n where "r' = advance n r"
      using movesD [OF p(1) 2(1) hi] .
    then have "hi \<le> rpos r'" using hi by simp
    with 2 q [of x] show ?thesis by (simp add: bnd_def sees_window_def)
  qed
qed

lemma reads_bnd [reads_intros]:
  assumes "reads lo hi j p" and "\<And>x. reads lo hi (n - j) (q x)"
  shows "reads lo hi n (bnd p q)"
proof -
  have "reads lo hi (j + (n - j)) (bnd p q)"
    using assms unfolding reads_def
    by (auto intro: moves_bnd refuses_bnd sees_window_bnd)
  then show ?thesis by (rule reads_weaken) simp
qed

lemma reads_ret [reads_intros]: "k = 0 \<Longrightarrow> reads lo hi k (ret x)"
  unfolding reads_def moves_def refuses_def sees_window_def
  by (auto simp: ret_def intro: exI [of _ 0])

lemma reads_err [reads_intros]: "lo \<le> at \<Longrightarrow> at \<le> hi \<Longrightarrow> reads lo hi k (err at problem)"
  unfolding reads_def moves_def refuses_def sees_window_def
  by (auto simp: err_def reader_wf_def)

lemma readsI:
  assumes "lo \<le> hi \<Longrightarrow> moves hi k p" "lo \<le> hi \<Longrightarrow> refuses lo hi p" "lo \<le> hi \<Longrightarrow> sees_window hi p"
  shows "reads lo hi k p"
  using assms by (simp add: reads_def)

lemma reads_with_offset [reads_intros]:
  assumes "\<And>at. hi \<le> at \<Longrightarrow> lo \<le> at \<Longrightarrow> reads lo at k (q at)"
  shows "reads lo hi k (with_offset q)"
proof (rule readsI)
  assume lo: "lo \<le> hi"
  have q: "moves at k (q at)" "refuses lo at (q at)" "sees_window at (q at)" if "hi \<le> at" for at
    using assms [OF that] that lo by (simp_all add: reads_def)
  show "moves hi k (with_offset q)"
    using q(1) unfolding moves_def with_offset_def by blast
  show "refuses lo hi (with_offset q)"
    using q(2) unfolding refuses_def with_offset_def by blast
  show "sees_window hi (with_offset q)"
    unfolding sees_window_def
  proof (intro allI impI)
    fix r s assume r: "hi \<le> rpos r" "same_window r s"
    then have "rpos s = rpos r" by (simp add: same_window_def)
    with q(3) [OF r(1)] r(2)
    show "rel_sum (=) (rel_prod (=) same_window) (with_offset q r) (with_offset q s)"
      by (simp add: sees_window_def with_offset_def)
  qed
qed

lemma reads_if [reads_intros]:
  "(c \<Longrightarrow> reads lo hi k p) \<Longrightarrow> (\<not> c \<Longrightarrow> reads lo hi k q) \<Longrightarrow> reads lo hi k (if c then p else q)"
  by simp

lemma reads_let [reads_intros]: "(\<And>x. x = v \<Longrightarrow> reads lo hi k (f x)) \<Longrightarrow> reads lo hi k (let x = v in f x)"
  by simp

lemma reads_case_option [reads_intros]:
  assumes "v = None \<Longrightarrow> reads lo hi k p" and "\<And>x. v = Some x \<Longrightarrow> reads lo hi k (q x)"
  shows "reads lo hi k (case v of None \<Rightarrow> p | Some x \<Rightarrow> q x)"
  using assms by (cases v) auto

lemma reads_case_prod [reads_intros]:
  "(\<And>x y. v = (x, y) \<Longrightarrow> reads lo hi k (f x y)) \<Longrightarrow> reads lo hi k (case v of (x, y) \<Rightarrow> f x y)"
  by (cases v) simp

lemma reads_rep [reads_intros]:
  assumes "reads lo hi k p"
  shows "reads lo hi (n * k) (rep n p)"
proof (induction n)
  case (Suc n)
  show ?case unfolding rep.simps
    by (rule reads_bnd [OF assms], rule reads_bnd, rule Suc, rule reads_ret) simp
qed (simp add: reads_ret)

lemma reads_iter [reads_intros]:
  assumes "\<And>s. reads lo hi k (f s)"
  shows "reads lo hi (n * k) (iter n f s)"
proof (induction n arbitrary: s)
  case (Suc n)
  show ?case unfolding iter.simps
    by (rule reads_bnd [OF assms]) (use Suc in simp)
qed (simp add: reads_ret)

text \<open>
  The contract every item reader of the format keeps: whatever the file holds, it stays
  within its limit, takes at least \<open>k\<close> bytes, refuses with an offset in its window and
  never panics. What clients need of it is proved here once.
\<close>

locale item_reader =
  fixes p :: "'a parser" and k :: nat
  assumes item_reads: "reads lo hi k p"
begin

lemma success:
  assumes "p r = Inr (x, r')"
  obtains n where "k \<le> n" "r' = advance n r" "rpos r + n \<le> rend r \<or> n = 0"
  using item_reads [of 0 0] assms movesD [of 0 k p r x r'] unfolding reads_def by blast

lemma keeps_wf: "p r = Inr (x, r') \<Longrightarrow> reader_wf r \<Longrightarrow> reader_wf r'"
  using item_reads [of 0 0] moves_wf [of 0 k p] unfolding reads_def by blast

lemma shrinks:
  assumes "p r = Inr (x, r')"
  shows "rend r' - rpos r' + k \<le> rend r - rpos r"
  using assms by (rule success) auto

lemma refusal:
  assumes "reader_wf r" "p r = Inl e"
  shows "refusal_within (rpos r) (rend r) e"
  using item_reads [of "rpos r" "rpos r"] assms unfolding reads_def refuses_def by blast

lemma never_panics: "reader_wf r \<Longrightarrow> p r \<noteq> Inl (Internal why)"
  using refusal refusal_not_internal by blast

lemma window_only:
  assumes "same_window r s"
  shows "rel_sum (=) (rel_prod (=) same_window) (p r) (p s)"
  using item_reads [of 0 0] assms unfolding reads_def sees_window_def by blast

text \<open>Reading \<open>n\<close> items one after the other: as many items, at least \<open>n * k\<close> bytes.\<close>

lemma rep_length: "rep n p r = Inr (xs, r') \<Longrightarrow> length xs = n"
  by (induction n arbitrary: r xs r') (auto simp: bnd_Inr_iff)

lemma rep_bytes:
  assumes "rep n p r = Inr (xs, r')"
  shows "n * k \<le> rend r - rpos r"
proof -
  have "reads 0 0 (n * k) (rep n p)"
    by (rule reads_rep [OF item_reads])
  then obtain m where "n * k \<le> m" "rpos r + m \<le> rend r \<or> m = 0"
    using movesD [of 0 "n * k" "rep n p" r xs r'] assms unfolding reads_def by blast
  then show ?thesis by auto
qed

end

section \<open>The cursor\<close>

definition Reader_new :: "u8 list \<Rightarrow> Reader" where
  "Reader_new bs = \<lparr>rbytes = bs, rpos = 0, rend = length bs\<rparr>"

definition Reader_over :: "u8 list \<Rightarrow> range \<Rightarrow> Reader" where
  "Reader_over bs rg =
     (let e = min (snd rg) (length bs) in \<lparr>rbytes = bs, rpos = min (fst rg) e, rend = e\<rparr>)"

definition offset :: "Reader \<Rightarrow> nat" where
  "offset r = rpos r"

definition remaining :: "Reader \<Rightarrow> nat" where
  "remaining r = rend r - rpos r"

definition at_end :: "Reader \<Rightarrow> bool" where
  "at_end r \<longleftrightarrow> rpos r = rend r"

definition short :: "nat \<Rightarrow> 'a parser" where
  "short n r = err (rpos r) (End n (remaining r)) r"

text \<open>Indexing past the file is a panic; the invariant keeps it out of reach.\<close>

definition byte :: "u8 parser" where
  "byte r =
     (if rend r \<le> rpos r then short 1 r
      else if length (rbytes r) \<le> rpos r then panic ''index out of bounds'' r
      else Inr (rbytes r ! rpos r, r\<lparr>rpos := rpos r + 1\<rparr>))"

definition peek :: "u8 parser" where
  "peek r =
     (if rend r \<le> rpos r then short 1 r
      else if length (rbytes r) \<le> rpos r then panic ''index out of bounds'' r
      else Inr (rbytes r ! rpos r, r))"

definition take_bytes :: "nat \<Rightarrow> u8 list parser" where
  "take_bytes n r =
     (if remaining r < n then short n r
      else if length (rbytes r) < rpos r + n then panic ''range end index out of range'' r
      else Inr (take n (drop (rpos r) (rbytes r)), r\<lparr>rpos := rpos r + n\<rparr>))"

text \<open>\<open>array::<N>\<close> copies what \<open>take(N)\<close> gave, which has that length.\<close>

definition array :: "nat \<Rightarrow> u8 list parser" where
  "array n = take_bytes n"

definition sub :: "nat \<Rightarrow> Reader parser" where
  "sub len r =
     (if remaining r < len then short len r
      else Inr (r\<lparr>rend := rpos r + len\<rparr>, r\<lparr>rpos := rpos r + len\<rparr>))"

subsection \<open>LEB128\<close>

text \<open>\<open>bits.div_ceil(7)\<close>, and how many bits of the value the last permitted byte may carry.\<close>

definition max_bytes :: "nat \<Rightarrow> nat" where
  "max_bytes bits = (bits + 6) div 7"

definition last_bits :: "nat \<Rightarrow> nat" where
  "last_bits bits = bits - 7 * (max_bytes bits - 1)"

text \<open>
  The loop \<open>for i in 0..max_bytes\<close> of \<open>unsigned\<close>, with the number of turns left as the first
  argument; the bits of a payload shifted past the 64th are dropped, as \<open><<\<close> on \<open>u64\<close> does.
\<close>

primrec unsigned_from :: "nat \<Rightarrow> nat \<Rightarrow> nat \<Rightarrow> nat \<Rightarrow> u64 \<Rightarrow> u64 parser" where
  "unsigned_from 0 bits start i v = err start (LebTooLong bits)"
| "unsigned_from (Suc n) bits start i v =
     bnd byte (\<lambda>b.
       let payload = (ucast (b AND 0x7f) :: u64) in
       if i = max_bytes bits - 1 \<and> b AND 0x80 \<noteq> 0 then err start (LebTooLong bits)
       else if i = max_bytes bits - 1 \<and> drop_bit (last_bits bits) payload \<noteq> 0
       then err start (LebTooBig bits)
       else
         let v' = v OR push_bit (7 * i) payload in
         if b AND 0x80 = 0 then ret v' else unsigned_from n bits start (i + 1) v')"

definition unsigned_leb :: "nat \<Rightarrow> u64 parser" where
  "unsigned_leb bits = with_offset (\<lambda>start. unsigned_from (max_bytes bits) bits start 0 0)"

primrec signed_from :: "nat \<Rightarrow> nat \<Rightarrow> nat \<Rightarrow> nat \<Rightarrow> u64 \<Rightarrow> i64 parser" where
  "signed_from 0 bits start i v = err start (LebTooLong bits)"
| "signed_from (Suc n) bits start i v =
     bnd byte (\<lambda>b.
       let payload = (ucast (b AND 0x7f) :: u64);
           upper = drop_bit (last_bits bits - 1) payload;
           all_ones = push_bit (8 - last_bits bits) 1 - 1
       in
       if i = max_bytes bits - 1 \<and> b AND 0x80 \<noteq> 0 then err start (LebTooLong bits)
       else if i = max_bytes bits - 1 \<and> upper \<noteq> 0 \<and> upper \<noteq> all_ones
       then err start (LebTooBig bits)
       else
         let v' = v OR push_bit (7 * i) payload in
         if b AND 0x80 = 0
         then ret (if 7 * i + 7 < 64 \<and> payload AND 0x40 \<noteq> 0 then v' OR push_bit (7 * i + 7) (- 1) else v')
         else signed_from n bits start (i + 1) v')"

definition signed_leb :: "nat \<Rightarrow> i64 parser" where
  "signed_leb bits = with_offset (\<lambda>start. signed_from (max_bytes bits) bits start 0 0)"

definition read_u32 :: "u32 parser" where
  "read_u32 = bnd (unsigned_leb 32) (\<lambda>v. ret (ucast v))"

definition read_u64 :: "u64 parser" where
  "read_u64 = unsigned_leb 64"

definition read_s32 :: "i32 parser" where
  "read_s32 = bnd (signed_leb 32) (\<lambda>v. ret (ucast v))"

definition read_s33 :: "i64 parser" where
  "read_s33 = signed_leb 33"

definition read_s64 :: "i64 parser" where
  "read_s64 = signed_leb 64"

text \<open>A count is refused at once when the bytes left cannot hold that many entries.\<close>

definition count :: "nat \<Rightarrow> u32 parser" where
  "count min_entry_bytes = with_offset (\<lambda>at. bnd read_u32 (\<lambda>n. with_reader (\<lambda>r.
     if remaining r < saturating_mul (unat n) min_entry_bytes
     then err at (CountTooLarge n (remaining r))
     else ret n)))"

subsection \<open>Names\<close>

text \<open>
  \<open>std::str::from_utf8\<close>: the width of a character by its first byte, and the range of
  its second byte, which excludes overlong forms, surrogates and values past U+10FFFF.
\<close>

definition utf8_char_width :: "u8 \<Rightarrow> nat" where
  "utf8_char_width b =
     (if b < 0x80 then 1 else if b < 0xc2 then 0 else if b < 0xe0 then 2
      else if b < 0xf0 then 3 else if b < 0xf5 then 4 else 0)"

definition utf8_cont :: "u8 \<Rightarrow> bool" where
  "utf8_cont b \<longleftrightarrow> 0x80 \<le> b \<and> b \<le> 0xbf"

definition utf8_second :: "u8 \<Rightarrow> u8 \<Rightarrow> bool" where
  "utf8_second b c =
     (if b = 0xe0 then 0xa0 \<le> c \<and> c \<le> 0xbf
      else if b = 0xed then 0x80 \<le> c \<and> c \<le> 0x9f
      else if b = 0xf0 then 0x90 \<le> c \<and> c \<le> 0xbf
      else if b = 0xf4 then 0x80 \<le> c \<and> c \<le> 0x8f
      else utf8_cont c)"

fun from_utf8_ok :: "u8 list \<Rightarrow> bool" where
  "from_utf8_ok [] = True"
| "from_utf8_ok (b # bs) =
     (let w = utf8_char_width b in
      if w = 0 \<or> length bs < w - 1 then False
      else (2 \<le> w \<longrightarrow> utf8_second b (bs ! 0)) \<and> list_all utf8_cont (take (w - 2) (drop 1 bs))
        \<and> from_utf8_ok (drop (w - 1) bs))"

text \<open>A name is kept as its bytes, which are valid UTF-8: Rust's \<open>String\<close>.\<close>

definition read_name :: "u8 list parser" where
  "read_name = bnd read_u32 (\<lambda>len. with_offset (\<lambda>at. bnd (take_bytes (unat len)) (\<lambda>bs.
     if from_utf8_ok bs then ret bs else err at Utf8)))"

subsection \<open>Every operation keeps within bounds\<close>

lemma byte_advance:
  "byte r = (if rend r \<le> rpos r then short 1 r
     else if length (rbytes r) \<le> rpos r then panic ''index out of bounds'' r
     else Inr (rbytes r ! rpos r, advance 1 r))"
  by (simp add: byte_def advance_def)

lemma sees_windowI:
  assumes "\<And>r s. same_window r s \<Longrightarrow> rel_sum (=) (rel_prod (=) same_window) (p r) (p s)"
  shows "sees_window hi p"
  using assms by (simp add: sees_window_def)

lemma same_window_nth:
  "same_window r s \<Longrightarrow> i < rend r - rpos r \<Longrightarrow> rbytes r ! (rpos r + i) = rbytes s ! (rpos s + i)"
  using window_nth [of r i] window_nth [of s i] by (simp add: same_window_def)

lemma same_windowD:
  assumes "same_window r s"
  shows "rpos s = rpos r" "rend s = rend r" "rpos r \<le> rend r" "rend r \<le> length (rbytes r)"
    "rend r \<le> length (rbytes s)" "window s = window r"
  using assms by (auto simp: same_window_def reader_wf_def)

lemma same_window_next:
  "same_window r s \<Longrightarrow> rpos r < rend r \<Longrightarrow> rbytes s ! rpos r = rbytes r ! rpos r"
  using same_window_nth [of r s 0] by (simp add: same_windowD)

lemma byte_reads [reads_facts]: "reads lo hi 1 byte"
proof -
  have "moves hi 1 byte"
    by (auto simp: moves_def byte_advance short_def err_def panic_def split: if_splits intro!: exI [of _ 1])
  moreover have "lo \<le> hi \<Longrightarrow> refuses lo hi byte"
    by (auto simp: refuses_def byte_advance short_def err_def panic_def reader_wf_def split: if_splits)
  moreover have "sees_window hi byte"
  proof (rule sees_windowI)
    fix r s assume rs: "same_window r s"
    show "rel_sum (=) (rel_prod (=) same_window) (byte r) (byte s)"
      using same_windowD [OF rs] same_window_next [OF rs] same_window_advance [OF rs, of 1]
      by (auto simp: byte_advance short_def err_def panic_def remaining_def)
  qed
  ultimately show ?thesis by (simp add: reads_def)
qed

lemma peek_reads [reads_facts]: "reads lo hi 0 peek"
proof -
  have "moves hi 0 peek"
    by (auto simp: moves_def peek_def short_def err_def panic_def split: if_splits intro!: exI [of _ 0])
  moreover have "lo \<le> hi \<Longrightarrow> refuses lo hi peek"
    by (auto simp: refuses_def peek_def short_def err_def panic_def reader_wf_def split: if_splits)
  moreover have "sees_window hi peek"
  proof (rule sees_windowI)
    fix r s assume rs: "same_window r s"
    show "rel_sum (=) (rel_prod (=) same_window) (peek r) (peek s)"
      using same_windowD [OF rs] same_window_next [OF rs] rs
      by (auto simp: peek_def short_def err_def panic_def remaining_def)
  qed
  ultimately show ?thesis by (simp add: reads_def)
qed

lemma take_bytes_eq:
  "take_bytes n r = (if remaining r < n then short n r
     else if length (rbytes r) < rpos r + n then panic ''range end index out of range'' r
     else Inr (take n (drop (rpos r) (rbytes r)), advance n r))"
  by (simp add: take_bytes_def advance_def)

lemma take_window: "n \<le> rend r - rpos r \<Longrightarrow> take n (window r) = take n (drop (rpos r) (rbytes r))"
  by (simp add: window_def)

lemma take_bytes_reads [reads_facts]: "reads lo hi n (take_bytes n)"
proof -
  have "moves hi n (take_bytes n)"
    by (auto simp: moves_def take_bytes_eq remaining_def short_def err_def panic_def
        split: if_splits intro!: exI [of _ n])
  moreover have "lo \<le> hi \<Longrightarrow> refuses lo hi (take_bytes n)"
    by (auto simp: refuses_def take_bytes_eq remaining_def short_def err_def panic_def reader_wf_def
        split: if_splits)
  moreover have "sees_window hi (take_bytes n)"
  proof (rule sees_windowI)
    fix r s assume rs: "same_window r s"
    note w = same_windowD [OF rs]
    show "rel_sum (=) (rel_prod (=) same_window) (take_bytes n r) (take_bytes n s)"
    proof (cases "rend r - rpos r < n")
      case True
      then show ?thesis using w by (simp add: take_bytes_eq short_def err_def remaining_def)
    next
      case False
      then have "take n (drop (rpos r) (rbytes r)) = take n (drop (rpos r) (rbytes s))"
        using take_window [of n r] take_window [of n s] w by simp
      with False w same_window_advance [OF rs, of n] show ?thesis
        by (auto simp: take_bytes_eq short_def err_def panic_def remaining_def)
    qed
  qed
  ultimately show ?thesis by (simp add: reads_def)
qed

lemma array_reads [reads_facts]: "reads lo hi n (array n)"
  unfolding array_def by (rule take_bytes_reads)

lemma reads_with_remaining:
  assumes "\<And>n. reads lo hi k (q n)"
  shows "reads lo hi k (with_reader (\<lambda>r. q (remaining r)))"
proof (rule readsI)
  assume "lo \<le> hi"
  then have q: "moves hi k (q n)" "refuses lo hi (q n)" "sees_window hi (q n)" for n
    using assms [of n] by (simp_all add: reads_def)
  show "moves hi k (with_reader (\<lambda>r. q (remaining r)))"
    using q(1) unfolding moves_def with_reader_def by blast
  show "refuses lo hi (with_reader (\<lambda>r. q (remaining r)))"
    using q(2) unfolding refuses_def with_reader_def by blast
  show "sees_window hi (with_reader (\<lambda>r. q (remaining r)))"
    unfolding sees_window_def
  proof (intro allI impI)
    fix r s assume r: "hi \<le> rpos r" "same_window r s"
    then have "remaining s = remaining r" by (simp add: same_window_def remaining_def)
    with q(3) r show "rel_sum (=) (rel_prod (=) same_window)
        (with_reader (\<lambda>r. q (remaining r)) r) (with_reader (\<lambda>r. q (remaining r)) s)"
      by (simp add: sees_window_def with_reader_def)
  qed
qed

text \<open>
  A LEB128 loop that starts at its own offset: one byte at least, and every refusal at the
  offset where the number began.
\<close>

lemma unsigned_from_reads:
  "lo \<le> start \<Longrightarrow> start \<le> hi \<Longrightarrow> reads lo hi (if n = 0 then 0 else 1) (unsigned_from n bits start i v)"
proof (induction n arbitrary: i v)
  case (Suc n)
  have "reads lo hi 0 (unsigned_from n bits start i v)" for i v
    using Suc by (blast intro: reads_weaken)
  with Suc.prems show ?case
    by (auto intro!: reads_bnd [OF byte_reads] reads_err reads_ret simp: Let_def)
qed (simp add: reads_err)

lemma signed_from_reads:
  "lo \<le> start \<Longrightarrow> start \<le> hi \<Longrightarrow> reads lo hi (if n = 0 then 0 else 1) (signed_from n bits start i v)"
proof (induction n arbitrary: i v)
  case (Suc n)
  have "reads lo hi 0 (signed_from n bits start i v)" for i v
    using Suc by (blast intro: reads_weaken)
  with Suc.prems show ?case
    by (auto intro!: reads_bnd [OF byte_reads] reads_err reads_ret simp: Let_def)
qed (simp add: reads_err)

lemma max_bytes_pos: "0 < bits \<Longrightarrow> 0 < max_bytes bits"
  by (simp add: max_bytes_def)

lemma unsigned_leb_reads [reads_facts]:
  assumes "0 < bits"
  shows "reads lo hi 1 (unsigned_leb bits)"
  unfolding unsigned_leb_def
proof (rule reads_with_offset)
  fix at assume "lo \<le> at"
  with unsigned_from_reads [of lo at at "max_bytes bits"] max_bytes_pos [OF assms]
  show "reads lo at 1 (unsigned_from (max_bytes bits) bits at 0 0)" by simp
qed

lemma signed_leb_reads [reads_facts]:
  assumes "0 < bits"
  shows "reads lo hi 1 (signed_leb bits)"
  unfolding signed_leb_def
proof (rule reads_with_offset)
  fix at assume "lo \<le> at"
  with signed_from_reads [of lo at at "max_bytes bits"] max_bytes_pos [OF assms]
  show "reads lo at 1 (signed_from (max_bytes bits) bits at 0 0)" by simp
qed

lemma read_u32_reads [reads_facts]: "reads lo hi 1 read_u32"
  unfolding read_u32_def by (rule reads_intros reads_facts | simp)+

lemma read_u64_reads [reads_facts]: "reads lo hi 1 read_u64"
  unfolding read_u64_def by (rule reads_intros reads_facts | simp)+

lemma read_s32_reads [reads_facts]: "reads lo hi 1 read_s32"
  unfolding read_s32_def by (rule reads_intros reads_facts | simp)+

lemma read_s33_reads [reads_facts]: "reads lo hi 1 read_s33"
  unfolding read_s33_def by (rule reads_intros reads_facts | simp)+

lemma read_s64_reads [reads_facts]: "reads lo hi 1 read_s64"
  unfolding read_s64_def by (rule reads_intros reads_facts | simp)+

lemma count_reads [reads_facts]: "reads lo hi 1 (count m)"
  unfolding count_def
  by (rule reads_intros reads_facts reads_with_remaining | simp)+

lemma read_name_reads [reads_facts]: "reads lo hi 1 read_name"
  unfolding read_name_def
  by (rule reads_intros reads_facts reads_with_remaining | simp)+

text \<open>What \<open>byte\<close> and \<open>take\<close> see is the window.\<close>

lemma window_Cons_iff:
  "reader_wf r \<Longrightarrow> window r = b # bs \<longleftrightarrow> rpos r < rend r \<and> rbytes r ! rpos r = b \<and> window (advance 1 r) = bs"
proof -
  assume wf: "reader_wf r"
  have "window r \<noteq> [] \<longleftrightarrow> rpos r < rend r"
    using length_window [OF wf] by (metis length_greater_0_conv zero_less_diff)
  moreover have "rpos r < rend r \<Longrightarrow> hd (window r) = rbytes r ! rpos r"
    using window_nth [OF wf, of 0] calculation by (simp add: hd_conv_nth)
  moreover have "tl (window r) = window (advance 1 r)"
    by (simp add: window_advance drop_Suc)
  ultimately show ?thesis by (metis list.collapse list.distinct(1) list.sel(1,3))
qed

lemma byte_window: "reader_wf r \<Longrightarrow> window r = b # bs \<Longrightarrow> byte r = Inr (b, advance 1 r)"
  by (auto simp: window_Cons_iff byte_advance reader_wf_def)

lemma byte_window_empty: "reader_wf r \<Longrightarrow> window r = [] \<Longrightarrow> byte r = Inl (Unreadable (rpos r) (End 1 0))"
  using length_window [of r] by (simp add: byte_advance short_def err_def remaining_def)

lemma byte_Inr_iff:
  assumes "reader_wf r"
  shows "byte r = Inr (b, r') \<longleftrightarrow> (\<exists>bs. window r = b # bs) \<and> r' = advance 1 r"
  using assms byte_window [OF assms] byte_window_empty [OF assms]
  by (cases "window r") auto

lemma peek_window: "reader_wf r \<Longrightarrow> window r = b # bs \<Longrightarrow> peek r = Inr (b, r)"
  by (auto simp: window_Cons_iff peek_def reader_wf_def)

lemma peek_window_empty: "reader_wf r \<Longrightarrow> window r = [] \<Longrightarrow> peek r = Inl (Unreadable (rpos r) (End 1 0))"
  using length_window [of r] by (simp add: peek_def short_def err_def remaining_def)

lemma take_bytes_Inr_iff:
  assumes "reader_wf r"
  shows "take_bytes n r = Inr (bs, r') \<longleftrightarrow> n \<le> rend r - rpos r \<and> bs = take n (window r) \<and> r' = advance n r"
  using assms take_window [of n r]
  by (auto simp: take_bytes_eq remaining_def short_def err_def panic_def reader_wf_def)

text \<open>A sub-reader covers exactly the bytes its parent moves past.\<close>

lemma sub_Inr_iff:
  "sub len r = Inr (s, r') \<longleftrightarrow> len \<le> remaining r \<and> s = r\<lparr>rend := rpos r + len\<rparr> \<and> r' = advance len r"
  by (auto simp: sub_def short_def err_def advance_def)

lemma sub_wf: "sub len r = Inr (s, r') \<Longrightarrow> reader_wf r \<Longrightarrow> reader_wf s \<and> reader_wf r'"
  by (auto simp: sub_Inr_iff reader_wf_def remaining_def)

lemma Reader_new_wf [simp]: "reader_wf (Reader_new bs)"
  by (simp add: Reader_new_def reader_wf_def)

lemma Reader_over_wf [simp]: "reader_wf (Reader_over bs rg)"
  by (simp add: Reader_over_def reader_wf_def Let_def min_le_iff_disj)

section \<open>Vectors: the count check\<close>

lemma count_Inr_iff:
  "count m r = Inr (n, r') \<longleftrightarrow>
     read_u32 r = Inr (n, r') \<and> saturating_mul (unat n) m \<le> remaining r'"
  by (auto simp: count_def with_offset_def with_reader_def bnd_Inr_iff not_less split: if_splits)

context item_reader
begin

text \<open>
  The check before the loop refuses no vector whose entries are all there: with it or
  without it, the same bytes are read as the same entries.
\<close>

lemma vec_count_exact:
  "bnd (count k) (\<lambda>n. rep (unat n) p) r = Inr (xs, r'') \<longleftrightarrow>
   bnd read_u32 (\<lambda>n. rep (unat n) p) r = Inr (xs, r'')"
proof
  assume "bnd read_u32 (\<lambda>n. rep (unat n) p) r = Inr (xs, r'')"
  then obtain n r' where n: "read_u32 r = Inr (n, r')" "rep (unat n) p r' = Inr (xs, r'')"
    by (auto simp: bnd_Inr_iff)
  from rep_bytes [OF n(2)] have "saturating_mul (unat n) k \<le> remaining r'"
    by (simp add: saturating_mul_def remaining_def)
  with n show "bnd (count k) (\<lambda>n. rep (unat n) p) r = Inr (xs, r'')"
    by (auto simp: bnd_Inr_iff count_Inr_iff)
qed (auto simp: bnd_Inr_iff count_Inr_iff)

end

interpretation u8_item: item_reader byte 1
  by unfold_locales (rule byte_reads)

interpretation u32_item: item_reader read_u32 1
  by unfold_locales (rule read_u32_reads)

interpretation u64_item: item_reader read_u64 1
  by unfold_locales (rule read_u64_reads)

interpretation s32_item: item_reader read_s32 1
  by unfold_locales (rule read_s32_reads)

interpretation s33_item: item_reader read_s33 1
  by unfold_locales (rule read_s33_reads)

interpretation s64_item: item_reader read_s64 1
  by unfold_locales (rule read_s64_reads)

interpretation name_item: item_reader read_name 1
  by unfold_locales (rule read_name_reads)

end
