(* ===== verification/Wasm_Leb.thy ===== *)
theory Wasm_Leb
  imports Wasm_Reader "HOL-Library.Sublist"
begin

text \<open>
  LEB128 as the WebAssembly specification defines it (binary format, ``Integers''), and
  the proof that the loops of \<open>Reader::unsigned\<close> and \<open>Reader::signed\<close> accept exactly these
  encodings and return the numbers they denote, at every width up to 64 bits.
\<close>

section \<open>The encodings\<close>

inductive uN :: "nat \<Rightarrow> u8 list \<Rightarrow> nat \<Rightarrow> bool" where
  uN_last: "unat b < 128 \<Longrightarrow> unat b < 2 ^ N \<Longrightarrow> uN N [b] (unat b)"
| uN_more: "128 \<le> unat b \<Longrightarrow> 7 < N \<Longrightarrow> uN (N - 7) bs m \<Longrightarrow> uN N (b # bs) (128 * m + (unat b - 128))"

inductive sN :: "nat \<Rightarrow> u8 list \<Rightarrow> int \<Rightarrow> bool" where
  sN_pos: "uint b < 64 \<Longrightarrow> uint b < 2 ^ (N - 1) \<Longrightarrow> sN N [b] (uint b)"
| sN_neg: "64 \<le> uint b \<Longrightarrow> uint b < 128 \<Longrightarrow> 128 - 2 ^ (N - 1) \<le> uint b \<Longrightarrow> sN N [b] (uint b - 128)"
| sN_more: "128 \<le> uint b \<Longrightarrow> 7 < N \<Longrightarrow> sN (N - 7) bs m \<Longrightarrow> sN N (b # bs) (128 * m + (uint b - 128))"

inductive_simps uN_Cons: "uN N (b # bs) n"
inductive_simps sN_Cons: "sN N (b # bs) n"
inductive_cases uN_NilE [elim!]: "uN N [] n"
inductive_cases sN_NilE [elim!]: "sN N [] n"

text \<open>An encoding of \<open>uN\<close> denotes a number of \<open>N\<close> bits, of \<open>sN\<close> one of \<open>N\<close> bits with sign.\<close>

lemma uN_bound: "uN N bs n \<Longrightarrow> n < 2 ^ N"
proof (induction rule: uN.induct)
  case (uN_more b N bs m)
  have "unat b < 256" using unsigned_less [of b, where ?'a = nat] by simp
  then have "128 * m + (unat b - 128) < 128 * (m + 1)" by simp
  also have "\<dots> \<le> 128 * 2 ^ (N - 7)" using uN_more.IH by simp
  also have "\<dots> = 2 ^ (7 + (N - 7))" by (simp add: power_add)
  also have "\<dots> = 2 ^ N" using uN_more.hyps(2) by simp
  finally show ?case .
qed simp

lemma uint_byte: "0 \<le> uint (b :: u8) \<and> uint b < 256"
  using unsigned_less [of b, where ?'a = int] by simp

lemma sN_bound: "sN N bs n \<Longrightarrow> 0 < N \<Longrightarrow> - (2 ^ (N - 1)) \<le> n \<and> n < 2 ^ (N - 1)"
proof (induction rule: sN.induct)
  case (sN_pos b N)
  then show ?case using uint_byte [of b] by linarith
next
  case (sN_neg b N)
  moreover have "0 < (2::int) ^ (N - 1)" by simp
  ultimately show ?case by linarith
next
  case (sN_more b N bs m)
  have "N - 1 = 7 + (N - 7 - 1)" using sN_more.hyps(2) by simp
  then have "(2::int) ^ (N - 1) = 2 ^ 7 * 2 ^ (N - 7 - 1)" by (metis power_add)
  moreover have "- (2 ^ (N - 7 - 1)) \<le> m \<and> m < 2 ^ (N - 7 - 1)" using sN_more by simp
  ultimately show ?case using uint_byte [of b] sN_more.hyps(1) by simp
qed

lemma uN_length: "uN N bs n \<Longrightarrow> 0 < N \<Longrightarrow> 0 < length bs \<and> length bs \<le> max_bytes N"
proof (induction rule: uN.induct)
  case (uN_more b N bs m)
  then show ?case by (auto simp: max_bytes_def)
qed (auto simp: max_bytes_def)

section \<open>The unsigned loop\<close>

lemma unat_payload: "unat (ucast (b AND 0x7f :: u8) :: u64) = unat b mod 128"
proof -
  have "unat (ucast (b AND 0x7f :: u8) :: u64) = unat (b AND 0x7f)"
    by (simp add: unsigned_ucast_eq take_bit_nat_eq_self_iff unsigned_less [THEN less_le_trans])
  then show ?thesis by (simp add: unat_low7)
qed

text \<open>What one turn of the loop adds to the value.\<close>

lemma or_payload:
  fixes v p :: u64
  assumes "unat v < 2 ^ n"
  shows "v OR push_bit n p = of_nat (unat v + 2 ^ n * unat p)"
  using or_push_bit_eq_add [OF assms, of p] by (simp add: push_bit_eq_mult mult.commute)

lemma unat_or_payload:
  fixes v p :: u64
  assumes v: "unat v < 2 ^ n" and p: "unat p < 2 ^ k" and nk: "n + k \<le> 64"
  shows "unat (v OR push_bit n p) = unat v + 2 ^ n * unat p"
    and "unat v + 2 ^ n * unat p < 2 ^ (n + k)"
proof -
  have "unat v + 2 ^ n * unat p < 2 ^ n * (unat p + 1)" using v by simp
  also have "\<dots> \<le> 2 ^ n * 2 ^ k" using p by (intro mult_le_mono) auto
  finally show lt: "unat v + 2 ^ n * unat p < 2 ^ (n + k)" by (simp add: power_add)
  also have "\<dots> \<le> (2::nat) ^ 64" using nk by (intro power_increasing) auto
  finally show "unat (v OR push_bit n p) = unat v + 2 ^ n * unat p"
    unfolding or_payload [OF v, of p] unat_of_nat by simp
qed

lemma drop_bit_payload_zero: "drop_bit k (p :: u64) = 0 \<longleftrightarrow> unat p < 2 ^ k"
proof -
  have "drop_bit k p = 0 \<longleftrightarrow> unat (drop_bit k p) = 0" by (simp only: unat_eq_0)
  also have "\<dots> \<longleftrightarrow> unat p div 2 ^ k = 0" by (simp only: unat_drop_bit_eq drop_bit_eq_div [where 'a = nat])
  finally show ?thesis by (simp add: div_eq_0_iff)
qed

lemma last_turn:
  assumes "i + Suc n = max_bytes bits" "0 < bits"
  shows "i = max_bytes bits - 1 \<longleftrightarrow> n = 0"
    and "n = 0 \<Longrightarrow> last_bits bits = bits - 7 * i \<and> 0 < bits - 7 * i \<and> bits - 7 * i \<le> 7"
    and "n \<noteq> 0 \<Longrightarrow> 7 < bits - 7 * i"
  using assms by (auto simp: max_bytes_def last_bits_def)

text \<open>
  One turn of the unsigned loop on a window that begins with \<open>b\<close>: the last permitted byte
  ends the number and fits the bits left; an earlier byte ends it or goes on.
\<close>

lemma unsigned_from_step:
  assumes r: "reader_wf r" "window r = b # rest"
    and i: "i + Suc n = max_bytes bits" "0 < bits" "bits \<le> 64" "unat v < 2 ^ (7 * i)"
  defines "v' \<equiv> v OR push_bit (7 * i) (ucast (b AND 0x7f))"
  shows "unsigned_from (Suc n) bits start i v r =
      (if n = 0
       then if 128 \<le> unat b then Inl (Unreadable start (LebTooLong bits))
         else if 2 ^ (bits - 7 * i) \<le> unat b then Inl (Unreadable start (LebTooBig bits))
         else Inr (v', advance 1 r)
       else if unat b < 128 then Inr (v', advance 1 r)
       else unsigned_from n bits start (Suc i) v' (advance 1 r))"
    and "unat b < 128 \<Longrightarrow> unat b < 2 ^ (bits - 7 * i) \<Longrightarrow> unat v' = unat v + 2 ^ (7 * i) * unat b"
    and "n \<noteq> 0 \<Longrightarrow> unat v' = unat v + 2 ^ (7 * i) * (unat b mod 128) \<and> unat v' < 2 ^ (7 * Suc i)"
proof -
  note last = last_turn [OF i(1,2)]
  have high: "(b AND 0x80 = 0) = (unat b < 128)" by (rule high_bit_clear_iff)
  show "unsigned_from (Suc n) bits start i v r =
      (if n = 0
       then if 128 \<le> unat b then Inl (Unreadable start (LebTooLong bits))
         else if 2 ^ (bits - 7 * i) \<le> unat b then Inl (Unreadable start (LebTooBig bits))
         else Inr (v', advance 1 r)
       else if unat b < 128 then Inr (v', advance 1 r)
       else unsigned_from n bits start (Suc i) v' (advance 1 r))"
    using last
    by (auto simp: bnd_def byte_window [OF r] Let_def high drop_bit_payload_zero unat_payload
        v'_def err_def ret_def not_less)
  have seven: "7 * i + min 7 (bits - 7 * i) \<le> 64" using last i by (cases "n = 0") auto
  show "unat v' = unat v + 2 ^ (7 * i) * unat b" if "unat b < 128" "unat b < 2 ^ (bits - 7 * i)"
    unfolding v'_def
    using unat_or_payload(1) [OF i(4) _ seven, of "ucast (b AND 0x7f)"] that
    by (simp add: unat_payload min_def)
  assume "n \<noteq> 0"
  with last have "7 * i + 7 \<le> 64" using i(3) by simp
  from unat_or_payload [OF i(4) _ this, of "ucast (b AND 0x7f)"]
  show "unat v' = unat v + 2 ^ (7 * i) * (unat b mod 128) \<and> unat v' < 2 ^ (7 * Suc i)"
    by (simp add: unat_payload v'_def add.commute)
qed

text \<open>The two ways an encoding can begin with \<open>b\<close>.\<close>

lemma uN_prefix_Cons:
  "(\<exists>bs m. prefix bs (b # rest) \<and> uN N bs m \<and> Q m (length bs)) \<longleftrightarrow>
     (unat b < 128 \<and> unat b < 2 ^ N \<and> Q (unat b) 1) \<or>
     (128 \<le> unat b \<and> 7 < N \<and>
       (\<exists>bs m. prefix bs rest \<and> uN (N - 7) bs m \<and> Q (128 * m + (unat b - 128)) (Suc (length bs))))"
  (is "?lhs \<longleftrightarrow> ?rhs")
proof
  assume ?lhs
  then show ?rhs by (fastforce simp: prefix_Cons uN_Cons)
next
  assume ?rhs
  then show ?lhs
  proof (elim disjE conjE exE)
    assume "unat b < 128" "unat b < 2 ^ N" "Q (unat b) 1"
    then show ?lhs by (intro exI [of _ "[b]"] exI [of _ "unat b"]) (auto intro: uN_last)
  next
    fix bs m
    assume h: "128 \<le> unat b" "7 < N" "prefix bs rest" "uN (N - 7) bs m"
      "Q (128 * m + (unat b - 128)) (Suc (length bs))"
    from uN_more [OF h(1,2,4)] h(3,5) show ?lhs
      by (intro exI [of _ "b # bs"] exI [of _ "128 * m + (unat b - 128)"]) auto
  qed
qed

lemma unsigned_from_iff:
  assumes "reader_wf r" "i + Suc n = max_bytes bits" "0 < bits" "bits \<le> 64" "unat v < 2 ^ (7 * i)"
  shows "unsigned_from (Suc n) bits start i v r = Inr (w, r') \<longleftrightarrow>
    (\<exists>bs m. prefix bs (window r) \<and> uN (bits - 7 * i) bs m \<and>
       unat w = unat v + 2 ^ (7 * i) * m \<and> r' = advance (length bs) r)"
  using assms
proof (induction n arbitrary: r i v)
  case 0
  note last = last_turn [OF 0(2,3)]
  show ?case
  proof (cases "window r")
    case Nil
    with 0(1) show ?thesis by (auto simp: bnd_def byte_window_empty)
  next
    case (Cons b rest)
    show ?thesis
      unfolding Cons uN_prefix_Cons
        [where Q = "\<lambda>m l. unat w = unat v + 2 ^ (7 * i) * m \<and> r' = advance l r"]
      using unsigned_from_step(1,2) [OF 0(1) Cons 0(2-5)] last(2)
      by (auto simp: word_unat_eq_iff)
  qed
next
  case (Suc n)
  note last = last_turn [OF Suc.prems(2,3)]
  show ?case
  proof (cases "window r")
    case Nil
    with Suc.prems(1) show ?thesis by (auto simp: bnd_def byte_window_empty)
  next
    case (Cons b rest)
    define v' where "v' = v OR push_bit (7 * i) (ucast (b AND 0x7f) :: u64)"
    note st = unsigned_from_step [OF Suc.prems(1) Cons Suc.prems(2-5), folded v'_def]
    have wf: "reader_wf (advance 1 r)" and win: "window (advance 1 r) = rest"
      using Suc.prems(1) Cons by (auto simp: window_Cons_iff)
    have v': "unat v' = unat v + 2 ^ (7 * i) * (unat b mod 128)" "unat v' < 2 ^ (7 * Suc i)"
      using st(3) by auto
    have bits: "bits - 7 * Suc i = bits - 7 * i - 7" by simp
    have IH: "unsigned_from (Suc n) bits start (Suc i) v' (advance 1 r) = Inr (w, r') \<longleftrightarrow>
      (\<exists>bs m. prefix bs rest \<and> uN (bits - 7 * i - 7) bs m \<and>
         unat w = unat v' + 2 ^ (7 * Suc i) * m \<and> r' = advance (length bs) (advance 1 r))"
      using Suc.IH [OF wf _ Suc.prems(3,4) v'(2), unfolded win bits] Suc.prems(2) by simp
    have more: "unat v' + 2 ^ (7 * Suc i) * m = unat v + 2 ^ (7 * i) * (128 * m + (unat b - 128))"
      if "128 \<le> unat b" for m
    proof -
      have "unat b < 256" using unsigned_less [of b, where ?'a = nat] by simp
      then have "unat b mod 128 = unat b - 128" using that by (simp add: mod_if)
      then show ?thesis by (simp add: v'(1) power_add algebra_simps)
    qed
    note pre = uN_prefix_Cons
      [where Q = "\<lambda>m l. unat w = unat v + 2 ^ (7 * i) * m \<and> r' = advance l r"]
    show ?thesis
    proof (cases "unat b < 128")
      case True
      have "(2::nat) ^ 7 \<le> 2 ^ (bits - 7 * i)"
        using last(3) by (intro power_increasing) auto
      with True have "unat b < 2 ^ (bits - 7 * i)" by simp
      with True show ?thesis
        unfolding Cons pre using st(1) [of start] st(2) by (auto simp: word_unat_eq_iff)
    next
      case False
      have "unsigned_from (Suc (Suc n)) bits start i v r = Inr (w, r') \<longleftrightarrow>
          unsigned_from (Suc n) bits start (Suc i) v' (advance 1 r) = Inr (w, r')"
        using st(1) [of start] False by simp
      also note IH
      finally show ?thesis
        unfolding Cons pre using False last(3) more by auto
    qed
  qed
qed

theorem unsigned_leb_iff:
  assumes "reader_wf r" "0 < bits" "bits \<le> 64"
  shows "unsigned_leb bits r = Inr (v, r') \<longleftrightarrow>
    (\<exists>bs. prefix bs (window r) \<and> uN bits bs (unat v) \<and> r' = advance (length bs) r)"
proof -
  obtain n where n: "max_bytes bits = Suc n"
    using max_bytes_pos [OF assms(2)] by (cases "max_bytes bits") auto
  show ?thesis
    using unsigned_from_iff [of r 0 n bits 0 "rpos r" v r'] assms n
    by (auto simp: unsigned_leb_def with_offset_def)
qed

section \<open>The signed loop\<close>

lemma unat_less_uint: "unat (b :: 'a::len word) < n \<longleftrightarrow> uint b < int n"
  by (metis of_nat_unat of_nat_less_iff)

lemma unat_ge_uint: "n \<le> unat (b :: 'a::len word) \<longleftrightarrow> int n \<le> uint b"
  by (metis of_nat_unat of_nat_le_iff)

lemma upper_bits:
  assumes "unat b < 128" "0 < L" "L \<le> 7"
  defines "payload \<equiv> (ucast (b AND 0x7f :: u8) :: u64)"
  shows "drop_bit (L - 1) payload = 0 \<longleftrightarrow> uint b < 2 ^ (L - 1)"
    and "drop_bit (L - 1) payload = push_bit (8 - L) 1 - 1 \<longleftrightarrow> 128 - 2 ^ (L - 1) \<le> uint b"
proof -
  have p: "unat payload = unat b" using assms(1) by (simp add: payload_def unat_payload)
  have u: "uint b = int (unat b)" by simp
  show "drop_bit (L - 1) payload = 0 \<longleftrightarrow> uint b < 2 ^ (L - 1)"
    unfolding drop_bit_payload_zero p u by (metis of_nat_less_iff of_nat_numeral of_nat_power)
  have d: "unat (drop_bit (L - 1) payload) = unat b div 2 ^ (L - 1)"
    by (simp only: unat_drop_bit_eq drop_bit_eq_div [where 'a = nat] p)
  have "L \<in> {1, 2, 3, 4, 5, 6, 7}" using assms(2,3) by auto
  then show "drop_bit (L - 1) payload = push_bit (8 - L) 1 - 1 \<longleftrightarrow> 128 - 2 ^ (L - 1) \<le> uint b"
    unfolding word_unat_eq_iff [of "drop_bit (L - 1) payload"] d u using assms(1)
    by (elim insertE emptyE) (simp_all del: of_nat_unat, arith+)
qed

lemma sign_bit:
  assumes "unat b < 128"
  shows "(ucast (b AND 0x7f :: u8) :: u64) AND 0x40 \<noteq> 0 \<longleftrightarrow> 64 \<le> uint b"
proof -
  have "(ucast (b AND 0x7f :: u8) :: u64) AND 2 ^ 6 \<noteq> 0 \<longleftrightarrow> odd (unat b div 2 ^ 6)"
    unfolding and_exp_eq_0_iff_not_bit bit_iff_odd_unat unat_payload using assms by simp
  also have "\<dots> \<longleftrightarrow> 64 \<le> unat b"
  proof -
    have "unat b div 64 < 2" using assms by simp
    then show ?thesis by (auto simp: less_2_cases_iff)
  qed
  also have "\<dots> \<longleftrightarrow> 64 \<le> uint b" using unat_ge_uint [of 64 b] by simp
  finally show ?thesis by simp
qed

text \<open>What closing the number with \<open>b\<close> gives: the sign-extended value, modulo \<open>2 ^ 64\<close>.\<close>

definition signed_close :: "nat \<Rightarrow> u64 \<Rightarrow> u8 \<Rightarrow> u64" where
  "signed_close i v b =
     (let payload = (ucast (b AND 0x7f) :: u64); v' = v OR push_bit (7 * i) payload in
      if 7 * i + 7 < 64 \<and> payload AND 0x40 \<noteq> 0 then v' OR push_bit (7 * i + 7) (- 1) else v')"

lemma payload_value:
  assumes "unat v < 2 ^ (7 * i)"
  shows "v OR push_bit (7 * i) (ucast (b AND 0x7f :: u8) :: u64) =
    v + word_of_int (2 ^ (7 * i) * (uint b mod 128))"
proof -
  have "(ucast (b AND 0x7f :: u8) :: u64) = of_nat (unat b mod 128)"
    unfolding unat_payload [of b, symmetric] by simp
  also have "\<dots> = word_of_int (int (unat b mod 128))" by simp
  also have "int (unat b mod 128) = uint b mod 128"
    unfolding zmod_int by simp
  finally have "ucast (b AND 0x7f :: u8) = (word_of_int (uint b mod 128) :: u64)" .
  then show ?thesis
    unfolding or_push_bit_eq_add [OF assms] by (simp add: push_bit_eq_mult)
qed

lemma signed_close_value:
  assumes "unat v < 2 ^ (7 * i)" "unat b < 128"
  shows "signed_close i v b =
    v + word_of_int (2 ^ (7 * i) * (if uint b < 64 then uint b else uint b - 128))"
proof -
  have b: "uint b mod 128 = uint b"
    using assms(2) uint_byte [of b] unat_less_uint [of b 128] by simp
  define v' where "v' = v OR push_bit (7 * i) (ucast (b AND 0x7f :: u8) :: u64)"
  have v': "v' = v + word_of_int (2 ^ (7 * i) * uint b)"
    unfolding v'_def payload_value [OF assms(1)] b ..
  have close: "v' + word_of_int (- (2 ^ (7 * i + 7))) =
      v + word_of_int (2 ^ (7 * i) * (uint b - 128))"
    by (simp add: v' power_add algebra_simps)
  show ?thesis
  proof (cases "uint b < 64")
    case True
    then show ?thesis
      using sign_bit [OF assms(2)] v' by (simp add: signed_close_def Let_def v'_def)
  next
    case False
    show ?thesis
    proof (cases "7 * i + 7 < 64")
      case True
      have "unat v' < 2 ^ (7 * i + 7)"
        unfolding v'_def using unat_or_payload [OF assms(1), of "ucast (b AND 0x7f)" 7] True
        by (simp add: unat_payload)
      then have "v' OR push_bit (7 * i + 7) (- 1) = v' + push_bit (7 * i + 7) (- 1)"
        by (rule or_push_bit_eq_add)
      also have "\<dots> = v' + word_of_int (- (2 ^ (7 * i + 7)))"
        by (simp add: push_bit_eq_mult)
      finally show ?thesis
        using True False sign_bit [OF assms(2)] close by (simp add: signed_close_def Let_def v'_def)
    next
      case nine: False
      have "(2 :: u64) ^ (7 * i + 7) = 0"
        using nine by (simp add: exp_eq_zero_iff)
      then have "v' = v' + word_of_int (- (2 ^ (7 * i + 7)))" by simp
      with nine False close show ?thesis
        by (simp add: signed_close_def Let_def v'_def)
    qed
  qed
qed

lemma signed_from_step:
  assumes r: "reader_wf r" "window r = b # rest"
    and i: "i + Suc n = max_bytes bits" "0 < bits"
  shows "signed_from (Suc n) bits start i v r =
      (if n = 0
       then if 128 \<le> unat b then Inl (Unreadable start (LebTooLong bits))
         else if 2 ^ (bits - 7 * i - 1) \<le> uint b \<and> uint b < 128 - 2 ^ (bits - 7 * i - 1)
         then Inl (Unreadable start (LebTooBig bits))
         else Inr (signed_close i v b, advance 1 r)
       else if unat b < 128 then Inr (signed_close i v b, advance 1 r)
       else signed_from n bits start (Suc i) (v OR push_bit (7 * i) (ucast (b AND 0x7f))) (advance 1 r))"
proof -
  note last = last_turn [OF i]
  have high: "(b AND 0x80 = 0) = (unat b < 128)" by (rule high_bit_clear_iff)
  show ?thesis
  proof (cases "n = 0")
    case True
    with last have L: "last_bits bits = bits - 7 * i" "0 < bits - 7 * i" "bits - 7 * i \<le> 7"
      by auto
    show ?thesis
    proof (cases "unat b < 128")
      case b: True
      then show ?thesis
        using True last(1) upper_bits [OF b L(2,3)] L(1) high
        by (simp add: bnd_def byte_window [OF r] Let_def signed_close_def err_def ret_def not_le)
    next
      case False
      with True last(1) high show ?thesis
        by (simp add: bnd_def byte_window [OF r] Let_def err_def)
    qed
  next
    case False
    with last(1) high show ?thesis
      by (simp add: bnd_def byte_window [OF r] Let_def signed_close_def ret_def)
  qed
qed

lemma sN_prefix_Cons:
  "(\<exists>bs m. prefix bs (b # rest) \<and> sN N bs m \<and> Q m (length bs)) \<longleftrightarrow>
     (unat b < 128 \<and> (uint b < 64 \<and> uint b < 2 ^ (N - 1) \<or> 64 \<le> uint b \<and> 128 - 2 ^ (N - 1) \<le> uint b) \<and>
       Q (if uint b < 64 then uint b else uint b - 128) 1) \<or>
     (128 \<le> unat b \<and> 7 < N \<and>
       (\<exists>bs m. prefix bs rest \<and> sN (N - 7) bs m \<and> Q (128 * m + (uint b - 128)) (Suc (length bs))))"
  (is "?lhs \<longleftrightarrow> ?one \<or> ?more")
proof
  assume ?lhs
  then show "?one \<or> ?more"
    using unat_less_uint [of b 128] unat_ge_uint [of 128 b] by (fastforce simp: prefix_Cons sN_Cons)
next
  assume "?one \<or> ?more"
  then show ?lhs
  proof (elim disjE)
    assume one: ?one
    then have "sN N [b] (if uint b < 64 then uint b else uint b - 128)"
      using unat_less_uint [of b 128] by (auto intro: sN_pos sN_neg)
    with one show ?lhs by (intro exI [of _ "[b]"]) auto
  next
    assume ?more
    then obtain bs m where h: "prefix bs rest" "Q (128 * m + (uint b - 128)) (Suc (length bs))"
      "sN N (b # bs) (128 * m + (uint b - 128))"
      using sN_more [of b N] unat_ge_uint [of 128 b] by auto
    then show ?lhs by (intro exI [of _ "b # bs"]) auto
  qed
qed

declare signed_from.simps [simp del]

lemma mod_128_high: "128 \<le> x \<Longrightarrow> x < 256 \<Longrightarrow> x mod 128 = x - (128::int)"
  by presburger

lemma signed_from_iff:
  assumes "reader_wf r" "i + Suc n = max_bytes bits" "0 < bits" "bits \<le> 64" "unat v < 2 ^ (7 * i)"
  shows "signed_from (Suc n) bits start i v r = Inr (w, r') \<longleftrightarrow>
    (\<exists>bs m. prefix bs (window r) \<and> sN (bits - 7 * i) bs m \<and>
       w = v + word_of_int (2 ^ (7 * i) * m) \<and> r' = advance (length bs) r)"
  using assms
proof (induction n arbitrary: r i v)
  case 0
  note last = last_turn [OF 0(2,3)]
  show ?case
  proof (cases "window r")
    case Nil
    with 0(1) show ?thesis by (auto simp: signed_from.simps bnd_def byte_window_empty)
  next
    case (Cons b rest)
    have "(2::int) ^ (bits - 7 * i - 1) \<le> 2 ^ 6" using last(2) by (intro power_increasing) auto
    then have fit: "(uint b < 64 \<and> uint b < 2 ^ (bits - 7 * i - 1) \<or>
        64 \<le> uint b \<and> 128 - 2 ^ (bits - 7 * i - 1) \<le> uint b) \<longleftrightarrow>
      \<not> (2 ^ (bits - 7 * i - 1) \<le> uint b \<and> uint b < 128 - 2 ^ (bits - 7 * i - 1))"
      by linarith
    have close: "unat b < 128 \<Longrightarrow> v + word_of_int (2 ^ (7 * i) * (if uint b < 64 then uint b else uint b - 128))
        = signed_close i v b"
      using signed_close_value [OF 0(5), of b] by (simp only:)
    have "\<not> 7 < bits - 7 * i" using last(2) by simp
    then show ?thesis
      unfolding Cons sN_prefix_Cons
        [where Q = "\<lambda>m l. w = v + word_of_int (2 ^ (7 * i) * m) \<and> r' = advance l r"]
        fit signed_from_step [OF 0(1) Cons 0(2,3), of start v]
      using close by (cases "unat b < 128") (auto simp del: of_int_mult)
  qed
next
  case (Suc n)
  note last = last_turn [OF Suc.prems(2,3)]
  show ?case
  proof (cases "window r")
    case Nil
    with Suc.prems(1) show ?thesis by (auto simp: signed_from.simps bnd_def byte_window_empty)
  next
    case (Cons b rest)
    define v' where "v' = v OR push_bit (7 * i) (ucast (b AND 0x7f) :: u64)"
    note st = signed_from_step [OF Suc.prems(1) Cons Suc.prems(2,3), of start v, folded v'_def]
    note pre = sN_prefix_Cons
      [where Q = "\<lambda>m l. w = v + word_of_int (2 ^ (7 * i) * m) \<and> r' = advance l r"]
    show ?thesis
    proof (cases "unat b < 128")
      case True
      have "(2::int) ^ 6 \<le> 2 ^ (bits - 7 * i - 1)"
        using last(3) by (intro power_increasing) auto
      then have "64 \<le> (2::int) ^ (bits - 7 * i - 1)" by simp
      then have fit: "uint b < 64 \<and> uint b < 2 ^ (bits - 7 * i - 1) \<or>
          64 \<le> uint b \<and> 128 - 2 ^ (bits - 7 * i - 1) \<le> uint b"
        by linarith
      have close: "v + word_of_int (2 ^ (7 * i) * (if uint b < 64 then uint b else uint b - 128))
          = signed_close i v b"
        using signed_close_value [OF Suc.prems(5) True] by (simp only:)
      show ?thesis
        unfolding Cons pre close st using True fit by auto
    next
      case False
      have wf: "reader_wf (advance 1 r)" and win: "window (advance 1 r) = rest"
        using Suc.prems(1) Cons by (auto simp: window_Cons_iff)
      have v': "unat v' < 2 ^ (7 * Suc i)"
        using unsigned_from_step(3) [OF Suc.prems(1) Cons Suc.prems(2-5)] by (simp add: v'_def)
      have bits: "bits - 7 * Suc i = bits - 7 * i - 7" by simp
      have IH: "signed_from (Suc n) bits start (Suc i) v' (advance 1 r) = Inr (w, r') \<longleftrightarrow>
        (\<exists>bs m. prefix bs rest \<and> sN (bits - 7 * i - 7) bs m \<and>
           w = v' + word_of_int (2 ^ (7 * Suc i) * m) \<and> r' = advance (length bs) (advance 1 r))"
        using Suc.IH [OF wf _ Suc.prems(3,4) v', unfolded win bits] Suc.prems(2) by simp
      have md: "uint b mod 128 = uint b - 128"
        by (rule mod_128_high) (use False uint_byte [of b] unat_ge_uint [of 128 b] in auto)
      have more: "v' + word_of_int (2 ^ (7 * Suc i) * m) =
          v + word_of_int (2 ^ (7 * i) * (128 * m + (uint b - 128)))" for m
        unfolding v'_def payload_value [OF Suc.prems(5)] md by (simp add: power_add algebra_simps)
      have "signed_from (Suc (Suc n)) bits start i v r = Inr (w, r') \<longleftrightarrow>
          signed_from (Suc n) bits start (Suc i) v' (advance 1 r) = Inr (w, r')"
        using st False by simp
      also note IH
      finally show ?thesis
        unfolding Cons pre more using False last(3) by auto
    qed
  qed
qed

lemma sint_word_of_int:
  assumes "- (2 ^ 63) \<le> m" "m < 2 ^ 63"
  shows "sint (word_of_int m :: i64) = m"
  using assms by (simp add: sint_sbintrunc' signed_take_bit_int_eq_self)

theorem signed_leb_iff:
  assumes "reader_wf r" "0 < bits" "bits \<le> 64"
  shows "signed_leb bits r = Inr (v, r') \<longleftrightarrow>
    (\<exists>bs. prefix bs (window r) \<and> sN bits bs (sint v) \<and> r' = advance (length bs) r)"
proof -
  obtain n where n: "max_bytes bits = Suc n"
    using max_bytes_pos [OF assms(2)] by (cases "max_bytes bits") auto
  have fits: "(v = word_of_int m) = (sint v = m)" if "sN bits bs m" for bs m
  proof -
    have "(2::int) ^ (bits - 1) \<le> 2 ^ 63" using assms(3) by (intro power_increasing) auto
    with sN_bound [OF that assms(2)] have "- (2 ^ 63) \<le> m" "m < 2 ^ 63" by linarith+
    then show ?thesis using sint_word_of_int by auto
  qed
  show ?thesis
    using signed_from_iff [of r 0 n bits 0 "rpos r" v r'] assms n fits
    by (auto simp: signed_leb_def with_offset_def)
qed

section \<open>The typed reads\<close>

text \<open>The casts after the loop lose nothing: an encoding of 32 bits denotes a value of 32 bits.\<close>

lemma read_u32_iff:
  assumes "reader_wf r"
  shows "read_u32 r = Inr (v, r') \<longleftrightarrow>
    (\<exists>bs. prefix bs (window r) \<and> uN 32 bs (unat v) \<and> r' = advance (length bs) r)"
proof
  assume "read_u32 r = Inr (v, r')"
  then obtain w where w: "unsigned_leb 32 r = Inr (w, r')" "v = ucast w"
    by (auto simp: read_u32_def bnd_Inr_iff)
  then obtain bs where bs: "prefix bs (window r)" "uN 32 bs (unat w)" "r' = advance (length bs) r"
    using unsigned_leb_iff [OF assms] by auto
  from uN_bound [OF bs(2)] have "unat v = unat w"
    by (simp add: w(2) unsigned_ucast_eq take_bit_nat_eq_self)
  with bs show "\<exists>bs. prefix bs (window r) \<and> uN 32 bs (unat v) \<and> r' = advance (length bs) r"
    by auto
next
  assume "\<exists>bs. prefix bs (window r) \<and> uN 32 bs (unat v) \<and> r' = advance (length bs) r"
  moreover have "unat (ucast v :: u64) = unat v"
    by (simp add: unsigned_ucast_eq take_bit_nat_eq_self order_less_le_trans [OF unsigned_less])
  ultimately have "unsigned_leb 32 r = Inr (ucast v, r')"
    using unsigned_leb_iff [OF assms] by auto
  moreover have "ucast (ucast v :: u64) = v"
    by (rule bit_word_eqI) (auto simp: bit_simps)
  ultimately show "read_u32 r = Inr (v, r')"
    by (auto simp: read_u32_def bnd_Inr_iff)
qed

lemma sint_ucast_i64:
  assumes "- (2 ^ 31) \<le> sint (w :: i64)" "sint w < 2 ^ 31"
  shows "sint (ucast w :: i32) = sint w"
proof -
  have "(ucast w :: i32) = word_of_int (sint w)"
    by (rule bit_word_eqI) (auto simp: bit_simps min_def)
  moreover have "sint (word_of_int (sint w) :: i32) = sint w"
    unfolding sint_sbintrunc' using assms by (simp add: signed_take_bit_int_eq_self)
  ultimately show ?thesis by (simp only:)
qed

lemma sint_scast_i32: "sint (scast (v :: i32) :: i64) = sint v"
proof -
  have "- (2 ^ 31) \<le> sint v" "sint v < 2 ^ 31"
    using sint_ge [of v] sint_lt [of v] by simp_all
  then show ?thesis using sint_word_of_int [of "sint v"] by simp
qed

lemma read_s32_iff:
  assumes "reader_wf r"
  shows "read_s32 r = Inr (v, r') \<longleftrightarrow>
    (\<exists>bs. prefix bs (window r) \<and> sN 32 bs (sint v) \<and> r' = advance (length bs) r)"
proof
  assume "read_s32 r = Inr (v, r')"
  then obtain w where w: "signed_leb 32 r = Inr (w, r')" "v = ucast w"
    by (auto simp: read_s32_def bnd_Inr_iff)
  then obtain bs where bs: "prefix bs (window r)" "sN 32 bs (sint w)" "r' = advance (length bs) r"
    using signed_leb_iff [OF assms] by auto
  from sN_bound [OF bs(2)] have "sint v = sint w"
    by (simp add: w(2) sint_ucast_i64)
  with bs show "\<exists>bs. prefix bs (window r) \<and> sN 32 bs (sint v) \<and> r' = advance (length bs) r"
    by auto
next
  assume "\<exists>bs. prefix bs (window r) \<and> sN 32 bs (sint v) \<and> r' = advance (length bs) r"
  then have "signed_leb 32 r = Inr (scast v, r')"
    using signed_leb_iff [OF assms] by (auto simp: sint_scast_i32)
  moreover have "ucast (scast v :: i64) = v"
    by (rule bit_word_eqI) (auto simp: bit_simps)
  ultimately show "read_s32 r = Inr (v, r')"
    by (auto simp: read_s32_def bnd_Inr_iff)
qed

lemmas read_u64_iff = unsigned_leb_iff [where bits = 64, simplified, folded read_u64_def]
lemmas read_s33_iff = signed_leb_iff [where bits = 33, simplified, folded read_s33_def]
lemmas read_s64_iff = signed_leb_iff [where bits = 64, simplified, folded read_s64_def]

end
