(* ===== verification/Wasm_Types.thy ===== *)
theory Wasm_Types
  imports Wasm_Leb
begin

text \<open>
  Types and indices, \<open>src/crates/n0xis-wasm/src/types.rs\<close>. Each index space has its own type
  (the macro \<open>index!\<close>), the abstract heap types are one table (\<open>abstract_heap_types!\<close>), and
  each \<open>T::read\<close> is a parser \<open>T_read\<close>. An enum variant \<open>T::V\<close> is the constructor \<open>T_V\<close>; a
  struct is a record.
\<close>

section \<open>Indices\<close>

datatype TypeIdx = TypeIdx u32
datatype FuncIdx = FuncIdx u32
datatype TableIdx = TableIdx u32
datatype MemIdx = MemIdx u32
datatype GlobalIdx = GlobalIdx u32
datatype TagIdx = TagIdx u32
datatype LocalIdx = LocalIdx u32
datatype LabelIdx = LabelIdx u32
datatype ElemIdx = ElemIdx u32
datatype DataIdx = DataIdx u32
datatype FieldIdx = FieldIdx u32

definition TypeIdx_read :: "TypeIdx parser" where
  "TypeIdx_read = bnd read_u32 (\<lambda>x. ret (TypeIdx x))"

definition FuncIdx_read :: "FuncIdx parser" where
  "FuncIdx_read = bnd read_u32 (\<lambda>x. ret (FuncIdx x))"

definition TableIdx_read :: "TableIdx parser" where
  "TableIdx_read = bnd read_u32 (\<lambda>x. ret (TableIdx x))"

definition MemIdx_read :: "MemIdx parser" where
  "MemIdx_read = bnd read_u32 (\<lambda>x. ret (MemIdx x))"

definition GlobalIdx_read :: "GlobalIdx parser" where
  "GlobalIdx_read = bnd read_u32 (\<lambda>x. ret (GlobalIdx x))"

definition TagIdx_read :: "TagIdx parser" where
  "TagIdx_read = bnd read_u32 (\<lambda>x. ret (TagIdx x))"

definition LocalIdx_read :: "LocalIdx parser" where
  "LocalIdx_read = bnd read_u32 (\<lambda>x. ret (LocalIdx x))"

definition LabelIdx_read :: "LabelIdx parser" where
  "LabelIdx_read = bnd read_u32 (\<lambda>x. ret (LabelIdx x))"

definition ElemIdx_read :: "ElemIdx parser" where
  "ElemIdx_read = bnd read_u32 (\<lambda>x. ret (ElemIdx x))"

definition DataIdx_read :: "DataIdx parser" where
  "DataIdx_read = bnd read_u32 (\<lambda>x. ret (DataIdx x))"

definition FieldIdx_read :: "FieldIdx parser" where
  "FieldIdx_read = bnd read_u32 (\<lambda>x. ret (FieldIdx x))"

section \<open>Heap, reference and value types\<close>

datatype AbsHeapType =
    AbsHeapType_Func
  | AbsHeapType_NoFunc
  | AbsHeapType_Extern
  | AbsHeapType_NoExtern
  | AbsHeapType_Any
  | AbsHeapType_Eq
  | AbsHeapType_I31
  | AbsHeapType_Struct
  | AbsHeapType_Array
  | AbsHeapType_None
  | AbsHeapType_Exn
  | AbsHeapType_NoExn

definition AbsHeapType_ALL :: "AbsHeapType list" where
  "AbsHeapType_ALL =
    [AbsHeapType_Func, AbsHeapType_NoFunc, AbsHeapType_Extern, AbsHeapType_NoExtern,
     AbsHeapType_Any, AbsHeapType_Eq, AbsHeapType_I31, AbsHeapType_Struct,
     AbsHeapType_Array, AbsHeapType_None, AbsHeapType_Exn, AbsHeapType_NoExn]"

fun AbsHeapType_byte :: "AbsHeapType \<Rightarrow> u8" where
  "AbsHeapType_byte AbsHeapType_Func = 0x70"
| "AbsHeapType_byte AbsHeapType_NoFunc = 0x73"
| "AbsHeapType_byte AbsHeapType_Extern = 0x6f"
| "AbsHeapType_byte AbsHeapType_NoExtern = 0x72"
| "AbsHeapType_byte AbsHeapType_Any = 0x6e"
| "AbsHeapType_byte AbsHeapType_Eq = 0x6d"
| "AbsHeapType_byte AbsHeapType_I31 = 0x6c"
| "AbsHeapType_byte AbsHeapType_Struct = 0x6b"
| "AbsHeapType_byte AbsHeapType_Array = 0x6a"
| "AbsHeapType_byte AbsHeapType_None = 0x71"
| "AbsHeapType_byte AbsHeapType_Exn = 0x69"
| "AbsHeapType_byte AbsHeapType_NoExn = 0x74"

definition AbsHeapType_from_byte :: "u8 \<Rightarrow> AbsHeapType option" where
  "AbsHeapType_from_byte b =
    (if b = 0x70 then Some AbsHeapType_Func
     else if b = 0x73 then Some AbsHeapType_NoFunc
     else if b = 0x6f then Some AbsHeapType_Extern
     else if b = 0x72 then Some AbsHeapType_NoExtern
     else if b = 0x6e then Some AbsHeapType_Any
     else if b = 0x6d then Some AbsHeapType_Eq
     else if b = 0x6c then Some AbsHeapType_I31
     else if b = 0x6b then Some AbsHeapType_Struct
     else if b = 0x6a then Some AbsHeapType_Array
     else if b = 0x71 then Some AbsHeapType_None
     else if b = 0x69 then Some AbsHeapType_Exn
     else if b = 0x74 then Some AbsHeapType_NoExn
     else None)"

fun AbsHeapType_name :: "AbsHeapType \<Rightarrow> string" where
  "AbsHeapType_name AbsHeapType_Func = ''func''"
| "AbsHeapType_name AbsHeapType_NoFunc = ''nofunc''"
| "AbsHeapType_name AbsHeapType_Extern = ''extern''"
| "AbsHeapType_name AbsHeapType_NoExtern = ''noextern''"
| "AbsHeapType_name AbsHeapType_Any = ''any''"
| "AbsHeapType_name AbsHeapType_Eq = ''eq''"
| "AbsHeapType_name AbsHeapType_I31 = ''i31''"
| "AbsHeapType_name AbsHeapType_Struct = ''struct''"
| "AbsHeapType_name AbsHeapType_Array = ''array''"
| "AbsHeapType_name AbsHeapType_None = ''none''"
| "AbsHeapType_name AbsHeapType_Exn = ''exn''"
| "AbsHeapType_name AbsHeapType_NoExn = ''noexn''"

fun AbsHeapType_abbreviation :: "AbsHeapType \<Rightarrow> string" where
  "AbsHeapType_abbreviation AbsHeapType_Func = ''funcref''"
| "AbsHeapType_abbreviation AbsHeapType_NoFunc = ''nullfuncref''"
| "AbsHeapType_abbreviation AbsHeapType_Extern = ''externref''"
| "AbsHeapType_abbreviation AbsHeapType_NoExtern = ''nullexternref''"
| "AbsHeapType_abbreviation AbsHeapType_Any = ''anyref''"
| "AbsHeapType_abbreviation AbsHeapType_Eq = ''eqref''"
| "AbsHeapType_abbreviation AbsHeapType_I31 = ''i31ref''"
| "AbsHeapType_abbreviation AbsHeapType_Struct = ''structref''"
| "AbsHeapType_abbreviation AbsHeapType_Array = ''arrayref''"
| "AbsHeapType_abbreviation AbsHeapType_None = ''nullref''"
| "AbsHeapType_abbreviation AbsHeapType_Exn = ''exnref''"
| "AbsHeapType_abbreviation AbsHeapType_NoExn = ''nullexnref''"

datatype HeapType =
    HeapType_Abstract AbsHeapType
  | HeapType_Concrete TypeIdx

definition HeapType_read :: "HeapType parser" where
  "HeapType_read = with_offset (\<lambda>at. bnd peek (\<lambda>b.
     case AbsHeapType_from_byte b of
       Some h \<Rightarrow> bnd byte (\<lambda>_. ret (HeapType_Abstract h))
     | None \<Rightarrow> bnd read_s33 (\<lambda>x.
         case u32_try_from_i64 x of
           Some x \<Rightarrow> ret (HeapType_Concrete (TypeIdx x))
         | None \<Rightarrow> err at (UnknownHeapType b))))"

datatype RefLead =
    RefLead_Nullable
  | RefLead_NonNull
  | RefLead_Abbreviated AbsHeapType

definition RefLead_of :: "u8 \<Rightarrow> RefLead option" where
  "RefLead_of b =
    (if b = 0x63 then Some RefLead_Nullable
     else if b = 0x64 then Some RefLead_NonNull
     else map_option RefLead_Abbreviated (AbsHeapType_from_byte b))"

record RefType =
  rt_nullable :: bool
  rt_heap :: HeapType

definition FUNCREF :: RefType where
  "FUNCREF = \<lparr>rt_nullable = True, rt_heap = HeapType_Abstract AbsHeapType_Func\<rparr>"

definition EXTERNREF :: RefType where
  "EXTERNREF = \<lparr>rt_nullable = True, rt_heap = HeapType_Abstract AbsHeapType_Extern\<rparr>"

definition RefType_read :: "RefType parser" where
  "RefType_read = with_offset (\<lambda>at. bnd byte (\<lambda>b.
     case RefLead_of b of
       None \<Rightarrow> err at (UnknownRefType b)
     | Some l \<Rightarrow> (case l of
         RefLead_Nullable \<Rightarrow> bnd HeapType_read (\<lambda>h. ret \<lparr>rt_nullable = True, rt_heap = h\<rparr>)
       | RefLead_NonNull \<Rightarrow> bnd HeapType_read (\<lambda>h. ret \<lparr>rt_nullable = False, rt_heap = h\<rparr>)
       | RefLead_Abbreviated h \<Rightarrow> ret \<lparr>rt_nullable = True, rt_heap = HeapType_Abstract h\<rparr>)))"

datatype ValType =
    ValType_I32
  | ValType_I64
  | ValType_F32
  | ValType_F64
  | ValType_V128
  | ValType_Ref RefType

datatype ValLead =
    ValLead_Num ValType
  | ValLead_Ref

definition ValLead_of :: "u8 \<Rightarrow> ValLead option" where
  "ValLead_of b =
    (if b = 0x7f then Some (ValLead_Num ValType_I32)
     else if b = 0x7e then Some (ValLead_Num ValType_I64)
     else if b = 0x7d then Some (ValLead_Num ValType_F32)
     else if b = 0x7c then Some (ValLead_Num ValType_F64)
     else if b = 0x7b then Some (ValLead_Num ValType_V128)
     else case RefLead_of b of None \<Rightarrow> None | Some _ \<Rightarrow> Some ValLead_Ref)"

definition ValType_starts_with :: "u8 \<Rightarrow> bool" where
  "ValType_starts_with b \<longleftrightarrow> ValLead_of b \<noteq> None"

definition ValType_read :: "ValType parser" where
  "ValType_read = with_offset (\<lambda>at. bnd peek (\<lambda>b.
     case ValLead_of b of
       None \<Rightarrow> err at (UnknownValueType b)
     | Some l \<Rightarrow> (case l of
         ValLead_Num t \<Rightarrow> bnd byte (\<lambda>_. ret t)
       | ValLead_Ref \<Rightarrow> bnd RefType_read (\<lambda>t. ret (ValType_Ref t)))))"

definition ValType_read_vec :: "ValType list parser" where
  "ValType_read_vec = bnd (count 1) (\<lambda>n. rep (unat n) ValType_read)"

section \<open>Composite types\<close>

definition mutability :: "bool parser" where
  "mutability = with_offset (\<lambda>at. bnd byte (\<lambda>b.
     if b = 0x00 then ret False
     else if b = 0x01 then ret True
     else err at (UnknownMutability b)))"

datatype StorageType =
    StorageType_Val ValType
  | StorageType_I8
  | StorageType_I16

definition StorageType_read :: "StorageType parser" where
  "StorageType_read = bnd peek (\<lambda>b.
     if b = 0x78 then bnd byte (\<lambda>_. ret StorageType_I8)
     else if b = 0x77 then bnd byte (\<lambda>_. ret StorageType_I16)
     else bnd ValType_read (\<lambda>t. ret (StorageType_Val t)))"

record FieldType =
  ft_storage :: StorageType
  ft_mutable :: bool

definition FieldType_read :: "FieldType parser" where
  "FieldType_read = bnd StorageType_read (\<lambda>s. bnd mutability (\<lambda>m.
     ret \<lparr>ft_storage = s, ft_mutable = m\<rparr>))"

record StructType =
  st_fields :: "FieldType list"

record ArrayType =
  at_field :: FieldType

record FuncType =
  fn_params :: "ValType list"
  fn_results :: "ValType list"

datatype CompositeType =
    CompositeType_Func FuncType
  | CompositeType_Struct StructType
  | CompositeType_Array ArrayType

definition CompositeType_read :: "CompositeType parser" where
  "CompositeType_read = with_offset (\<lambda>at. bnd byte (\<lambda>form.
     if form = 0x5e then bnd FieldType_read (\<lambda>f. ret (CompositeType_Array \<lparr>at_field = f\<rparr>))
     else if form = 0x5f then
       bnd (count 2) (\<lambda>n. bnd (rep (unat n) FieldType_read) (\<lambda>fields.
         ret (CompositeType_Struct \<lparr>st_fields = fields\<rparr>)))
     else if form = 0x60 then
       bnd ValType_read_vec (\<lambda>params. bnd ValType_read_vec (\<lambda>results.
         ret (CompositeType_Func \<lparr>fn_params = params, fn_results = results\<rparr>)))
     else err at (UnknownTypeForm form)))"

record SubType =
  su_final :: bool
  su_supertypes :: "TypeIdx list"
  su_composite :: CompositeType

definition SubType_read :: "SubType parser" where
  "SubType_read = bnd peek (\<lambda>b.
     if b \<noteq> 0x50 \<and> b \<noteq> 0x4f then
       bnd CompositeType_read (\<lambda>c. ret \<lparr>su_final = True, su_supertypes = [], su_composite = c\<rparr>)
     else
       bnd byte (\<lambda>_. bnd (count 1) (\<lambda>n. bnd (rep (unat n) TypeIdx_read) (\<lambda>supertypes.
         bnd CompositeType_read (\<lambda>c.
           ret \<lparr>su_final = (b = 0x4f), su_supertypes = supertypes, su_composite = c\<rparr>)))))"

datatype RecGroup =
    RecGroup_Single TypeIdx
  | RecGroup_Rec u32 u32

datatype RecHead =
    RecHead_Single
  | RecHead_Rec u32

text \<open>\<open>RecGroup::types\<close>: the end of a bare group at the last index does not fit, a panic.\<close>

fun RecGroup_types :: "RecGroup \<Rightarrow> (u32 \<times> u32) option" where
  "RecGroup_types (RecGroup_Single (TypeIdx t)) = (if unat t + 1 \<le> u32_MAX then Some (t, t + 1) else None)"
| "RecGroup_types (RecGroup_Rec a b) = Some (a, b)"

fun RecGroup_is_explicit :: "RecGroup \<Rightarrow> bool" where
  "RecGroup_is_explicit (RecGroup_Rec _ _) = True"
| "RecGroup_is_explicit (RecGroup_Single _) = False"

definition RecGroup_read_head :: "RecHead parser" where
  "RecGroup_read_head = bnd peek (\<lambda>b.
     if b = 0x4e then bnd byte (\<lambda>_. bnd (count 2) (\<lambda>n. ret (RecHead_Rec n)))
     else ret RecHead_Single)"

section \<open>Limits, memories, tables, globals, tags, blocks\<close>

datatype AddressType = AddressType_I32 | AddressType_I64

record Limits =
  li_address :: AddressType
  li_min :: u64
  li_max :: "u64 option"

definition LIMITS_MAX :: u8 where "LIMITS_MAX = 0x01"
definition LIMITS_SHARED :: u8 where "LIMITS_SHARED = 0x02"
definition LIMITS_64 :: u8 where "LIMITS_64 = 0x04"
definition TABLE_LIMITS :: u8 where "TABLE_LIMITS = LIMITS_MAX OR LIMITS_64"
definition MEMORY_LIMITS :: u8 where "MEMORY_LIMITS = LIMITS_MAX OR LIMITS_SHARED OR LIMITS_64"

definition Limits_read :: "u8 \<Rightarrow> (Limits \<times> u8) parser" where
  "Limits_read allowed = with_offset (\<lambda>at. bnd byte (\<lambda>flags.
     if flags AND NOT allowed \<noteq> 0 then err at (UnknownLimitsFlags flags)
     else
       let address = (if flags AND LIMITS_64 \<noteq> 0 then AddressType_I64 else AddressType_I32) in
       bnd read_u64 (\<lambda>mn.
         if flags AND LIMITS_MAX \<noteq> 0
         then bnd read_u64 (\<lambda>mx. ret (\<lparr>li_address = address, li_min = mn, li_max = Some mx\<rparr>, flags))
         else ret (\<lparr>li_address = address, li_min = mn, li_max = None\<rparr>, flags))))"

record MemoryType =
  mt_limits :: Limits
  mt_shared :: bool

definition MemoryType_read :: "MemoryType parser" where
  "MemoryType_read = bnd (Limits_read MEMORY_LIMITS) (\<lambda>(limits, flags).
     ret \<lparr>mt_limits = limits, mt_shared = (flags AND LIMITS_SHARED \<noteq> 0)\<rparr>)"

record TableType =
  tt_element :: RefType
  tt_limits :: Limits

definition TableType_read :: "TableType parser" where
  "TableType_read = bnd RefType_read (\<lambda>element. bnd (Limits_read TABLE_LIMITS) (\<lambda>(limits, _).
     ret \<lparr>tt_element = element, tt_limits = limits\<rparr>))"

record GlobalType =
  gt_ty :: ValType
  gt_mutable :: bool

definition GlobalType_read :: "GlobalType parser" where
  "GlobalType_read = bnd ValType_read (\<lambda>ty. bnd mutability (\<lambda>m. ret \<lparr>gt_ty = ty, gt_mutable = m\<rparr>))"

definition read_tag_type :: "TypeIdx parser" where
  "read_tag_type = with_offset (\<lambda>at. bnd byte (\<lambda>b.
     if b = 0x00 then TypeIdx_read else err at (UnknownTagAttribute b)))"

datatype BlockType =
    BlockType_Empty
  | BlockType_Value ValType
  | BlockType_Type TypeIdx

definition BlockType_read :: "BlockType parser" where
  "BlockType_read = with_offset (\<lambda>at. bnd peek (\<lambda>b.
     if b = 0x40 then bnd byte (\<lambda>_. ret BlockType_Empty)
     else if ValType_starts_with b then bnd ValType_read (\<lambda>t. ret (BlockType_Value t))
     else bnd read_s33 (\<lambda>x.
       case u32_try_from_i64 x of
         Some x \<Rightarrow> ret (BlockType_Type (TypeIdx x))
       | None \<Rightarrow> err at (UnknownBlockType b))))"

section \<open>Every type reader keeps within bounds\<close>

lemma reads_case_RefLead [reads_intros]:
  assumes "reads lo hi k p" "reads lo hi k q" "\<And>h. reads lo hi k (f h)"
  shows "reads lo hi k (case l of RefLead_Nullable \<Rightarrow> p | RefLead_NonNull \<Rightarrow> q | RefLead_Abbreviated h \<Rightarrow> f h)"
  using assms by (cases l) auto

lemma reads_case_ValLead [reads_intros]:
  assumes "\<And>t. reads lo hi k (f t)" "reads lo hi k p"
  shows "reads lo hi k (case l of ValLead_Num t \<Rightarrow> f t | ValLead_Ref \<Rightarrow> p)"
  using assms by (cases l) auto

lemma index_reads [reads_facts]:
  "reads lo hi 1 TypeIdx_read" "reads lo hi 1 FuncIdx_read" "reads lo hi 1 TableIdx_read"
  "reads lo hi 1 MemIdx_read" "reads lo hi 1 GlobalIdx_read" "reads lo hi 1 TagIdx_read"
  "reads lo hi 1 LocalIdx_read" "reads lo hi 1 LabelIdx_read" "reads lo hi 1 ElemIdx_read"
  "reads lo hi 1 DataIdx_read" "reads lo hi 1 FieldIdx_read"
  unfolding TypeIdx_read_def FuncIdx_read_def TableIdx_read_def MemIdx_read_def GlobalIdx_read_def
    TagIdx_read_def LocalIdx_read_def LabelIdx_read_def ElemIdx_read_def DataIdx_read_def
    FieldIdx_read_def
  by (rule reads_intros reads_facts | (rule reads_weaken, rule reads_facts reads_rep) | simp)+

lemma leaf_reads [reads_facts]:
  "reads lo hi 1 HeapType_read" "reads lo hi 1 mutability" "reads lo hi 0 RecGroup_read_head"
  "reads lo hi 2 (Limits_read allowed)" "reads lo hi 2 read_tag_type"
  unfolding HeapType_read_def mutability_def RecGroup_read_head_def Limits_read_def
    read_tag_type_def
  by (rule reads_intros reads_facts | (rule reads_weaken, rule reads_facts reads_rep) | simp)+

lemma ref_reads [reads_facts]:
  "reads lo hi 1 RefType_read" "reads lo hi 2 MemoryType_read"
  unfolding RefType_read_def MemoryType_read_def
  by (rule reads_intros reads_facts | (rule reads_weaken, rule reads_facts reads_rep) | simp)+

lemma val_reads [reads_facts]:
  "reads lo hi 1 ValType_read" "reads lo hi 3 TableType_read"
  unfolding ValType_read_def TableType_read_def
  by (rule reads_intros reads_facts | (rule reads_weaken, rule reads_facts reads_rep) | simp)+

lemma val_user_reads [reads_facts]:
  "reads lo hi 1 ValType_read_vec" "reads lo hi 1 StorageType_read" "reads lo hi 2 GlobalType_read"
  "reads lo hi 1 BlockType_read"
  unfolding ValType_read_vec_def StorageType_read_def GlobalType_read_def BlockType_read_def
  by (rule reads_intros reads_facts | (rule reads_weaken, rule reads_facts reads_rep) | simp)+

lemma field_reads [reads_facts]:
  "reads lo hi 2 FieldType_read"
  unfolding FieldType_read_def
  by (rule reads_intros reads_facts | (rule reads_weaken, rule reads_facts reads_rep) | simp)+

lemma composite_reads [reads_facts]:
  "reads lo hi 2 CompositeType_read"
  unfolding CompositeType_read_def
  by (rule reads_intros reads_facts | (rule reads_weaken, rule reads_facts reads_rep) | simp)+

lemma sub_reads [reads_facts]:
  "reads lo hi 2 SubType_read"
  unfolding SubType_read_def
  by (rule reads_intros reads_facts | (rule reads_weaken, rule reads_facts reads_rep) | simp)+

end
