(* ===== verification/Wasm_Grammar.thy ===== *)
theory Wasm_Grammar
  imports Wasm_Types
begin

text \<open>
  The binary grammar of types of the WebAssembly 3.0 specification, as relations between
  byte strings and what they encode, and the proof that the readers of
  \<open>src/crates/n0xis-wasm/src/types.rs\<close> accept exactly these byte strings. The locale
  \<open>grammar_item\<close> is the contract between an item reader and its production; vectors of items
  are proved correct there once, the count check before the loop included.
\<close>

section \<open>Parsers against productions\<close>

type_synonym 'a production = "u8 list \<Rightarrow> 'a \<Rightarrow> bool"

definition parses :: "'a parser \<Rightarrow> 'a production \<Rightarrow> bool" where
  "parses p E \<longleftrightarrow> (\<forall>r x r'. reader_wf r \<longrightarrow>
     (p r = Inr (x, r') \<longleftrightarrow> (\<exists>bs. prefix bs (window r) \<and> E bs x \<and> r' = advance (length bs) r)))"

lemma parsesI:
  assumes "\<And>r x r'. reader_wf r \<Longrightarrow>
    p r = Inr (x, r') \<longleftrightarrow> (\<exists>bs. prefix bs (window r) \<and> E bs x \<and> r' = advance (length bs) r)"
  shows "parses p E"
  using assms by (simp add: parses_def)

lemma parsesD:
  assumes "parses p E" "reader_wf r"
  shows "p r = Inr (x, r') \<longleftrightarrow> (\<exists>bs. prefix bs (window r) \<and> E bs x \<and> r' = advance (length bs) r)"
  using assms by (simp add: parses_def)

lemma prefix_window_wf:
  "reader_wf r \<Longrightarrow> prefix bs (window r) \<Longrightarrow> reader_wf (advance (length bs) r)"
  using prefix_length_le [of bs "window r"] length_window [of r] by (auto simp: reader_wf_def)

lemma prefix_append_window:
  "prefix (as @ cs) (window r) \<longleftrightarrow>
     prefix as (window r) \<and> prefix cs (window (advance (length as) r))"
proof -
  have "prefix (as @ cs) (as @ ws) \<longleftrightarrow> prefix cs ws" for ws by simp
  then show ?thesis
    unfolding window_advance prefix_def by (metis append_assoc append_eq_conv_conj)
qed

definition seq_prod :: "'a production \<Rightarrow> ('a \<Rightarrow> 'b production) \<Rightarrow> 'b production" where
  "seq_prod E F bs y \<longleftrightarrow> (\<exists>as x cs. bs = as @ cs \<and> E as x \<and> F x cs y)"

lemma seq_prodI: "E as x \<Longrightarrow> F x cs y \<Longrightarrow> bs = as @ cs \<Longrightarrow> seq_prod E F bs y"
  by (auto simp: seq_prod_def)

lemma parses_bnd:
  assumes p: "parses p E" and q: "\<And>x. parses (q x) (F x)"
  shows "parses (bnd p q) (seq_prod E F)"
proof (rule parsesI)
  fix r y r''
  assume wf: "reader_wf r"
  have "bnd p q r = Inr (y, r'') \<longleftrightarrow> (\<exists>as x. prefix as (window r) \<and> E as x \<and>
      q x (advance (length as) r) = Inr (y, r''))"
    unfolding bnd_Inr_iff parsesD [OF p wf] by blast
  also have "\<dots> \<longleftrightarrow> (\<exists>as x cs. prefix as (window r) \<and> E as x \<and>
      prefix cs (window (advance (length as) r)) \<and> F x cs y \<and> r'' = advance (length cs) (advance (length as) r))"
    using parsesD [OF q prefix_window_wf [OF wf]] by blast
  also have "\<dots> \<longleftrightarrow> (\<exists>bs. prefix bs (window r) \<and> seq_prod E F bs y \<and> r'' = advance (length bs) r)"
    (is "?split \<longleftrightarrow> ?joined")
  proof
    assume ?split
    then obtain as x cs where h: "prefix as (window r)" "E as x"
      "prefix cs (window (advance (length as) r))" "F x cs y" "r'' = advance (length cs) (advance (length as) r)"
      by blast
    then have "prefix (as @ cs) (window r)" by (simp add: prefix_append_window)
    moreover have "seq_prod E F (as @ cs) y" using h by (auto simp: seq_prod_def)
    ultimately show ?joined using h(5) by (intro exI [of _ "as @ cs"]) simp
  next
    assume ?joined
    then obtain as x cs where "prefix (as @ cs) (window r)" "E as x" "F x cs y" "r'' = advance (length (as @ cs)) r"
      by (auto simp: seq_prod_def)
    then show ?split
      by (intro exI [of _ as] exI [of _ x] exI [of _ cs]) (auto simp: prefix_append_window)
  qed
  finally show "bnd p q r = Inr (y, r'') \<longleftrightarrow>
    (\<exists>bs. prefix bs (window r) \<and> seq_prod E F bs y \<and> r'' = advance (length bs) r)" .
qed

lemma parses_ret: "parses (ret x) (\<lambda>bs y. bs = [] \<and> y = x)"
  by (rule parsesI) (auto simp: ret_def)

lemma parses_cong: "parses p E \<Longrightarrow> (\<And>bs x. E bs x = F bs x) \<Longrightarrow> parses p F"
  by (simp add: parses_def)

lemma parses_map:
  assumes "parses p E"
  shows "parses (bnd p (\<lambda>x. ret (f x))) (\<lambda>bs y. \<exists>x. E bs x \<and> y = f x)"
  by (rule parses_cong [OF parses_bnd [OF assms parses_ret]]) (auto simp: seq_prod_def)

lemma parses_byte: "parses byte (\<lambda>bs x. bs = [x])"
proof (rule parsesI)
  fix r x r' assume "reader_wf r"
  then show "byte r = Inr (x, r') \<longleftrightarrow>
      (\<exists>bs. prefix bs (window r) \<and> bs = [x] \<and> r' = advance (length bs) r)"
    by (cases "window r") (auto simp: byte_Inr_iff)
qed

lemma parses_skip_byte: "parses (bnd byte (\<lambda>_. ret x)) (\<lambda>bs y. (\<exists>b. bs = [b]) \<and> y = x)"
  by (rule parses_cong [OF parses_map [OF parses_byte]]) auto

lemma parses_err: "parses (err at problem) (\<lambda>_ _. False)"
  by (rule parsesI) simp

text \<open>
  A parser that looks at the first byte and goes on by it. With \<open>first\<close> the production
  is split by the byte an encoding begins with.
\<close>

lemma parses_peek:
  assumes "\<And>b. parses (q b) (F b)" and "\<And>b x. \<not> F b [] x"
  shows "parses (bnd peek q) (\<lambda>bs x. case bs of [] \<Rightarrow> False | b # _ \<Rightarrow> F b bs x)"
proof (rule parsesI)
  fix r x r' assume wf: "reader_wf r"
  show "bnd peek q r = Inr (x, r') \<longleftrightarrow>
    (\<exists>bs. prefix bs (window r) \<and> (case bs of [] \<Rightarrow> False | b # _ \<Rightarrow> F b bs x) \<and> r' = advance (length bs) r)"
  proof (cases "window r")
    case Nil
    then show ?thesis using wf by (auto simp: bnd_def peek_window_empty)
  next
    case (Cons b rest)
    then have "bnd peek q r = q b r" using wf by (simp add: bnd_def peek_window)
    moreover have "prefix bs (window r) \<and> F b bs x \<longleftrightarrow>
        prefix bs (window r) \<and> (case bs of [] \<Rightarrow> False | b # _ \<Rightarrow> F b bs x)" for bs
      using assms(2) Cons by (cases bs) auto
    ultimately show ?thesis
      using parsesD [OF assms(1) wf, of b x r'] by metis
  qed
qed

lemma parses_with_offset:
  assumes "\<And>at. parses (q at) E"
  shows "parses (with_offset q) E"
  using assms by (simp add: parses_def with_offset_def)

lemma parses_rep:
  assumes "parses p E"
  shows "parses (rep n p) (\<lambda>bs xs. length xs = n \<and> (\<exists>bss. bs = concat bss \<and> list_all2 E bss xs))"
proof (induction n)
  case 0
  show ?case
    by (simp, rule parses_cong [OF parses_ret]) auto
next
  case (Suc n)
  have step: "seq_prod E (\<lambda>x bs ys. \<exists>xs. (length xs = n \<and> (\<exists>bss. bs = concat bss \<and> list_all2 E bss xs)) \<and>
      ys = x # xs) bs ys \<longleftrightarrow> length ys = Suc n \<and> (\<exists>bss. bs = concat bss \<and> list_all2 E bss ys)"
    (is "?l \<longleftrightarrow> ?r") for bs ys
  proof
    assume ?l
    then obtain as x xs bss where "bs = as @ concat bss" "E as x" "list_all2 E bss xs" "length xs = n" "ys = x # xs"
      by (auto simp: seq_prod_def)
    then show ?r by (auto intro: exI [of _ "as # bss"])
  next
    assume ?r
    then obtain x xs as bss where "ys = x # xs" "length xs = n" "bs = as @ concat bss" "E as x" "list_all2 E bss xs"
      by (auto simp: length_Suc_conv list_all2_Cons2)
    then show ?l unfolding seq_prod_def
      by (intro exI [of _ as] exI [of _ x] exI [of _ "concat bss"]) auto
  qed
  show ?case
    unfolding rep.simps
    by (rule parses_cong [OF parses_bnd [OF assms parses_map [OF Suc]] step])
qed

lemma parses_u32: "parses read_u32 (\<lambda>bs x. uN 32 bs (unat x))"
  by (rule parsesI) (rule read_u32_iff)

lemma parses_s33: "parses read_s33 (\<lambda>bs x. sN 33 bs (sint x))"
  by (rule parsesI) (rule read_s33_iff)

text \<open>\<open>vec(E)\<close>: a count as \<open>u32\<close>, then that many items.\<close>

definition vec_prod :: "'a production \<Rightarrow> 'a list production" where
  "vec_prod E bs xs \<longleftrightarrow> (\<exists>as n bss. uN 32 as n \<and> length xs = n \<and> list_all2 E bss xs \<and> bs = as @ concat bss)"

locale grammar_item = item_reader p k for p :: "'a parser" and k :: nat +
  fixes E :: "'a production"
  assumes item_parses: "parses p E"
begin

lemma vec_parses: "parses (bnd (count k) (\<lambda>n. rep (unat n) p)) (vec_prod E)"
proof -
  have eq: "seq_prod (\<lambda>bs x. uN 32 bs (unat (x :: u32)))
      (\<lambda>n bs xs. length xs = unat n \<and> (\<exists>bss. bs = concat bss \<and> list_all2 E bss xs)) bs xs \<longleftrightarrow>
    vec_prod E bs xs"
    (is "?l \<longleftrightarrow> ?r") for bs xs
  proof
    assume ?r
    then obtain as n bss where h: "uN 32 as n" "length xs = n" "list_all2 E bss xs" "bs = as @ concat bss"
      by (auto simp: vec_prod_def)
    from uN_bound [OF h(1)] have "n \<le> u32_MAX" by simp
    then obtain m :: u32 where m: "unat m = n" using unat_of_nat_u32 by blast
    have "length xs = unat m \<and> (\<exists>css. concat bss = concat css \<and> list_all2 E css xs)"
      using h m by auto
    with h m show ?l by (auto intro: seq_prodI [of _ as m _ "concat bss"])
  qed (auto simp: seq_prod_def vec_prod_def)
  have "parses (bnd read_u32 (\<lambda>n. rep (unat n) p)) (vec_prod E)"
    by (rule parses_cong [OF parses_bnd [OF parses_u32 parses_rep [OF item_parses]] eq])
  then show ?thesis
    by (simp add: parses_def vec_count_exact)
qed

text \<open>An encoding followed by anything is read back as what it encodes.\<close>

lemma reads_back:
  assumes "E bs x"
  shows "p (Reader_new (bs @ rest)) = Inr (x, advance (length bs) (Reader_new (bs @ rest)))"
proof -
  have "window (Reader_new (bs @ rest)) = bs @ rest"
    by (simp add: window_def Reader_new_def)
  then show ?thesis
    using parsesD [OF item_parses Reader_new_wf, of "bs @ rest" x] assms by (metis prefixI)
qed

end

section \<open>The productions of types\<close>

text \<open>\<open>heaptype\<close>, \<open>reftype\<close>, \<open>valtype\<close>: binary format, ``Types''.\<close>

inductive heaptype_prod :: "HeapType production" where
  "heaptype_prod [AbsHeapType_byte h] (HeapType_Abstract h)"
| "sN 33 bs (uint x) \<Longrightarrow> heaptype_prod bs (HeapType_Concrete (TypeIdx x))"

inductive reftype_prod :: "RefType production" where
  "heaptype_prod bs h \<Longrightarrow> reftype_prod (0x63 # bs) \<lparr>rt_nullable = True, rt_heap = h\<rparr>"
| "heaptype_prod bs h \<Longrightarrow> reftype_prod (0x64 # bs) \<lparr>rt_nullable = False, rt_heap = h\<rparr>"
| "reftype_prod [AbsHeapType_byte h] \<lparr>rt_nullable = True, rt_heap = HeapType_Abstract h\<rparr>"

inductive valtype_prod :: "ValType production" where
  "valtype_prod [0x7f] ValType_I32"
| "valtype_prod [0x7e] ValType_I64"
| "valtype_prod [0x7d] ValType_F32"
| "valtype_prod [0x7c] ValType_F64"
| "valtype_prod [0x7b] ValType_V128"
| "reftype_prod bs t \<Longrightarrow> valtype_prod bs (ValType_Ref t)"

text \<open>\<open>fieldtype\<close>, \<open>comptype\<close>, \<open>subtype\<close>.\<close>

inductive mut_prod :: "bool production" where
  "mut_prod [0x00] False"
| "mut_prod [0x01] True"

inductive storagetype_prod :: "StorageType production" where
  "valtype_prod bs t \<Longrightarrow> storagetype_prod bs (StorageType_Val t)"
| "storagetype_prod [0x78] StorageType_I8"
| "storagetype_prod [0x77] StorageType_I16"

inductive fieldtype_prod :: "FieldType production" where
  "storagetype_prod as s \<Longrightarrow> mut_prod bs m \<Longrightarrow> fieldtype_prod (as @ bs) \<lparr>ft_storage = s, ft_mutable = m\<rparr>"

inductive comptype_prod :: "CompositeType production" where
  "fieldtype_prod bs f \<Longrightarrow> comptype_prod (0x5e # bs) (CompositeType_Array \<lparr>at_field = f\<rparr>)"
| "vec_prod fieldtype_prod bs fs \<Longrightarrow> comptype_prod (0x5f # bs) (CompositeType_Struct \<lparr>st_fields = fs\<rparr>)"
| "vec_prod valtype_prod as ps \<Longrightarrow> vec_prod valtype_prod bs rs \<Longrightarrow>
     comptype_prod (0x60 # as @ bs) (CompositeType_Func \<lparr>fn_params = ps, fn_results = rs\<rparr>)"

inductive typeidx_prod :: "TypeIdx production" where
  "uN 32 bs (unat x) \<Longrightarrow> typeidx_prod bs (TypeIdx x)"

inductive subtype_prod :: "SubType production" where
  "vec_prod typeidx_prod as xs \<Longrightarrow> comptype_prod bs c \<Longrightarrow>
     subtype_prod (0x50 # as @ bs) \<lparr>su_final = False, su_supertypes = xs, su_composite = c\<rparr>"
| "vec_prod typeidx_prod as xs \<Longrightarrow> comptype_prod bs c \<Longrightarrow>
     subtype_prod (0x4f # as @ bs) \<lparr>su_final = True, su_supertypes = xs, su_composite = c\<rparr>"
| "comptype_prod bs c \<Longrightarrow> subtype_prod bs \<lparr>su_final = True, su_supertypes = [], su_composite = c\<rparr>"

inductive blocktype_prod :: "BlockType production" where
  "blocktype_prod [0x40] BlockType_Empty"
| "valtype_prod bs t \<Longrightarrow> blocktype_prod bs (BlockType_Value t)"
| "sN 33 bs (uint x) \<Longrightarrow> blocktype_prod bs (BlockType_Type (TypeIdx x))"

section \<open>First bytes\<close>

text \<open>A non-negative \<open>s33\<close> begins below \<open>0x40\<close> or from \<open>0x80\<close> on, where no type's byte lies.\<close>

lemma sN_nonneg_first:
  assumes "sN N bs n" "0 \<le> n"
  obtains b cs where "bs = b # cs" "unat b < 64 \<or> 128 \<le> unat b"
  using assms
proof (cases rule: sN.cases)
  case (sN_pos b)
  then show ?thesis using that unat_less_uint [of b 64] by simp
next
  case (sN_neg b)
  then show ?thesis using assms(2) by simp
next
  case (sN_more b bs m)
  then show ?thesis using that unat_ge_uint [of 128 b] by simp
qed

lemma AbsHeapType_byte_range: "105 \<le> unat (AbsHeapType_byte h) \<and> unat (AbsHeapType_byte h) \<le> 116"
  by (cases h) simp_all

lemma AbsHeapType_from_byte_iff: "AbsHeapType_from_byte b = Some h \<longleftrightarrow> b = AbsHeapType_byte h"
  by (cases h) (auto simp: AbsHeapType_from_byte_def split: if_splits)

lemma AbsHeapType_from_byte_None: "AbsHeapType_from_byte b = None \<longleftrightarrow> (\<forall>h. b \<noteq> AbsHeapType_byte h)"
  using AbsHeapType_from_byte_iff by (metis not_Some_eq)

lemma u32_try_from_i64_Some: "u32_try_from_i64 x = Some y \<longleftrightarrow> sint x = uint y"
proof
  assume "u32_try_from_i64 x = Some y"
  then have "0 \<le> sint x" "sint x \<le> 2 ^ 32 - 1" "y = word_of_int (sint x)"
    by (auto simp: u32_try_from_i64_def split: if_splits)
  then show "sint x = uint y"
    by (simp only: uint_word_of_int) (simp add: mod_pos_pos_trivial)
next
  assume "sint x = uint y"
  moreover have "0 \<le> uint y" "uint y \<le> 2 ^ 32 - 1"
    using unsigned_less [of y, where ?'a = int] by simp_all
  ultimately show "u32_try_from_i64 x = Some y" by (simp add: u32_try_from_i64_def)
qed

section \<open>The readers accept exactly the productions\<close>

lemma parses_option:
  assumes "parses p E"
  shows "parses (bnd p (\<lambda>x. case f x of None \<Rightarrow> err at problem | Some y \<Rightarrow> ret (g y)))
    (\<lambda>bs z. \<exists>x y. E bs x \<and> f x = Some y \<and> z = g y)"
proof -
  have q: "parses (case f x of None \<Rightarrow> err at problem | Some y \<Rightarrow> ret (g y))
      (\<lambda>bs z. bs = [] \<and> (\<exists>y. f x = Some y \<and> z = g y))" for x
    by (cases "f x") (auto intro: parses_cong [OF parses_err] parses_cong [OF parses_ret])
  show ?thesis
    by (rule parses_cong [OF parses_bnd [OF assms q]]) (auto simp: seq_prod_def)
qed

lemma sint_ucast_u32: "sint (ucast (y :: u32) :: i64) = uint y"
proof -
  have "0 \<le> uint y" "uint y < 2 ^ 32" using unsigned_less [of y, where ?'a = int] by simp_all
  then have "sint (word_of_int (uint y) :: i64) = uint y"
    by (intro sint_word_of_int) (simp_all add: order_trans [of _ 0])
  then show ?thesis by simp
qed

lemma parses_typeidx_s33:
  "parses (bnd read_s33 (\<lambda>x. case u32_try_from_i64 x of None \<Rightarrow> err at problem | Some y \<Rightarrow> ret (g y)))
     (\<lambda>bs z. \<exists>y. sN 33 bs (uint y) \<and> z = g y)"
  by (rule parses_cong [OF parses_option [OF parses_s33]])
    (metis sint_ucast_u32 u32_try_from_i64_Some)

lemma heaptype_first:
  "heaptype_prod bs x \<longleftrightarrow> (case bs of [] \<Rightarrow> False | b # _ \<Rightarrow>
     (case AbsHeapType_from_byte b of
        None \<Rightarrow> \<exists>y. sN 33 bs (uint y) \<and> x = HeapType_Concrete (TypeIdx y)
      | Some h \<Rightarrow> \<exists>y. bs = [y] \<and> x = HeapType_Abstract h))"
proof
  assume "heaptype_prod bs x"
  then show "case bs of [] \<Rightarrow> False | b # _ \<Rightarrow>
     (case AbsHeapType_from_byte b of
        None \<Rightarrow> \<exists>y. sN 33 bs (uint y) \<and> x = HeapType_Concrete (TypeIdx y)
      | Some h \<Rightarrow> \<exists>y. bs = [y] \<and> x = HeapType_Abstract h)"
  proof cases
    case (1 h)
    moreover have "AbsHeapType_from_byte (AbsHeapType_byte h) = Some h"
      by (simp add: AbsHeapType_from_byte_iff)
    ultimately show ?thesis by simp
  next
    case (2 y)
    from sN_nonneg_first [OF 2(2)] obtain b cs where "bs = b # cs" "unat b < 64 \<or> 128 \<le> unat b"
      by auto
    moreover have "AbsHeapType_from_byte b = None"
      unfolding AbsHeapType_from_byte_None
    proof
      fix h
      show "b \<noteq> AbsHeapType_byte h"
        using calculation(2) AbsHeapType_byte_range [of h] by auto
    qed
    ultimately show ?thesis using 2 by auto
  qed
qed (auto simp: AbsHeapType_from_byte_iff intro: heaptype_prod.intros split: list.splits option.splits)

lemma heaptype_parses: "parses HeapType_read heaptype_prod"
proof -
  show ?thesis
    unfolding HeapType_read_def
  proof (rule parses_with_offset, rule parses_cong [OF parses_peek heaptype_first [symmetric]])
    fix at b
    show "parses
       (case AbsHeapType_from_byte b of
          None \<Rightarrow> bnd read_s33 (\<lambda>x. case u32_try_from_i64 x of
              None \<Rightarrow> err at (UnknownHeapType b) | Some x \<Rightarrow> ret (HeapType_Concrete (TypeIdx x)))
        | Some h \<Rightarrow> bnd byte (\<lambda>_. ret (HeapType_Abstract h)))
       (\<lambda>bs x. case AbsHeapType_from_byte b of
          None \<Rightarrow> \<exists>y. sN 33 bs (uint y) \<and> x = HeapType_Concrete (TypeIdx y)
        | Some h \<Rightarrow> \<exists>y. bs = [y] \<and> x = HeapType_Abstract h)"
      using parses_skip_byte parses_typeidx_s33
      by (cases "AbsHeapType_from_byte b") simp_all
  qed (auto split: option.splits elim: sN.cases)
qed

lemma parses_byte_then:
  assumes "\<And>b. parses (q b) (F b)"
  shows "parses (bnd byte q) (\<lambda>bs x. case bs of [] \<Rightarrow> False | b # cs \<Rightarrow> F b cs x)"
  by (rule parses_cong [OF parses_bnd [OF parses_byte assms]])
    (auto simp: seq_prod_def split: list.splits)

lemma reftype_first:
  "reftype_prod bs x \<longleftrightarrow> (case bs of [] \<Rightarrow> False | b # cs \<Rightarrow>
     (case RefLead_of b of None \<Rightarrow> False | Some l \<Rightarrow> (case l of
        RefLead_Nullable \<Rightarrow> \<exists>h. heaptype_prod cs h \<and> x = \<lparr>rt_nullable = True, rt_heap = h\<rparr>
      | RefLead_NonNull \<Rightarrow> \<exists>h. heaptype_prod cs h \<and> x = \<lparr>rt_nullable = False, rt_heap = h\<rparr>
      | RefLead_Abbreviated h \<Rightarrow> cs = [] \<and> x = \<lparr>rt_nullable = True, rt_heap = HeapType_Abstract h\<rparr>)))"
  (is "_ \<longleftrightarrow> ?r")
proof
  assume "reftype_prod bs x"
  then show ?r
  proof cases
    case (3 h)
    moreover have "AbsHeapType_byte h \<noteq> 0x63" "AbsHeapType_byte h \<noteq> 0x64"
      using AbsHeapType_byte_range [of h] by auto
    moreover have "AbsHeapType_from_byte (AbsHeapType_byte h) = Some h"
      by (simp add: AbsHeapType_from_byte_iff)
    ultimately show ?thesis by (simp add: RefLead_of_def)
  qed (simp_all add: RefLead_of_def)
next
  assume ?r
  then show "reftype_prod bs x"
    by (auto simp: RefLead_of_def AbsHeapType_from_byte_iff intro: reftype_prod.intros
        split: list.splits option.splits if_splits)
qed

lemma parses_case_RefLead:
  assumes "parses p A" "parses q B" "\<And>h. parses (f h) (C h)"
  shows "parses (case l of RefLead_Nullable \<Rightarrow> p | RefLead_NonNull \<Rightarrow> q | RefLead_Abbreviated h \<Rightarrow> f h)
    (\<lambda>bs x. case l of RefLead_Nullable \<Rightarrow> A bs x | RefLead_NonNull \<Rightarrow> B bs x | RefLead_Abbreviated h \<Rightarrow> C h bs x)"
  using assms by (cases l) auto

lemma parses_case_option:
  assumes "parses p A" "\<And>y. parses (f y) (C y)"
  shows "parses (case v of None \<Rightarrow> p | Some y \<Rightarrow> f y) (\<lambda>bs x. case v of None \<Rightarrow> A bs x | Some y \<Rightarrow> C y bs x)"
  using assms by (cases v) auto

lemma reftype_parses: "parses RefType_read reftype_prod"
  unfolding RefType_read_def
  by (rule parses_with_offset, rule parses_cong [OF parses_byte_then reftype_first [symmetric]])
    (rule parses_case_option parses_case_RefLead parses_err parses_map heaptype_parses parses_ret)+

lemma heaptype_example: "heaptype_prod [0x70] (HeapType_Abstract AbsHeapType_Func)"
  using heaptype_prod.intros(1) [of AbsHeapType_Func] by simp

text \<open>The byte that begins a value type: \<open>starts_with\<close> accepts exactly those that begin one.\<close>

lemma RefLead_of_iff: "(\<exists>l. RefLead_of b = Some l) \<longleftrightarrow> (\<exists>bs x. reftype_prod (b # bs) x)"
proof
  assume "\<exists>l. RefLead_of b = Some l"
  then consider "b = 0x63" | "b = 0x64" | h where "b = AbsHeapType_byte h"
    by (auto simp: RefLead_of_def AbsHeapType_from_byte_iff split: if_splits)
  then show "\<exists>bs x. reftype_prod (b # bs) x"
    by cases (blast intro: reftype_prod.intros heaptype_example)+
next
  assume "\<exists>bs x. reftype_prod (b # bs) x"
  then show "\<exists>l. RefLead_of b = Some l"
    by (auto simp: reftype_first split: option.splits)
qed

lemma RefLead_range:
  assumes "RefLead_of b = Some l"
  shows "99 \<le> unat b \<and> unat b \<le> 116"
proof -
  from assms consider "b = 0x63" | "b = 0x64" | h where "b = AbsHeapType_byte h"
    by (auto simp: RefLead_of_def AbsHeapType_from_byte_iff split: if_splits)
  then show ?thesis
  proof cases
    case 3
    then show ?thesis using AbsHeapType_byte_range [of h] by simp
  qed simp_all
qed

lemma valtype_first:
  "valtype_prod bs x \<longleftrightarrow> (case bs of [] \<Rightarrow> False | b # cs \<Rightarrow>
     (case ValLead_of b of None \<Rightarrow> False | Some l \<Rightarrow> (case l of
        ValLead_Num t \<Rightarrow> (\<exists>y. bs = [y]) \<and> x = t
      | ValLead_Ref \<Rightarrow> \<exists>t. reftype_prod bs t \<and> x = ValType_Ref t)))"
  (is "_ \<longleftrightarrow> ?r")
proof
  assume "valtype_prod bs x"
  then show ?r
  proof cases
    case (6 t)
    then obtain b cs l where b: "bs = b # cs" "RefLead_of b = Some l"
      by (auto simp: reftype_first split: list.splits option.splits)
    then have "ValLead_of b = Some ValLead_Ref"
      using RefLead_range [OF b(2)] by (auto simp: ValLead_of_def)
    with b 6 show ?thesis by simp
  qed (simp_all add: ValLead_of_def)
next
  assume ?r
  then show "valtype_prod bs x"
    by (auto simp: ValLead_of_def intro: valtype_prod.intros
        split: list.splits option.splits if_splits)
qed

lemma parses_case_ValLead:
  assumes "\<And>t. parses (f t) (A t)" "parses p B"
  shows "parses (case l of ValLead_Num t \<Rightarrow> f t | ValLead_Ref \<Rightarrow> p)
    (\<lambda>bs x. case l of ValLead_Num t \<Rightarrow> A t bs x | ValLead_Ref \<Rightarrow> B bs x)"
  using assms by (cases l) auto

lemma reftype_nonempty: "\<not> reftype_prod [] x"
  by (simp add: reftype_first)

lemma valtype_nonempty: "\<not> valtype_prod [] x"
  by (simp add: valtype_first)

lemma valtype_parses: "parses ValType_read valtype_prod"
  unfolding ValType_read_def
  by (rule parses_with_offset, rule parses_cong [OF parses_peek valtype_first [symmetric]])
    ((rule parses_case_option parses_case_ValLead parses_err parses_map reftype_parses parses_skip_byte)+,
      auto simp: reftype_nonempty split: option.splits ValLead.splits)

interpretation valtype: grammar_item ValType_read 1 valtype_prod
  by unfold_locales (rule reads_facts valtype_parses)+

lemma valtype_vec_parses: "parses ValType_read_vec (vec_prod valtype_prod)"
  unfolding ValType_read_vec_def by (rule valtype.vec_parses)

lemma starts_with_iff: "ValType_starts_with b \<longleftrightarrow> (\<exists>bs t. valtype_prod (b # bs) t)"
proof
  assume "ValType_starts_with b"
  then consider "b = 0x7f" | "b = 0x7e" | "b = 0x7d" | "b = 0x7c" | "b = 0x7b"
    | "\<exists>bs t. reftype_prod (b # bs) t"
    by (auto simp: ValType_starts_with_def ValLead_of_def RefLead_of_iff [symmetric]
        split: if_splits option.splits)
  then show "\<exists>bs t. valtype_prod (b # bs) t"
    by cases (blast intro: valtype_prod.intros)+
next
  assume "\<exists>bs t. valtype_prod (b # bs) t"
  then show "ValType_starts_with b"
    by (auto simp: valtype_first ValType_starts_with_def split: option.splits)
qed

section \<open>Composite types, sub types, block types\<close>

lemma parses_if:
  assumes "c \<Longrightarrow> parses p A" "\<not> c \<Longrightarrow> parses q B"
  shows "parses (if c then p else q) (\<lambda>bs x. if c then A bs x else B bs x)"
  using assms by auto

lemma mut_parses: "parses mutability mut_prod"
  unfolding mutability_def
  by (rule parses_with_offset, rule parses_cong [OF parses_byte_then])
    ((rule parses_if parses_ret parses_err)+,
      auto simp: mut_prod.simps split: list.splits)

lemma ValLead_range: "ValLead_of b = Some l \<Longrightarrow> 99 \<le> unat b \<and> unat b \<le> 127 \<and> b \<noteq> 0x78 \<and> b \<noteq> 0x77"
  using RefLead_range [of b]
  by (auto simp: ValLead_of_def split: if_splits option.splits)

lemma valtype_head:
  assumes "valtype_prod bs t"
  obtains b cs where "bs = b # cs" "99 \<le> unat b" "unat b \<le> 127" "b \<noteq> 0x78" "b \<noteq> 0x77" "ValType_starts_with b"
  using assms that ValLead_range
  by (fastforce simp: valtype_first ValType_starts_with_def split: list.splits option.splits)

lemma storagetype_parses: "parses StorageType_read storagetype_prod"
  unfolding StorageType_read_def
  by (rule parses_cong [OF parses_peek])
    ((rule parses_if parses_skip_byte parses_map valtype_parses)+,
      auto simp: storagetype_prod.simps valtype_nonempty elim: valtype_head split: list.splits if_splits)

lemma fieldtype_parses: "parses FieldType_read fieldtype_prod"
  unfolding FieldType_read_def
  by (rule parses_cong [OF parses_bnd])
    ((rule parses_map storagetype_parses mut_parses)+, auto simp: seq_prod_def fieldtype_prod.simps)

interpretation fieldtype: grammar_item FieldType_read 2 fieldtype_prod
  by unfold_locales (rule reads_facts fieldtype_parses)+

lemma typeidx_parses: "parses TypeIdx_read typeidx_prod"
  unfolding TypeIdx_read_def
  by (rule parses_cong [OF parses_map [OF parses_u32]]) (auto simp: typeidx_prod.simps)

interpretation typeidx: grammar_item TypeIdx_read 1 typeidx_prod
  by unfold_locales (rule reads_facts typeidx_parses)+

text \<open>The vector of a struct's fields and of supertypes, with what is read after it.\<close>

lemma parses_vec_then:
  assumes "parses (bnd (count k) (\<lambda>n. rep (unat n) p)) E" "\<And>x. parses (q x) (F x)"
  shows "parses (bnd (count k) (\<lambda>n. bnd (rep (unat n) p) q)) (seq_prod E F)"
  using parses_bnd [OF assms] by (simp add: bnd_assoc)

lemma comptype_parses: "parses CompositeType_read comptype_prod"
  unfolding CompositeType_read_def
  by (rule parses_with_offset, rule parses_cong [OF parses_byte_then])
    ((rule parses_if parses_err parses_vec_then fieldtype.vec_parses parses_ret parses_map fieldtype_parses
        parses_bnd [OF valtype_vec_parses] valtype_vec_parses)+,
      auto simp: comptype_prod.simps seq_prod_def split: list.splits)

lemma comptype_head:
  assumes "comptype_prod bs c"
  obtains b cs where "bs = b # cs" "b \<noteq> 0x50" "b \<noteq> 0x4f"
  using assms by cases auto

definition subtype_prefixed :: "bool \<Rightarrow> SubType production" where
  "subtype_prefixed final = seq_prod (\<lambda>bs x. bs = [x]) (\<lambda>_. seq_prod (vec_prod typeidx_prod)
     (\<lambda>xs bs x. \<exists>c. comptype_prod bs c \<and> x = \<lparr>su_final = final, su_supertypes = xs, su_composite = c\<rparr>))"

lemma subtype_prefixed_parses:
  "parses (bnd byte (\<lambda>_. bnd (count 1) (\<lambda>n. bnd (rep (unat n) TypeIdx_read) (\<lambda>supertypes.
     bnd CompositeType_read (\<lambda>c. ret \<lparr>su_final = final, su_supertypes = supertypes, su_composite = c\<rparr>)))))
   (subtype_prefixed final)"
  unfolding subtype_prefixed_def
  by (rule parses_bnd parses_byte parses_vec_then typeidx.vec_parses parses_map comptype_parses)+

lemma subtype_first:
  "subtype_prod bs x \<longleftrightarrow> (case bs of [] \<Rightarrow> False | b # _ \<Rightarrow>
     (if b \<noteq> 0x50 \<and> b \<noteq> 0x4f
      then \<exists>c. comptype_prod bs c \<and> x = \<lparr>su_final = True, su_supertypes = [], su_composite = c\<rparr>
      else subtype_prefixed (b = 0x4f) bs x))"
  (is "_ \<longleftrightarrow> ?r")
proof
  assume "subtype_prod bs x"
  then show ?r
  proof cases
    case (3 c)
    from comptype_head [OF 3(2)] obtain b cs where "bs = b # cs" "b \<noteq> 0x50" "b \<noteq> 0x4f" .
    with 3 show ?thesis by simp
  next
    case (1 as xs cs c)
    then show ?thesis by (simp add: subtype_prefixed_def seq_prod_def) blast
  next
    case (2 as xs cs c)
    then show ?thesis by (simp add: subtype_prefixed_def seq_prod_def) blast
  qed
next
  assume ?r
  then show "subtype_prod bs x"
    by (auto simp: subtype_prefixed_def seq_prod_def intro: subtype_prod.intros split: list.splits if_splits)
qed

lemma subtype_parses: "parses SubType_read subtype_prod"
  unfolding SubType_read_def
  by (rule parses_cong [OF parses_peek subtype_first [symmetric]])
    ((rule parses_if parses_map comptype_parses subtype_prefixed_parses)+,
      auto simp: subtype_prefixed_def seq_prod_def comptype_prod.simps)

lemma blocktype_first:
  "blocktype_prod bs x \<longleftrightarrow> (case bs of [] \<Rightarrow> False | b # _ \<Rightarrow>
     (if b = 0x40 then (\<exists>y. bs = [y]) \<and> x = BlockType_Empty
      else if ValType_starts_with b then \<exists>t. valtype_prod bs t \<and> x = BlockType_Value t
      else \<exists>y. sN 33 bs (uint y) \<and> x = BlockType_Type (TypeIdx y)))"
  (is "_ \<longleftrightarrow> ?r")
proof
  assume "blocktype_prod bs x"
  then show ?r
  proof cases
    case (2 t)
    from valtype_head [OF 2(2)] obtain b cs
      where b: "bs = b # cs" "99 \<le> unat b" "ValType_starts_with b" by metis
    then have "b \<noteq> 0x40" by auto
    with b 2 show ?thesis by simp
  next
    case (3 y)
    from sN_nonneg_first [OF 3(2)] obtain b cs where b: "bs = b # cs" "unat b < 64 \<or> 128 \<le> unat b"
      by auto
    then have "\<not> ValType_starts_with b" "b \<noteq> 0x40"
      using ValLead_range [of b] by (fastforce simp: ValType_starts_with_def, auto)
    with b 3 show ?thesis by auto
  qed simp
next
  assume ?r
  then show "blocktype_prod bs x"
    by (auto intro: blocktype_prod.intros split: list.splits if_splits)
qed

lemma blocktype_parses: "parses BlockType_read blocktype_prod"
  unfolding BlockType_read_def
  by (rule parses_with_offset, rule parses_cong [OF parses_peek blocktype_first [symmetric]])
    ((rule parses_if parses_skip_byte parses_map valtype_parses parses_typeidx_s33)+,
      auto simp: valtype_nonempty elim: sN.cases)

interpretation subtype: grammar_item SubType_read 2 subtype_prod
  by unfold_locales (rule reads_facts subtype_parses)+

interpretation blocktype: grammar_item BlockType_read 1 blocktype_prod
  by unfold_locales (rule reads_facts blocktype_parses)+

end
