(* ===== verification/Wasm_Instr.thy ===== *)
theory Wasm_Instr
  imports Wasm_Grammar
begin

text \<open>
  Immediates of instructions, \<open>src/crates/n0xis-wasm/src/instr.rs\<close>: one record or datatype for
  each Rust type that implements \<open>Immediate\<close>, its \<open>read\<close>, and the enum-like datatype
  \<open>Immediate\<close> of all of them. The opcode table names the type of an instruction's
  immediate; \<open>ImmKind\<close> is that type name as a value, so that the table is data and
  \<open>Immediate_read\<close> selects the \<open>read\<close> the macro \<open>instructions!\<close> would call.
\<close>

section \<open>The immediates\<close>

record BrTargets =
  bt_targets :: "LabelIdx list"
  bt_default :: LabelIdx

record IndirectCall =
  ic_ty :: TypeIdx
  ic_table :: TableIdx

datatype SelectTypes = SelectTypes "ValType list"

record MemArg =
  ma_align_log2 :: u32
  ma_offset :: u64
  ma_memory :: MemIdx

datatype Ieee32 = Ieee32 u32
datatype Ieee64 = Ieee64 u64
datatype V128Bytes = V128Bytes "u8 list"
datatype ShuffleLanes = ShuffleLanes "u8 list"
datatype LaneIdx = LaneIdx u8

record MemArgLane =
  ml_memarg :: MemArg
  ml_lane :: LaneIdx

record DataToMemory =
  dm_data :: DataIdx
  dm_memory :: MemIdx

record MemoryPair =
  mp_dst :: MemIdx
  mp_src :: MemIdx

record ElemToTable =
  et_elem :: ElemIdx
  et_table :: TableIdx

record TablePair =
  tp_dst :: TableIdx
  tp_src :: TableIdx

record FieldRef =
  fr_ty :: TypeIdx
  fr_field :: FieldIdx

record FixedArray =
  fa_ty :: TypeIdx
  fa_len :: u32

record ArrayData =
  ad_ty :: TypeIdx
  ad_data :: DataIdx

record ArrayElem =
  ae_ty :: TypeIdx
  ae_elem :: ElemIdx

record ArrayPair =
  ap_dst :: TypeIdx
  ap_src :: TypeIdx

datatype NonNull = NonNull HeapType
datatype Nullable = Nullable HeapType

fun NonNull_ref_type :: "NonNull \<Rightarrow> RefType" where
  "NonNull_ref_type (NonNull h) = \<lparr>rt_nullable = False, rt_heap = h\<rparr>"

fun Nullable_ref_type :: "Nullable \<Rightarrow> RefType" where
  "Nullable_ref_type (Nullable h) = \<lparr>rt_nullable = True, rt_heap = h\<rparr>"

record CastBranch =
  cb_label :: LabelIdx
  cb_from :: RefType
  cb_to :: RefType

datatype Catch =
    Catch_Catch TagIdx LabelIdx
  | Catch_CatchRef TagIdx LabelIdx
  | Catch_CatchAll LabelIdx
  | Catch_CatchAllRef LabelIdx

record TryTable =
  ty_ty :: BlockType
  ty_catches :: "Catch list"

datatype FenceZero = FenceZero

text \<open>The types an instruction may carry, and a value of one of them; \<open>Imm_None\<close> is a variant without a payload.\<close>

datatype (plugins del: quickcheck_exhaustive quickcheck_random quickcheck_full_exhaustive quickcheck_narrowing size transfer lifting) ImmKind =
    K_None | K_TypeIdx | K_FuncIdx | K_LocalIdx | K_GlobalIdx | K_TagIdx | K_LabelIdx | K_TableIdx
  | K_DataIdx | K_ElemIdx | K_MemIdx | K_BlockType | K_BrTargets | K_IndirectCall | K_SelectTypes
  | K_MemArg | K_i32 | K_i64 | K_Ieee32 | K_Ieee64 | K_V128Bytes | K_ShuffleLanes | K_LaneIdx
  | K_MemArgLane | K_HeapType | K_NonNull | K_Nullable | K_CastBranch | K_FieldRef | K_FixedArray
  | K_ArrayData | K_ArrayElem | K_ArrayPair | K_TryTable | K_FenceZero | K_DataToMemory
  | K_MemoryPair | K_ElemToTable | K_TablePair

datatype (plugins del: quickcheck_exhaustive quickcheck_random quickcheck_full_exhaustive quickcheck_narrowing size transfer lifting) Immediate =
    Imm_None
  | Imm_TypeIdx TypeIdx
  | Imm_FuncIdx FuncIdx
  | Imm_LocalIdx LocalIdx
  | Imm_GlobalIdx GlobalIdx
  | Imm_TagIdx TagIdx
  | Imm_LabelIdx LabelIdx
  | Imm_TableIdx TableIdx
  | Imm_DataIdx DataIdx
  | Imm_ElemIdx ElemIdx
  | Imm_MemIdx MemIdx
  | Imm_BlockType BlockType
  | Imm_BrTargets BrTargets
  | Imm_IndirectCall IndirectCall
  | Imm_SelectTypes SelectTypes
  | Imm_MemArg MemArg
  | Imm_i32 i32
  | Imm_i64 i64
  | Imm_Ieee32 Ieee32
  | Imm_Ieee64 Ieee64
  | Imm_V128Bytes V128Bytes
  | Imm_ShuffleLanes ShuffleLanes
  | Imm_LaneIdx LaneIdx
  | Imm_MemArgLane MemArgLane
  | Imm_HeapType HeapType
  | Imm_NonNull NonNull
  | Imm_Nullable Nullable
  | Imm_CastBranch CastBranch
  | Imm_FieldRef FieldRef
  | Imm_FixedArray FixedArray
  | Imm_ArrayData ArrayData
  | Imm_ArrayElem ArrayElem
  | Imm_ArrayPair ArrayPair
  | Imm_TryTable TryTable
  | Imm_FenceZero FenceZero
  | Imm_DataToMemory DataToMemory
  | Imm_MemoryPair MemoryPair
  | Imm_ElemToTable ElemToTable
  | Imm_TablePair TablePair

section \<open>Reading them\<close>

definition BrTargets_read :: "BrTargets parser" where
  "BrTargets_read = bnd (count 1) (\<lambda>n. bnd (rep (unat n) LabelIdx_read) (\<lambda>targets.
     bnd LabelIdx_read (\<lambda>d. ret \<lparr>bt_targets = targets, bt_default = d\<rparr>)))"

definition IndirectCall_read :: "IndirectCall parser" where
  "IndirectCall_read = bnd TypeIdx_read (\<lambda>ty. bnd TableIdx_read (\<lambda>table.
     ret \<lparr>ic_ty = ty, ic_table = table\<rparr>))"

definition SelectTypes_read :: "SelectTypes parser" where
  "SelectTypes_read = bnd ValType_read_vec (\<lambda>ts. ret (SelectTypes ts))"

definition MemArg_read :: "MemArg parser" where
  "MemArg_read = with_offset (\<lambda>at. bnd read_u32 (\<lambda>flags.
     bnd (if unat flags < 64 then ret (flags, MemIdx 0)
          else if unat flags < 128 then bnd MemIdx_read (\<lambda>m. ret (flags - 64, m))
          else err at (MemArgFlags flags))
       (\<lambda>(align_log2, memory). bnd read_u64 (\<lambda>off.
          ret \<lparr>ma_align_log2 = align_log2, ma_offset = off, ma_memory = memory\<rparr>))))"

text \<open>\<open>from_le_bytes\<close>: the first byte is the least significant.\<close>

definition from_le_bytes :: "u8 list \<Rightarrow> nat" where
  "from_le_bytes bs = foldr (\<lambda>b n. unat b + 256 * n) bs 0"

definition Ieee32_read :: "Ieee32 parser" where
  "Ieee32_read = bnd (array 4) (\<lambda>bs. ret (Ieee32 (of_nat (from_le_bytes bs))))"

definition Ieee64_read :: "Ieee64 parser" where
  "Ieee64_read = bnd (array 8) (\<lambda>bs. ret (Ieee64 (of_nat (from_le_bytes bs))))"

definition V128Bytes_read :: "V128Bytes parser" where
  "V128Bytes_read = bnd (array 16) (\<lambda>bs. ret (V128Bytes bs))"

definition ShuffleLanes_read :: "ShuffleLanes parser" where
  "ShuffleLanes_read = bnd (array 16) (\<lambda>bs. ret (ShuffleLanes bs))"

definition LaneIdx_read :: "LaneIdx parser" where
  "LaneIdx_read = bnd byte (\<lambda>b. ret (LaneIdx b))"

definition MemArgLane_read :: "MemArgLane parser" where
  "MemArgLane_read = bnd MemArg_read (\<lambda>memarg. bnd LaneIdx_read (\<lambda>lane.
     ret \<lparr>ml_memarg = memarg, ml_lane = lane\<rparr>))"

definition NonNull_read :: "NonNull parser" where
  "NonNull_read = bnd HeapType_read (\<lambda>h. ret (NonNull h))"

definition Nullable_read :: "Nullable parser" where
  "Nullable_read = bnd HeapType_read (\<lambda>h. ret (Nullable h))"

definition CAST_FROM_NULLABLE :: u8 where "CAST_FROM_NULLABLE = 0x01"
definition CAST_TO_NULLABLE :: u8 where "CAST_TO_NULLABLE = 0x02"

definition CastBranch_read :: "CastBranch parser" where
  "CastBranch_read = with_offset (\<lambda>at. bnd byte (\<lambda>flags.
     if flags AND NOT (CAST_FROM_NULLABLE OR CAST_TO_NULLABLE) \<noteq> 0 then err at (CastFlags flags)
     else bnd LabelIdx_read (\<lambda>label. bnd HeapType_read (\<lambda>from. bnd HeapType_read (\<lambda>to.
       ret \<lparr>cb_label = label,
            cb_from = \<lparr>rt_nullable = (flags AND CAST_FROM_NULLABLE \<noteq> 0), rt_heap = from\<rparr>,
            cb_to = \<lparr>rt_nullable = (flags AND CAST_TO_NULLABLE \<noteq> 0), rt_heap = to\<rparr>\<rparr>)))))"

definition FieldRef_read :: "FieldRef parser" where
  "FieldRef_read = bnd TypeIdx_read (\<lambda>ty. bnd FieldIdx_read (\<lambda>field. ret \<lparr>fr_ty = ty, fr_field = field\<rparr>))"

definition FixedArray_read :: "FixedArray parser" where
  "FixedArray_read = bnd TypeIdx_read (\<lambda>ty. bnd read_u32 (\<lambda>len. ret \<lparr>fa_ty = ty, fa_len = len\<rparr>))"

definition ArrayData_read :: "ArrayData parser" where
  "ArrayData_read = bnd TypeIdx_read (\<lambda>ty. bnd DataIdx_read (\<lambda>data. ret \<lparr>ad_ty = ty, ad_data = data\<rparr>))"

definition ArrayElem_read :: "ArrayElem parser" where
  "ArrayElem_read = bnd TypeIdx_read (\<lambda>ty. bnd ElemIdx_read (\<lambda>elem. ret \<lparr>ae_ty = ty, ae_elem = elem\<rparr>))"

definition ArrayPair_read :: "ArrayPair parser" where
  "ArrayPair_read = bnd TypeIdx_read (\<lambda>dst. bnd TypeIdx_read (\<lambda>src. ret \<lparr>ap_dst = dst, ap_src = src\<rparr>))"

definition Catch_read :: "Catch parser" where
  "Catch_read = with_offset (\<lambda>at. bnd byte (\<lambda>b.
     if b = 0x00 then bnd TagIdx_read (\<lambda>tag. bnd LabelIdx_read (\<lambda>label. ret (Catch_Catch tag label)))
     else if b = 0x01 then bnd TagIdx_read (\<lambda>tag. bnd LabelIdx_read (\<lambda>label. ret (Catch_CatchRef tag label)))
     else if b = 0x02 then bnd LabelIdx_read (\<lambda>label. ret (Catch_CatchAll label))
     else if b = 0x03 then bnd LabelIdx_read (\<lambda>label. ret (Catch_CatchAllRef label))
     else err at (UnknownCatchKind b)))"

definition TryTable_read :: "TryTable parser" where
  "TryTable_read = bnd BlockType_read (\<lambda>ty. bnd (count 2) (\<lambda>n. bnd (rep (unat n) Catch_read) (\<lambda>catches.
     ret \<lparr>ty_ty = ty, ty_catches = catches\<rparr>)))"

definition FenceZero_read :: "FenceZero parser" where
  "FenceZero_read = with_offset (\<lambda>at. bnd byte (\<lambda>b.
     if b = 0 then ret FenceZero else err at (ReservedByte b)))"

definition DataToMemory_read :: "DataToMemory parser" where
  "DataToMemory_read = bnd DataIdx_read (\<lambda>data. bnd MemIdx_read (\<lambda>memory.
     ret \<lparr>dm_data = data, dm_memory = memory\<rparr>))"

definition MemoryPair_read :: "MemoryPair parser" where
  "MemoryPair_read = bnd MemIdx_read (\<lambda>dst. bnd MemIdx_read (\<lambda>src. ret \<lparr>mp_dst = dst, mp_src = src\<rparr>))"

definition ElemToTable_read :: "ElemToTable parser" where
  "ElemToTable_read = bnd ElemIdx_read (\<lambda>elem. bnd TableIdx_read (\<lambda>table.
     ret \<lparr>et_elem = elem, et_table = table\<rparr>))"

definition TablePair_read :: "TablePair parser" where
  "TablePair_read = bnd TableIdx_read (\<lambda>dst. bnd TableIdx_read (\<lambda>src. ret \<lparr>tp_dst = dst, tp_src = src\<rparr>))"

text \<open>\<open>< $t as Immediate>::read\<close> by the type's name.\<close>

primrec Immediate_read :: "ImmKind \<Rightarrow> Immediate parser" where
  "Immediate_read K_None = ret Imm_None"
| "Immediate_read K_TypeIdx = bnd TypeIdx_read (\<lambda>x. ret (Imm_TypeIdx x))"
| "Immediate_read K_FuncIdx = bnd FuncIdx_read (\<lambda>x. ret (Imm_FuncIdx x))"
| "Immediate_read K_LocalIdx = bnd LocalIdx_read (\<lambda>x. ret (Imm_LocalIdx x))"
| "Immediate_read K_GlobalIdx = bnd GlobalIdx_read (\<lambda>x. ret (Imm_GlobalIdx x))"
| "Immediate_read K_TagIdx = bnd TagIdx_read (\<lambda>x. ret (Imm_TagIdx x))"
| "Immediate_read K_LabelIdx = bnd LabelIdx_read (\<lambda>x. ret (Imm_LabelIdx x))"
| "Immediate_read K_TableIdx = bnd TableIdx_read (\<lambda>x. ret (Imm_TableIdx x))"
| "Immediate_read K_DataIdx = bnd DataIdx_read (\<lambda>x. ret (Imm_DataIdx x))"
| "Immediate_read K_ElemIdx = bnd ElemIdx_read (\<lambda>x. ret (Imm_ElemIdx x))"
| "Immediate_read K_MemIdx = bnd MemIdx_read (\<lambda>x. ret (Imm_MemIdx x))"
| "Immediate_read K_BlockType = bnd BlockType_read (\<lambda>x. ret (Imm_BlockType x))"
| "Immediate_read K_BrTargets = bnd BrTargets_read (\<lambda>x. ret (Imm_BrTargets x))"
| "Immediate_read K_IndirectCall = bnd IndirectCall_read (\<lambda>x. ret (Imm_IndirectCall x))"
| "Immediate_read K_SelectTypes = bnd SelectTypes_read (\<lambda>x. ret (Imm_SelectTypes x))"
| "Immediate_read K_MemArg = bnd MemArg_read (\<lambda>x. ret (Imm_MemArg x))"
| "Immediate_read K_i32 = bnd read_s32 (\<lambda>x. ret (Imm_i32 x))"
| "Immediate_read K_i64 = bnd read_s64 (\<lambda>x. ret (Imm_i64 x))"
| "Immediate_read K_Ieee32 = bnd Ieee32_read (\<lambda>x. ret (Imm_Ieee32 x))"
| "Immediate_read K_Ieee64 = bnd Ieee64_read (\<lambda>x. ret (Imm_Ieee64 x))"
| "Immediate_read K_V128Bytes = bnd V128Bytes_read (\<lambda>x. ret (Imm_V128Bytes x))"
| "Immediate_read K_ShuffleLanes = bnd ShuffleLanes_read (\<lambda>x. ret (Imm_ShuffleLanes x))"
| "Immediate_read K_LaneIdx = bnd LaneIdx_read (\<lambda>x. ret (Imm_LaneIdx x))"
| "Immediate_read K_MemArgLane = bnd MemArgLane_read (\<lambda>x. ret (Imm_MemArgLane x))"
| "Immediate_read K_HeapType = bnd HeapType_read (\<lambda>x. ret (Imm_HeapType x))"
| "Immediate_read K_NonNull = bnd NonNull_read (\<lambda>x. ret (Imm_NonNull x))"
| "Immediate_read K_Nullable = bnd Nullable_read (\<lambda>x. ret (Imm_Nullable x))"
| "Immediate_read K_CastBranch = bnd CastBranch_read (\<lambda>x. ret (Imm_CastBranch x))"
| "Immediate_read K_FieldRef = bnd FieldRef_read (\<lambda>x. ret (Imm_FieldRef x))"
| "Immediate_read K_FixedArray = bnd FixedArray_read (\<lambda>x. ret (Imm_FixedArray x))"
| "Immediate_read K_ArrayData = bnd ArrayData_read (\<lambda>x. ret (Imm_ArrayData x))"
| "Immediate_read K_ArrayElem = bnd ArrayElem_read (\<lambda>x. ret (Imm_ArrayElem x))"
| "Immediate_read K_ArrayPair = bnd ArrayPair_read (\<lambda>x. ret (Imm_ArrayPair x))"
| "Immediate_read K_TryTable = bnd TryTable_read (\<lambda>x. ret (Imm_TryTable x))"
| "Immediate_read K_FenceZero = bnd FenceZero_read (\<lambda>x. ret (Imm_FenceZero x))"
| "Immediate_read K_DataToMemory = bnd DataToMemory_read (\<lambda>x. ret (Imm_DataToMemory x))"
| "Immediate_read K_MemoryPair = bnd MemoryPair_read (\<lambda>x. ret (Imm_MemoryPair x))"
| "Immediate_read K_ElemToTable = bnd ElemToTable_read (\<lambda>x. ret (Imm_ElemToTable x))"
| "Immediate_read K_TablePair = bnd TablePair_read (\<lambda>x. ret (Imm_TablePair x))"

section \<open>Every immediate keeps within bounds\<close>

lemma Immediate_parts_reads [reads_facts]:
  "reads lo hi 2 BrTargets_read" "reads lo hi 2 IndirectCall_read" "reads lo hi 1 SelectTypes_read"
  "reads lo hi 2 MemArg_read" "reads lo hi 4 Ieee32_read" "reads lo hi 8 Ieee64_read"
  "reads lo hi 16 V128Bytes_read" "reads lo hi 16 ShuffleLanes_read" "reads lo hi 1 LaneIdx_read"
  "reads lo hi 1 NonNull_read" "reads lo hi 1 Nullable_read" "reads lo hi 4 CastBranch_read"
  "reads lo hi 2 FieldRef_read" "reads lo hi 2 FixedArray_read" "reads lo hi 2 ArrayData_read"
  "reads lo hi 2 ArrayElem_read" "reads lo hi 2 ArrayPair_read" "reads lo hi 2 Catch_read"
  "reads lo hi 1 FenceZero_read" "reads lo hi 2 DataToMemory_read" "reads lo hi 2 MemoryPair_read"
  "reads lo hi 2 ElemToTable_read" "reads lo hi 2 TablePair_read"
  unfolding BrTargets_read_def IndirectCall_read_def SelectTypes_read_def MemArg_read_def Ieee32_read_def
    Ieee64_read_def V128Bytes_read_def ShuffleLanes_read_def LaneIdx_read_def NonNull_read_def
    Nullable_read_def CastBranch_read_def FieldRef_read_def FixedArray_read_def ArrayData_read_def
    ArrayElem_read_def ArrayPair_read_def Catch_read_def FenceZero_read_def DataToMemory_read_def
    MemoryPair_read_def ElemToTable_read_def TablePair_read_def
  by (rule reads_intros reads_facts | (rule reads_weaken, rule reads_facts reads_rep) | simp)+

lemma Immediate_compounds_reads [reads_facts]:
  "reads lo hi 3 MemArgLane_read" "reads lo hi 2 TryTable_read"
  unfolding MemArgLane_read_def TryTable_read_def
  by (rule reads_intros reads_facts | (rule reads_weaken, rule reads_facts reads_rep) | simp)+

lemma Immediate_read_reads [reads_facts]: "reads lo hi 0 (Immediate_read k)"
  by (cases k; simp only: Immediate_read.simps)
    (rule reads_intros reads_facts | (rule reads_weaken, rule reads_facts) | simp)+

end
