(* ===== verification/Wasm_Opcodes.thy ===== *)
theory Wasm_Opcodes
  imports Wasm_Instr
begin

text \<open>
  The instructions and their one table, the macro \<open>instructions!\<close> of
  \<open>src/crates/n0xis-wasm/src/instr.rs\<close> and its invocation. A row of the table is the code, the
  variant of the Rust enum, the type of the immediate and the text name; everything the
  macro generates is a function of the rows here too: the decoders \<open>decode_plain\<close> to
  \<open>decode_fe\<close>, \<open>OPCODES\<close>, \<open>name\<close> and \<open>opcode\<close>. An \<open>Instr\<close> is a variant, by its name in the
  source, with its payload.
\<close>

section \<open>Instructions\<close>

datatype Instr = Instr string Immediate

fun variant :: "Instr \<Rightarrow> string" where
  "variant (Instr v _) = v"

record Located =
  lo_offset :: nat
  lo_instr :: Instr

record Opcode =
  op_prefix :: "u8 option"
  op_code :: u32
  op_name :: string

type_synonym row = "nat \<times> string \<times> ImmKind \<times> string"

section \<open>The table\<close>

definition plain_rows_1 :: "row list" where
  "plain_rows_1 =
    [(0x00, ''Unreachable'', K_None, ''unreachable''),
     (0x01, ''Nop'', K_None, ''nop''),
     (0x02, ''Block'', K_BlockType, ''block''),
     (0x03, ''Loop'', K_BlockType, ''loop''),
     (0x04, ''If'', K_BlockType, ''if''),
     (0x05, ''Else'', K_None, ''else''),
     (0x06, ''Try'', K_BlockType, ''try''),
     (0x07, ''Catch'', K_TagIdx, ''catch''),
     (0x08, ''Throw'', K_TagIdx, ''throw''),
     (0x09, ''Rethrow'', K_LabelIdx, ''rethrow''),
     (0x0a, ''ThrowRef'', K_None, ''throw_ref''),
     (0x0b, ''End'', K_None, ''end''),
     (0x0c, ''Br'', K_LabelIdx, ''br''),
     (0x0d, ''BrIf'', K_LabelIdx, ''br_if''),
     (0x0e, ''BrTable'', K_BrTargets, ''br_table''),
     (0x0f, ''Return'', K_None, ''return''),
     (0x10, ''Call'', K_FuncIdx, ''call''),
     (0x11, ''CallIndirect'', K_IndirectCall, ''call_indirect''),
     (0x12, ''ReturnCall'', K_FuncIdx, ''return_call''),
     (0x13, ''ReturnCallIndirect'', K_IndirectCall, ''return_call_indirect''),
     (0x14, ''CallRef'', K_TypeIdx, ''call_ref''),
     (0x15, ''ReturnCallRef'', K_TypeIdx, ''return_call_ref''),
     (0x18, ''Delegate'', K_LabelIdx, ''delegate''),
     (0x19, ''CatchAll'', K_None, ''catch_all''),
     (0x1a, ''Drop'', K_None, ''drop''),
     (0x1b, ''Select'', K_None, ''select''),
     (0x1c, ''SelectTyped'', K_SelectTypes, ''select''),
     (0x1f, ''TryTable'', K_TryTable, ''try_table''),
     (0x20, ''LocalGet'', K_LocalIdx, ''local.get''),
     (0x21, ''LocalSet'', K_LocalIdx, ''local.set''),
     (0x22, ''LocalTee'', K_LocalIdx, ''local.tee''),
     (0x23, ''GlobalGet'', K_GlobalIdx, ''global.get''),
     (0x24, ''GlobalSet'', K_GlobalIdx, ''global.set''),
     (0x25, ''TableGet'', K_TableIdx, ''table.get''),
     (0x26, ''TableSet'', K_TableIdx, ''table.set''),
     (0x28, ''I32Load'', K_MemArg, ''i32.load''),
     (0x29, ''I64Load'', K_MemArg, ''i64.load''),
     (0x2a, ''F32Load'', K_MemArg, ''f32.load''),
     (0x2b, ''F64Load'', K_MemArg, ''f64.load''),
     (0x2c, ''I32Load8S'', K_MemArg, ''i32.load8_s''),
     (0x2d, ''I32Load8U'', K_MemArg, ''i32.load8_u''),
     (0x2e, ''I32Load16S'', K_MemArg, ''i32.load16_s''),
     (0x2f, ''I32Load16U'', K_MemArg, ''i32.load16_u''),
     (0x30, ''I64Load8S'', K_MemArg, ''i64.load8_s''),
     (0x31, ''I64Load8U'', K_MemArg, ''i64.load8_u''),
     (0x32, ''I64Load16S'', K_MemArg, ''i64.load16_s''),
     (0x33, ''I64Load16U'', K_MemArg, ''i64.load16_u''),
     (0x34, ''I64Load32S'', K_MemArg, ''i64.load32_s''),
     (0x35, ''I64Load32U'', K_MemArg, ''i64.load32_u''),
     (0x36, ''I32Store'', K_MemArg, ''i32.store''),
     (0x37, ''I64Store'', K_MemArg, ''i64.store''),
     (0x38, ''F32Store'', K_MemArg, ''f32.store''),
     (0x39, ''F64Store'', K_MemArg, ''f64.store''),
     (0x3a, ''I32Store8'', K_MemArg, ''i32.store8''),
     (0x3b, ''I32Store16'', K_MemArg, ''i32.store16''),
     (0x3c, ''I64Store8'', K_MemArg, ''i64.store8''),
     (0x3d, ''I64Store16'', K_MemArg, ''i64.store16''),
     (0x3e, ''I64Store32'', K_MemArg, ''i64.store32''),
     (0x3f, ''MemorySize'', K_MemIdx, ''memory.size''),
     (0x40, ''MemoryGrow'', K_MemIdx, ''memory.grow''),
     (0x41, ''I32Const'', K_i32, ''i32.const''),
     (0x42, ''I64Const'', K_i64, ''i64.const''),
     (0x43, ''F32Const'', K_Ieee32, ''f32.const''),
     (0x44, ''F64Const'', K_Ieee64, ''f64.const''),
     (0x45, ''I32Eqz'', K_None, ''i32.eqz''),
     (0x46, ''I32Eq'', K_None, ''i32.eq''),
     (0x47, ''I32Ne'', K_None, ''i32.ne''),
     (0x48, ''I32LtS'', K_None, ''i32.lt_s''),
     (0x49, ''I32LtU'', K_None, ''i32.lt_u''),
     (0x4a, ''I32GtS'', K_None, ''i32.gt_s''),
     (0x4b, ''I32GtU'', K_None, ''i32.gt_u''),
     (0x4c, ''I32LeS'', K_None, ''i32.le_s''),
     (0x4d, ''I32LeU'', K_None, ''i32.le_u''),
     (0x4e, ''I32GeS'', K_None, ''i32.ge_s''),
     (0x4f, ''I32GeU'', K_None, ''i32.ge_u''),
     (0x50, ''I64Eqz'', K_None, ''i64.eqz''),
     (0x51, ''I64Eq'', K_None, ''i64.eq''),
     (0x52, ''I64Ne'', K_None, ''i64.ne''),
     (0x53, ''I64LtS'', K_None, ''i64.lt_s''),
     (0x54, ''I64LtU'', K_None, ''i64.lt_u''),
     (0x55, ''I64GtS'', K_None, ''i64.gt_s''),
     (0x56, ''I64GtU'', K_None, ''i64.gt_u''),
     (0x57, ''I64LeS'', K_None, ''i64.le_s''),
     (0x58, ''I64LeU'', K_None, ''i64.le_u''),
     (0x59, ''I64GeS'', K_None, ''i64.ge_s''),
     (0x5a, ''I64GeU'', K_None, ''i64.ge_u''),
     (0x5b, ''F32Eq'', K_None, ''f32.eq''),
     (0x5c, ''F32Ne'', K_None, ''f32.ne''),
     (0x5d, ''F32Lt'', K_None, ''f32.lt''),
     (0x5e, ''F32Gt'', K_None, ''f32.gt''),
     (0x5f, ''F32Le'', K_None, ''f32.le''),
     (0x60, ''F32Ge'', K_None, ''f32.ge''),
     (0x61, ''F64Eq'', K_None, ''f64.eq''),
     (0x62, ''F64Ne'', K_None, ''f64.ne''),
     (0x63, ''F64Lt'', K_None, ''f64.lt''),
     (0x64, ''F64Gt'', K_None, ''f64.gt''),
     (0x65, ''F64Le'', K_None, ''f64.le''),
     (0x66, ''F64Ge'', K_None, ''f64.ge''),
     (0x67, ''I32Clz'', K_None, ''i32.clz''),
     (0x68, ''I32Ctz'', K_None, ''i32.ctz''),
     (0x69, ''I32Popcnt'', K_None, ''i32.popcnt''),
     (0x6a, ''I32Add'', K_None, ''i32.add''),
     (0x6b, ''I32Sub'', K_None, ''i32.sub''),
     (0x6c, ''I32Mul'', K_None, ''i32.mul''),
     (0x6d, ''I32DivS'', K_None, ''i32.div_s''),
     (0x6e, ''I32DivU'', K_None, ''i32.div_u''),
     (0x6f, ''I32RemS'', K_None, ''i32.rem_s''),
     (0x70, ''I32RemU'', K_None, ''i32.rem_u''),
     (0x71, ''I32And'', K_None, ''i32.and''),
     (0x72, ''I32Or'', K_None, ''i32.or''),
     (0x73, ''I32Xor'', K_None, ''i32.xor''),
     (0x74, ''I32Shl'', K_None, ''i32.shl''),
     (0x75, ''I32ShrS'', K_None, ''i32.shr_s''),
     (0x76, ''I32ShrU'', K_None, ''i32.shr_u''),
     (0x77, ''I32Rotl'', K_None, ''i32.rotl''),
     (0x78, ''I32Rotr'', K_None, ''i32.rotr''),
     (0x79, ''I64Clz'', K_None, ''i64.clz''),
     (0x7a, ''I64Ctz'', K_None, ''i64.ctz''),
     (0x7b, ''I64Popcnt'', K_None, ''i64.popcnt''),
     (0x7c, ''I64Add'', K_None, ''i64.add''),
     (0x7d, ''I64Sub'', K_None, ''i64.sub''),
     (0x7e, ''I64Mul'', K_None, ''i64.mul''),
     (0x7f, ''I64DivS'', K_None, ''i64.div_s''),
     (0x80, ''I64DivU'', K_None, ''i64.div_u''),
     (0x81, ''I64RemS'', K_None, ''i64.rem_s''),
     (0x82, ''I64RemU'', K_None, ''i64.rem_u''),
     (0x83, ''I64And'', K_None, ''i64.and''),
     (0x84, ''I64Or'', K_None, ''i64.or''),
     (0x85, ''I64Xor'', K_None, ''i64.xor''),
     (0x86, ''I64Shl'', K_None, ''i64.shl''),
     (0x87, ''I64ShrS'', K_None, ''i64.shr_s''),
     (0x88, ''I64ShrU'', K_None, ''i64.shr_u''),
     (0x89, ''I64Rotl'', K_None, ''i64.rotl''),
     (0x8a, ''I64Rotr'', K_None, ''i64.rotr''),
     (0x8b, ''F32Abs'', K_None, ''f32.abs''),
     (0x8c, ''F32Neg'', K_None, ''f32.neg''),
     (0x8d, ''F32Ceil'', K_None, ''f32.ceil''),
     (0x8e, ''F32Floor'', K_None, ''f32.floor''),
     (0x8f, ''F32Trunc'', K_None, ''f32.trunc''),
     (0x90, ''F32Nearest'', K_None, ''f32.nearest'')]"

definition plain_rows_2 :: "row list" where
  "plain_rows_2 =
    [(0x91, ''F32Sqrt'', K_None, ''f32.sqrt''),
     (0x92, ''F32Add'', K_None, ''f32.add''),
     (0x93, ''F32Sub'', K_None, ''f32.sub''),
     (0x94, ''F32Mul'', K_None, ''f32.mul''),
     (0x95, ''F32Div'', K_None, ''f32.div''),
     (0x96, ''F32Min'', K_None, ''f32.min''),
     (0x97, ''F32Max'', K_None, ''f32.max''),
     (0x98, ''F32Copysign'', K_None, ''f32.copysign''),
     (0x99, ''F64Abs'', K_None, ''f64.abs''),
     (0x9a, ''F64Neg'', K_None, ''f64.neg''),
     (0x9b, ''F64Ceil'', K_None, ''f64.ceil''),
     (0x9c, ''F64Floor'', K_None, ''f64.floor''),
     (0x9d, ''F64Trunc'', K_None, ''f64.trunc''),
     (0x9e, ''F64Nearest'', K_None, ''f64.nearest''),
     (0x9f, ''F64Sqrt'', K_None, ''f64.sqrt''),
     (0xa0, ''F64Add'', K_None, ''f64.add''),
     (0xa1, ''F64Sub'', K_None, ''f64.sub''),
     (0xa2, ''F64Mul'', K_None, ''f64.mul''),
     (0xa3, ''F64Div'', K_None, ''f64.div''),
     (0xa4, ''F64Min'', K_None, ''f64.min''),
     (0xa5, ''F64Max'', K_None, ''f64.max''),
     (0xa6, ''F64Copysign'', K_None, ''f64.copysign''),
     (0xa7, ''I32WrapI64'', K_None, ''i32.wrap_i64''),
     (0xa8, ''I32TruncF32S'', K_None, ''i32.trunc_f32_s''),
     (0xa9, ''I32TruncF32U'', K_None, ''i32.trunc_f32_u''),
     (0xaa, ''I32TruncF64S'', K_None, ''i32.trunc_f64_s''),
     (0xab, ''I32TruncF64U'', K_None, ''i32.trunc_f64_u''),
     (0xac, ''I64ExtendI32S'', K_None, ''i64.extend_i32_s''),
     (0xad, ''I64ExtendI32U'', K_None, ''i64.extend_i32_u''),
     (0xae, ''I64TruncF32S'', K_None, ''i64.trunc_f32_s''),
     (0xaf, ''I64TruncF32U'', K_None, ''i64.trunc_f32_u''),
     (0xb0, ''I64TruncF64S'', K_None, ''i64.trunc_f64_s''),
     (0xb1, ''I64TruncF64U'', K_None, ''i64.trunc_f64_u''),
     (0xb2, ''F32ConvertI32S'', K_None, ''f32.convert_i32_s''),
     (0xb3, ''F32ConvertI32U'', K_None, ''f32.convert_i32_u''),
     (0xb4, ''F32ConvertI64S'', K_None, ''f32.convert_i64_s''),
     (0xb5, ''F32ConvertI64U'', K_None, ''f32.convert_i64_u''),
     (0xb6, ''F32DemoteF64'', K_None, ''f32.demote_f64''),
     (0xb7, ''F64ConvertI32S'', K_None, ''f64.convert_i32_s''),
     (0xb8, ''F64ConvertI32U'', K_None, ''f64.convert_i32_u''),
     (0xb9, ''F64ConvertI64S'', K_None, ''f64.convert_i64_s''),
     (0xba, ''F64ConvertI64U'', K_None, ''f64.convert_i64_u''),
     (0xbb, ''F64PromoteF32'', K_None, ''f64.promote_f32''),
     (0xbc, ''I32ReinterpretF32'', K_None, ''i32.reinterpret_f32''),
     (0xbd, ''I64ReinterpretF64'', K_None, ''i64.reinterpret_f64''),
     (0xbe, ''F32ReinterpretI32'', K_None, ''f32.reinterpret_i32''),
     (0xbf, ''F64ReinterpretI64'', K_None, ''f64.reinterpret_i64''),
     (0xc0, ''I32Extend8S'', K_None, ''i32.extend8_s''),
     (0xc1, ''I32Extend16S'', K_None, ''i32.extend16_s''),
     (0xc2, ''I64Extend8S'', K_None, ''i64.extend8_s''),
     (0xc3, ''I64Extend16S'', K_None, ''i64.extend16_s''),
     (0xc4, ''I64Extend32S'', K_None, ''i64.extend32_s''),
     (0xd0, ''RefNull'', K_HeapType, ''ref.null''),
     (0xd1, ''RefIsNull'', K_None, ''ref.is_null''),
     (0xd2, ''RefFunc'', K_FuncIdx, ''ref.func''),
     (0xd3, ''RefEq'', K_None, ''ref.eq''),
     (0xd4, ''RefAsNonNull'', K_None, ''ref.as_non_null''),
     (0xd5, ''BrOnNull'', K_LabelIdx, ''br_on_null''),
     (0xd6, ''BrOnNonNull'', K_LabelIdx, ''br_on_non_null'')]"

definition plain_rows :: "row list" where
  "plain_rows = plain_rows_1 @ plain_rows_2"

definition fb_rows :: "row list" where
  "fb_rows =
    [(0, ''StructNew'', K_TypeIdx, ''struct.new''),
     (1, ''StructNewDefault'', K_TypeIdx, ''struct.new_default''),
     (2, ''StructGet'', K_FieldRef, ''struct.get''),
     (3, ''StructGetS'', K_FieldRef, ''struct.get_s''),
     (4, ''StructGetU'', K_FieldRef, ''struct.get_u''),
     (5, ''StructSet'', K_FieldRef, ''struct.set''),
     (6, ''ArrayNew'', K_TypeIdx, ''array.new''),
     (7, ''ArrayNewDefault'', K_TypeIdx, ''array.new_default''),
     (8, ''ArrayNewFixed'', K_FixedArray, ''array.new_fixed''),
     (9, ''ArrayNewData'', K_ArrayData, ''array.new_data''),
     (10, ''ArrayNewElem'', K_ArrayElem, ''array.new_elem''),
     (11, ''ArrayGet'', K_TypeIdx, ''array.get''),
     (12, ''ArrayGetS'', K_TypeIdx, ''array.get_s''),
     (13, ''ArrayGetU'', K_TypeIdx, ''array.get_u''),
     (14, ''ArraySet'', K_TypeIdx, ''array.set''),
     (15, ''ArrayLen'', K_None, ''array.len''),
     (16, ''ArrayFill'', K_TypeIdx, ''array.fill''),
     (17, ''ArrayCopy'', K_ArrayPair, ''array.copy''),
     (18, ''ArrayInitData'', K_ArrayData, ''array.init_data''),
     (19, ''ArrayInitElem'', K_ArrayElem, ''array.init_elem''),
     (20, ''RefTest'', K_NonNull, ''ref.test''),
     (21, ''RefTestNull'', K_Nullable, ''ref.test''),
     (22, ''RefCast'', K_NonNull, ''ref.cast''),
     (23, ''RefCastNull'', K_Nullable, ''ref.cast''),
     (24, ''BrOnCast'', K_CastBranch, ''br_on_cast''),
     (25, ''BrOnCastFail'', K_CastBranch, ''br_on_cast_fail''),
     (26, ''AnyConvertExtern'', K_None, ''any.convert_extern''),
     (27, ''ExternConvertAny'', K_None, ''extern.convert_any''),
     (28, ''RefI31'', K_None, ''ref.i31''),
     (29, ''I31GetS'', K_None, ''i31.get_s''),
     (30, ''I31GetU'', K_None, ''i31.get_u'')]"

definition fc_rows :: "row list" where
  "fc_rows =
    [(0x00, ''I32TruncSatF32S'', K_None, ''i32.trunc_sat_f32_s''),
     (0x01, ''I32TruncSatF32U'', K_None, ''i32.trunc_sat_f32_u''),
     (0x02, ''I32TruncSatF64S'', K_None, ''i32.trunc_sat_f64_s''),
     (0x03, ''I32TruncSatF64U'', K_None, ''i32.trunc_sat_f64_u''),
     (0x04, ''I64TruncSatF32S'', K_None, ''i64.trunc_sat_f32_s''),
     (0x05, ''I64TruncSatF32U'', K_None, ''i64.trunc_sat_f32_u''),
     (0x06, ''I64TruncSatF64S'', K_None, ''i64.trunc_sat_f64_s''),
     (0x07, ''I64TruncSatF64U'', K_None, ''i64.trunc_sat_f64_u''),
     (0x08, ''MemoryInit'', K_DataToMemory, ''memory.init''),
     (0x09, ''DataDrop'', K_DataIdx, ''data.drop''),
     (0x0a, ''MemoryCopy'', K_MemoryPair, ''memory.copy''),
     (0x0b, ''MemoryFill'', K_MemIdx, ''memory.fill''),
     (0x0c, ''TableInit'', K_ElemToTable, ''table.init''),
     (0x0d, ''ElemDrop'', K_ElemIdx, ''elem.drop''),
     (0x0e, ''TableCopy'', K_TablePair, ''table.copy''),
     (0x0f, ''TableGrow'', K_TableIdx, ''table.grow''),
     (0x10, ''TableSize'', K_TableIdx, ''table.size''),
     (0x11, ''TableFill'', K_TableIdx, ''table.fill'')]"

definition fd_rows_1 :: "row list" where
  "fd_rows_1 =
    [(0x00, ''V128Load'', K_MemArg, ''v128.load''),
     (0x01, ''V128Load8x8S'', K_MemArg, ''v128.load8x8_s''),
     (0x02, ''V128Load8x8U'', K_MemArg, ''v128.load8x8_u''),
     (0x03, ''V128Load16x4S'', K_MemArg, ''v128.load16x4_s''),
     (0x04, ''V128Load16x4U'', K_MemArg, ''v128.load16x4_u''),
     (0x05, ''V128Load32x2S'', K_MemArg, ''v128.load32x2_s''),
     (0x06, ''V128Load32x2U'', K_MemArg, ''v128.load32x2_u''),
     (0x07, ''V128Load8Splat'', K_MemArg, ''v128.load8_splat''),
     (0x08, ''V128Load16Splat'', K_MemArg, ''v128.load16_splat''),
     (0x09, ''V128Load32Splat'', K_MemArg, ''v128.load32_splat''),
     (0x0a, ''V128Load64Splat'', K_MemArg, ''v128.load64_splat''),
     (0x0b, ''V128Store'', K_MemArg, ''v128.store''),
     (0x0c, ''V128Const'', K_V128Bytes, ''v128.const''),
     (0x0d, ''I8x16Shuffle'', K_ShuffleLanes, ''i8x16.shuffle''),
     (0x0e, ''I8x16Swizzle'', K_None, ''i8x16.swizzle''),
     (0x0f, ''I8x16Splat'', K_None, ''i8x16.splat''),
     (0x10, ''I16x8Splat'', K_None, ''i16x8.splat''),
     (0x11, ''I32x4Splat'', K_None, ''i32x4.splat''),
     (0x12, ''I64x2Splat'', K_None, ''i64x2.splat''),
     (0x13, ''F32x4Splat'', K_None, ''f32x4.splat''),
     (0x14, ''F64x2Splat'', K_None, ''f64x2.splat''),
     (0x15, ''I8x16ExtractLaneS'', K_LaneIdx, ''i8x16.extract_lane_s''),
     (0x16, ''I8x16ExtractLaneU'', K_LaneIdx, ''i8x16.extract_lane_u''),
     (0x17, ''I8x16ReplaceLane'', K_LaneIdx, ''i8x16.replace_lane''),
     (0x18, ''I16x8ExtractLaneS'', K_LaneIdx, ''i16x8.extract_lane_s''),
     (0x19, ''I16x8ExtractLaneU'', K_LaneIdx, ''i16x8.extract_lane_u''),
     (0x1a, ''I16x8ReplaceLane'', K_LaneIdx, ''i16x8.replace_lane''),
     (0x1b, ''I32x4ExtractLane'', K_LaneIdx, ''i32x4.extract_lane''),
     (0x1c, ''I32x4ReplaceLane'', K_LaneIdx, ''i32x4.replace_lane''),
     (0x1d, ''I64x2ExtractLane'', K_LaneIdx, ''i64x2.extract_lane''),
     (0x1e, ''I64x2ReplaceLane'', K_LaneIdx, ''i64x2.replace_lane''),
     (0x1f, ''F32x4ExtractLane'', K_LaneIdx, ''f32x4.extract_lane''),
     (0x20, ''F32x4ReplaceLane'', K_LaneIdx, ''f32x4.replace_lane''),
     (0x21, ''F64x2ExtractLane'', K_LaneIdx, ''f64x2.extract_lane''),
     (0x22, ''F64x2ReplaceLane'', K_LaneIdx, ''f64x2.replace_lane''),
     (0x23, ''I8x16Eq'', K_None, ''i8x16.eq''),
     (0x24, ''I8x16Ne'', K_None, ''i8x16.ne''),
     (0x25, ''I8x16LtS'', K_None, ''i8x16.lt_s''),
     (0x26, ''I8x16LtU'', K_None, ''i8x16.lt_u''),
     (0x27, ''I8x16GtS'', K_None, ''i8x16.gt_s''),
     (0x28, ''I8x16GtU'', K_None, ''i8x16.gt_u''),
     (0x29, ''I8x16LeS'', K_None, ''i8x16.le_s''),
     (0x2a, ''I8x16LeU'', K_None, ''i8x16.le_u''),
     (0x2b, ''I8x16GeS'', K_None, ''i8x16.ge_s''),
     (0x2c, ''I8x16GeU'', K_None, ''i8x16.ge_u''),
     (0x2d, ''I16x8Eq'', K_None, ''i16x8.eq''),
     (0x2e, ''I16x8Ne'', K_None, ''i16x8.ne''),
     (0x2f, ''I16x8LtS'', K_None, ''i16x8.lt_s''),
     (0x30, ''I16x8LtU'', K_None, ''i16x8.lt_u''),
     (0x31, ''I16x8GtS'', K_None, ''i16x8.gt_s''),
     (0x32, ''I16x8GtU'', K_None, ''i16x8.gt_u''),
     (0x33, ''I16x8LeS'', K_None, ''i16x8.le_s''),
     (0x34, ''I16x8LeU'', K_None, ''i16x8.le_u''),
     (0x35, ''I16x8GeS'', K_None, ''i16x8.ge_s''),
     (0x36, ''I16x8GeU'', K_None, ''i16x8.ge_u''),
     (0x37, ''I32x4Eq'', K_None, ''i32x4.eq''),
     (0x38, ''I32x4Ne'', K_None, ''i32x4.ne''),
     (0x39, ''I32x4LtS'', K_None, ''i32x4.lt_s''),
     (0x3a, ''I32x4LtU'', K_None, ''i32x4.lt_u''),
     (0x3b, ''I32x4GtS'', K_None, ''i32x4.gt_s''),
     (0x3c, ''I32x4GtU'', K_None, ''i32x4.gt_u''),
     (0x3d, ''I32x4LeS'', K_None, ''i32x4.le_s''),
     (0x3e, ''I32x4LeU'', K_None, ''i32x4.le_u''),
     (0x3f, ''I32x4GeS'', K_None, ''i32x4.ge_s''),
     (0x40, ''I32x4GeU'', K_None, ''i32x4.ge_u''),
     (0x41, ''F32x4Eq'', K_None, ''f32x4.eq''),
     (0x42, ''F32x4Ne'', K_None, ''f32x4.ne''),
     (0x43, ''F32x4Lt'', K_None, ''f32x4.lt''),
     (0x44, ''F32x4Gt'', K_None, ''f32x4.gt''),
     (0x45, ''F32x4Le'', K_None, ''f32x4.le''),
     (0x46, ''F32x4Ge'', K_None, ''f32x4.ge''),
     (0x47, ''F64x2Eq'', K_None, ''f64x2.eq''),
     (0x48, ''F64x2Ne'', K_None, ''f64x2.ne''),
     (0x49, ''F64x2Lt'', K_None, ''f64x2.lt''),
     (0x4a, ''F64x2Gt'', K_None, ''f64x2.gt''),
     (0x4b, ''F64x2Le'', K_None, ''f64x2.le''),
     (0x4c, ''F64x2Ge'', K_None, ''f64x2.ge''),
     (0x4d, ''V128Not'', K_None, ''v128.not''),
     (0x4e, ''V128And'', K_None, ''v128.and''),
     (0x4f, ''V128Andnot'', K_None, ''v128.andnot''),
     (0x50, ''V128Or'', K_None, ''v128.or''),
     (0x51, ''V128Xor'', K_None, ''v128.xor''),
     (0x52, ''V128Bitselect'', K_None, ''v128.bitselect''),
     (0x53, ''V128AnyTrue'', K_None, ''v128.any_true''),
     (0x54, ''V128Load8Lane'', K_MemArgLane, ''v128.load8_lane''),
     (0x55, ''V128Load16Lane'', K_MemArgLane, ''v128.load16_lane''),
     (0x56, ''V128Load32Lane'', K_MemArgLane, ''v128.load32_lane''),
     (0x57, ''V128Load64Lane'', K_MemArgLane, ''v128.load64_lane''),
     (0x58, ''V128Store8Lane'', K_MemArgLane, ''v128.store8_lane''),
     (0x59, ''V128Store16Lane'', K_MemArgLane, ''v128.store16_lane''),
     (0x5a, ''V128Store32Lane'', K_MemArgLane, ''v128.store32_lane''),
     (0x5b, ''V128Store64Lane'', K_MemArgLane, ''v128.store64_lane''),
     (0x5c, ''V128Load32Zero'', K_MemArg, ''v128.load32_zero''),
     (0x5d, ''V128Load64Zero'', K_MemArg, ''v128.load64_zero''),
     (0x5e, ''F32x4DemoteF64x2Zero'', K_None, ''f32x4.demote_f64x2_zero''),
     (0x5f, ''F64x2PromoteLowF32x4'', K_None, ''f64x2.promote_low_f32x4''),
     (0x60, ''I8x16Abs'', K_None, ''i8x16.abs''),
     (0x61, ''I8x16Neg'', K_None, ''i8x16.neg''),
     (0x62, ''I8x16Popcnt'', K_None, ''i8x16.popcnt''),
     (0x63, ''I8x16AllTrue'', K_None, ''i8x16.all_true''),
     (0x64, ''I8x16Bitmask'', K_None, ''i8x16.bitmask''),
     (0x65, ''I8x16NarrowI16x8S'', K_None, ''i8x16.narrow_i16x8_s''),
     (0x66, ''I8x16NarrowI16x8U'', K_None, ''i8x16.narrow_i16x8_u''),
     (0x67, ''F32x4Ceil'', K_None, ''f32x4.ceil''),
     (0x68, ''F32x4Floor'', K_None, ''f32x4.floor''),
     (0x69, ''F32x4Trunc'', K_None, ''f32x4.trunc''),
     (0x6a, ''F32x4Nearest'', K_None, ''f32x4.nearest''),
     (0x6b, ''I8x16Shl'', K_None, ''i8x16.shl''),
     (0x6c, ''I8x16ShrS'', K_None, ''i8x16.shr_s''),
     (0x6d, ''I8x16ShrU'', K_None, ''i8x16.shr_u''),
     (0x6e, ''I8x16Add'', K_None, ''i8x16.add''),
     (0x6f, ''I8x16AddSatS'', K_None, ''i8x16.add_sat_s''),
     (0x70, ''I8x16AddSatU'', K_None, ''i8x16.add_sat_u''),
     (0x71, ''I8x16Sub'', K_None, ''i8x16.sub''),
     (0x72, ''I8x16SubSatS'', K_None, ''i8x16.sub_sat_s''),
     (0x73, ''I8x16SubSatU'', K_None, ''i8x16.sub_sat_u''),
     (0x74, ''F64x2Ceil'', K_None, ''f64x2.ceil''),
     (0x75, ''F64x2Floor'', K_None, ''f64x2.floor''),
     (0x76, ''I8x16MinS'', K_None, ''i8x16.min_s''),
     (0x77, ''I8x16MinU'', K_None, ''i8x16.min_u''),
     (0x78, ''I8x16MaxS'', K_None, ''i8x16.max_s''),
     (0x79, ''I8x16MaxU'', K_None, ''i8x16.max_u''),
     (0x7a, ''F64x2Trunc'', K_None, ''f64x2.trunc''),
     (0x7b, ''I8x16AvgrU'', K_None, ''i8x16.avgr_u''),
     (0x7c, ''I16x8ExtaddPairwiseI8x16S'', K_None, ''i16x8.extadd_pairwise_i8x16_s''),
     (0x7d, ''I16x8ExtaddPairwiseI8x16U'', K_None, ''i16x8.extadd_pairwise_i8x16_u''),
     (0x7e, ''I32x4ExtaddPairwiseI16x8S'', K_None, ''i32x4.extadd_pairwise_i16x8_s''),
     (0x7f, ''I32x4ExtaddPairwiseI16x8U'', K_None, ''i32x4.extadd_pairwise_i16x8_u''),
     (0x80, ''I16x8Abs'', K_None, ''i16x8.abs''),
     (0x81, ''I16x8Neg'', K_None, ''i16x8.neg''),
     (0x82, ''I16x8Q15mulrSatS'', K_None, ''i16x8.q15mulr_sat_s''),
     (0x83, ''I16x8AllTrue'', K_None, ''i16x8.all_true''),
     (0x84, ''I16x8Bitmask'', K_None, ''i16x8.bitmask''),
     (0x85, ''I16x8NarrowI32x4S'', K_None, ''i16x8.narrow_i32x4_s''),
     (0x86, ''I16x8NarrowI32x4U'', K_None, ''i16x8.narrow_i32x4_u''),
     (0x87, ''I16x8ExtendLowI8x16S'', K_None, ''i16x8.extend_low_i8x16_s''),
     (0x88, ''I16x8ExtendHighI8x16S'', K_None, ''i16x8.extend_high_i8x16_s''),
     (0x89, ''I16x8ExtendLowI8x16U'', K_None, ''i16x8.extend_low_i8x16_u''),
     (0x8a, ''I16x8ExtendHighI8x16U'', K_None, ''i16x8.extend_high_i8x16_u''),
     (0x8b, ''I16x8Shl'', K_None, ''i16x8.shl'')]"

definition fd_rows_2 :: "row list" where
  "fd_rows_2 =
    [(0x8c, ''I16x8ShrS'', K_None, ''i16x8.shr_s''),
     (0x8d, ''I16x8ShrU'', K_None, ''i16x8.shr_u''),
     (0x8e, ''I16x8Add'', K_None, ''i16x8.add''),
     (0x8f, ''I16x8AddSatS'', K_None, ''i16x8.add_sat_s''),
     (0x90, ''I16x8AddSatU'', K_None, ''i16x8.add_sat_u''),
     (0x91, ''I16x8Sub'', K_None, ''i16x8.sub''),
     (0x92, ''I16x8SubSatS'', K_None, ''i16x8.sub_sat_s''),
     (0x93, ''I16x8SubSatU'', K_None, ''i16x8.sub_sat_u''),
     (0x94, ''F64x2Nearest'', K_None, ''f64x2.nearest''),
     (0x95, ''I16x8Mul'', K_None, ''i16x8.mul''),
     (0x96, ''I16x8MinS'', K_None, ''i16x8.min_s''),
     (0x97, ''I16x8MinU'', K_None, ''i16x8.min_u''),
     (0x98, ''I16x8MaxS'', K_None, ''i16x8.max_s''),
     (0x99, ''I16x8MaxU'', K_None, ''i16x8.max_u''),
     (0x9b, ''I16x8AvgrU'', K_None, ''i16x8.avgr_u''),
     (0x9c, ''I16x8ExtmulLowI8x16S'', K_None, ''i16x8.extmul_low_i8x16_s''),
     (0x9d, ''I16x8ExtmulHighI8x16S'', K_None, ''i16x8.extmul_high_i8x16_s''),
     (0x9e, ''I16x8ExtmulLowI8x16U'', K_None, ''i16x8.extmul_low_i8x16_u''),
     (0x9f, ''I16x8ExtmulHighI8x16U'', K_None, ''i16x8.extmul_high_i8x16_u''),
     (0xa0, ''I32x4Abs'', K_None, ''i32x4.abs''),
     (0xa1, ''I32x4Neg'', K_None, ''i32x4.neg''),
     (0xa3, ''I32x4AllTrue'', K_None, ''i32x4.all_true''),
     (0xa4, ''I32x4Bitmask'', K_None, ''i32x4.bitmask''),
     (0xa7, ''I32x4ExtendLowI16x8S'', K_None, ''i32x4.extend_low_i16x8_s''),
     (0xa8, ''I32x4ExtendHighI16x8S'', K_None, ''i32x4.extend_high_i16x8_s''),
     (0xa9, ''I32x4ExtendLowI16x8U'', K_None, ''i32x4.extend_low_i16x8_u''),
     (0xaa, ''I32x4ExtendHighI16x8U'', K_None, ''i32x4.extend_high_i16x8_u''),
     (0xab, ''I32x4Shl'', K_None, ''i32x4.shl''),
     (0xac, ''I32x4ShrS'', K_None, ''i32x4.shr_s''),
     (0xad, ''I32x4ShrU'', K_None, ''i32x4.shr_u''),
     (0xae, ''I32x4Add'', K_None, ''i32x4.add''),
     (0xb1, ''I32x4Sub'', K_None, ''i32x4.sub''),
     (0xb5, ''I32x4Mul'', K_None, ''i32x4.mul''),
     (0xb6, ''I32x4MinS'', K_None, ''i32x4.min_s''),
     (0xb7, ''I32x4MinU'', K_None, ''i32x4.min_u''),
     (0xb8, ''I32x4MaxS'', K_None, ''i32x4.max_s''),
     (0xb9, ''I32x4MaxU'', K_None, ''i32x4.max_u''),
     (0xba, ''I32x4DotI16x8S'', K_None, ''i32x4.dot_i16x8_s''),
     (0xbc, ''I32x4ExtmulLowI16x8S'', K_None, ''i32x4.extmul_low_i16x8_s''),
     (0xbd, ''I32x4ExtmulHighI16x8S'', K_None, ''i32x4.extmul_high_i16x8_s''),
     (0xbe, ''I32x4ExtmulLowI16x8U'', K_None, ''i32x4.extmul_low_i16x8_u''),
     (0xbf, ''I32x4ExtmulHighI16x8U'', K_None, ''i32x4.extmul_high_i16x8_u''),
     (0xc0, ''I64x2Abs'', K_None, ''i64x2.abs''),
     (0xc1, ''I64x2Neg'', K_None, ''i64x2.neg''),
     (0xc3, ''I64x2AllTrue'', K_None, ''i64x2.all_true''),
     (0xc4, ''I64x2Bitmask'', K_None, ''i64x2.bitmask''),
     (0xc7, ''I64x2ExtendLowI32x4S'', K_None, ''i64x2.extend_low_i32x4_s''),
     (0xc8, ''I64x2ExtendHighI32x4S'', K_None, ''i64x2.extend_high_i32x4_s''),
     (0xc9, ''I64x2ExtendLowI32x4U'', K_None, ''i64x2.extend_low_i32x4_u''),
     (0xca, ''I64x2ExtendHighI32x4U'', K_None, ''i64x2.extend_high_i32x4_u''),
     (0xcb, ''I64x2Shl'', K_None, ''i64x2.shl''),
     (0xcc, ''I64x2ShrS'', K_None, ''i64x2.shr_s''),
     (0xcd, ''I64x2ShrU'', K_None, ''i64x2.shr_u''),
     (0xce, ''I64x2Add'', K_None, ''i64x2.add''),
     (0xd1, ''I64x2Sub'', K_None, ''i64x2.sub''),
     (0xd5, ''I64x2Mul'', K_None, ''i64x2.mul''),
     (0xd6, ''I64x2Eq'', K_None, ''i64x2.eq''),
     (0xd7, ''I64x2Ne'', K_None, ''i64x2.ne''),
     (0xd8, ''I64x2LtS'', K_None, ''i64x2.lt_s''),
     (0xd9, ''I64x2GtS'', K_None, ''i64x2.gt_s''),
     (0xda, ''I64x2LeS'', K_None, ''i64x2.le_s''),
     (0xdb, ''I64x2GeS'', K_None, ''i64x2.ge_s''),
     (0xdc, ''I64x2ExtmulLowI32x4S'', K_None, ''i64x2.extmul_low_i32x4_s''),
     (0xdd, ''I64x2ExtmulHighI32x4S'', K_None, ''i64x2.extmul_high_i32x4_s''),
     (0xde, ''I64x2ExtmulLowI32x4U'', K_None, ''i64x2.extmul_low_i32x4_u''),
     (0xdf, ''I64x2ExtmulHighI32x4U'', K_None, ''i64x2.extmul_high_i32x4_u''),
     (0xe0, ''F32x4Abs'', K_None, ''f32x4.abs''),
     (0xe1, ''F32x4Neg'', K_None, ''f32x4.neg''),
     (0xe3, ''F32x4Sqrt'', K_None, ''f32x4.sqrt''),
     (0xe4, ''F32x4Add'', K_None, ''f32x4.add''),
     (0xe5, ''F32x4Sub'', K_None, ''f32x4.sub''),
     (0xe6, ''F32x4Mul'', K_None, ''f32x4.mul''),
     (0xe7, ''F32x4Div'', K_None, ''f32x4.div''),
     (0xe8, ''F32x4Min'', K_None, ''f32x4.min''),
     (0xe9, ''F32x4Max'', K_None, ''f32x4.max''),
     (0xea, ''F32x4Pmin'', K_None, ''f32x4.pmin''),
     (0xeb, ''F32x4Pmax'', K_None, ''f32x4.pmax''),
     (0xec, ''F64x2Abs'', K_None, ''f64x2.abs''),
     (0xed, ''F64x2Neg'', K_None, ''f64x2.neg''),
     (0xef, ''F64x2Sqrt'', K_None, ''f64x2.sqrt''),
     (0xf0, ''F64x2Add'', K_None, ''f64x2.add''),
     (0xf1, ''F64x2Sub'', K_None, ''f64x2.sub''),
     (0xf2, ''F64x2Mul'', K_None, ''f64x2.mul''),
     (0xf3, ''F64x2Div'', K_None, ''f64x2.div''),
     (0xf4, ''F64x2Min'', K_None, ''f64x2.min''),
     (0xf5, ''F64x2Max'', K_None, ''f64x2.max''),
     (0xf6, ''F64x2Pmin'', K_None, ''f64x2.pmin''),
     (0xf7, ''F64x2Pmax'', K_None, ''f64x2.pmax''),
     (0xf8, ''I32x4TruncSatF32x4S'', K_None, ''i32x4.trunc_sat_f32x4_s''),
     (0xf9, ''I32x4TruncSatF32x4U'', K_None, ''i32x4.trunc_sat_f32x4_u''),
     (0xfa, ''F32x4ConvertI32x4S'', K_None, ''f32x4.convert_i32x4_s''),
     (0xfb, ''F32x4ConvertI32x4U'', K_None, ''f32x4.convert_i32x4_u''),
     (0xfc, ''I32x4TruncSatF64x2SZero'', K_None, ''i32x4.trunc_sat_f64x2_s_zero''),
     (0xfd, ''I32x4TruncSatF64x2UZero'', K_None, ''i32x4.trunc_sat_f64x2_u_zero''),
     (0xfe, ''F64x2ConvertLowI32x4S'', K_None, ''f64x2.convert_low_i32x4_s''),
     (0xff, ''F64x2ConvertLowI32x4U'', K_None, ''f64x2.convert_low_i32x4_u''),
     (0x100, ''I8x16RelaxedSwizzle'', K_None, ''i8x16.relaxed_swizzle''),
     (0x101, ''I32x4RelaxedTruncF32x4S'', K_None, ''i32x4.relaxed_trunc_f32x4_s''),
     (0x102, ''I32x4RelaxedTruncF32x4U'', K_None, ''i32x4.relaxed_trunc_f32x4_u''),
     (0x103, ''I32x4RelaxedTruncF64x2SZero'', K_None, ''i32x4.relaxed_trunc_f64x2_s_zero''),
     (0x104, ''I32x4RelaxedTruncF64x2UZero'', K_None, ''i32x4.relaxed_trunc_f64x2_u_zero''),
     (0x105, ''F32x4RelaxedMadd'', K_None, ''f32x4.relaxed_madd''),
     (0x106, ''F32x4RelaxedNmadd'', K_None, ''f32x4.relaxed_nmadd''),
     (0x107, ''F64x2RelaxedMadd'', K_None, ''f64x2.relaxed_madd''),
     (0x108, ''F64x2RelaxedNmadd'', K_None, ''f64x2.relaxed_nmadd''),
     (0x109, ''I8x16RelaxedLaneselect'', K_None, ''i8x16.relaxed_laneselect''),
     (0x10a, ''I16x8RelaxedLaneselect'', K_None, ''i16x8.relaxed_laneselect''),
     (0x10b, ''I32x4RelaxedLaneselect'', K_None, ''i32x4.relaxed_laneselect''),
     (0x10c, ''I64x2RelaxedLaneselect'', K_None, ''i64x2.relaxed_laneselect''),
     (0x10d, ''F32x4RelaxedMin'', K_None, ''f32x4.relaxed_min''),
     (0x10e, ''F32x4RelaxedMax'', K_None, ''f32x4.relaxed_max''),
     (0x10f, ''F64x2RelaxedMin'', K_None, ''f64x2.relaxed_min''),
     (0x110, ''F64x2RelaxedMax'', K_None, ''f64x2.relaxed_max''),
     (0x111, ''I16x8RelaxedQ15mulrS'', K_None, ''i16x8.relaxed_q15mulr_s''),
     (0x112, ''I16x8RelaxedDotI8x16I7x16S'', K_None, ''i16x8.relaxed_dot_i8x16_i7x16_s''),
     (0x113, ''I32x4RelaxedDotI8x16I7x16AddS'', K_None, ''i32x4.relaxed_dot_i8x16_i7x16_add_s'')]"

definition fd_rows :: "row list" where
  "fd_rows = fd_rows_1 @ fd_rows_2"

definition fe_rows :: "row list" where
  "fe_rows =
    [(0x00, ''MemoryAtomicNotify'', K_MemArg, ''memory.atomic.notify''),
     (0x01, ''MemoryAtomicWait32'', K_MemArg, ''memory.atomic.wait32''),
     (0x02, ''MemoryAtomicWait64'', K_MemArg, ''memory.atomic.wait64''),
     (0x03, ''AtomicFence'', K_FenceZero, ''atomic.fence''),
     (0x10, ''I32AtomicLoad'', K_MemArg, ''i32.atomic.load''),
     (0x11, ''I64AtomicLoad'', K_MemArg, ''i64.atomic.load''),
     (0x12, ''I32AtomicLoad8U'', K_MemArg, ''i32.atomic.load8_u''),
     (0x13, ''I32AtomicLoad16U'', K_MemArg, ''i32.atomic.load16_u''),
     (0x14, ''I64AtomicLoad8U'', K_MemArg, ''i64.atomic.load8_u''),
     (0x15, ''I64AtomicLoad16U'', K_MemArg, ''i64.atomic.load16_u''),
     (0x16, ''I64AtomicLoad32U'', K_MemArg, ''i64.atomic.load32_u''),
     (0x17, ''I32AtomicStore'', K_MemArg, ''i32.atomic.store''),
     (0x18, ''I64AtomicStore'', K_MemArg, ''i64.atomic.store''),
     (0x19, ''I32AtomicStore8'', K_MemArg, ''i32.atomic.store8''),
     (0x1a, ''I32AtomicStore16'', K_MemArg, ''i32.atomic.store16''),
     (0x1b, ''I64AtomicStore8'', K_MemArg, ''i64.atomic.store8''),
     (0x1c, ''I64AtomicStore16'', K_MemArg, ''i64.atomic.store16''),
     (0x1d, ''I64AtomicStore32'', K_MemArg, ''i64.atomic.store32''),
     (0x1e, ''I32AtomicRmwAdd'', K_MemArg, ''i32.atomic.rmw.add''),
     (0x1f, ''I64AtomicRmwAdd'', K_MemArg, ''i64.atomic.rmw.add''),
     (0x20, ''I32AtomicRmw8AddU'', K_MemArg, ''i32.atomic.rmw8.add_u''),
     (0x21, ''I32AtomicRmw16AddU'', K_MemArg, ''i32.atomic.rmw16.add_u''),
     (0x22, ''I64AtomicRmw8AddU'', K_MemArg, ''i64.atomic.rmw8.add_u''),
     (0x23, ''I64AtomicRmw16AddU'', K_MemArg, ''i64.atomic.rmw16.add_u''),
     (0x24, ''I64AtomicRmw32AddU'', K_MemArg, ''i64.atomic.rmw32.add_u''),
     (0x25, ''I32AtomicRmwSub'', K_MemArg, ''i32.atomic.rmw.sub''),
     (0x26, ''I64AtomicRmwSub'', K_MemArg, ''i64.atomic.rmw.sub''),
     (0x27, ''I32AtomicRmw8SubU'', K_MemArg, ''i32.atomic.rmw8.sub_u''),
     (0x28, ''I32AtomicRmw16SubU'', K_MemArg, ''i32.atomic.rmw16.sub_u''),
     (0x29, ''I64AtomicRmw8SubU'', K_MemArg, ''i64.atomic.rmw8.sub_u''),
     (0x2a, ''I64AtomicRmw16SubU'', K_MemArg, ''i64.atomic.rmw16.sub_u''),
     (0x2b, ''I64AtomicRmw32SubU'', K_MemArg, ''i64.atomic.rmw32.sub_u''),
     (0x2c, ''I32AtomicRmwAnd'', K_MemArg, ''i32.atomic.rmw.and''),
     (0x2d, ''I64AtomicRmwAnd'', K_MemArg, ''i64.atomic.rmw.and''),
     (0x2e, ''I32AtomicRmw8AndU'', K_MemArg, ''i32.atomic.rmw8.and_u''),
     (0x2f, ''I32AtomicRmw16AndU'', K_MemArg, ''i32.atomic.rmw16.and_u''),
     (0x30, ''I64AtomicRmw8AndU'', K_MemArg, ''i64.atomic.rmw8.and_u''),
     (0x31, ''I64AtomicRmw16AndU'', K_MemArg, ''i64.atomic.rmw16.and_u''),
     (0x32, ''I64AtomicRmw32AndU'', K_MemArg, ''i64.atomic.rmw32.and_u''),
     (0x33, ''I32AtomicRmwOr'', K_MemArg, ''i32.atomic.rmw.or''),
     (0x34, ''I64AtomicRmwOr'', K_MemArg, ''i64.atomic.rmw.or''),
     (0x35, ''I32AtomicRmw8OrU'', K_MemArg, ''i32.atomic.rmw8.or_u''),
     (0x36, ''I32AtomicRmw16OrU'', K_MemArg, ''i32.atomic.rmw16.or_u''),
     (0x37, ''I64AtomicRmw8OrU'', K_MemArg, ''i64.atomic.rmw8.or_u''),
     (0x38, ''I64AtomicRmw16OrU'', K_MemArg, ''i64.atomic.rmw16.or_u''),
     (0x39, ''I64AtomicRmw32OrU'', K_MemArg, ''i64.atomic.rmw32.or_u''),
     (0x3a, ''I32AtomicRmwXor'', K_MemArg, ''i32.atomic.rmw.xor''),
     (0x3b, ''I64AtomicRmwXor'', K_MemArg, ''i64.atomic.rmw.xor''),
     (0x3c, ''I32AtomicRmw8XorU'', K_MemArg, ''i32.atomic.rmw8.xor_u''),
     (0x3d, ''I32AtomicRmw16XorU'', K_MemArg, ''i32.atomic.rmw16.xor_u''),
     (0x3e, ''I64AtomicRmw8XorU'', K_MemArg, ''i64.atomic.rmw8.xor_u''),
     (0x3f, ''I64AtomicRmw16XorU'', K_MemArg, ''i64.atomic.rmw16.xor_u''),
     (0x40, ''I64AtomicRmw32XorU'', K_MemArg, ''i64.atomic.rmw32.xor_u''),
     (0x41, ''I32AtomicRmwXchg'', K_MemArg, ''i32.atomic.rmw.xchg''),
     (0x42, ''I64AtomicRmwXchg'', K_MemArg, ''i64.atomic.rmw.xchg''),
     (0x43, ''I32AtomicRmw8XchgU'', K_MemArg, ''i32.atomic.rmw8.xchg_u''),
     (0x44, ''I32AtomicRmw16XchgU'', K_MemArg, ''i32.atomic.rmw16.xchg_u''),
     (0x45, ''I64AtomicRmw8XchgU'', K_MemArg, ''i64.atomic.rmw8.xchg_u''),
     (0x46, ''I64AtomicRmw16XchgU'', K_MemArg, ''i64.atomic.rmw16.xchg_u''),
     (0x47, ''I64AtomicRmw32XchgU'', K_MemArg, ''i64.atomic.rmw32.xchg_u''),
     (0x48, ''I32AtomicRmwCmpxchg'', K_MemArg, ''i32.atomic.rmw.cmpxchg''),
     (0x49, ''I64AtomicRmwCmpxchg'', K_MemArg, ''i64.atomic.rmw.cmpxchg''),
     (0x4a, ''I32AtomicRmw8CmpxchgU'', K_MemArg, ''i32.atomic.rmw8.cmpxchg_u''),
     (0x4b, ''I32AtomicRmw16CmpxchgU'', K_MemArg, ''i32.atomic.rmw16.cmpxchg_u''),
     (0x4c, ''I64AtomicRmw8CmpxchgU'', K_MemArg, ''i64.atomic.rmw8.cmpxchg_u''),
     (0x4d, ''I64AtomicRmw16CmpxchgU'', K_MemArg, ''i64.atomic.rmw16.cmpxchg_u''),
     (0x4e, ''I64AtomicRmw32CmpxchgU'', K_MemArg, ''i64.atomic.rmw32.cmpxchg_u'')]"

text \<open>The rows of a space, by its prefix byte, and every row in table order.\<close>

definition space :: "u8 option \<Rightarrow> row list" where
  "space pfx = (case pfx of
     None \<Rightarrow> plain_rows
   | Some p \<Rightarrow> if p = 0xfb then fb_rows else if p = 0xfc then fc_rows
       else if p = 0xfd then fd_rows else fe_rows)"

definition all_rows :: "(u8 option \<times> row) list" where
  "all_rows = map (Pair None) plain_rows @ map (Pair (Some 0xfb)) fb_rows @ map (Pair (Some 0xfc)) fc_rows
     @ map (Pair (Some 0xfd)) fd_rows @ map (Pair (Some 0xfe)) fe_rows"

fun row_opcode :: "u8 option \<times> row \<Rightarrow> Opcode" where
  "row_opcode (p, c, v, k, n) = \<lparr>op_prefix = p, op_code = of_nat c, op_name = n\<rparr>"

definition OPCODES :: "Opcode list" where
  "OPCODES = map row_opcode all_rows"

text \<open>
  \<open>Instr::opcode\<close> and \<open>Instr::name\<close> match on the variant. \<^const>\<open>None\<close> stands for a variant the
  Rust enum does not have.
\<close>

definition Instr_opcode :: "Instr \<Rightarrow> Opcode option" where
  "Instr_opcode i = map_option row_opcode (find (\<lambda>(p, c, v, k, n). v = variant i) all_rows)"

definition Instr_name :: "Instr \<Rightarrow> string option" where
  "Instr_name i = map_option op_name (Instr_opcode i)"

section \<open>Decoding\<close>

text \<open>The arms of a generated decoder: the first row with the code.\<close>

primrec lookup_row :: "row list \<Rightarrow> nat \<Rightarrow> (string \<times> ImmKind) option" where
  "lookup_row [] code = None"
| "lookup_row (row # rows) code =
     (case row of (c, v, k, n) \<Rightarrow> if code = c then Some (v, k) else lookup_row rows code)"

definition decode_rows :: "row list \<Rightarrow> nat \<Rightarrow> Instr option parser" where
  "decode_rows rows code = (case lookup_row rows code of
     Some (v, k) \<Rightarrow> bnd (Immediate_read k) (\<lambda>imm. ret (Some (Instr v imm)))
   | None \<Rightarrow> ret None)"

definition decode_plain :: "u8 \<Rightarrow> Instr option parser" where
  "decode_plain code = decode_rows plain_rows (unat code)"

definition decode_fb :: "u32 \<Rightarrow> Instr option parser" where
  "decode_fb code = decode_rows fb_rows (unat code)"

definition decode_fc :: "u32 \<Rightarrow> Instr option parser" where
  "decode_fc code = decode_rows fc_rows (unat code)"

definition decode_fd :: "u32 \<Rightarrow> Instr option parser" where
  "decode_fd code = decode_rows fd_rows (unat code)"

definition decode_fe :: "u32 \<Rightarrow> Instr option parser" where
  "decode_fe code = decode_rows fe_rows (unat code)"

definition decode :: "Instr parser" where
  "decode = with_offset (\<lambda>at. bnd byte (\<lambda>first.
     bnd (if 0xfb \<le> first \<and> first \<le> 0xfe then
            bnd read_u32 (\<lambda>code.
              bnd (if first = 0xfb then decode_fb code
                   else if first = 0xfc then decode_fc code
                   else if first = 0xfd then decode_fd code
                   else decode_fe code)
                (\<lambda>decoded. ret (Some first, code, decoded)))
          else bnd (decode_plain first) (\<lambda>decoded. ret (None, ucast first, decoded)))
       (\<lambda>(pfx, code, decoded). case decoded of
          Some instr \<Rightarrow> ret instr
        | None \<Rightarrow> err at (UnknownOpcode pfx code))))"

text \<open>\<open>Instr::data_index\<close>: the instructions the data count rule is about.\<close>

definition data_index :: "Instr \<Rightarrow> DataIdx option" where
  "data_index i = (case i of Instr v imm \<Rightarrow>
     if v = ''MemoryInit'' then (case imm of Imm_DataToMemory d \<Rightarrow> Some (dm_data d) | _ \<Rightarrow> None)
     else if v = ''DataDrop'' then (case imm of Imm_DataIdx d \<Rightarrow> Some d | _ \<Rightarrow> None)
     else if v = ''ArrayNewData'' \<or> v = ''ArrayInitData'' then
       (case imm of Imm_ArrayData d \<Rightarrow> Some (ad_data d) | _ \<Rightarrow> None)
     else None)"

section \<open>Decoding keeps within bounds\<close>

lemma decode_rows_reads [reads_facts]: "reads lo hi 0 (decode_rows rows code)"
  unfolding decode_rows_def
  by (rule reads_intros reads_facts | (rule reads_weaken, rule reads_facts) | simp)+

lemma decode_spaces_reads [reads_facts]:
  "reads lo hi 0 (decode_plain b)" "reads lo hi 0 (decode_fb c)" "reads lo hi 0 (decode_fc c)"
  "reads lo hi 0 (decode_fd c)" "reads lo hi 0 (decode_fe c)"
  unfolding decode_plain_def decode_fb_def decode_fc_def decode_fd_def decode_fe_def
  by (rule reads_facts)+

lemma decode_reads [reads_facts]: "reads lo hi 1 decode"
  unfolding decode_def
  by (rule reads_with_offset, rule reads_bnd [OF byte_reads], rule reads_bnd [where j = 0])
    (rule reads_intros reads_facts | (rule reads_weaken, rule reads_facts) | simp)+

interpretation instr: item_reader decode 1
  by unfold_locales (rule decode_reads)

section \<open>The table\<close>

text \<open>Evaluation looks at a row's code before the rest of the list.\<close>

lemma lookup_row_cong: "code = code' \<Longrightarrow> lookup_row rows code = lookup_row rows code'"
  by simp

lemma lookup_row_append:
  "lookup_row (xs @ ys) code = (case lookup_row xs code of Some r \<Rightarrow> Some r | None \<Rightarrow> lookup_row ys code)"
  by (induction xs) auto

lemma lookup_row_sound: "lookup_row rows code = Some (v, k) \<Longrightarrow> \<exists>n. (code, v, k, n) \<in> set rows"
  by (induction rows) (auto split: if_splits)

lemma lookup_row_complete:
  "distinct (map fst rows) \<Longrightarrow> (code, v, k, n) \<in> set rows \<Longrightarrow> lookup_row rows code = Some (v, k)"
  by (induction rows) force+

lemma lookup_row_None: "lookup_row rows code = None \<longleftrightarrow> code \<notin> fst ` set rows"
  by (induction rows) (auto split: prod.splits)

text \<open>Each space lists its codes in increasing order, so no arm shadows another.\<close>

lemma plain_codes: "ascending (map fst plain_rows)"
  by (simp add: plain_rows_def plain_rows_1_def plain_rows_2_def)

lemma fb_codes: "ascending (map fst fb_rows)"
  by (simp add: fb_rows_def)

lemma fc_codes: "ascending (map fst fc_rows)"
  by (simp add: fc_rows_def)

lemma fd_codes: "ascending (map fst fd_rows)"
  by (simp add: fd_rows_def fd_rows_1_def fd_rows_2_def)

lemma fe_codes: "ascending (map fst fe_rows)"
  by (simp add: fe_rows_def)

lemma space_distinct: "distinct (map fst (space pfx))"
  using plain_codes fb_codes fc_codes fd_codes fe_codes
  by (auto simp: space_def dest: ascending_distinct split: option.split)

section \<open>The decoder is the table\<close>

text \<open>
  How the format writes an opcode: one byte that is no prefix, or a prefix byte and the
  code as \<open>u32\<close>.
\<close>

definition is_prefix :: "u8 \<Rightarrow> bool" where
  "is_prefix b \<longleftrightarrow> b = 0xfb \<or> b = 0xfc \<or> b = 0xfd \<or> b = 0xfe"

definition opcode_bytes :: "u8 option \<Rightarrow> nat \<Rightarrow> u8 list \<Rightarrow> bool" where
  "opcode_bytes pfx code bs = (case pfx of
     None \<Rightarrow> (\<exists>b. bs = [b] \<and> unat b = code \<and> \<not> is_prefix b)
   | Some p \<Rightarrow> is_prefix p \<and> (\<exists>cs. bs = p # cs \<and> uN 32 cs code))"

lemma prefix_range_iff: "0xfb \<le> b \<and> b \<le> (0xfe :: u8) \<longleftrightarrow> is_prefix b"
proof
  assume "0xfb \<le> b \<and> b \<le> 0xfe"
  then have "251 \<le> unat b \<and> unat b \<le> 254" by (simp add: word_le_nat_alt)
  then have "unat b = 251 \<or> unat b = 252 \<or> unat b = 253 \<or> unat b = 254" by linarith
  then show "is_prefix b"
    unfolding is_prefix_def word_unat_eq_iff by simp
qed (auto simp: is_prefix_def)

lemma lookup_space_iff: "lookup_row (space pfx) code = Some (v, k) \<longleftrightarrow> (\<exists>n. (code, v, k, n) \<in> set (space pfx))"
  using lookup_row_sound lookup_row_complete [OF space_distinct] by metis

lemma decode_rows_Some_iff:
  "decode_rows rows code r = Inr (Some i, r') \<longleftrightarrow>
     (\<exists>v k imm. lookup_row rows code = Some (v, k) \<and> Immediate_read k r = Inr (imm, r') \<and> i = Instr v imm)"
  by (auto simp: decode_rows_def bnd_Inr_iff split: option.splits)

lemma decode_rows_None_iff:
  "decode_rows rows code r = Inr (None, r') \<longleftrightarrow> lookup_row rows code = None \<and> r' = r"
  by (auto simp: decode_rows_def bnd_Inr_iff split: option.splits)

lemma decode_prefixed:
  "is_prefix b \<Longrightarrow> (if b = 0xfb then decode_fb code else if b = 0xfc then decode_fc code
     else if b = 0xfd then decode_fd code else decode_fe code) = decode_rows (space (Some b)) (unat code)"
  by (simp add: space_def decode_fb_def decode_fc_def decode_fd_def decode_fe_def)

lemma decode_cases:
  "decode r = Inr (i, r') \<longleftrightarrow> (\<exists>b r1. byte r = Inr (b, r1) \<and>
     (if is_prefix b
      then \<exists>code r2. read_u32 r1 = Inr (code, r2) \<and> decode_rows (space (Some b)) (unat code) r2 = Inr (Some i, r')
      else decode_rows (space None) (unat b) r1 = Inr (Some i, r')))"
  unfolding decode_def prefix_range_iff
  by (fastforce simp: with_offset_def bnd_Inr_iff decode_prefixed decode_plain_def space_def [of None]
      split: option.splits if_splits)

lemma decode_iff:
  assumes "reader_wf r"
  shows "decode r = Inr (i, r') \<longleftrightarrow> (\<exists>pfx code v k n imm bs.
     prefix bs (window r) \<and> opcode_bytes pfx code bs \<and> (code, v, k, n) \<in> set (space pfx) \<and>
     Immediate_read k (advance (length bs) r) = Inr (imm, r') \<and> i = Instr v imm)"
  (is "?l \<longleftrightarrow> ?r")
proof
  assume ?l
  then obtain b r1 where b: "byte r = Inr (b, r1)"
    and rest: "if is_prefix b
      then \<exists>code r2. read_u32 r1 = Inr (code, r2) \<and> decode_rows (space (Some b)) (unat code) r2 = Inr (Some i, r')
      else decode_rows (space None) (unat b) r1 = Inr (Some i, r')"
    by (auto simp: decode_cases)
  from b assms obtain ws where w: "window r = b # ws" "r1 = advance 1 r" by (auto simp: byte_Inr_iff)
  then have wf: "reader_wf r1" using u8_item.keeps_wf [OF b assms] by simp
  show ?r
  proof (cases "is_prefix b")
    case True
    with rest obtain code r2 where c: "read_u32 r1 = Inr (code, r2)"
      and d: "decode_rows (space (Some b)) (unat code) r2 = Inr (Some i, r')" by auto
    from c wf obtain cs where "prefix cs (window r1)" "uN 32 cs (unat code)" "r2 = advance (length cs) r1"
      by (auto simp: read_u32_iff)
    then have "prefix (b # cs) (window r)" "opcode_bytes (Some b) (unat code) (b # cs)"
      "r2 = advance (length (b # cs)) r"
      using w True by (simp_all add: opcode_bytes_def window_advance)
    with d show ?thesis unfolding decode_rows_Some_iff lookup_space_iff by blast
  next
    case False
    then have "prefix [b] (window r)" "opcode_bytes None (unat b) [b]" "r1 = advance (length [b]) r"
      using w by (simp_all add: opcode_bytes_def)
    moreover from rest False have "decode_rows (space None) (unat b) r1 = Inr (Some i, r')" by simp
    ultimately show ?thesis unfolding decode_rows_Some_iff lookup_space_iff by blast
  qed
next
  assume ?r
  then obtain pfx code v k n imm bs where h: "prefix bs (window r)" "opcode_bytes pfx code bs"
    "(code, v, k, n) \<in> set (space pfx)" "Immediate_read k (advance (length bs) r) = Inr (imm, r')"
    "i = Instr v imm" by blast
  have d: "decode_rows (space pfx) code (advance (length bs) r) = Inr (Some i, r')"
    using h(3-5) unfolding decode_rows_Some_iff lookup_space_iff by blast
  obtain b cs where bs: "bs = b # cs" using h(2) by (auto simp: opcode_bytes_def split: option.splits)
  with h(1) obtain ws where w: "window r = b # cs @ ws" by (auto simp: prefix_def)
  then have b: "byte r = Inr (b, advance 1 r)" using assms by (simp add: byte_window)
  have wf: "reader_wf (advance 1 r)" by (rule u8_item.keeps_wf [OF b assms])
  show ?l
  proof (cases pfx)
    case None
    with h(2) bs d b show ?thesis by (auto simp: opcode_bytes_def decode_cases)
  next
    case (Some p)
    with h(2) bs have p: "p = b" "is_prefix b" "uN 32 cs code" by (auto simp: opcode_bytes_def)
    from uN_bound [OF p(3)] have "code \<le> u32_MAX" by simp
    then obtain c :: u32 where c: "unat c = code" using unat_of_nat_u32 by blast
    have "prefix cs (window (advance 1 r))" using w by (simp add: window_advance)
    then have "read_u32 (advance 1 r) = Inr (c, advance (length bs) r)"
      unfolding read_u32_iff [OF wf] using p(3) c bs by auto
    with b d p c Some show ?thesis unfolding decode_cases by auto
  qed
qed

end
