(* ===== verification/Wasm_Body.thy ===== *)
theory Wasm_Body
  imports Wasm_Opcodes
begin

text \<open>
  Expressions and function bodies, \<open>src/crates/n0xis-wasm/src/body.rs\<close>: the decoding loop
  with its stack of frames, the locals, and the proof that the loop accepts exactly the
  sequences of instructions the nesting grammar derives. The stack is a list with the
  innermost frame first (the source pushes at the end of a \<open>Vec\<close>); the callback \<open>each\<close> is
  the list of what it is handed, in order.
\<close>

section \<open>The decoding loop\<close>

record LocalRun =
  lr_count :: u32
  lr_ty :: ValType

record Body =
  bo_range :: range
  bo_locals :: "LocalRun list"
  bo_instructions :: "Located list"

definition local_count :: "Body \<Rightarrow> u64" where
  "local_count b = sum_list (map (\<lambda>run. ucast (lr_count run)) (bo_locals b))"

datatype DataIndices = DataIndices_Allowed | DataIndices_NeedDataCount

datatype Handlers = Handlers_None | Handlers_Catch | Handlers_CatchAll

datatype Frame =
    Frame_Block
  | Frame_If bool
  | Frame_Try Handlers

text \<open>Which arm of \<open>match &instr\<close> an instruction takes.\<close>

datatype Arm = A_Block | A_If | A_Try | A_Else | A_Catch | A_CatchAll | A_Delegate | A_End | A_Other

definition arm :: "Instr \<Rightarrow> Arm" where
  "arm i =
     (if variant i = ''Block'' \<or> variant i = ''Loop'' \<or> variant i = ''TryTable'' then A_Block
      else if variant i = ''If'' then A_If
      else if variant i = ''Try'' then A_Try
      else if variant i = ''Else'' then A_Else
      else if variant i = ''Catch'' then A_Catch
      else if variant i = ''CatchAll'' then A_CatchAll
      else if variant i = ''Delegate'' then A_Delegate
      else if variant i = ''End'' then A_End
      else A_Other)"

text \<open>The arms themselves: the frames afterwards, or what is wrong.\<close>

fun frame_step :: "Arm \<Rightarrow> Frame list \<Rightarrow> Problem + Frame list" where
  "frame_step A_Block fs = Inr (Frame_Block # fs)"
| "frame_step A_If fs = Inr (Frame_If False # fs)"
| "frame_step A_Try fs = Inr (Frame_Try Handlers_None # fs)"
| "frame_step A_Else fs = (case fs of
     Frame_If has_else # gs \<Rightarrow> if \<not> has_else then Inr (Frame_If True # gs) else Inl ElseWithoutIf
   | _ \<Rightarrow> Inl ElseWithoutIf)"
| "frame_step A_Catch fs = (case fs of
     Frame_Try h # gs \<Rightarrow> if h \<noteq> Handlers_CatchAll then Inr (Frame_Try Handlers_Catch # gs) else Inl CatchOutsideTry
   | _ \<Rightarrow> Inl CatchOutsideTry)"
| "frame_step A_CatchAll fs = (case fs of
     Frame_Try h # gs \<Rightarrow> if h \<noteq> Handlers_CatchAll then Inr (Frame_Try Handlers_CatchAll # gs) else Inl CatchOutsideTry
   | _ \<Rightarrow> Inl CatchOutsideTry)"
| "frame_step A_Delegate fs = (case fs of
     Frame_Try h # gs \<Rightarrow> if h = Handlers_None then Inr gs else Inl DelegateOutsideTry
   | _ \<Rightarrow> Inl DelegateOutsideTry)"
| "frame_step A_End fs = Inr fs"
| "frame_step A_Other fs = Inr fs"

function expression_from :: "DataIndices \<Rightarrow> Frame list \<Rightarrow> Located list parser" where
  "expression_from data_indices frames r =
     (if at_end r then err (offset r) NotEnded r
      else bnd decode (\<lambda>instr s.
        if data_indices = DataIndices_NeedDataCount \<and> data_index instr \<noteq> None
        then err (offset r) DataIndexWithoutDataCount s
        else case frame_step (arm instr) frames of
          Inl problem \<Rightarrow> err (offset r) problem s
        | Inr frames' \<Rightarrow>
            if arm instr = A_End \<and> frames' = [] then ret [\<lparr>lo_offset = offset r, lo_instr = instr\<rparr>] s
            else bnd (expression_from data_indices (if arm instr = A_End then tl frames' else frames'))
              (\<lambda>ls. ret (\<lparr>lo_offset = offset r, lo_instr = instr\<rparr> # ls)) s) r)"
  by pat_completeness auto
termination
  by (relation "measure (\<lambda>(d, fs, r). rend r - rpos r)")
    (auto dest!: instr.shrinks simp: at_end_def)

declare expression_from.simps [simp del]

definition expression :: "DataIndices \<Rightarrow> Located list parser" where
  "expression data_indices = expression_from data_indices []"

definition const_expression :: "Located list parser" where
  "const_expression = expression DataIndices_Allowed"

section \<open>Bodies\<close>

text \<open>One turn of the loop over the runs of locals, with the total so far.\<close>

definition local_run :: "u64 \<times> LocalRun list \<Rightarrow> (u64 \<times> LocalRun list) parser" where
  "local_run = (\<lambda>(total, locals). with_offset (\<lambda>at. bnd read_u32 (\<lambda>n. bnd ValType_read (\<lambda>ty.
     let total' = total + ucast n in
     if total' > 2 ^ 32 - 1 then err at TooManyLocals
     else ret (total', locals @ [\<lparr>lr_count = n, lr_ty = ty\<rparr>])))))"

text \<open>\<open>if !r.at_end() { return Err(..) }\<close>, the problem stated by the bytes left.\<close>

definition filled :: "(nat \<Rightarrow> Problem) \<Rightarrow> 'a \<Rightarrow> 'a parser" where
  "filled problem x r = (if at_end r then ret x r else err (offset r) (problem (remaining r)) r)"

definition body :: "DataIndices \<Rightarrow> (LocalRun list \<times> Located list) parser" where
  "body data_indices = bnd (count 2) (\<lambda>runs. bnd (iter (unat runs) local_run (0, [])) (\<lambda>(_, locals).
     bnd (expression data_indices) (\<lambda>instructions. filled BytesAfterEnd (locals, instructions))))"

section \<open>Bodies keep within bounds\<close>

text \<open>The loop with a bound on its turns, which the bytes left always suffice for.\<close>

definition expression_turn ::
  "(Frame list \<Rightarrow> Located list parser) \<Rightarrow> DataIndices \<Rightarrow> Frame list \<Rightarrow> nat \<Rightarrow> Instr \<Rightarrow> Located list parser" where
  "expression_turn rec d fs at instr =
     (if d = DataIndices_NeedDataCount \<and> data_index instr \<noteq> None then err at DataIndexWithoutDataCount
      else case frame_step (arm instr) fs of
        Inl problem \<Rightarrow> err at problem
      | Inr fs' \<Rightarrow>
          if arm instr = A_End \<and> fs' = [] then ret [\<lparr>lo_offset = at, lo_instr = instr\<rparr>]
          else bnd (rec (if arm instr = A_End then tl fs' else fs'))
            (\<lambda>ls. ret (\<lparr>lo_offset = at, lo_instr = instr\<rparr> # ls)))"

primrec expression_fuel :: "nat \<Rightarrow> DataIndices \<Rightarrow> Frame list \<Rightarrow> Located list parser" where
  "expression_fuel 0 d fs = with_offset (\<lambda>at. err at NotEnded)"
| "expression_fuel (Suc n) d fs = with_reader (\<lambda>r. if remaining r = 0
     then with_offset (\<lambda>at. err at NotEnded)
     else with_offset (\<lambda>at. bnd decode (expression_turn (expression_fuel n d) d fs at)))"

lemma expression_from_turn:
  "expression_from d fs r = (if at_end r then err (offset r) NotEnded r
     else bnd decode (expression_turn (expression_from d) d fs (offset r)) r)"
  unfolding expression_from.simps [of d fs r] expression_turn_def
  by (auto intro!: bnd_cong split: sum.split)

lemma expression_turn_cong:
  assumes "\<And>gs. rec gs s = rec' gs s"
  shows "expression_turn rec d fs at i s = expression_turn rec' d fs at i s"
  unfolding expression_turn_def
  by (cases "frame_step (arm i) fs") (auto intro: bnd_cong simp: assms)

lemma expression_from_fuel:
  "reader_wf r \<Longrightarrow> remaining r < n \<Longrightarrow> expression_from d fs r = expression_fuel n d fs r"
proof (induction n arbitrary: fs r)
  case (Suc n)
  have "at_end r \<longleftrightarrow> remaining r = 0"
    using Suc.prems by (auto simp: at_end_def remaining_def reader_wf_def)
  moreover have "bnd decode (expression_turn (expression_from d) d fs (offset r)) r =
      bnd decode (expression_turn (expression_fuel n d) d fs (offset r)) r"
  proof (rule bnd_cong [OF refl])
    fix i s assume i: "decode r = Inr (i, s)"
    have "reader_wf s" "remaining s < n"
      using instr.keeps_wf [OF i] instr.shrinks [OF i] Suc.prems by (auto simp: remaining_def)
    then show "expression_turn (expression_from d) d fs (offset r) i s =
        expression_turn (expression_fuel n d) d fs (offset r) i s"
      by (intro expression_turn_cong Suc.IH)
  qed
  ultimately show ?case
    unfolding expression_from_turn [of d fs r] expression_fuel.simps
    by (simp add: with_reader_def with_offset_def offset_def)
qed simp

lemma reads_case_sum [reads_intros]:
  assumes "\<And>x. v = Inl x \<Longrightarrow> reads lo hi k (p x)" and "\<And>x. v = Inr x \<Longrightarrow> reads lo hi k (q x)"
  shows "reads lo hi k (case v of Inl x \<Rightarrow> p x | Inr x \<Rightarrow> q x)"
  using assms by (cases v) auto

lemma expression_turn_reads:
  assumes "\<And>gs. reads lo hi 0 (rec gs)" "lo \<le> at" "at \<le> hi"
  shows "reads lo hi 0 (expression_turn rec d fs at i)"
  unfolding expression_turn_def using assms
  by (auto intro!: reads_intros intro: assms(1))

lemma expression_fuel_reads: "reads lo hi 1 (expression_fuel n d fs)"
proof (induction n arbitrary: fs lo hi)
  case (Suc n)
  have "reads lo hi 0 (expression_fuel n d gs)" for lo hi gs
    using Suc by (blast intro: reads_weaken)
  then show ?case
    unfolding expression_fuel.simps
    by (intro reads_with_remaining reads_if reads_with_offset reads_err reads_bnd [OF decode_reads])
      (auto intro: expression_turn_reads)
qed (auto intro!: reads_intros)

text \<open>What the loop returns is a chain of decoded instructions that drives the frames to the end.\<close>

lemma expression_from_Inr_iff:
  "expression_from d fs r = Inr (ls, r') \<longleftrightarrow> \<not> at_end r \<and> (\<exists>i s fs'. decode r = Inr (i, s) \<and>
     \<not> (d = DataIndices_NeedDataCount \<and> data_index i \<noteq> None) \<and> frame_step (arm i) fs = Inr fs' \<and>
     (if arm i = A_End \<and> fs' = [] then ls = [\<lparr>lo_offset = rpos r, lo_instr = i\<rparr>] \<and> r' = s
      else \<exists>ls'. expression_from d (if arm i = A_End then tl fs' else fs') s = Inr (ls', r') \<and>
        ls = \<lparr>lo_offset = rpos r, lo_instr = i\<rparr> # ls'))"
proof -
  have turn: "expression_turn rec d fs at i s = Inr (ls, r') \<longleftrightarrow>
     \<not> (d = DataIndices_NeedDataCount \<and> data_index i \<noteq> None) \<and> (\<exists>fs'. frame_step (arm i) fs = Inr fs' \<and>
     (if arm i = A_End \<and> fs' = [] then ls = [\<lparr>lo_offset = at, lo_instr = i\<rparr>] \<and> r' = s
      else \<exists>ls'. rec (if arm i = A_End then tl fs' else fs') s = Inr (ls', r') \<and>
        ls = \<lparr>lo_offset = at, lo_instr = i\<rparr> # ls'))" for rec at i s
    unfolding expression_turn_def
    by (cases "frame_step (arm i) fs") (auto simp: bnd_Inr_iff)
  show ?thesis
    unfolding expression_from_turn [of d fs r]
    by (auto simp: bnd_Inr_iff turn offset_def)
qed

inductive decodes :: "Reader \<Rightarrow> Located list \<Rightarrow> Reader \<Rightarrow> bool" where
  decodes_Nil: "decodes r [] r"
| decodes_Cons: "decode r = Inr (i, s) \<Longrightarrow> decodes s ls r' \<Longrightarrow>
    decodes r (\<lparr>lo_offset = rpos r, lo_instr = i\<rparr> # ls) r'"

inductive_cases decodes_ConsE: "decodes r (l # ls) r'"

inductive_simps decodes_Nil_iff: "decodes r [] r'"

fun accepts :: "Frame list \<Rightarrow> Arm list \<Rightarrow> bool" where
  "accepts fs [] = False"
| "accepts fs (a # as) = (case frame_step a fs of
     Inl _ \<Rightarrow> False
   | Inr fs' \<Rightarrow> if a = A_End then (if fs' = [] then as = [] else accepts (tl fs') as) else accepts fs' as)"

lemma decodes_not_at_end: "decode r = Inr (i, s) \<Longrightarrow> \<not> at_end r"
  by (auto simp: decode_cases byte_advance at_end_def short_def err_def split: if_splits)

lemma decodes_Cons_iff:
  "decodes r (l # ls) r' \<longleftrightarrow> (\<exists>i s. decode r = Inr (i, s) \<and> l = \<lparr>lo_offset = rpos r, lo_instr = i\<rparr> \<and> decodes s ls r')"
  by (auto elim: decodes_ConsE intro: decodes.intros)

lemma expression_from_iff:
  "expression_from d fs r = Inr (ls, r') \<longleftrightarrow>
     decodes r ls r' \<and> accepts fs (map (\<lambda>l. arm (lo_instr l)) ls) \<and>
     (d = DataIndices_NeedDataCount \<longrightarrow> (\<forall>l \<in> set ls. data_index (lo_instr l) = None))"
proof (induction ls arbitrary: fs r)
  case Nil
  show ?case by (subst expression_from_Inr_iff) (auto split: if_splits)
next
  case (Cons l ls)
  show ?case
  proof (cases "decode r")
    case (Inl e)
    then show ?thesis by (subst expression_from_Inr_iff) (simp add: decodes_Cons_iff)
  next
    case (Inr p)
    then obtain i s where i: "decode r = Inr (i, s)" by (cases p) simp
    note not_end = decodes_not_at_end [OF i]
    show ?thesis
    proof (cases "frame_step (arm i) fs")
      case (Inl e)
      with i not_end show ?thesis by (subst expression_from_Inr_iff) (auto simp: decodes_Cons_iff)
    next
      case (Inr fs')
      show ?thesis
      proof (cases "arm i = A_End \<and> fs' = []")
        case True
        with i not_end Inr show ?thesis
          by (subst expression_from_Inr_iff) (auto simp: decodes_Cons_iff decodes_Nil_iff)
      next
        case False
        have "accepts fs (arm i # as) = accepts (if arm i = A_End then tl fs' else fs') as" for as
          using False Inr by auto
        with i not_end Inr False show ?thesis
          by (subst expression_from_Inr_iff) (auto simp: decodes_Cons_iff Cons.IH simp del: accepts.simps)
      qed
    qed
  qed
qed

lemma decodes_moves:
  "decodes r ls r' \<Longrightarrow> \<exists>n \<ge> length ls. r' = advance n r \<and> (rpos r + n \<le> rend r \<or> n = 0)"
proof (induction rule: decodes.induct)
  case (decodes_Nil r)
  show ?case by (intro exI [of _ 0]) simp
next
  case (decodes_Cons r i s ls r')
  from decodes_Cons.hyps(1) obtain m where "1 \<le> m" "s = advance m r" "rpos r + m \<le> rend r \<or> m = 0"
    by (rule instr.success)
  moreover from decodes_Cons.IH obtain n where "length ls \<le> n" "r' = advance n s" "rpos s + n \<le> rend s \<or> n = 0"
    by blast
  ultimately show ?case by (intro exI [of _ "m + n"]) auto
qed

lemma expression_from_reads [reads_facts]: "reads lo hi 1 (expression_from d fs)"
proof (rule readsI)
  let ?p = "with_reader (\<lambda>r. expression_fuel (Suc (remaining r)) d fs)"
  assume le: "lo \<le> hi"
  have "reads lo hi 1 ?p"
    by (rule reads_with_remaining [where q = "\<lambda>n. expression_fuel (Suc n) d fs"]) (rule expression_fuel_reads)
  with le have p: "refuses lo hi ?p" "sees_window hi ?p" by (simp_all only: reads_def)
  have eq: "expression_from d fs r = ?p r" if "reader_wf r" for r
    unfolding with_reader_def by (rule expression_from_fuel [OF that]) simp
  show "refuses lo hi (expression_from d fs)"
    using p(1) unfolding refuses_def by (metis eq)
  show "sees_window hi (expression_from d fs)"
    using p(2) unfolding sees_window_def by (metis eq same_window_def)
  show "moves hi 1 (expression_from d fs)"
    unfolding moves_def
  proof (intro allI impI)
    fix r ls r' assume "expression_from d fs r = Inr (ls, r')"
    then have d: "decodes r ls r'" and "ls \<noteq> []" by (auto simp: expression_from_iff)
    then have "1 \<le> length ls" by (cases ls) simp_all
    moreover from decodes_moves [OF d] obtain n
      where "length ls \<le> n" "r' = advance n r" "rpos r + n \<le> rend r \<or> n = 0" by blast
    ultimately show "\<exists>n\<ge>1. r' = advance n r \<and> (rpos r + n \<le> rend r \<or> n = 0)"
      by (intro exI [of _ n]) simp
  qed
qed

lemma filled_reads [reads_facts]: "reads lo hi 0 (filled problem x)"
proof (rule readsI)
  assume "lo \<le> hi"
  show "moves hi 0 (filled problem x)"
    by (auto simp: moves_def filled_def err_def split: if_splits intro: exI [of _ 0])
  show "refuses lo hi (filled problem x)"
    using \<open>lo \<le> hi\<close> by (auto simp: refuses_def filled_def err_def offset_def reader_wf_def split: if_splits)
  show "sees_window hi (filled problem x)"
    by (auto simp: sees_window_def filled_def ret_def err_def offset_def remaining_def at_end_def same_window_def)
qed

lemma expression_reads [reads_facts]:
  "reads lo hi 1 (expression d)" "reads lo hi 1 const_expression" "reads lo hi 2 (local_run st)"
  unfolding const_expression_def expression_def local_run_def
  by (rule reads_intros reads_facts | simp)+

lemma body_reads [reads_facts]: "reads lo hi 2 (body d)"
  unfolding body_def
  by (rule reads_intros reads_facts | (rule reads_weaken, rule reads_facts reads_iter) | simp)+

interpretation expr: item_reader "expression d" 1 for d
  by unfold_locales (rule expression_reads)

interpretation body: item_reader "body d" 2 for d
  by unfold_locales (rule body_reads)

section \<open>The nesting grammar\<close>

text \<open>
  How blocks nest in the format, by the arm each instruction takes: \<open>in*\<close> with \<open>block\<close>,
  \<open>loop\<close> and \<open>try_table\<close> closed by \<open>end\<close>, \<open>if\<close> with at most one \<open>else\<close>, and the legacy \<open>try\<close>
  closed by \<open>end\<close> after its handlers (any number of \<open>catch\<close>, then at most one \<open>catch_all\<close>) or
  by \<open>delegate\<close>.
\<close>

inductive instrs :: "Arm list \<Rightarrow> bool" and handlers :: "Arm list \<Rightarrow> bool" where
  instrs_Nil: "instrs []"
| instrs_other: "instrs bs \<Longrightarrow> instrs (A_Other # bs)"
| instrs_block: "instrs b \<Longrightarrow> instrs bs \<Longrightarrow> instrs (A_Block # b @ A_End # bs)"
| instrs_if: "instrs b \<Longrightarrow> instrs bs \<Longrightarrow> instrs (A_If # b @ A_End # bs)"
| instrs_if_else: "instrs b \<Longrightarrow> instrs c \<Longrightarrow> instrs bs \<Longrightarrow> instrs (A_If # b @ A_Else # c @ A_End # bs)"
| instrs_try: "instrs b \<Longrightarrow> handlers h \<Longrightarrow> instrs bs \<Longrightarrow> instrs (A_Try # b @ h @ A_End # bs)"
| instrs_delegate: "instrs b \<Longrightarrow> instrs bs \<Longrightarrow> instrs (A_Try # b @ A_Delegate # bs)"
| handlers_Nil: "handlers []"
| handlers_catch: "instrs b \<Longrightarrow> handlers h \<Longrightarrow> handlers (A_Catch # b @ h)"
| handlers_catch_all: "instrs b \<Longrightarrow> handlers (A_CatchAll # b)"

lemma instrs_append: "instrs as \<Longrightarrow> instrs bs \<Longrightarrow> instrs (as @ bs)"
proof (induction rule: instrs_handlers.inducts(1) [where ?P2.0 = "\<lambda>_. True"])
qed (simp_all add: instrs_handlers.intros)

text \<open>What may stand between the opening of a frame and the end of its block.\<close>

definition expr_end :: "Arm list \<Rightarrow> bool" where
  "expr_end as \<longleftrightarrow> (\<exists>b. instrs b \<and> as = b @ [A_End])"

definition handlers_end :: "Arm list \<Rightarrow> bool" where
  "handlers_end as \<longleftrightarrow> (\<exists>b h. instrs b \<and> handlers h \<and> as = b @ h @ [A_End])"

fun closes :: "Frame \<Rightarrow> Arm list \<Rightarrow> bool" where
  "closes Frame_Block as = expr_end as"
| "closes (Frame_If True) as = expr_end as"
| "closes (Frame_If False) as = (expr_end as \<or> (\<exists>b c. instrs b \<and> expr_end c \<and> as = b @ A_Else # c))"
| "closes (Frame_Try Handlers_None) as = (handlers_end as \<or> (\<exists>b. instrs b \<and> as = b @ [A_Delegate]))"
| "closes (Frame_Try Handlers_Catch) as = handlers_end as"
| "closes (Frame_Try Handlers_CatchAll) as = expr_end as"

fun lang :: "Frame list \<Rightarrow> Arm list \<Rightarrow> bool" where
  "lang [] as = expr_end as"
| "lang (f # fs) as = (\<exists>xs ys. closes f xs \<and> lang fs ys \<and> as = xs @ ys)"

lemma expr_end_prefix: "instrs p \<Longrightarrow> expr_end as \<Longrightarrow> expr_end (p @ as)"
  by (auto simp: expr_end_def) (metis append_assoc instrs_append)

lemma handlers_end_prefix: "instrs p \<Longrightarrow> handlers_end as \<Longrightarrow> handlers_end (p @ as)"
  by (auto simp: handlers_end_def) (metis append_assoc instrs_append)

lemma closes_prefix:
  assumes "instrs p" "closes f as"
  shows "closes f (p @ as)"
proof (cases "(f, as)" rule: closes.cases)
  case (3 as')
  with assms show ?thesis
    by (auto intro: expr_end_prefix) (metis append_assoc instrs_append)
next
  case (4 as')
  with assms show ?thesis
    by (auto intro: handlers_end_prefix) (metis append_assoc instrs_append)
qed (use assms in \<open>auto intro: expr_end_prefix handlers_end_prefix\<close>)

lemma lang_prefix: "instrs p \<Longrightarrow> lang fs as \<Longrightarrow> lang fs (p @ as)"
  by (cases fs) (auto intro: expr_end_prefix closes_prefix simp: append_assoc [symmetric] simp del: append_assoc)

lemma closes_end: "closes f [A_End]"
proof -
  have "expr_end [A_End]" "handlers_end [A_End]"
    using instrs_Nil handlers_Nil by (auto simp: expr_end_def handlers_end_def)
  then show ?thesis by (cases "(f, [A_End])" rule: closes.cases) auto
qed

text \<open>Opening a frame: what closes it, with the opening before it, is a complete block.\<close>

lemma closes_block: "closes Frame_Block xs \<Longrightarrow> instrs (A_Block # xs)"
  using instrs_block [OF _ instrs_Nil] by (auto simp: expr_end_def)

lemma closes_if: "closes (Frame_If False) xs \<Longrightarrow> instrs (A_If # xs)"
  using instrs_if [OF _ instrs_Nil] instrs_if_else [OF _ _ instrs_Nil] by (auto simp: expr_end_def)

lemma closes_try: "closes (Frame_Try Handlers_None) xs \<Longrightarrow> instrs (A_Try # xs)"
  using instrs_try [OF _ _ instrs_Nil] instrs_delegate [OF _ instrs_Nil] by (auto simp: handlers_end_def)

lemma closes_else: "closes (Frame_If True) xs \<Longrightarrow> closes (Frame_If False) (A_Else # xs)"
  using instrs_Nil by (auto intro: exI [of _ "[]"])

lemma closes_catch:
  assumes "closes (Frame_Try Handlers_Catch) xs" "h \<noteq> Handlers_CatchAll"
  shows "closes (Frame_Try h) (A_Catch # xs)"
proof -
  from assms(1) obtain b g where "instrs b" "handlers g" "xs = b @ g @ [A_End]"
    by (auto simp: handlers_end_def)
  then have "handlers_end (A_Catch # xs)"
    unfolding handlers_end_def using instrs_Nil handlers_catch [of b g]
    by (intro exI [of _ "[]"] exI [of _ "A_Catch # b @ g"]) simp
  with assms(2) show ?thesis by (cases h) auto
qed

lemma closes_catch_all:
  assumes "closes (Frame_Try Handlers_CatchAll) xs" "h \<noteq> Handlers_CatchAll"
  shows "closes (Frame_Try h) (A_CatchAll # xs)"
proof -
  from assms(1) obtain b where "instrs b" "xs = b @ [A_End]" by (auto simp: expr_end_def)
  then have "handlers_end (A_CatchAll # xs)"
    unfolding handlers_end_def using instrs_Nil handlers_catch_all [of b]
    by (intro exI [of _ "[]"] exI [of _ "A_CatchAll # b"]) simp
  with assms(2) show ?thesis by (cases h) auto
qed

lemma lang_open: "(\<And>xs. closes f xs \<Longrightarrow> instrs (a # xs)) \<Longrightarrow> lang (f # fs) as \<Longrightarrow> lang fs (a # as)"
  using lang_prefix by fastforce

lemma lang_change: "(\<And>xs. closes g xs \<Longrightarrow> closes f (a # xs)) \<Longrightarrow> lang (g # fs) as \<Longrightarrow> lang (f # fs) (a # as)"
  by (metis append_Cons lang.simps(2))

lemma accepts_lang: "accepts fs as \<Longrightarrow> lang fs as"
proof (induction fs as rule: accepts.induct)
  case (2 fs a as)
  then obtain fs' where fs': "frame_step a fs = Inr fs'" by (auto split: sum.splits)
  show ?case
  proof (cases a)
    case A_Other
    with 2 fs' show ?thesis using lang_prefix [OF instrs_other [OF instrs_Nil]] by fastforce
  next
    case A_End
    show ?thesis
    proof (cases fs)
      case Nil
      with 2(3) A_End show ?thesis using instrs_Nil by (auto simp: expr_end_def)
    next
      case (Cons f gs)
      with 2 A_End have "lang gs as" by simp
      with closes_end [of f] Cons A_End show ?thesis
        unfolding Cons lang.simps by (intro exI [of _ "[A_End]"] exI [of _ as]) simp
    qed
  next
    case A_Delegate
    then obtain gs where "fs = Frame_Try Handlers_None # gs" "fs' = gs"
      using fs' by (auto split: list.splits Frame.splits if_splits)
    moreover have "closes (Frame_Try Handlers_None) [A_Delegate]" using instrs_Nil by auto
    moreover have "lang gs as" using 2 fs' A_Delegate calculation by simp
    ultimately show ?thesis
      unfolding A_Delegate by (metis append_Cons append_Nil lang.simps(2))
  next
    case A_Else
    then obtain gs where "fs = Frame_If False # gs" "fs' = Frame_If True # gs"
      using fs' by (auto split: list.splits Frame.splits if_splits)
    with 2 fs' A_Else show ?thesis by (auto intro: lang_change [OF closes_else] simp del: lang.simps)
  next
    case A_Catch
    then obtain h gs where "fs = Frame_Try h # gs" "fs' = Frame_Try Handlers_Catch # gs" "h \<noteq> Handlers_CatchAll"
      using fs' by (auto split: list.splits Frame.splits if_splits)
    with 2 fs' A_Catch show ?thesis by (auto intro: lang_change [OF closes_catch] simp del: lang.simps)
  next
    case A_CatchAll
    then obtain h gs where "fs = Frame_Try h # gs" "fs' = Frame_Try Handlers_CatchAll # gs" "h \<noteq> Handlers_CatchAll"
      using fs' by (auto split: list.splits Frame.splits if_splits)
    with 2 fs' A_CatchAll show ?thesis by (auto intro: lang_change [OF closes_catch_all] simp del: lang.simps)
  qed (use 2 fs' in \<open>auto intro: lang_open [OF closes_block] lang_open [OF closes_if] lang_open [OF closes_try]
      simp del: lang.simps\<close>)
qed simp

text \<open>And back: a complete block leaves the frames as they were.\<close>

lemma accepts_blocks:
  shows accepts_instrs: "instrs p \<Longrightarrow> accepts fs (p @ rest) = accepts fs rest"
    and accepts_handlers: "handlers h \<Longrightarrow> x \<noteq> Handlers_CatchAll \<Longrightarrow>
      accepts (Frame_Try x # fs) (h @ A_End # rest) = accepts fs rest"
proof (induction arbitrary: fs rest and x fs rest rule: instrs_handlers.inducts)
qed simp_all

lemma accepts_expr_end: "expr_end xs \<Longrightarrow> accepts (f # fs) (xs @ ys) = accepts fs ys"
  by (auto simp: expr_end_def accepts_instrs)

lemma accepts_handlers_end:
  "handlers_end xs \<Longrightarrow> h \<noteq> Handlers_CatchAll \<Longrightarrow> accepts (Frame_Try h # fs) (xs @ ys) = accepts fs ys"
  by (auto simp: handlers_end_def accepts_instrs accepts_handlers)

lemma accepts_closes:
  assumes "closes f xs"
  shows "accepts (f # fs) (xs @ ys) = accepts fs ys"
  using assms
  by (cases "(f, xs)" rule: closes.cases)
    (auto simp: accepts_expr_end accepts_handlers_end accepts_instrs)

lemma lang_accepts: "lang fs as \<Longrightarrow> accepts fs as"
proof (induction fs arbitrary: as)
  case Nil
  then show ?case by (auto simp: expr_end_def accepts_instrs)
next
  case (Cons f fs)
  then show ?case by (auto simp: accepts_closes)
qed

lemma accepts_iff: "accepts [] as \<longleftrightarrow> (\<exists>b. instrs b \<and> as = b @ [A_End])"
  using accepts_lang [of "[]" as] lang_accepts [of "[]" as] by (auto simp: expr_end_def)

lemma expression_iff:
  "expression d r = Inr (ls, r') \<longleftrightarrow>
     decodes r ls r' \<and> (\<exists>b. instrs b \<and> map (\<lambda>l. arm (lo_instr l)) ls = b @ [A_End]) \<and>
     (d = DataIndices_NeedDataCount \<longrightarrow> (\<forall>l \<in> set ls. data_index (lo_instr l) = None))"
  unfolding expression_def expression_from_iff accepts_iff by blast

section \<open>Offsets and locals\<close>

lemma decodes_offsets:
  assumes "decodes r ls r'"
  shows "sorted_wrt (<) (map lo_offset ls) \<and> (\<forall>l \<in> set ls. rpos r \<le> lo_offset l \<and> lo_offset l < rpos r')"
  using assms
proof (induction rule: decodes.induct)
  case (decodes_Cons r i s ls r')
  from decodes_Cons.hyps(1) obtain m where "1 \<le> m" "s = advance m r" by (rule instr.success)
  moreover from decodes_moves [OF decodes_Cons.hyps(2)] obtain n where "r' = advance n s" by blast
  ultimately show ?case using decodes_Cons.IH by fastforce
qed simp

text \<open>The runs of locals a body declares never sum past \<open>u32::MAX\<close>.\<close>

definition runs_total :: "LocalRun list \<Rightarrow> nat" where
  "runs_total runs = sum_list (map (\<lambda>run. unat (lr_count run)) runs)"

lemma local_run_total:
  assumes "local_run (tot, locals) r = Inr ((tot', locals'), r')" "unat tot = runs_total locals"
    "runs_total locals \<le> u32_MAX"
  shows "unat tot' = runs_total locals' \<and> runs_total locals' \<le> u32_MAX"
proof -
  from assms(1) obtain n ty where t: "tot' = tot + ucast n" "\<not> tot' > 2 ^ 32 - 1"
    and l: "locals' = locals @ [\<lparr>lr_count = n, lr_ty = ty\<rparr>]"
    by (auto simp: local_run_def with_offset_def bnd_Inr_iff Let_def split: if_splits)
  have "unat tot + unat n < 2 ^ 64" using assms(2,3) unat_u32_le [of n] by simp
  then have "unat tot' = unat tot + unat n"
    unfolding t(1) by (subst unat_add_lem [THEN iffD1]) simp_all
  moreover have "unat tot' \<le> u32_MAX" using t(2) by (simp add: not_less word_le_nat_alt)
  ultimately show ?thesis using assms(2) l by (simp add: runs_total_def)
qed

lemma runs_total_sum:
  "runs_total runs \<le> u32_MAX \<Longrightarrow> unat (sum_list (map (\<lambda>run. ucast (lr_count run)) runs) :: u64) = runs_total runs"
proof (induction runs)
  case (Cons run runs)
  then have "unat (lr_count run) + runs_total runs < 2 ^ 64" "runs_total runs \<le> u32_MAX"
    by (simp_all add: runs_total_def)
  with Cons.IH show ?case
    by (simp add: runs_total_def) (subst unat_add_lem [THEN iffD1], simp_all)
qed (simp add: runs_total_def)

lemma body_locals:
  assumes "body d r = Inr ((locals, instructions), r')"
  shows "runs_total locals \<le> u32_MAX"
proof -
  from assms obtain n tot s s' where "iter n local_run (0, []) s = Inr ((tot, locals), s')"
    by (auto simp: body_def bnd_Inr_iff filled_def split: if_splits)
  then have "(case (tot, locals) of (tot, locals) \<Rightarrow> unat tot = runs_total locals \<and> runs_total locals \<le> u32_MAX)"
    by (rule iter_invariant) (auto simp: runs_total_def [of "[]"] dest: local_run_total)
  then show ?thesis by simp
qed

text \<open>A body is read to the last byte of its range.\<close>

lemma body_fills:
  assumes "body d r = Inr (x, r')"
  shows "rpos r' = rend r"
proof -
  from assms have "at_end r'" by (auto simp: body_def bnd_Inr_iff filled_def split: if_splits)
  moreover obtain n where "r' = advance n r" using body.success [OF assms] .
  ultimately show ?thesis by (simp add: at_end_def)
qed

interpretation counted: item_reader "count k" 1 for k
  by unfold_locales (rule count_reads)

interpretation local_runs: item_reader "iter n local_run s" 0 for n s
  by unfold_locales (rule reads_weaken, rule reads_iter, rule reads_facts, simp)

text \<open>After the count and the runs of locals, the instructions follow to the end of the range.\<close>

lemma body_stages:
  assumes "body d r = Inr ((locals, ls), r')" "reader_wf r"
  obtains s where "reader_wf s" "rpos r < rpos s" "expression d s = Inr (ls, r')"
proof -
  from assms(1) obtain n r1 tot s where c: "count 2 r = Inr (n, r1)" "iter (unat n) local_run (0, []) r1 = Inr ((tot, locals), s)"
    and e: "expression d s = Inr (ls, r')"
    by (auto simp: body_def bnd_Inr_iff filled_def split: if_splits)
  obtain a where "1 \<le> a" "r1 = advance a r" using counted.success [OF c(1)] by blast
  moreover obtain b where "s = advance b r1" using local_runs.success [OF c(2)] by blast
  moreover have "reader_wf s" by (rule local_runs.keeps_wf [OF c(2) counted.keeps_wf [OF c(1) assms(2)]])
  ultimately show thesis using that [of s] e by simp
qed

lemma body_offsets:
  assumes "body d r = Inr ((locals, ls), r')" "reader_wf r"
  shows "ls \<noteq> []" "sorted_wrt (<) (map lo_offset ls)" "\<forall>l \<in> set ls. rpos r < lo_offset l \<and> lo_offset l < rend r"
proof -
  obtain s where s: "rpos r < rpos s" "expression d s = Inr (ls, r')" using body_stages [OF assms] by blast
  then have "decodes s ls r'" "map (\<lambda>l. arm (lo_instr l)) ls \<noteq> []" by (auto simp: expression_iff)
  with decodes_offsets [of s ls r'] s(1) body_fills [OF assms(1)]
  show "ls \<noteq> []" "sorted_wrt (<) (map lo_offset ls)" "\<forall>l \<in> set ls. rpos r < lo_offset l \<and> lo_offset l < rend r"
    by fastforce+
qed

end
