(* ===== verification/Wasm_Names.thy ===== *)
theory Wasm_Names
  imports Wasm_Body
begin

text \<open>
  The \<open>name\<close> custom section, \<open>src/crates/n0xis-wasm/src/names.rs\<close>. A \<open>BTreeMap\<close> is a partial
  function; a name is its UTF-8 bytes. Functions that mutate \<open>names\<close> and \<open>problems\<close> return
  them. A subsection reads all its bytes before it places anything, so its error leaves
  both as they were.
\<close>

type_synonym name = "u8 list"

datatype Within =
    Within_Function FuncIdx
  | Within_Type TypeIdx

record Names =
  nm_module :: "name option"
  nm_functions :: "FuncIdx \<rightharpoonup> name"
  nm_locals :: "FuncIdx \<rightharpoonup> (LocalIdx \<rightharpoonup> name)"
  nm_labels :: "FuncIdx \<rightharpoonup> (u32 \<rightharpoonup> name)"
  nm_types :: "TypeIdx \<rightharpoonup> name"
  nm_tables :: "TableIdx \<rightharpoonup> name"
  nm_memories :: "MemIdx \<rightharpoonup> name"
  nm_globals :: "GlobalIdx \<rightharpoonup> name"
  nm_elements :: "ElemIdx \<rightharpoonup> name"
  nm_data :: "DataIdx \<rightharpoonup> name"
  nm_fields :: "TypeIdx \<rightharpoonup> (FieldIdx \<rightharpoonup> name)"
  nm_tags :: "TagIdx \<rightharpoonup> name"

definition Names_default :: Names where
  "Names_default = \<lparr>nm_module = None, nm_functions = Map.empty, nm_locals = Map.empty, nm_labels = Map.empty,
     nm_types = Map.empty, nm_tables = Map.empty, nm_memories = Map.empty, nm_globals = Map.empty,
     nm_elements = Map.empty, nm_data = Map.empty, nm_fields = Map.empty, nm_tags = Map.empty\<rparr>"

datatype NameProblem =
    NameProblem_Repeated
  | NameProblem_BeforeStandardSection u8
  | NameProblem_SubsectionOrder u8 u8
  | NameProblem_SubsectionNotRead u8
  | NameProblem_Subsection u8 Error
  | NameProblem_Framing Error
  | NameProblem_IndexOrder u8 "Within option" u32

type_synonym Assoc = "u32 \<times> name"

section \<open>Reading maps\<close>

definition name_assoc :: "Assoc parser" where
  "name_assoc = bnd read_u32 (\<lambda>index. bnd read_name (\<lambda>name. ret (index, name)))"

definition name_map :: "Assoc list parser" where
  "name_map = bnd (count 2) (\<lambda>n. rep (unat n) name_assoc)"

definition indirect_assoc :: "(u32 \<times> Assoc list) parser" where
  "indirect_assoc = bnd read_u32 (\<lambda>index. bnd name_map (\<lambda>m. ret (index, m)))"

definition indirect_name_map :: "(u32 \<times> Assoc list) list parser" where
  "indirect_name_map = bnd (count 2) (\<lambda>n. rep (unat n) indirect_assoc)"

section \<open>Placing names\<close>

definition out_of_order ::
  "u32 option \<Rightarrow> u32 \<Rightarrow> u8 \<Rightarrow> Within option \<Rightarrow> NameProblem list \<Rightarrow> u32 option \<times> NameProblem list" where
  "out_of_order previous index subsection within problems =
     (Some index,
      case previous of
        Some p \<Rightarrow> if index \<le> p then problems @ [NameProblem_IndexOrder subsection within index] else problems
      | None \<Rightarrow> problems)"

text \<open>\<open>map.entry(k).or_insert(v)\<close>: the first value of a key stays.\<close>

definition or_insert :: "('k \<rightharpoonup> 'v) \<Rightarrow> 'k \<Rightarrow> 'v \<Rightarrow> ('k \<rightharpoonup> 'v)" where
  "or_insert m k v = (case m k of None \<Rightarrow> m(k \<mapsto> v) | Some _ \<Rightarrow> m)"

fun place_from ::
  "u32 option \<Rightarrow> ('k \<rightharpoonup> name) \<Rightarrow> Assoc list \<Rightarrow> (u32 \<Rightarrow> 'k) \<Rightarrow> u8 \<Rightarrow> Within option \<Rightarrow> NameProblem list
    \<Rightarrow> ('k \<rightharpoonup> name) \<times> NameProblem list" where
  "place_from previous m [] key subsection within problems = (m, problems)"
| "place_from previous m ((index, name) # entries) key subsection within problems =
     (let (previous', problems') = out_of_order previous index subsection within problems in
      place_from previous' (or_insert m (key index) name) entries key subsection within problems')"

definition place ::
  "('k \<rightharpoonup> name) \<Rightarrow> Assoc list \<Rightarrow> (u32 \<Rightarrow> 'k) \<Rightarrow> u8 \<Rightarrow> Within option \<Rightarrow> NameProblem list
    \<Rightarrow> ('k \<rightharpoonup> name) \<times> NameProblem list" where
  "place = place_from None"

text \<open>\<open>into\<close> is the \<open>Into<Within>\<close> of the outer key's type.\<close>

fun place_indirect_from ::
  "u32 option \<Rightarrow> ('k \<rightharpoonup> ('l \<rightharpoonup> name)) \<Rightarrow> (u32 \<times> Assoc list) list \<Rightarrow> (u32 \<Rightarrow> 'k) \<Rightarrow> ('k \<Rightarrow> Within) \<Rightarrow> (u32 \<Rightarrow> 'l)
    \<Rightarrow> u8 \<Rightarrow> NameProblem list \<Rightarrow> ('k \<rightharpoonup> ('l \<rightharpoonup> name)) \<times> NameProblem list" where
  "place_indirect_from previous m [] outer into inner subsection problems = (m, problems)"
| "place_indirect_from previous m ((index, names) # entries) outer into inner subsection problems =
     (let (previous', problems') = out_of_order previous index subsection None problems;
          key = outer index in
      if m key \<noteq> None then place_indirect_from previous' m entries outer into inner subsection problems'
      else
        let (inner_map, problems'') = place Map.empty names inner subsection (Some (into key)) problems' in
        place_indirect_from previous' (m(key \<mapsto> inner_map)) entries outer into inner subsection problems'')"

definition place_indirect ::
  "('k \<rightharpoonup> ('l \<rightharpoonup> name)) \<Rightarrow> (u32 \<times> Assoc list) list \<Rightarrow> (u32 \<Rightarrow> 'k) \<Rightarrow> ('k \<Rightarrow> Within) \<Rightarrow> (u32 \<Rightarrow> 'l)
    \<Rightarrow> u8 \<Rightarrow> NameProblem list \<Rightarrow> ('k \<rightharpoonup> ('l \<rightharpoonup> name)) \<times> NameProblem list" where
  "place_indirect = place_indirect_from None"

section \<open>Subsections\<close>

definition LAST_KNOWN_SUBSECTION :: u8 where
  "LAST_KNOWN_SUBSECTION = 11"

text \<open>
  The check that contents fill their stated size: \<open>size as usize - r.remaining()\<close> is a checked
  subtraction, a panic where more bytes remain than were stated.
\<close>

definition filled_used :: "nat \<Rightarrow> (nat \<Rightarrow> Problem) \<Rightarrow> 'a \<Rightarrow> 'a parser" where
  "filled_used sz problem x r =
     (if at_end r then ret x r
      else if sz < remaining r then panic ''attempt to subtract with overflow'' r
      else err (offset r) (problem (sz - remaining r)) r)"

fun place_named :: "u8 \<Rightarrow> Assoc list \<Rightarrow> Names \<times> NameProblem list \<Rightarrow> Names \<times> NameProblem list" where
  "place_named sid m (names, problems) =
     (if sid = 1 then let (t, ps) = place (nm_functions names) m FuncIdx sid None problems in (names\<lparr>nm_functions := t\<rparr>, ps)
      else if sid = 4 then let (t, ps) = place (nm_types names) m TypeIdx sid None problems in (names\<lparr>nm_types := t\<rparr>, ps)
      else if sid = 5 then let (t, ps) = place (nm_tables names) m TableIdx sid None problems in (names\<lparr>nm_tables := t\<rparr>, ps)
      else if sid = 6 then let (t, ps) = place (nm_memories names) m MemIdx sid None problems in (names\<lparr>nm_memories := t\<rparr>, ps)
      else if sid = 7 then let (t, ps) = place (nm_globals names) m GlobalIdx sid None problems in (names\<lparr>nm_globals := t\<rparr>, ps)
      else if sid = 8 then let (t, ps) = place (nm_elements names) m ElemIdx sid None problems in (names\<lparr>nm_elements := t\<rparr>, ps)
      else if sid = 9 then let (t, ps) = place (nm_data names) m DataIdx sid None problems in (names\<lparr>nm_data := t\<rparr>, ps)
      else let (t, ps) = place (nm_tags names) m TagIdx sid None problems in (names\<lparr>nm_tags := t\<rparr>, ps))"

fun place_named_indirect ::
  "u8 \<Rightarrow> (u32 \<times> Assoc list) list \<Rightarrow> Names \<times> NameProblem list \<Rightarrow> Names \<times> NameProblem list" where
  "place_named_indirect sid m (names, problems) =
     (if sid = 2 then
        let (t, ps) = place_indirect (nm_locals names) m FuncIdx Within_Function LocalIdx sid problems in
        (names\<lparr>nm_locals := t\<rparr>, ps)
      else if sid = 3 then
        let (t, ps) = place_indirect (nm_labels names) m FuncIdx Within_Function (\<lambda>i. i) sid problems in
        (names\<lparr>nm_labels := t\<rparr>, ps)
      else
        let (t, ps) = place_indirect (nm_fields names) m TypeIdx Within_Type FieldIdx sid problems in
        (names\<lparr>nm_fields := t\<rparr>, ps))"

definition name_subsection :: "u8 \<Rightarrow> u32 \<Rightarrow> Names \<times> NameProblem list \<Rightarrow> (Names \<times> NameProblem list) parser" where
  "name_subsection sid sz st =
     (if sid = 0 then
        bnd read_name (\<lambda>name. bnd (filled_used (unat sz) (SubsectionSize sid sz) ()) (\<lambda>_.
          ret (case st of (names, problems) \<Rightarrow> (names\<lparr>nm_module := Some name\<rparr>, problems))))
      else if sid = 2 \<or> sid = 3 \<or> sid = 10 then
        bnd indirect_name_map (\<lambda>m. bnd (filled_used (unat sz) (SubsectionSize sid sz) ()) (\<lambda>_.
          ret (place_named_indirect sid m st)))
      else
        bnd name_map (\<lambda>m. bnd (filled_used (unat sz) (SubsectionSize sid sz) ()) (\<lambda>_.
          ret (place_named sid m st))))"

text \<open>The frame of a subsection, or of a section: an id, a size, and the reader over its contents.\<close>

definition framed :: "(u8 \<times> u32 \<times> Reader) parser" where
  "framed = bnd byte (\<lambda>sid. bnd read_u32 (\<lambda>sz. bnd (sub (unat sz)) (\<lambda>s. ret (sid, sz, s))))"

lemma framed_shrinks:
  assumes "framed r = Inr (x, r')"
  shows "rend r' - rpos r' < rend r - rpos r"
proof -
  from assms obtain sid r1 n r2 s where "byte r = Inr (sid, r1)" "read_u32 r1 = Inr (n, r2)" "sub (unat n) r2 = Inr (s, r')"
    by (auto simp: framed_def bnd_Inr_iff)
  then show ?thesis
    using u8_item.shrinks [of r sid r1] u32_item.shrinks [of r1 n r2] by (auto simp: sub_Inr_iff)
qed

text \<open>
  \<open>names::read\<close>: an error of a subsection is recorded and reading goes on; a panic is not
  caught here and leaves the loop.
\<close>

function names_read_from :: "u8 option \<Rightarrow> Reader \<Rightarrow> Names \<times> NameProblem list \<Rightarrow> (Names \<times> NameProblem list) result" where
  "names_read_from lst r st =
     (if at_end r then Inr st
      else case framed r of
        Inl error \<Rightarrow> if is_panic error then Inl error else Inr (fst st, snd st @ [NameProblem_Framing error])
      | Inr ((sid, sz, s), r') \<Rightarrow>
          if (case lst of Some after \<Rightarrow> sid \<le> after | None \<Rightarrow> False)
          then names_read_from lst r' (fst st, snd st @ [NameProblem_SubsectionOrder sid (the lst)])
          else if sid > LAST_KNOWN_SUBSECTION
          then names_read_from (Some sid) r' (fst st, snd st @ [NameProblem_SubsectionNotRead sid])
          else case name_subsection sid sz st s of
            Inl error \<Rightarrow> if is_panic error then Inl error
              else names_read_from (Some sid) r' (fst st, snd st @ [NameProblem_Subsection sid error])
          | Inr (st', _) \<Rightarrow> names_read_from (Some sid) r' st')"
  by pat_completeness auto
termination
  by (relation "measure (\<lambda>(lst, r, st). rend r - rpos r)") (auto dest: framed_shrinks)

declare names_read_from.simps [simp del]

definition names_read :: "Reader \<Rightarrow> Names \<times> NameProblem list \<Rightarrow> (Names \<times> NameProblem list) result" where
  "names_read = names_read_from None"

section \<open>Placing: the first name of an index stays, every index out of order is reported\<close>

text \<open>The indices of a list that are not above the one before them.\<close>

fun breaks :: "u32 option \<Rightarrow> u32 list \<Rightarrow> u32 list" where
  "breaks previous [] = []"
| "breaks previous (i # is) =
     (case previous of Some p \<Rightarrow> if i \<le> p then [i] else [] | None \<Rightarrow> []) @ breaks (Some i) is"

lemma breaks_Nil_iff: "breaks None is = [] \<longleftrightarrow> sorted_wrt (<) is"
proof -
  have some: "breaks (Some p) js = [] \<longleftrightarrow> sorted_wrt (<) (p # js)" for p js
    by (induction js arbitrary: p) (auto simp: not_le intro: less_trans)
  show ?thesis by (cases "is") (simp_all add: some del: sorted_wrt.simps(2))
qed

lemma place_from_eq:
  "place_from previous m entries key sb within problems =
     (map_of (map (\<lambda>(i, n). (key i, n)) entries) ++ m,
      problems @ map (NameProblem_IndexOrder sb within) (breaks previous (map fst entries)))"
proof (induction entries arbitrary: previous m problems)
  case (Cons e entries)
  obtain i n where e: "e = (i, n)" by force
  have "map_of xs ++ or_insert m k v = map_of ((k, v) # xs) ++ m" for k v and xs :: "('a \<times> name) list"
    by (rule ext) (auto simp: or_insert_def map_add_def split: option.splits)
  then show ?case
    by (simp add: e Cons.IH out_of_order_def fun_upd_def split: option.split)
qed simp

lemma place_eq:
  "place m entries key sb within problems =
     (map_of (map (\<lambda>(i, n). (key i, n)) entries) ++ m,
      problems @ map (NameProblem_IndexOrder sb within) (breaks None (map fst entries)))"
  by (simp add: place_def place_from_eq)

section \<open>The name section never stops the reader\<close>

lemma name_assoc_reads [reads_facts]: "reads lo hi 2 name_assoc"
  unfolding name_assoc_def
  by (rule reads_intros reads_facts | (rule reads_weaken, rule reads_rep) | simp)+

lemma name_map_reads [reads_facts]: "reads lo hi 1 name_map"
  unfolding name_map_def
  by (rule reads_intros reads_facts | (rule reads_weaken, rule reads_rep) | simp)+

lemma indirect_assoc_reads [reads_facts]: "reads lo hi 2 indirect_assoc"
  unfolding indirect_assoc_def
  by (rule reads_intros reads_facts | (rule reads_weaken, rule reads_rep) | simp)+

lemma indirect_name_map_reads [reads_facts]: "reads lo hi 1 indirect_name_map"
  unfolding indirect_name_map_def
  by (rule reads_intros reads_facts | (rule reads_weaken, rule reads_rep) | simp)+

lemma filled_used_eq:
  "remaining r \<le> sz \<Longrightarrow> filled_used sz problem x r = filled (\<lambda>n. problem (sz - n)) x r"
  by (simp add: filled_used_def filled_def)

text \<open>
  Contents read from a reader with no more bytes than stated: the check after them cannot
  stop on its subtraction.
\<close>

lemma bnd_filled_used:
  assumes "reads 0 0 k p" "remaining r \<le> sz"
  shows "bnd p (\<lambda>x. bnd (filled_used sz problem ()) (\<lambda>_. ret (f x))) r =
    bnd p (\<lambda>x. bnd (filled (\<lambda>n. problem (sz - n)) ()) (\<lambda>_. ret (f x))) r"
proof (rule bnd_cong [OF refl])
  fix x s assume "p r = Inr (x, s)"
  then obtain n where "s = advance n r"
    using assms(1) movesD [of 0 k p r x s] unfolding reads_def by blast
  then have "remaining s \<le> sz" using assms(2) by (simp add: remaining_def)
  then show "bnd (filled_used sz problem ()) (\<lambda>_. ret (f x)) s =
      bnd (filled (\<lambda>n. problem (sz - n)) ()) (\<lambda>_. ret (f x)) s"
    by (simp add: bnd_def filled_used_eq)
qed

lemma reads_filled_after:
  "reads lo hi k p \<Longrightarrow> reads lo hi k (bnd p (\<lambda>x. bnd (filled q ()) (\<lambda>_. ret (f x))))"
  by (rule reads_bnd, assumption) (rule reads_intros reads_facts | simp)+

lemma refusal_filled_used:
  assumes p: "\<And>lo hi. reads lo hi k p" and r: "reader_wf r" "remaining r \<le> sz"
    and e: "bnd p (\<lambda>x. bnd (filled_used sz problem ()) (\<lambda>_. ret (f x))) r = Inl e"
  shows "refusal_within (rpos r) (rend r) e"
proof -
  have "reads (rpos r) (rpos r) k (bnd p (\<lambda>x. bnd (filled (\<lambda>n. problem (sz - n)) ()) (\<lambda>_. ret (f x))))"
    by (rule reads_filled_after) (rule p)
  with e r show ?thesis
    unfolding bnd_filled_used [OF p r(2)] reads_def refuses_def by blast
qed

lemma name_subsection_refusal:
  assumes "reader_wf r" "remaining r \<le> unat sz" "name_subsection sid sz st r = Inl e"
  shows "refusal_within (rpos r) (rend r) e"
  using assms(3) unfolding name_subsection_def
  by (auto split: if_splits dest!: refusal_filled_used [OF _ assms(1,2), rotated]
      intro: read_name_reads name_map_reads indirect_name_map_reads)

fun problem_within :: "nat \<Rightarrow> nat \<Rightarrow> NameProblem \<Rightarrow> bool" where
  "problem_within lo hi (NameProblem_Subsection _ e) = refusal_within lo hi e"
| "problem_within lo hi (NameProblem_Framing e) = refusal_within lo hi e"
| "problem_within lo hi _ = True"

lemma place_problems:
  "list_all (problem_within lo hi) ps \<Longrightarrow> list_all (problem_within lo hi) (snd (place m entries key sb within ps))"
  by (auto simp: place_eq list_all_iff)

lemma place_indirect_problems:
  "list_all (problem_within lo hi) ps \<Longrightarrow>
     list_all (problem_within lo hi) (snd (place_indirect_from previous m entries outer into inner sb ps))"
proof (induction entries arbitrary: previous m ps)
  case (Cons e entries)
  obtain index names where e: "e = (index, names)" by force
  let ?ps = "snd (out_of_order previous index sb None ps)"
  have ok: "list_all (problem_within lo hi) ?ps"
    using Cons.prems by (auto simp: out_of_order_def split: option.split)
  have "list_all (problem_within lo hi) (snd (place Map.empty names inner sb (Some (into (outer index))) ?ps))"
    by (rule place_problems [OF ok])
  with Cons.IH [OF ok] Cons.IH show ?case by (simp add: e Let_def case_prod_beta)
qed simp

lemma place_named_problems:
  "list_all (problem_within lo hi) ps \<Longrightarrow> list_all (problem_within lo hi) (snd (place_named sid m (names, ps)))"
  by (simp add: place_problems case_prod_beta)

lemma place_named_indirect_problems:
  "list_all (problem_within lo hi) ps \<Longrightarrow> list_all (problem_within lo hi) (snd (place_named_indirect sid m (names, ps)))"
  by (simp add: place_indirect_def place_indirect_problems case_prod_beta)

lemma name_subsection_problems:
  assumes "name_subsection sid sz (names, ps) r = Inr (st', r')" "list_all (problem_within lo hi) ps"
  shows "list_all (problem_within lo hi) (snd st')"
  using assms place_named_problems place_named_indirect_problems
  by (auto simp: name_subsection_def bnd_Inr_iff simp del: place_named.simps place_named_indirect.simps
      split: if_splits)

text \<open>The header: the reader it hands out lies between the header and what follows.\<close>

lemma framed_refusal:
  assumes "reader_wf r" "framed r = Inl e"
  shows "refusal_within (rpos r) (rend r) e"
proof -
  have "reads (rpos r) (rpos r) 0 (bnd byte (\<lambda>sid. bnd read_u32 (\<lambda>sz. bnd (take_bytes (unat sz)) (\<lambda>_. ret ()))))"
    by (rule reads_intros reads_facts | (rule reads_weaken, rule reads_facts) | simp)+
  then have "refusal_within (rpos r) (rend r) e"
    if "bnd byte (\<lambda>sid. bnd read_u32 (\<lambda>sz. bnd (take_bytes (unat sz)) (\<lambda>_. ret ()))) r = Inl e" for e
    using that assms(1) unfolding reads_def refuses_def by blast
  moreover have "sub n s = Inl e \<Longrightarrow> take_bytes n s = Inl e" for n s e
    by (auto simp: sub_def take_bytes_def short_def err_def split: if_splits)
  ultimately show ?thesis
    using assms(2) by (auto simp: framed_def bnd_Inl_iff bnd_Inr_iff)
qed

lemma framed_frame:
  assumes "framed r = Inr ((sid, sz, s), r')" "reader_wf r"
  shows "reader_wf s \<and> reader_wf r' \<and> rpos r < rpos s \<and> rend s = rpos r' \<and> rpos s \<le> rpos r' \<and> rend r' = rend r \<and>
    remaining s = unat sz \<and> rbytes s = rbytes r \<and> rbytes r' = rbytes r"
proof -
  from assms obtain r1 r2 where b: "byte r = Inr (sid, r1)" and n: "read_u32 r1 = Inr (sz, r2)"
    and s: "sub (unat sz) r2 = Inr (s, r')"
    by (auto simp: framed_def bnd_Inr_iff)
  have wf: "reader_wf r2" using u32_item.keeps_wf [OF n] u8_item.keeps_wf [OF b] assms(2) by blast
  obtain i where i: "1 \<le> i" "r1 = advance i r" using u8_item.success [OF b] by blast
  obtain j where j: "r2 = advance j r1" using u32_item.success [OF n] by blast
  show ?thesis
    using sub_wf [OF s wf] s i j by (auto simp: sub_Inr_iff remaining_def)
qed

lemma names_read_from_problems:
  "reader_wf r \<Longrightarrow> lo \<le> rpos r \<Longrightarrow> rend r \<le> hi \<Longrightarrow> list_all (problem_within lo hi) (snd st) \<Longrightarrow>
     \<exists>st'. names_read_from lst r st = Inr st' \<and> list_all (problem_within lo hi) (snd st')"
proof (induction lst r st rule: names_read_from.induct)
  case (1 lst r st)
  show ?case
  proof (cases "at_end r")
    case True
    with 1 show ?thesis by (subst names_read_from.simps) simp
  next
    case False
    show ?thesis
    proof (cases "framed r")
      case (Inl e)
      have "refusal_within lo hi e"
        using refusal_within_mono [OF framed_refusal [OF 1(5) Inl]] 1 by simp
      with False Inl 1 show ?thesis
        by (subst names_read_from.simps) (auto simp: is_panic_refusal)
    next
      case (Inr h)
      obtain sid sz s r' where h: "framed r = Inr ((sid, sz, s), r')"
        using Inr by (metis prod.exhaust)
      note f = framed_frame [OF h 1(5)]
      have sub: "refusal_within lo hi e" if "name_subsection sid sz st s = Inl e" for e
        using refusal_within_mono [OF name_subsection_refusal [OF _ _ that]] f 1 by (auto simp: reader_wf_def)
      have keep: "list_all (problem_within lo hi) (snd st')" if "name_subsection sid sz st s = Inr (st', s')" for st' s'
        using name_subsection_problems [of sid sz "fst st" "snd st" s] that 1 by auto
      have next_ok: "\<exists>st'. names_read_from (Some sid) r' st1 = Inr st' \<and> list_all (problem_within lo hi) (snd st')"
        if "\<not> (case lst of Some after \<Rightarrow> sid \<le> after | None \<Rightarrow> False)" "\<not> sid > LAST_KNOWN_SUBSECTION"
          "name_subsection sid sz st s = Inr (st1, s')" for st1 s'
        using "1.IH"(4) [OF False h refl refl refl that refl] keep [OF that(3)] f 1 by auto
      have skip_ok: "\<exists>st'. names_read_from (Some sid) r' (fst st, snd st @ [NameProblem_Subsection sid e]) = Inr st' \<and>
          list_all (problem_within lo hi) (snd st')"
        if "\<not> (case lst of Some after \<Rightarrow> sid \<le> after | None \<Rightarrow> False)" "\<not> sid > LAST_KNOWN_SUBSECTION"
          "name_subsection sid sz st s = Inl e" for e
        using "1.IH"(3) [OF False h refl refl refl that] sub [OF that(3)] f 1 by (auto simp: is_panic_refusal)
      show ?thesis
      proof (cases "case lst of Some after \<Rightarrow> sid \<le> after | None \<Rightarrow> False")
        case True
        then show ?thesis
          using "1.IH"(1) [OF False h refl refl refl] h f 1 False by (subst names_read_from.simps) auto
      next
        case in_order: False
        show ?thesis
        proof (cases "sid > LAST_KNOWN_SUBSECTION")
          case True
          then show ?thesis
            using "1.IH"(2) [OF False h refl refl refl in_order] h f 1 False in_order
            by (subst names_read_from.simps) auto
        next
          case known: False
          show ?thesis
          proof (cases "name_subsection sid sz st s")
            case (Inl e)
            then show ?thesis using skip_ok [OF in_order known Inl] sub [OF Inl] h False in_order known
              by (subst names_read_from.simps) (auto simp: is_panic_refusal)
          next
            case (Inr x)
            obtain st1 s' where "x = (st1, s')" by (cases x) auto
            with Inr show ?thesis using next_ok [OF in_order known] h False in_order known
              by (subst names_read_from.simps) auto
          qed
        qed
      qed
    qed
  qed
qed

lemma names_read_problems:
  assumes "reader_wf r" "lo \<le> rpos r" "rend r \<le> hi"
  shows "\<exists>names problems. names_read r (Names_default, []) = Inr (names, problems) \<and>
    list_all (problem_within lo hi) problems"
  using names_read_from_problems [OF assms, of "(Names_default, [])" None] by (auto simp: names_read_def)

end
