(* ===== verification/Wasm_Module.thy ===== *)
theory Wasm_Module
  imports Wasm_Names
begin

text \<open>
  The module, \<open>src/crates/n0xis-wasm/src/module.rs\<close> and the guarded entry points of
  \<open>src/crates/n0xis-wasm/src/lib.rs\<close>: sections, their entries, the index spaces they make, and
  the table between a function's index and its position. The state of the reading loop is
  the record \<open>Reading\<close>; each arm of \<open>match kind\<close> is one definition \<open>read_..._section\<close> over the
  module read so far. A panic is the error \<open>Internal\<close>, which the guarded entry points
  return.
\<close>

definition MAGIC :: "u8 list" where "MAGIC = [0x00, 0x61, 0x73, 0x6d]"
definition VERSION :: u32 where "VERSION = 1"

section \<open>Sections\<close>

datatype SectionKind =
    SectionKind_Custom name
  | SectionKind_Type
  | SectionKind_Import
  | SectionKind_Function
  | SectionKind_Table
  | SectionKind_Memory
  | SectionKind_Global
  | SectionKind_Export
  | SectionKind_Start
  | SectionKind_Element
  | SectionKind_Code
  | SectionKind_Data
  | SectionKind_DataCount
  | SectionKind_Tag

fun SectionKind_id :: "SectionKind \<Rightarrow> u8" where
  "SectionKind_id (SectionKind_Custom _) = 0"
| "SectionKind_id SectionKind_Type = 1"
| "SectionKind_id SectionKind_Import = 2"
| "SectionKind_id SectionKind_Function = 3"
| "SectionKind_id SectionKind_Table = 4"
| "SectionKind_id SectionKind_Memory = 5"
| "SectionKind_id SectionKind_Global = 6"
| "SectionKind_id SectionKind_Export = 7"
| "SectionKind_id SectionKind_Start = 8"
| "SectionKind_id SectionKind_Element = 9"
| "SectionKind_id SectionKind_Code = 10"
| "SectionKind_id SectionKind_Data = 11"
| "SectionKind_id SectionKind_DataCount = 12"
| "SectionKind_id SectionKind_Tag = 13"

definition SectionKind_standard :: "u8 \<Rightarrow> SectionKind option" where
  "SectionKind_standard i =
     (if i = 1 then Some SectionKind_Type
      else if i = 2 then Some SectionKind_Import
      else if i = 3 then Some SectionKind_Function
      else if i = 4 then Some SectionKind_Table
      else if i = 5 then Some SectionKind_Memory
      else if i = 6 then Some SectionKind_Global
      else if i = 7 then Some SectionKind_Export
      else if i = 8 then Some SectionKind_Start
      else if i = 9 then Some SectionKind_Element
      else if i = 10 then Some SectionKind_Code
      else if i = 11 then Some SectionKind_Data
      else if i = 12 then Some SectionKind_DataCount
      else if i = 13 then Some SectionKind_Tag
      else None)"

fun SectionKind_rank :: "SectionKind \<Rightarrow> nat" where
  "SectionKind_rank (SectionKind_Custom _) = 0"
| "SectionKind_rank SectionKind_Type = 1"
| "SectionKind_rank SectionKind_Import = 2"
| "SectionKind_rank SectionKind_Function = 3"
| "SectionKind_rank SectionKind_Table = 4"
| "SectionKind_rank SectionKind_Memory = 5"
| "SectionKind_rank SectionKind_Tag = 6"
| "SectionKind_rank SectionKind_Global = 7"
| "SectionKind_rank SectionKind_Export = 8"
| "SectionKind_rank SectionKind_Start = 9"
| "SectionKind_rank SectionKind_Element = 10"
| "SectionKind_rank SectionKind_DataCount = 11"
| "SectionKind_rank SectionKind_Code = 12"
| "SectionKind_rank SectionKind_Data = 13"

record Section =
  se_kind :: SectionKind
  se_contents :: range

section \<open>Entries\<close>

datatype ImportItem =
    ImportItem_Func TypeIdx
  | ImportItem_Table TableType
  | ImportItem_Memory MemoryType
  | ImportItem_Global GlobalType
  | ImportItem_Tag TypeIdx

record Import =
  im_module :: name
  im_name :: name
  im_item :: ImportItem

datatype ExportItem =
    ExportItem_Func FuncIdx
  | ExportItem_Table TableIdx
  | ExportItem_Memory MemIdx
  | ExportItem_Global GlobalIdx
  | ExportItem_Tag TagIdx

record Export =
  ex_name :: name
  ex_item :: ExportItem

datatype Origin = Origin_Imported nat | Origin_Defined

datatype FuncOrigin = FuncOrigin_Imported nat | FuncOrigin_Defined nat

record Func =
  fu_ty :: TypeIdx
  fu_origin :: FuncOrigin

datatype TableOrigin = TableOrigin_Imported nat | TableOrigin_Defined "Located list option"

record Table =
  ta_ty :: TableType
  ta_origin :: TableOrigin

record Memory =
  me_ty :: MemoryType
  me_origin :: Origin

record Tag =
  tg_ty :: TypeIdx
  tg_origin :: Origin

datatype GlobalOrigin = GlobalOrigin_Imported nat | GlobalOrigin_Defined "Located list"

record Global =
  gl_ty :: GlobalType
  gl_origin :: GlobalOrigin

datatype ElementMode =
    ElementMode_Passive
  | ElementMode_Declarative
  | ElementMode_Active TableIdx "Located list"

datatype ElementItems =
    ElementItems_Functions "FuncIdx list"
  | ElementItems_Expressions "Located list list"

record ElementSegment =
  el_form :: u32
  el_ty :: RefType
  el_mode :: ElementMode
  el_items :: ElementItems

datatype DataMode =
    DataMode_Passive
  | DataMode_Active MemIdx "Located list"

record DataSegment =
  ds_mode :: DataMode
  ds_init :: range

datatype Finding =
    Finding_Name NameProblem
  | Finding_Body FuncIdx Error

record Module =
  mo_bytes :: "u8 list"
  mo_sections :: "Section list"
  mo_types :: "SubType list"
  mo_rec_groups :: "RecGroup list"
  mo_imports :: "Import list"
  mo_functions :: "Func list"
  mo_tables :: "Table list"
  mo_memories :: "Memory list"
  mo_tags :: "Tag list"
  mo_globals :: "Global list"
  mo_exports :: "Export list"
  mo_start :: "FuncIdx option"
  mo_elements :: "ElementSegment list"
  mo_data_count :: "u32 option"
  mo_bodies :: "range list"
  mo_data :: "DataSegment list"
  mo_names :: "Names option"
  mo_findings :: "Finding list"
  mo_imported_functions :: u32

definition Module_empty :: "u8 list \<Rightarrow> Module" where
  "Module_empty bytes =
     \<lparr>mo_bytes = bytes, mo_sections = [], mo_types = [], mo_rec_groups = [], mo_imports = [], mo_functions = [],
      mo_tables = [], mo_memories = [], mo_tags = [], mo_globals = [], mo_exports = [], mo_start = None,
      mo_elements = [], mo_data_count = None, mo_bodies = [], mo_data = [], mo_names = None, mo_findings = [],
      mo_imported_functions = 0\<rparr>"

section \<open>Entries of sections\<close>

definition next_index :: "nat \<Rightarrow> nat \<Rightarrow> u32 parser" where
  "next_index len at = (case u32_try_from_usize len of Some i \<Rightarrow> ret i | None \<Rightarrow> err at IndexSpaceOverflow)"

definition read_subtype_entry :: "Module \<Rightarrow> Module parser" where
  "read_subtype_entry m = with_offset (\<lambda>at. bnd SubType_read (\<lambda>ty. bnd (next_index (length (mo_types m)) at) (\<lambda>_.
     ret (m\<lparr>mo_types := mo_types m @ [ty]\<rparr>))))"

definition read_rec_group :: "Module \<Rightarrow> Module parser" where
  "read_rec_group m = bnd RecGroup_read_head (\<lambda>head. with_offset (\<lambda>at.
     bnd (next_index (length (mo_types m)) at) (\<lambda>first.
     let n = (case head of RecHead_Single \<Rightarrow> 1 | RecHead_Rec n \<Rightarrow> unat n) in
     bnd (iter n read_subtype_entry m) (\<lambda>m. with_offset (\<lambda>at.
     bnd (next_index (length (mo_types m)) at) (\<lambda>end.
       ret (m\<lparr>mo_rec_groups := mo_rec_groups m @ [case head of
         RecHead_Single \<Rightarrow> RecGroup_Single (TypeIdx first)
       | RecHead_Rec _ \<Rightarrow> RecGroup_Rec first end]\<rparr>)))))))"

definition read_type_section :: "Module \<Rightarrow> Module parser" where
  "read_type_section m = bnd (count 2) (\<lambda>n. iter (unat n) read_rec_group m)"

definition read_import_item :: "ImportItem parser" where
  "read_import_item = with_offset (\<lambda>kind_at. bnd byte (\<lambda>k.
     if k = 0x00 then bnd TypeIdx_read (\<lambda>x. ret (ImportItem_Func x))
     else if k = 0x01 then bnd TableType_read (\<lambda>x. ret (ImportItem_Table x))
     else if k = 0x02 then bnd MemoryType_read (\<lambda>x. ret (ImportItem_Memory x))
     else if k = 0x03 then bnd GlobalType_read (\<lambda>x. ret (ImportItem_Global x))
     else if k = 0x04 then bnd read_tag_type (\<lambda>x. ret (ImportItem_Tag x))
     else err kind_at (UnknownImportKind k)))"

definition place_import :: "Module \<Rightarrow> nat \<Rightarrow> ImportItem \<Rightarrow> Module parser" where
  "place_import m at item = (let import = length (mo_imports m) in case item of
     ImportItem_Func ty \<Rightarrow> bnd (next_index (length (mo_functions m)) at) (\<lambda>_.
       ret (m\<lparr>mo_functions := mo_functions m @ [\<lparr>fu_ty = ty, fu_origin = FuncOrigin_Imported import\<rparr>]\<rparr>))
   | ImportItem_Table ty \<Rightarrow> bnd (next_index (length (mo_tables m)) at) (\<lambda>_.
       ret (m\<lparr>mo_tables := mo_tables m @ [\<lparr>ta_ty = ty, ta_origin = TableOrigin_Imported import\<rparr>]\<rparr>))
   | ImportItem_Memory ty \<Rightarrow> bnd (next_index (length (mo_memories m)) at) (\<lambda>_.
       ret (m\<lparr>mo_memories := mo_memories m @ [\<lparr>me_ty = ty, me_origin = Origin_Imported import\<rparr>]\<rparr>))
   | ImportItem_Global ty \<Rightarrow> bnd (next_index (length (mo_globals m)) at) (\<lambda>_.
       ret (m\<lparr>mo_globals := mo_globals m @ [\<lparr>gl_ty = ty, gl_origin = GlobalOrigin_Imported import\<rparr>]\<rparr>))
   | ImportItem_Tag ty \<Rightarrow> bnd (next_index (length (mo_tags m)) at) (\<lambda>_.
       ret (m\<lparr>mo_tags := mo_tags m @ [\<lparr>tg_ty = ty, tg_origin = Origin_Imported import\<rparr>]\<rparr>)))"

definition read_import :: "Module \<Rightarrow> Module parser" where
  "read_import m = with_offset (\<lambda>at. bnd read_name (\<lambda>module. bnd read_name (\<lambda>name. bnd read_import_item (\<lambda>item.
     bnd (place_import m at item) (\<lambda>m.
       ret (m\<lparr>mo_imports := mo_imports m @ [\<lparr>im_module = module, im_name = name, im_item = item\<rparr>]\<rparr>))))))"

definition read_import_section :: "Module \<Rightarrow> Module parser" where
  "read_import_section m = bnd (count 4) (\<lambda>n. iter (unat n) read_import m)"

text \<open>The function section also sets \<open>declared_functions\<close>; \<open>body\<close> counts its turns.\<close>

definition read_function :: "nat \<times> Module \<Rightarrow> (nat \<times> Module) parser" where
  "read_function = (\<lambda>(body, m). with_offset (\<lambda>at. bnd TypeIdx_read (\<lambda>ty.
     bnd (next_index (length (mo_functions m)) at) (\<lambda>_.
       ret (body + 1, m\<lparr>mo_functions := mo_functions m @ [\<lparr>fu_ty = ty, fu_origin = FuncOrigin_Defined body\<rparr>]\<rparr>)))))"

definition read_function_section :: "Module \<Rightarrow> (u32 \<times> Module) parser" where
  "read_function_section m = bnd (count 1) (\<lambda>declared.
     bnd (iter (unat declared) read_function (0, m)) (\<lambda>(_, m). ret (declared, m)))"

definition TABLE_WITH_INIT :: u8 where "TABLE_WITH_INIT = 0x40"

definition table_entry :: "(TableType \<times> Located list option) parser" where
  "table_entry = bnd peek (\<lambda>b.
     if b \<noteq> TABLE_WITH_INIT then bnd TableType_read (\<lambda>ty. ret (ty, None))
     else bnd byte (\<lambda>_. with_offset (\<lambda>at. bnd byte (\<lambda>b.
       if b = 0x00 then bnd TableType_read (\<lambda>ty. bnd const_expression (\<lambda>e. ret (ty, Some e)))
       else err at (ReservedByte b)))))"

definition read_table :: "Module \<Rightarrow> Module parser" where
  "read_table m = with_offset (\<lambda>at. bnd table_entry (\<lambda>(ty, init). bnd (next_index (length (mo_tables m)) at) (\<lambda>_.
     ret (m\<lparr>mo_tables := mo_tables m @ [\<lparr>ta_ty = ty, ta_origin = TableOrigin_Defined init\<rparr>]\<rparr>))))"

definition read_table_section :: "Module \<Rightarrow> Module parser" where
  "read_table_section m = bnd (count 3) (\<lambda>n. iter (unat n) read_table m)"

definition read_memory :: "Module \<Rightarrow> Module parser" where
  "read_memory m = with_offset (\<lambda>at. bnd MemoryType_read (\<lambda>ty. bnd (next_index (length (mo_memories m)) at) (\<lambda>_.
     ret (m\<lparr>mo_memories := mo_memories m @ [\<lparr>me_ty = ty, me_origin = Origin_Defined\<rparr>]\<rparr>))))"

definition read_memory_section :: "Module \<Rightarrow> Module parser" where
  "read_memory_section m = bnd (count 2) (\<lambda>n. iter (unat n) read_memory m)"

definition read_tag :: "Module \<Rightarrow> Module parser" where
  "read_tag m = with_offset (\<lambda>at. bnd read_tag_type (\<lambda>ty. bnd (next_index (length (mo_tags m)) at) (\<lambda>_.
     ret (m\<lparr>mo_tags := mo_tags m @ [\<lparr>tg_ty = ty, tg_origin = Origin_Defined\<rparr>]\<rparr>))))"

definition read_tag_section :: "Module \<Rightarrow> Module parser" where
  "read_tag_section m = bnd (count 2) (\<lambda>n. iter (unat n) read_tag m)"

definition read_global :: "Module \<Rightarrow> Module parser" where
  "read_global m = with_offset (\<lambda>at. bnd GlobalType_read (\<lambda>ty. bnd const_expression (\<lambda>init.
     bnd (next_index (length (mo_globals m)) at) (\<lambda>_.
       ret (m\<lparr>mo_globals := mo_globals m @ [\<lparr>gl_ty = ty, gl_origin = GlobalOrigin_Defined init\<rparr>]\<rparr>)))))"

definition read_global_section :: "Module \<Rightarrow> Module parser" where
  "read_global_section m = bnd (count 3) (\<lambda>n. iter (unat n) read_global m)"

definition read_export :: "Module \<Rightarrow> Module parser" where
  "read_export m = bnd read_name (\<lambda>name. with_offset (\<lambda>kind_at. bnd byte (\<lambda>kind. bnd read_u32 (\<lambda>index.
     bnd (if kind = 0x00 then ret (ExportItem_Func (FuncIdx index))
          else if kind = 0x01 then ret (ExportItem_Table (TableIdx index))
          else if kind = 0x02 then ret (ExportItem_Memory (MemIdx index))
          else if kind = 0x03 then ret (ExportItem_Global (GlobalIdx index))
          else if kind = 0x04 then ret (ExportItem_Tag (TagIdx index))
          else err kind_at (UnknownExportKind kind))
       (\<lambda>item. ret (m\<lparr>mo_exports := mo_exports m @ [\<lparr>ex_name = name, ex_item = item\<rparr>]\<rparr>))))))"

definition read_export_section :: "Module \<Rightarrow> Module parser" where
  "read_export_section m = bnd (count 3) (\<lambda>n. iter (unat n) read_export m)"

definition read_start_section :: "Module \<Rightarrow> Module parser" where
  "read_start_section m = bnd FuncIdx_read (\<lambda>f. ret (m\<lparr>mo_start := Some f\<rparr>))"

definition FUNC_INDICES :: RefType where
  "FUNC_INDICES = \<lparr>rt_nullable = False, rt_heap = HeapType_Abstract AbsHeapType_Func\<rparr>"

definition element_mode :: "u32 \<Rightarrow> ElementMode parser" where
  "element_mode form =
     (if form AND 1 = 0 then
        bnd (if form AND 2 \<noteq> 0 then TableIdx_read else ret (TableIdx 0)) (\<lambda>table.
          bnd const_expression (\<lambda>off. ret (ElementMode_Active table off)))
      else if form AND 2 \<noteq> 0 then ret ElementMode_Declarative
      else ret ElementMode_Passive)"

definition element_type :: "u32 \<Rightarrow> RefType parser" where
  "element_type form =
     (if form = 0 then ret FUNC_INDICES
      else if form = 4 then ret FUNCREF
      else if form AND 4 \<noteq> 0 then RefType_read
      else with_offset (\<lambda>kind_at. bnd byte (\<lambda>k.
        if k = 0x00 then ret FUNC_INDICES else err kind_at (UnknownElementKind k))))"

definition element_items :: "u32 \<Rightarrow> ElementItems parser" where
  "element_items form = bnd (count 1) (\<lambda>n.
     if form AND 4 \<noteq> 0
     then bnd (rep (unat n) const_expression) (\<lambda>items. ret (ElementItems_Expressions items))
     else bnd (rep (unat n) FuncIdx_read) (\<lambda>items. ret (ElementItems_Functions items)))"

definition element_segment :: "ElementSegment parser" where
  "element_segment = with_offset (\<lambda>at. bnd read_u32 (\<lambda>form.
     if form > 7 then err at (UnknownElementForm form)
     else bnd (element_mode form) (\<lambda>mode. bnd (element_type form) (\<lambda>ty. bnd (element_items form) (\<lambda>items.
       ret \<lparr>el_form = form, el_ty = ty, el_mode = mode, el_items = items\<rparr>)))))"

definition read_element :: "Module \<Rightarrow> Module parser" where
  "read_element m = bnd element_segment (\<lambda>e. ret (m\<lparr>mo_elements := mo_elements m @ [e]\<rparr>))"

definition read_element_section :: "Module \<Rightarrow> Module parser" where
  "read_element_section m = bnd (count 3) (\<lambda>n. iter (unat n) read_element m)"

definition read_data_count_section :: "Module \<Rightarrow> Module parser" where
  "read_data_count_section m = bnd read_u32 (\<lambda>n. ret (m\<lparr>mo_data_count := Some n\<rparr>))"

text \<open>One body of the code section: its size, then a sub-reader that is only measured.\<close>

definition read_code_entry :: "Module \<Rightarrow> Module parser" where
  "read_code_entry m = bnd read_u32 (\<lambda>size. bnd (sub (unat size)) (\<lambda>body.
     ret (m\<lparr>mo_bodies := mo_bodies m @ [(rpos body, rend body)]\<rparr>)))"

definition read_code_section :: "u32 \<Rightarrow> Module \<Rightarrow> Module parser" where
  "read_code_section declared m = with_offset (\<lambda>at. bnd (count 1) (\<lambda>n.
     if n \<noteq> declared then err at (BodyCount declared n)
     else iter (unat n) read_code_entry m))"

definition data_segment :: "DataSegment parser" where
  "data_segment = with_offset (\<lambda>at. bnd read_u32 (\<lambda>form.
     bnd (if form = 0 then bnd const_expression (\<lambda>off. ret (DataMode_Active (MemIdx 0) off))
          else if form = 1 then ret DataMode_Passive
          else if form = 2 then bnd MemIdx_read (\<lambda>memory. bnd const_expression (\<lambda>off. ret (DataMode_Active memory off)))
          else err at (UnknownDataForm form))
       (\<lambda>mode. bnd read_u32 (\<lambda>len. with_offset (\<lambda>init. bnd (take_bytes (unat len)) (\<lambda>_.
         ret \<lparr>ds_mode = mode, ds_init = (init, init + unat len)\<rparr>))))))"

definition read_data :: "Module \<Rightarrow> Module parser" where
  "read_data m = bnd data_segment (\<lambda>d. ret (m\<lparr>mo_data := mo_data m @ [d]\<rparr>))"

definition read_data_section :: "Module \<Rightarrow> Module parser" where
  "read_data_section m = with_offset (\<lambda>at. bnd (count 2) (\<lambda>n.
     case mo_data_count m of
       Some declared \<Rightarrow> if declared \<noteq> n then err at (DataCount declared n) else iter (unat n) read_data m
     | None \<Rightarrow> iter (unat n) read_data m))"

section \<open>The reading loop\<close>

text \<open>The arms of \<open>match kind\<close>, with \<open>declared_functions\<close> beside the module.\<close>

definition keep_declared :: "u32 \<Rightarrow> Module parser \<Rightarrow> (u32 \<times> Module) parser" where
  "keep_declared declared p = bnd p (\<lambda>m. ret (declared, m))"

fun read_contents :: "SectionKind \<Rightarrow> u32 \<Rightarrow> Module \<Rightarrow> (u32 \<times> Module) parser" where
  "read_contents SectionKind_Type d m = keep_declared d (read_type_section m)"
| "read_contents SectionKind_Import d m = keep_declared d (read_import_section m)"
| "read_contents SectionKind_Function d m = read_function_section m"
| "read_contents SectionKind_Table d m = keep_declared d (read_table_section m)"
| "read_contents SectionKind_Memory d m = keep_declared d (read_memory_section m)"
| "read_contents SectionKind_Tag d m = keep_declared d (read_tag_section m)"
| "read_contents SectionKind_Global d m = keep_declared d (read_global_section m)"
| "read_contents SectionKind_Export d m = keep_declared d (read_export_section m)"
| "read_contents SectionKind_Start d m = keep_declared d (read_start_section m)"
| "read_contents SectionKind_Element d m = keep_declared d (read_element_section m)"
| "read_contents SectionKind_DataCount d m = keep_declared d (read_data_count_section m)"
| "read_contents SectionKind_Code d m = keep_declared d (read_code_section d m)"
| "read_contents SectionKind_Data d m = keep_declared d (read_data_section m)"
| "read_contents (SectionKind_Custom _) d m = panic ''internal error: entered unreachable code: id 0 was handled above''"

record Reading =
  rd_module :: Module
  rd_declared :: u32
  rd_last :: "SectionKind option"
  rd_names_seen :: bool

definition NAME :: name where "NAME = [0x6e, 0x61, 0x6d, 0x65]"

definition push_findings :: "Finding list \<Rightarrow> Reading \<Rightarrow> Reading" where
  "push_findings fs st = st\<lparr>rd_module := (rd_module st)\<lparr>mo_findings := mo_findings (rd_module st) @ fs\<rparr>\<rparr>"

definition push_section :: "SectionKind \<Rightarrow> range \<Rightarrow> Reading \<Rightarrow> Reading" where
  "push_section kind contents st = st\<lparr>rd_module := (rd_module st)\<lparr>mo_sections :=
     mo_sections (rd_module st) @ [\<lparr>se_kind = kind, se_contents = contents\<rparr>]\<rparr>\<rparr>"

text \<open>A custom section over the reader \<open>s\<close> of its contents.\<close>

definition read_custom :: "Reading \<Rightarrow> Reader \<Rightarrow> Reading result" where
  "read_custom st s = (case read_name s of
     Inl e \<Rightarrow> Inl e
   | Inr (name, s') \<Rightarrow>
       let push = push_section (SectionKind_Custom name) (rpos s, rend s) in
       if name \<noteq> NAME then Inr (push st)
       else if rd_names_seen st then Inr (push (push_findings [Finding_Name NameProblem_Repeated] st))
       else case names_read s' (Names_default, []) of
         Inl e \<Rightarrow> Inl e
       | Inr (names, problems) \<Rightarrow>
           let st' = push_findings (map Finding_Name problems) (st\<lparr>rd_names_seen := True\<rparr>) in
           Inr (push (st'\<lparr>rd_module := (rd_module st')\<lparr>mo_names := Some names\<rparr>\<rparr>)))"

definition out_of_rank :: "SectionKind option \<Rightarrow> SectionKind \<Rightarrow> bool" where
  "out_of_rank lst kind = (case lst of Some l \<Rightarrow> SectionKind_rank kind \<le> SectionKind_rank l | None \<Rightarrow> False)"

text \<open>A standard section: its place in the order, its contents, and that they fill its size.\<close>

definition read_standard :: "Reading \<Rightarrow> nat \<Rightarrow> u8 \<Rightarrow> u32 \<Rightarrow> Reader \<Rightarrow> Reading result" where
  "read_standard st header sid sz s = (case SectionKind_standard sid of
     None \<Rightarrow> Inl (Unreadable header (UnknownSection sid))
   | Some kind \<Rightarrow>
       if out_of_rank (rd_last st) kind
       then Inl (Unreadable header (SectionOrder sid (SectionKind_id (the (rd_last st)))))
       else
         let st' = (if rd_names_seen st
                    then push_findings [Finding_Name (NameProblem_BeforeStandardSection sid)] st else st) in
         case bnd (read_contents kind (rd_declared st') (rd_module st')) (\<lambda>x.
           bnd (filled_used (unat sz) (SectionSize sid sz) ()) (\<lambda>_. ret x)) s of
           Inl e \<Rightarrow> Inl e
         | Inr ((declared, m), _) \<Rightarrow>
             Inr ((push_section kind (rpos s, rend s) (st'\<lparr>rd_declared := declared, rd_module := m\<rparr>))
               \<lparr>rd_last := Some kind\<rparr>))"

function read_sections :: "Reading \<Rightarrow> Reader \<Rightarrow> Reading result" where
  "read_sections st r =
     (if at_end r then Inr st
      else case framed r of
        Inl e \<Rightarrow> Inl e
      | Inr ((sid, sz, s), r') \<Rightarrow>
          (case (if sid = 0 then read_custom st s else read_standard st (rpos r) sid sz s) of
             Inl e \<Rightarrow> Inl e
           | Inr st' \<Rightarrow> read_sections st' r'))"
  by pat_completeness auto
termination
  by (relation "measure (\<lambda>(st, r). rend r - rpos r)") (auto dest: framed_shrinks)

declare read_sections.simps [simp del]

section \<open>After the sections\<close>

definition is_imported :: "Func \<Rightarrow> bool" where
  "is_imported f = (case fu_origin f of FuncOrigin_Imported _ \<Rightarrow> True | FuncOrigin_Defined _ \<Rightarrow> False)"

definition data_indices :: "Module \<Rightarrow> DataIndices" where
  "data_indices m = (if mo_data_count m \<noteq> None then DataIndices_Allowed else DataIndices_NeedDataCount)"

text \<open>\<open>FuncIdx(first + i as u32)\<close>: the cast truncates, the sum is checked.\<close>

definition func_at :: "u32 \<Rightarrow> nat \<Rightarrow> FuncIdx result" where
  "func_at first i =
     (if unat first + unat (of_nat i :: u32) \<le> u32_MAX then Inr (FuncIdx (first + of_nat i))
      else Inl (Internal ''attempt to add with overflow''))"

text \<open>The loop that decodes every body once; \<open>i\<close> counts its turns.\<close>

fun body_findings :: "Module \<Rightarrow> nat \<Rightarrow> range list \<Rightarrow> Finding list result" where
  "body_findings m i [] = Inr []"
| "body_findings m i (rg # rgs) = (case body (data_indices m) (Reader_over (mo_bytes m) rg) of
     Inr _ \<Rightarrow> body_findings m (i + 1) rgs
   | Inl e \<Rightarrow>
       if is_panic e then Inl e
       else case func_at (mo_imported_functions m) i of
         Inl e' \<Rightarrow> Inl e'
       | Inr f \<Rightarrow> (case body_findings m (i + 1) rgs of
           Inl e' \<Rightarrow> Inl e'
         | Inr fs \<Rightarrow> Inr (Finding_Body f e # fs)))"

definition finish_bodies :: "Module \<Rightarrow> Module result" where
  "finish_bodies m0 = (let
       m = m0\<lparr>mo_imported_functions := of_nat (length (takeWhile is_imported (mo_functions m0)))\<rparr> in
     case body_findings m 0 (mo_bodies m) of
       Inl e \<Rightarrow> Inl e
     | Inr fs \<Rightarrow> Inr (m\<lparr>mo_findings := mo_findings m @ fs\<rparr>))"

definition finish :: "Reading \<Rightarrow> nat \<Rightarrow> Module result" where
  "finish st at = (let m = rd_module st in
     if length (mo_bodies m) \<noteq> unat (rd_declared st)
     then Inl (Unreadable at (BodyCount (rd_declared st) 0))
     else case mo_data_count m of
       Some declared \<Rightarrow>
         if unat declared \<noteq> length (mo_data m)
         then Inl (Unreadable at (DataCount declared (of_nat (length (mo_data m)))))
         else finish_bodies m
     | None \<Rightarrow> finish_bodies m)"

definition version_problem :: "u32 \<Rightarrow> Problem" where
  "version_problem version = (let v = (ucast version :: u16); layer = (ucast (drop_bit 16 version) :: u16) in
     if layer = 1 then Component v layer else Version version)"

definition read_header :: "unit parser" where
  "read_header r0 = (case take_bytes 4 r0 of
     Inl e \<Rightarrow> if is_panic e then Inl e else err 0 Magic r0
   | Inr (magic, r) \<Rightarrow>
       if magic \<noteq> MAGIC then err 0 Magic r
       else bnd (array 4) (\<lambda>bs.
         let version = of_nat (from_le_bytes bs) in
         if version \<noteq> VERSION then err 4 (version_problem version) else ret ()) r)"

definition read_unguarded :: "u8 list \<Rightarrow> Module result" where
  "read_unguarded bytes = (case read_header (Reader_new bytes) of
     Inl e \<Rightarrow> Inl e
   | Inr (_, r) \<Rightarrow>
       (case read_sections
           \<lparr>rd_module = Module_empty bytes, rd_declared = 0, rd_last = None, rd_names_seen = False\<rparr> r of
          Inl e \<Rightarrow> Inl e
        | Inr st \<Rightarrow> finish st (rend r)))"

text \<open>
  \<open>read\<close> runs it under \<open>catch_unwind\<close>; a panic is already the error \<open>Internal\<close> here, as
  \<open>internal\<close> makes it.
\<close>

definition read :: "u8 list \<Rightarrow> Module result" where
  "read bytes = read_unguarded bytes"

section \<open>Questions to a module\<close>

fun function_of :: "Module \<Rightarrow> FuncIdx \<Rightarrow> Func option" where
  "function_of m (FuncIdx i) = (if unat i < length (mo_functions m) then Some (mo_functions m ! unat i) else None)"

fun func_type :: "Module \<Rightarrow> TypeIdx \<Rightarrow> FuncType option" where
  "func_type m (TypeIdx i) =
     (if unat i < length (mo_types m)
      then (case su_composite (mo_types m ! unat i) of CompositeType_Func f \<Rightarrow> Some f | _ \<Rightarrow> None)
      else None)"

definition get :: "'a list \<Rightarrow> nat \<Rightarrow> 'a option" where
  "get xs i = (if i < length xs then Some (xs ! i) else None)"

definition body_start :: "Module \<Rightarrow> FuncIdx \<Rightarrow> nat option" where
  "body_start m func = (case function_of m func of
     None \<Rightarrow> None
   | Some f \<Rightarrow> (case fu_origin f of
       FuncOrigin_Defined b \<Rightarrow> map_option fst (get (mo_bodies m) b)
     | FuncOrigin_Imported _ \<Rightarrow> None))"

text \<open>\<open>slice::partition_point\<close>: a binary search for the first element without the property.\<close>

function partition_from :: "('a \<Rightarrow> bool) \<Rightarrow> 'a list \<Rightarrow> nat \<Rightarrow> nat \<Rightarrow> nat" where
  "partition_from P xs lo hi =
     (if lo < hi then
        let mid = lo + (hi - lo) div 2 in
        if P (xs ! mid) then partition_from P xs (mid + 1) hi else partition_from P xs lo mid
      else lo)"
  by pat_completeness auto
termination
  by (relation "measure (\<lambda>(P, xs, lo, hi). hi - lo)") auto

declare partition_from.simps [simp del]

definition partition_point :: "('a \<Rightarrow> bool) \<Rightarrow> 'a list \<Rightarrow> nat" where
  "partition_point P xs = partition_from P xs 0 (length xs)"

definition function_at :: "Module \<Rightarrow> nat \<Rightarrow> FuncIdx option result" where
  "function_at m off = (let i = partition_point (\<lambda>rg. fst rg < off) (mo_bodies m) in
     case get (mo_bodies m) i of
       Some rg \<Rightarrow> if fst rg = off then map_sum id Some (func_at (mo_imported_functions m) i) else Inr None
     | None \<Rightarrow> Inr None)"

definition function_containing :: "Module \<Rightarrow> nat \<Rightarrow> (FuncIdx \<times> range) option result" where
  "function_containing m off = (let k = partition_point (\<lambda>rg. fst rg \<le> off) (mo_bodies m) in
     if k = 0 then Inr None
     else case get (mo_bodies m) (k - 1) of
       Some rg \<Rightarrow>
         if off < snd rg \<or> (\<not> fst rg < snd rg \<and> fst rg = off)
         then map_sum id (\<lambda>f. Some (f, rg)) (func_at (mo_imported_functions m) (k - 1))
         else Inr None
     | None \<Rightarrow> Inr None)"

definition decode_body :: "u8 list \<Rightarrow> range \<Rightarrow> DataIndices \<Rightarrow> Body result" where
  "decode_body bytes rg d = (case body d (Reader_over bytes rg) of
     Inl e \<Rightarrow> Inl e
   | Inr ((locals, instructions), _) \<Rightarrow>
       Inr \<lparr>bo_range = rg, bo_locals = locals, bo_instructions = instructions\<rparr>)"

text \<open>\<open>Module::body\<close> with \<open>body_unguarded\<close>.\<close>

definition Module_body :: "Module \<Rightarrow> FuncIdx \<Rightarrow> Body result option" where
  "Module_body m func = (case function_of m func of
     None \<Rightarrow> None
   | Some f \<Rightarrow> (case fu_origin f of
       FuncOrigin_Imported _ \<Rightarrow> None
     | FuncOrigin_Defined b \<Rightarrow> (case get (mo_bodies m) b of
         None \<Rightarrow> None
       | Some rg \<Rightarrow> Some (decode_body (mo_bytes m) rg (data_indices m)))))"

definition Module_bytes :: "Module \<Rightarrow> range \<Rightarrow> u8 list option" where
  "Module_bytes m rg =
     (if fst rg \<le> snd rg \<and> snd rg \<le> length (mo_bytes m)
      then Some (take (snd rg - fst rg) (drop (fst rg) (mo_bytes m))) else None)"

definition custom_sections :: "Module \<Rightarrow> (name \<times> Section) list" where
  "custom_sections m = List.map_filter (\<lambda>s. case se_kind s of
     SectionKind_Custom name \<Rightarrow> Some (name, s) | _ \<Rightarrow> None) (mo_sections m)"

definition BUILD_ID :: name where
  "BUILD_ID = [0x62, 0x75, 0x69, 0x6c, 0x64, 0x5f, 0x69, 0x64]"

definition read_build_id :: "u8 list parser" where
  "read_build_id = bnd read_name (\<lambda>_. bnd read_u32 (\<lambda>len. bnd (take_bytes (unat len)) (\<lambda>bs.
     filled BytesAfterItem bs)))"

definition build_id :: "Module \<Rightarrow> u8 list result option" where
  "build_id m = (case find (\<lambda>(name, _). name = BUILD_ID) (custom_sections m) of
     None \<Rightarrow> None
   | Some (_, s) \<Rightarrow> Some (map_sum id fst (read_build_id (Reader_over (mo_bytes m) (se_contents s)))))"

end
