(* ===== verification/Wasm_Module_Reads.thy ===== *)
theory Wasm_Module_Reads
  imports Wasm_Module
begin

text \<open>
  Every reader of \<open>Wasm_Module\<close> keeps within its bounds, and reading a module never stops in a
  panic: whatever the bytes, \<open>read\<close> returns a module or a refusal with an offset in the
  file.
\<close>

section \<open>Section contents keep within bounds\<close>

lemma next_index_reads [reads_facts]: "lo \<le> at \<Longrightarrow> at \<le> hi \<Longrightarrow> reads lo hi 0 (next_index len at)"
  unfolding next_index_def by (rule reads_intros | simp)+

lemma reads_case_RecHead [reads_intros]:
  assumes "reads lo hi k p" "\<And>n. reads lo hi k (q n)"
  shows "reads lo hi k (case h of RecHead_Single \<Rightarrow> p | RecHead_Rec n \<Rightarrow> q n)"
  using assms by (cases h) auto

lemma reads_case_ImportItem [reads_intros]:
  assumes "\<And>x. reads lo hi k (a x)" "\<And>x. reads lo hi k (b x)" "\<And>x. reads lo hi k (c x)"
    "\<And>x. reads lo hi k (d x)" "\<And>x. reads lo hi k (e x)"
  shows "reads lo hi k (case i of ImportItem_Func x \<Rightarrow> a x | ImportItem_Table x \<Rightarrow> b x | ImportItem_Memory x \<Rightarrow> c x
    | ImportItem_Global x \<Rightarrow> d x | ImportItem_Tag x \<Rightarrow> e x)"
  using assms by (cases i) auto

text \<open>A sub-reader of which only the bounds are used.\<close>

lemma reads_sub_bounds:
  assumes "k = 0"
  shows "reads lo hi k (bnd (sub len) (\<lambda>s. ret (f (rpos s) (rend s))))"
proof (rule readsI)
  assume "lo \<le> hi"
  show "moves hi k (bnd (sub len) (\<lambda>s. ret (f (rpos s) (rend s))))"
    using assms by (auto simp: moves_def bnd_Inr_iff sub_Inr_iff remaining_def intro!: exI [of _ len])
  show "refuses lo hi (bnd (sub len) (\<lambda>s. ret (f (rpos s) (rend s))))"
    using \<open>lo \<le> hi\<close>
    by (auto simp: refuses_def bnd_Inl_iff sub_def short_def err_def reader_wf_def split: if_splits)
  show "sees_window hi (bnd (sub len) (\<lambda>s. ret (f (rpos s) (rend s))))"
    unfolding sees_window_def
  proof (intro allI impI)
    fix r s assume rs: "same_window r s"
    note w = same_windowD [OF rs]
    show "rel_sum (=) (rel_prod (=) same_window) (bnd (sub len) (\<lambda>s. ret (f (rpos s) (rend s))) r)
        (bnd (sub len) (\<lambda>s. ret (f (rpos s) (rend s))) s)"
      using w same_window_advance [OF rs, of len]
      by (auto simp: bnd_def sub_def short_def err_def ret_def remaining_def advance_def)
  qed
qed

lemma table_entry_reads [reads_facts]: "reads lo hi 3 table_entry"
  unfolding table_entry_def
  by (rule reads_intros reads_facts | (rule reads_weaken, rule reads_facts) | simp)+

lemma read_import_item_reads [reads_facts]: "reads lo hi 2 read_import_item"
  unfolding read_import_item_def
  by (rule reads_intros reads_facts | (rule reads_weaken, rule reads_facts) | simp)+

lemma place_import_reads [reads_facts]: "lo \<le> at \<Longrightarrow> at \<le> hi \<Longrightarrow> reads lo hi 0 (place_import m at item)"
  unfolding place_import_def
  by (rule reads_intros reads_facts | (rule reads_weaken, rule reads_facts) | simp)+

lemma reads_bnd_if:
  "reads lo hi 0 (if c then p else p') \<Longrightarrow> (\<And>x. reads lo hi n (q x)) \<Longrightarrow> reads lo hi n (bnd (if c then p else p') q)"
  by (rule reads_bnd [where j = 0]) simp_all

lemma element_mode_reads [reads_facts]: "reads lo hi (if form AND 1 = 0 then 1 else 0) (element_mode form)"
  unfolding element_mode_def
  by (rule reads_bnd_if reads_intros reads_facts | (rule reads_weaken, rule reads_facts) | simp)+

lemma element_type_reads [reads_facts]: "reads lo hi (if form = 0 \<or> form = 4 then 0 else 1) (element_type form)"
  unfolding element_type_def
  by (rule reads_intros reads_facts | (rule reads_weaken, rule reads_facts) | simp)+

lemma element_items_reads [reads_facts]: "reads lo hi 1 (element_items form)"
  unfolding element_items_def
  by (rule reads_intros reads_facts | (rule reads_weaken, rule reads_rep) | simp)+

lemma element_segment_reads [reads_facts]: "reads lo hi 3 element_segment"
proof -
  have "reads lo at 2 (bnd (element_mode form) (\<lambda>mode. bnd (element_type form) (\<lambda>ty. bnd (element_items form) (\<lambda>items.
      ret \<lparr>el_form = form, el_ty = ty, el_mode = mode, el_items = items\<rparr>))))" for lo at form
  proof (cases "form = 0 \<or> form = 4")
    case True
    then have "form AND 1 = 0" by auto
    then have "reads lo at 1 (element_mode form)" using element_mode_reads [of lo at form] by simp
    moreover have "reads lo at 0 (element_type form)" using element_type_reads [of lo at form] True by simp
    ultimately show ?thesis by (auto intro!: reads_bnd reads_ret element_items_reads)
  next
    case False
    have "reads lo at 0 (element_mode form)"
      using element_mode_reads [of lo at form] by (rule reads_weaken) simp
    moreover have "reads lo at 1 (element_type form)" using element_type_reads [of lo at form] False by simp
    ultimately show ?thesis by (auto intro!: reads_bnd reads_ret element_items_reads)
  qed
  then show ?thesis
    unfolding element_segment_def
    by (auto intro!: reads_with_offset reads_bnd [OF read_u32_reads] reads_if reads_err)
qed

lemma data_segment_reads [reads_facts]: "reads lo hi 2 data_segment"
  unfolding data_segment_def
  by (rule reads_bnd_if reads_intros reads_facts | (rule reads_weaken, rule reads_facts) | simp)+

lemma entry_reads [reads_facts]:
  "reads lo hi 2 (read_subtype_entry m)" "reads lo hi 4 (read_import m)" "reads lo hi 1 (read_function bm)"
  "reads lo hi 3 (read_table m)" "reads lo hi 2 (read_memory m)" "reads lo hi 2 (read_tag m)"
  "reads lo hi 3 (read_global m)" "reads lo hi 3 (read_export m)" "reads lo hi 3 (read_element m)"
  "reads lo hi 2 (read_data m)"
  unfolding read_subtype_entry_def read_import_def read_function_def read_table_def read_memory_def
    read_tag_def read_global_def read_export_def read_element_def read_data_def
  by (rule reads_bnd_if reads_intros reads_facts | (rule reads_weaken, rule reads_facts) | simp)+

lemma read_code_entry_reads [reads_facts]: "reads lo hi 1 (read_code_entry m)"
  unfolding read_code_entry_def
  using reads_sub_bounds [where f = "\<lambda>a b. m\<lparr>mo_bodies := mo_bodies m @ [(a, b)]\<rparr>"]
  by (auto intro!: reads_bnd [OF read_u32_reads])

lemma read_rec_group_reads [reads_facts]: "reads lo hi 0 (read_rec_group m)"
  unfolding read_rec_group_def
  by (rule reads_intros reads_facts | (rule reads_weaken, rule reads_facts reads_iter) | simp)+

lemma section_reads [reads_facts]:
  "reads lo hi 1 (read_type_section m)" "reads lo hi 1 (read_import_section m)"
  "reads lo hi 1 (read_function_section m)" "reads lo hi 1 (read_table_section m)"
  "reads lo hi 1 (read_memory_section m)" "reads lo hi 1 (read_tag_section m)"
  "reads lo hi 1 (read_global_section m)" "reads lo hi 1 (read_export_section m)"
  "reads lo hi 1 (read_start_section m)" "reads lo hi 1 (read_element_section m)"
  "reads lo hi 1 (read_data_count_section m)" "reads lo hi 1 (read_code_section d m)"
  "reads lo hi 1 (read_data_section m)"
  unfolding read_type_section_def read_import_section_def read_function_section_def read_table_section_def
    read_memory_section_def read_tag_section_def read_global_section_def read_export_section_def
    read_start_section_def read_element_section_def read_data_count_section_def read_code_section_def
    read_data_section_def
  by (rule reads_intros reads_facts | (rule reads_weaken, rule reads_facts reads_iter) | simp)+

lemma keep_declared_reads: "reads lo hi k p \<Longrightarrow> reads lo hi k (keep_declared d p)"
  unfolding keep_declared_def by (rule reads_bnd, assumption) (simp add: reads_ret)

lemma read_contents_reads:
  assumes "\<And>name. kind \<noteq> SectionKind_Custom name"
  shows "reads lo hi 1 (read_contents kind d m)"
  using assms
  by (cases kind) (simp_all only: read_contents.simps keep_declared_reads section_reads, blast)

section \<open>The loop\<close>

lemma SectionKind_standard_not_custom: "SectionKind_standard sid = Some kind \<Longrightarrow> kind \<noteq> SectionKind_Custom name"
  by (auto simp: SectionKind_standard_def split: if_splits)

lemma read_custom_refusal:
  assumes "reader_wf s" "read_custom st s = Inl e"
  shows "refusal_within (rpos s) (rend s) e"
proof (cases "read_name s")
  case (Inl e')
  with assms show ?thesis using name_item.refusal by (auto simp: read_custom_def)
next
  case (Inr x)
  obtain name s' where s': "read_name s = Inr (name, s')" using Inr by (cases x) auto
  obtain names problems where "names_read s' (Names_default, []) = Inr (names, problems)"
    using names_read_problems [OF name_item.keeps_wf [OF s' assms(1)], of 0 "rend s'"] by auto
  with s' assms(2) show ?thesis by (auto simp: read_custom_def Let_def split: if_splits)
qed

lemma read_standard_refusal:
  assumes "reader_wf s" "remaining s \<le> unat sz" "header \<le> rpos s" "read_standard st header sid sz s = Inl e"
  shows "refusal_within header (rend s) e"
proof -
  have header: "refusal_within header (rend s) (Unreadable header p)" for p
    using assms(1,3) by (auto simp: reader_wf_def)
  show ?thesis
  proof (cases "SectionKind_standard sid")
    case None
    with assms(4) header show ?thesis by (auto simp: read_standard_def)
  next
    case (Some kind)
    show ?thesis
    proof (cases "out_of_rank (rd_last st) kind")
      case True
      with assms(4) Some header show ?thesis by (auto simp: read_standard_def)
    next
      case False
      with assms(4) Some obtain d m where
        "bnd (read_contents kind d m) (\<lambda>x. bnd (filled_used (unat sz) (SectionSize sid sz) ()) (\<lambda>_. ret x)) s = Inl e"
        by (auto simp: read_standard_def Let_def split: sum.splits)
      then have "refusal_within (rpos s) (rend s) e"
        by (rule refusal_filled_used [OF read_contents_reads assms(1,2), where f = "\<lambda>x. x", rotated])
          (rule SectionKind_standard_not_custom [OF Some])
      then show ?thesis using assms(3) by (rule refusal_within_mono) simp
    qed
  qed
qed

lemma read_sections_refusal:
  "reader_wf r \<Longrightarrow> read_sections st r = Inl e \<Longrightarrow> refusal_within (rpos r) (rend r) e"
proof (induction st r rule: read_sections.induct)
  case (1 st r)
  then have not_end: "\<not> at_end r" by (subst (asm) read_sections.simps) (auto split: if_splits)
  show ?case
  proof (cases "framed r")
    case (Inl e')
    with 1 not_end show ?thesis
      using framed_refusal by (subst (asm) read_sections.simps) auto
  next
    case (Inr h)
    obtain sid sz s r' where h: "framed r = Inr ((sid, sz, s), r')" using Inr by (metis prod.exhaust)
    note f = framed_frame [OF h "1.prems"(1)]
    show ?thesis
    proof (cases "if sid = 0 then read_custom st s else read_standard st (rpos r) sid sz s")
      case (Inl e')
      then have "refusal_within (rpos r) (rend s) e'"
        using f read_custom_refusal [of s st e'] read_standard_refusal [of s sz "rpos r" st sid e']
        by (auto split: if_splits elim: refusal_within_mono)
      then have "refusal_within (rpos r) (rend r) e'"
        using f by (auto elim!: refusal_within_mono simp: reader_wf_def)
      moreover have "e = e'"
        using "1.prems"(2) not_end h Inl by (subst (asm) read_sections.simps) auto
      ultimately show ?thesis by simp
    next
      case (Inr st')
      then have "read_sections st' r' = Inl e"
        using "1.prems"(2) not_end h by (subst (asm) read_sections.simps) auto
      then have "refusal_within (rpos r') (rend r') e"
        using "1.IH" [OF not_end h refl refl refl Inr] f by auto
      then show ?thesis using f by (auto elim: refusal_within_mono)
    qed
  qed
qed

end
