(* ===== verification/Wasm_Module_Inv.thy ===== *)
theory Wasm_Module_Inv
  imports Wasm_Module_Reads
begin

text \<open>
  The invariant of the loop over sections: index spaces list their imports first, the
  defined functions are numbered in order, sections and bodies are laid out one after the
  other in the file, and standard sections stand in the order of the format.
\<close>

section \<open>Index spaces\<close>

definition table_imported :: "Table \<Rightarrow> bool" where
  "table_imported t = (case ta_origin t of TableOrigin_Imported _ \<Rightarrow> True | TableOrigin_Defined _ \<Rightarrow> False)"

definition memory_imported :: "Memory \<Rightarrow> bool" where
  "memory_imported t \<longleftrightarrow> me_origin t \<noteq> Origin_Defined"

definition tag_imported :: "Tag \<Rightarrow> bool" where
  "tag_imported t \<longleftrightarrow> tg_origin t \<noteq> Origin_Defined"

definition global_imported :: "Global \<Rightarrow> bool" where
  "global_imported g = (case gl_origin g of GlobalOrigin_Imported _ \<Rightarrow> True | GlobalOrigin_Defined _ \<Rightarrow> False)"

definition imports_first :: "('a \<Rightarrow> bool) \<Rightarrow> 'a list \<Rightarrow> bool" where
  "imports_first P xs \<longleftrightarrow> list_all (\<lambda>x. \<not> P x) (dropWhile P xs)"

text \<open>
  A space whose defining section has rank \<open>d\<close>, once the sections up to rank \<open>k\<close> are read: only
  imports before that section, imports first from then on.
\<close>

definition space_ok :: "('a \<Rightarrow> bool) \<Rightarrow> nat \<Rightarrow> nat \<Rightarrow> 'a list \<Rightarrow> bool" where
  "space_ok P d k xs \<longleftrightarrow> (if k < d then list_all P xs else imports_first P xs)"

lemma dropWhile_all: "list_all P xs \<Longrightarrow> dropWhile P xs = []"
  by (induction xs) auto

lemma dropWhile_append_not: "\<not> P x \<Longrightarrow> dropWhile P (xs @ [x]) = dropWhile P xs @ [x]"
  by (induction xs) auto

lemma space_ok_mono: "space_ok P d k xs \<Longrightarrow> k \<le> k' \<Longrightarrow> space_ok P d k' xs"
  by (auto simp: space_ok_def imports_first_def dropWhile_all split: if_splits)

lemma space_ok_import: "space_ok P d k xs \<Longrightarrow> k < d \<Longrightarrow> P x \<Longrightarrow> space_ok P d k (xs @ [x])"
  by (simp add: space_ok_def)

lemma space_ok_define: "space_ok P d k xs \<Longrightarrow> d \<le> k \<Longrightarrow> \<not> P x \<Longrightarrow> space_ok P d k (xs @ [x])"
  by (simp add: space_ok_def imports_first_def dropWhile_append_not)

definition spaces_ok :: "nat \<Rightarrow> Module \<Rightarrow> bool" where
  "spaces_ok k m \<longleftrightarrow> space_ok is_imported 3 k (mo_functions m) \<and> space_ok table_imported 4 k (mo_tables m) \<and>
     space_ok memory_imported 5 k (mo_memories m) \<and> space_ok tag_imported 6 k (mo_tags m) \<and>
     space_ok global_imported 7 k (mo_globals m)"

lemma spaces_ok_mono: "spaces_ok k m \<Longrightarrow> k \<le> k' \<Longrightarrow> spaces_ok k' m"
  by (auto simp: spaces_ok_def elim: space_ok_mono)

text \<open>The defined functions are numbered from 0 on, and the space never grows past \<open>2^32\<close> entries.\<close>

definition defs_ok :: "nat \<Rightarrow> Module \<Rightarrow> bool" where
  "defs_ok d m \<longleftrightarrow> map fu_origin (dropWhile is_imported (mo_functions m)) = map FuncOrigin_Defined [0..<d]
     \<and> length (mo_functions m) \<le> 2 ^ 32"

text \<open>What no entry of a section changes of the module, apart from its own space.\<close>

definition fixed_part :: "Module \<Rightarrow> u8 list \<times> Section list \<times> Finding list" where
  "fixed_part m = (mo_bytes m, mo_sections m, mo_findings m)"

definition all_parts :: "Module \<Rightarrow> _" where
  "all_parts m = (fixed_part m, mo_functions m, mo_tables m, mo_memories m, mo_tags m, mo_globals m, mo_bodies m)"

section \<open>Entries\<close>

lemma next_index_Inr [simp]: "next_index len at r = Inr (i, r') \<longleftrightarrow> len \<le> u32_MAX \<and> unat i = len \<and> r' = r"
  by (auto simp: next_index_def u32_try_from_usize_def split: if_splits)

lemmas entry_defs = read_subtype_entry_def read_import_def read_function_def read_table_def read_memory_def
  read_tag_def read_global_def read_export_def read_element_def read_data_def read_start_section_def
  read_data_count_section_def

lemma quiet_entries:
  "read_subtype_entry m r = Inr (m', r') \<Longrightarrow> all_parts m' = all_parts m"
  "read_export m r = Inr (m', r') \<Longrightarrow> all_parts m' = all_parts m"
  "read_element m r = Inr (m', r') \<Longrightarrow> all_parts m' = all_parts m"
  "read_data m r = Inr (m', r') \<Longrightarrow> all_parts m' = all_parts m"
  "read_start_section m r = Inr (m', r') \<Longrightarrow> all_parts m' = all_parts m"
  "read_data_count_section m r = Inr (m', r') \<Longrightarrow> all_parts m' = all_parts m"
  by (auto simp: entry_defs with_offset_def bnd_Inr_iff all_parts_def fixed_part_def)

lemma iter_quiet:
  assumes "iter n f m r = Inr (m', r')" "\<And>m r m' r'. f m r = Inr (m', r') \<Longrightarrow> all_parts m' = all_parts m"
  shows "all_parts m' = all_parts m"
  using assms(1) by (rule iter_invariant [where I = "\<lambda>m'. all_parts m' = all_parts m"]) (auto dest: assms(2))

lemma read_rec_group_quiet: "read_rec_group m r = Inr (m', r') \<Longrightarrow> all_parts m' = all_parts m"
  by (auto simp: read_rec_group_def with_offset_def bnd_Inr_iff Let_def all_parts_def fixed_part_def
      dest!: iter_quiet [OF _ quiet_entries(1)])

lemma quiet_loops:
  "iter n read_rec_group m r = Inr (m', r') \<Longrightarrow> all_parts m' = all_parts m"
  "iter n read_export m r = Inr (m', r') \<Longrightarrow> all_parts m' = all_parts m"
  "iter n read_element m r = Inr (m', r') \<Longrightarrow> all_parts m' = all_parts m"
  "iter n read_data m r = Inr (m', r') \<Longrightarrow> all_parts m' = all_parts m"
  by (erule iter_quiet, erule read_rec_group_quiet quiet_entries)+

lemma read_data_section_loop:
  "read_data_section m r = Inr (m', r') \<Longrightarrow> \<exists>n s. iter n read_data m s = Inr (m', r')"
  unfolding read_data_section_def
  by (cases "mo_data_count m") (auto simp: with_offset_def bnd_Inr_iff split: if_splits)

lemma quiet_sections:
  assumes "read_contents kind d m r = Inr ((d', m'), r')"
    and "kind \<in> {SectionKind_Type, SectionKind_Export, SectionKind_Start, SectionKind_Element,
      SectionKind_DataCount, SectionKind_Data}"
  shows "d' = d \<and> all_parts m' = all_parts m"
  using assms
  by (auto simp: keep_declared_def bnd_Inr_iff read_type_section_def read_export_section_def
      read_element_section_def dest: quiet_loops quiet_entries(5,6) dest!: read_data_section_loop)

section \<open>Sections that add to an index space\<close>

text \<open>Everything but the functions, and everything but the bodies.\<close>

definition spaces_inv :: "nat \<Rightarrow> Module \<Rightarrow> Module \<Rightarrow> bool" where
  "spaces_inv k m0 m \<longleftrightarrow> spaces_ok k m \<and> fixed_part m = fixed_part m0 \<and> mo_bodies m = mo_bodies m0"

lemma place_import_spaces:
  assumes "place_import m at item r = Inr (m', r')" "spaces_inv 2 m0 m" "length (mo_functions m) \<le> 2 ^ 32"
  shows "spaces_inv 2 m0 m' \<and> length (mo_functions m') \<le> 2 ^ 32"
  using assms
  by (cases item)
    (auto simp: place_import_def bnd_Inr_iff Let_def spaces_inv_def spaces_ok_def
      fixed_part_def is_imported_def table_imported_def memory_imported_def tag_imported_def global_imported_def
      intro!: space_ok_import)

lemma import_entry:
  assumes "read_import m r = Inr (m', r')" "spaces_inv 2 m0 m \<and> length (mo_functions m) \<le> 2 ^ 32"
  shows "spaces_inv 2 m0 m' \<and> length (mo_functions m') \<le> 2 ^ 32"
proof -
  from assms(1) obtain at item s m1 im s' where "place_import m at item s = Inr (m1, s')"
    and m': "m' = m1\<lparr>mo_imports := im\<rparr>"
    by (auto simp: read_import_def with_offset_def bnd_Inr_iff)
  from place_import_spaces [OF this(1)] assms(2) show ?thesis
    unfolding m' by (simp add: spaces_inv_def spaces_ok_def fixed_part_def)
qed

lemma import_section:
  assumes "read_import_section m r = Inr (m', r')" "spaces_ok 2 m" "length (mo_functions m) \<le> 2 ^ 32"
  shows "spaces_inv 2 m m' \<and> length (mo_functions m') \<le> 2 ^ 32"
proof -
  from assms(1) obtain n s where "iter n read_import m s = Inr (m', r')"
    by (auto simp: read_import_section_def bnd_Inr_iff)
  then show ?thesis
  proof (rule iter_invariant)
    show "spaces_inv 2 m m \<and> length (mo_functions m) \<le> 2 ^ 32" using assms(2,3) by (simp add: spaces_inv_def)
  qed (rule import_entry)
qed

lemma function_entry:
  assumes "read_function (b, m) r = Inr ((b', m'), r')" "spaces_inv 3 m0 m" "defs_ok b m"
  shows "spaces_inv 3 m0 m' \<and> defs_ok b' m' \<and> b' = b + 1"
  using assms
  by (auto simp: read_function_def with_offset_def bnd_Inr_iff spaces_inv_def spaces_ok_def fixed_part_def defs_ok_def
      is_imported_def dropWhile_append_not intro!: space_ok_define)

lemma function_loop:
  assumes "iter n read_function (b, m) r = Inr ((b', m'), r')" "spaces_inv 3 m0 m" "defs_ok b m"
  shows "spaces_inv 3 m0 m' \<and> defs_ok b' m' \<and> b' = b + n"
  using assms
proof (induction n arbitrary: b m r)
  case (Suc n)
  then obtain b1 m1 r1 where "read_function (b, m) r = Inr ((b1, m1), r1)"
    and rest: "iter n read_function (b1, m1) r1 = Inr ((b', m'), r')"
    by (auto simp: bnd_Inr_iff)
  from function_entry [OF this(1)] Suc.prems(2,3) have "spaces_inv 3 m0 m1" "defs_ok b1 m1" "b1 = b + 1" by auto
  with Suc.IH [OF rest] show ?case by auto
qed auto

lemma defining_entries:
  "read_table m r = Inr (m', r') \<Longrightarrow> spaces_inv 4 m0 m \<Longrightarrow> spaces_inv 4 m0 m' \<and> mo_functions m' = mo_functions m"
  "read_memory m r = Inr (m', r') \<Longrightarrow> spaces_inv 5 m0 m \<Longrightarrow> spaces_inv 5 m0 m' \<and> mo_functions m' = mo_functions m"
  "read_tag m r = Inr (m', r') \<Longrightarrow> spaces_inv 6 m0 m \<Longrightarrow> spaces_inv 6 m0 m' \<and> mo_functions m' = mo_functions m"
  "read_global m r = Inr (m', r') \<Longrightarrow> spaces_inv 7 m0 m \<Longrightarrow> spaces_inv 7 m0 m' \<and> mo_functions m' = mo_functions m"
  by (auto simp: entry_defs with_offset_def bnd_Inr_iff spaces_inv_def spaces_ok_def fixed_part_def
      table_imported_def memory_imported_def tag_imported_def global_imported_def intro!: space_ok_define)

lemma iter_defining:
  assumes "iter n f m r = Inr (m', r')" "spaces_ok k m"
    and "\<And>m m0 r m' r'. f m r = Inr (m', r') \<Longrightarrow> spaces_inv k m0 m \<Longrightarrow> spaces_inv k m0 m' \<and> mo_functions m' = mo_functions m"
  shows "spaces_inv k m m' \<and> mo_functions m' = mo_functions m"
  using assms(1)
proof (rule iter_invariant)
  show "spaces_inv k m m \<and> mo_functions m = mo_functions m" using assms(2) by (simp add: spaces_inv_def)
next
  fix m1 r1 m2 r2
  assume "spaces_inv k m m1 \<and> mo_functions m1 = mo_functions m" "f m1 r1 = Inr (m2, r2)"
  then show "spaces_inv k m m2 \<and> mo_functions m2 = mo_functions m" using assms(3) by metis
qed

lemma defining_sections:
  "read_table_section m r = Inr (m', r') \<Longrightarrow> spaces_ok 4 m \<Longrightarrow> spaces_inv 4 m m' \<and> mo_functions m' = mo_functions m"
  "read_memory_section m r = Inr (m', r') \<Longrightarrow> spaces_ok 5 m \<Longrightarrow> spaces_inv 5 m m' \<and> mo_functions m' = mo_functions m"
  "read_tag_section m r = Inr (m', r') \<Longrightarrow> spaces_ok 6 m \<Longrightarrow> spaces_inv 6 m m' \<and> mo_functions m' = mo_functions m"
  "read_global_section m r = Inr (m', r') \<Longrightarrow> spaces_ok 7 m \<Longrightarrow> spaces_inv 7 m m' \<and> mo_functions m' = mo_functions m"
  by (auto simp: read_table_section_def read_memory_section_def read_tag_section_def read_global_section_def bnd_Inr_iff
      dest: iter_defining [OF _ _ defining_entries(1)] iter_defining [OF _ _ defining_entries(2)]
        iter_defining [OF _ _ defining_entries(3)] iter_defining [OF _ _ defining_entries(4)])

section \<open>Layout\<close>

text \<open>Ranges one after the other from \<open>a\<close> to \<open>b\<close>, with at least one byte before each, of a length that a \<open>u32\<close> holds.\<close>

fun laid_out :: "nat \<Rightarrow> range list \<Rightarrow> nat \<Rightarrow> bool" where
  "laid_out a [] b \<longleftrightarrow> a \<le> b"
| "laid_out a ((s, e) # rgs) b \<longleftrightarrow> a < s \<and> s \<le> e \<and> e - s \<le> u32_MAX \<and> laid_out e rgs b"

lemma laid_out_append: "laid_out a (rgs @ [(s, e)]) b \<longleftrightarrow> (\<exists>c. laid_out a rgs c \<and> c < s \<and> s \<le> e \<and> e - s \<le> u32_MAX \<and> e \<le> b)"
proof (induction rgs arbitrary: a)
  case Nil
  show ?case by auto
next
  case (Cons rg rgs)
  then show ?case by (cases rg) auto
qed

lemma laid_out_mono: "laid_out a rgs b \<Longrightarrow> b \<le> b' \<Longrightarrow> laid_out a rgs b'"
  by (induction a rgs b rule: laid_out.induct) auto

lemma iter_reader_invariant:
  assumes "iter n f s r = Inr (s', r')" "I s r"
    and "\<And>s r s' r'. I s r \<Longrightarrow> f s r = Inr (s', r') \<Longrightarrow> I s' r'"
  shows "I s' r'"
  using assms(1,2)
  by (induction n arbitrary: s r) (auto simp: bnd_Inr_iff ret_def dest: assms(3))

lemma code_entry:
  assumes "read_code_entry m r = Inr (m', r')" "laid_out a (mo_bodies m) (rpos r)"
  shows "laid_out a (mo_bodies m') (rpos r') \<and> m' = m\<lparr>mo_bodies := mo_bodies m'\<rparr>"
proof -
  from assms(1) obtain n r1 s where n: "read_u32 r = Inr (n, r1)" and s: "sub (unat n) r1 = Inr (s, r')"
    and m': "m' = m\<lparr>mo_bodies := mo_bodies m @ [(rpos s, rend s)]\<rparr>"
    by (auto simp: read_code_entry_def bnd_Inr_iff)
  obtain j where "1 \<le> j" "r1 = advance j r" using u32_item.success [OF n] by blast
  with s have "rpos r < rpos s" "rpos s \<le> rend s" "rend s = rpos r'" "rend s - rpos s = unat n"
    by (auto simp: sub_Inr_iff)
  with assms(2) unat_u32_le [of n] show ?thesis unfolding m' by (auto simp: laid_out_append)
qed

lemma code_section:
  assumes "read_code_section d m r = Inr (m', r')" "laid_out a (mo_bodies m) (rpos r)"
  shows "laid_out a (mo_bodies m') (rpos r') \<and> m' = m\<lparr>mo_bodies := mo_bodies m'\<rparr>"
proof -
  from assms(1) obtain n s where n: "count 1 r = Inr (n, s)" and loop: "iter (unat n) read_code_entry m s = Inr (m', r')"
    by (auto simp: read_code_section_def with_offset_def bnd_Inr_iff split: if_splits)
  from n have "read_u32 r = Inr (n, s)" by (simp add: count_Inr_iff)
  then obtain j where "s = advance j r" using u32_item.success by blast
  then have "rpos r \<le> rpos s" by simp
  from loop show ?thesis
  proof (rule iter_reader_invariant)
    show "laid_out a (mo_bodies m) (rpos s) \<and> m = m\<lparr>mo_bodies := mo_bodies m\<rparr>"
      using assms(2) \<open>rpos r \<le> rpos s\<close> by (simp add: laid_out_mono)
  next
    fix m1 r1 m2 r2
    assume h: "laid_out a (mo_bodies m1) (rpos r1) \<and> m1 = m\<lparr>mo_bodies := mo_bodies m1\<rparr>"
      and e: "read_code_entry m1 r1 = Inr (m2, r2)"
    from code_entry [OF e] h have "laid_out a (mo_bodies m2) (rpos r2)" "m2 = m1\<lparr>mo_bodies := mo_bodies m2\<rparr>" by auto
    with h show "laid_out a (mo_bodies m2) (rpos r2) \<and> m2 = m\<lparr>mo_bodies := mo_bodies m2\<rparr>"
      by (metis (no_types, lifting) Module.update_convs(15) Module.surjective)
  qed
qed

section \<open>The contents of a section\<close>

text \<open>
  What holds of the module after the sections up to rank \<open>k\<close>, with \<open>d\<close> functions declared and
  the reader at \<open>pos\<close>.
\<close>

definition module_inv :: "nat \<Rightarrow> u32 \<Rightarrow> nat \<Rightarrow> Module \<Rightarrow> bool" where
  "module_inv k d pos m \<longleftrightarrow> spaces_ok k m \<and> defs_ok (unat d) m \<and> laid_out 0 (mo_bodies m) pos \<and>
     (k < SectionKind_rank SectionKind_Code \<longrightarrow> mo_bodies m = [])"

lemma module_inv_cong:
  "all_parts m' = all_parts m \<Longrightarrow> module_inv k d pos m' = module_inv k d pos m"
  by (simp add: module_inv_def all_parts_def spaces_ok_def defs_ok_def)

lemma module_inv_mono:
  "module_inv k d pos m \<Longrightarrow> k \<le> k' \<Longrightarrow> pos \<le> pos' \<Longrightarrow> module_inv k' d pos' m"
  by (auto simp: module_inv_def elim: spaces_ok_mono laid_out_mono)

lemma all_imported:
  assumes "spaces_ok k m" "k < 3" "defs_ok d m"
  shows "list_all is_imported (mo_functions m) \<and> d = 0"
proof -
  have imp: "list_all is_imported (mo_functions m)" using assms(1,2) by (simp add: spaces_ok_def space_ok_def)
  then have "map FuncOrigin_Defined [0..<d] = []" using assms(3) by (simp add: defs_ok_def dropWhile_all)
  with imp show ?thesis by simp
qed

definition contents_kept :: "nat \<Rightarrow> u32 \<Rightarrow> nat \<Rightarrow> Module \<Rightarrow> Module \<Rightarrow> bool" where
  "contents_kept k d pos m m' \<longleftrightarrow> module_inv k d pos m' \<and> fixed_part m' = fixed_part m"

lemma spaces_inv_module_inv:
  assumes "spaces_inv k m m'" "defs_ok (unat d) m'" "module_inv k d0 pos m" "pos \<le> pos'"
  shows "contents_kept k d pos' m m'"
  using assms by (auto simp: contents_kept_def module_inv_def spaces_inv_def elim: laid_out_mono)

lemma import_contents:
  assumes "read_import_section m s = Inr (m', s')" "module_inv 2 d pos m" "pos \<le> pos'"
  shows "contents_kept 2 d pos' m m'"
proof -
  have ok: "spaces_ok 2 m" "defs_ok (unat d) m" using assms(2) by (simp_all add: module_inv_def)
  then have new: "spaces_inv 2 m m'" "length (mo_functions m') \<le> 2 ^ 32"
    using import_section [OF assms(1)] by (simp_all add: defs_ok_def)
  have "list_all is_imported (mo_functions m')"
    using new(1) by (simp add: spaces_inv_def spaces_ok_def space_ok_def)
  then have "defs_ok (unat d) m'"
    using all_imported [OF ok(1) _ ok(2)] new(2) by (simp add: defs_ok_def dropWhile_all)
  with new(1) assms(2,3) show ?thesis by (intro spaces_inv_module_inv)
qed

lemma function_contents:
  assumes "read_function_section m s = Inr ((d', m'), s')" "module_inv k d pos m" "k < 3" "pos \<le> pos'"
  shows "contents_kept 3 d' pos' m m'"
proof -
  have ok: "spaces_ok k m" "defs_ok (unat d) m" using assms(2) by (simp_all add: module_inv_def)
  have "unat d = 0" using all_imported [OF ok(1) assms(3) ok(2)] by simp
  from assms(1) obtain b r where loop: "iter (unat d') read_function (0, m) r = Inr ((b, m'), s')"
    by (auto simp: read_function_section_def bnd_Inr_iff)
  have "spaces_inv 3 m m" using ok(1) assms(3) by (auto simp: spaces_inv_def elim: spaces_ok_mono)
  with loop have new: "spaces_inv 3 m m'" "defs_ok (unat d') m'"
    using function_loop [OF loop, of m] ok(2) \<open>unat d = 0\<close> by auto
  have "module_inv 3 d pos m" using module_inv_mono [OF assms(2)] assms(3) by simp
  with new assms(4) show ?thesis by (intro spaces_inv_module_inv)
qed

lemma defining_contents:
  assumes "spaces_inv k m m' \<and> mo_functions m' = mo_functions m" "module_inv k d pos m" "pos \<le> pos'"
  shows "contents_kept k d pos' m m'"
  using assms spaces_inv_module_inv [of k m m' d d pos pos'] by (simp add: module_inv_def defs_ok_def)

lemma code_contents:
  assumes "read_code_section d m s = Inr (m', s')" "module_inv 12 d (rpos s) m"
  shows "contents_kept 12 d (rpos s') m m'"
proof -
  from code_section [OF assms(1), of 0] assms(2)
  have "laid_out 0 (mo_bodies m') (rpos s')" and m': "m' = m\<lparr>mo_bodies := mo_bodies m'\<rparr>"
    by (auto simp: module_inv_def)
  moreover have "spaces_ok 12 m'" "defs_ok (unat d) m'" "fixed_part m' = fixed_part m"
    using assms(2) by (subst m', simp add: module_inv_def spaces_ok_def defs_ok_def fixed_part_def)+
  ultimately show ?thesis by (simp add: contents_kept_def module_inv_def)
qed

lemma contents_step:
  assumes "read_contents kind d m s = Inr ((d', m'), s')" "module_inv k d (rpos s) m" "k < SectionKind_rank kind"
  shows "contents_kept (SectionKind_rank kind) d' (rpos s') m m'"
proof -
  have not_custom: "kind \<noteq> SectionKind_Custom name" for name using assms(3) by auto
  have "reads 0 0 1 (read_contents kind d m)" by (rule read_contents_reads) (rule not_custom)
  then obtain n where "s' = advance n s"
    using movesD [of 0 1 "read_contents kind d m" s "(d', m')" s'] assms(1) by (auto simp: reads_def)
  then have pos: "rpos s \<le> rpos s'" by simp
  have inv: "module_inv (SectionKind_rank kind) d (rpos s) m"
    using module_inv_mono [OF assms(2)] assms(3) by simp
  then have spaces: "spaces_ok (SectionKind_rank kind) m" by (simp add: module_inv_def)
  show ?thesis
  proof (cases "kind \<in> {SectionKind_Type, SectionKind_Export, SectionKind_Start, SectionKind_Element,
      SectionKind_DataCount, SectionKind_Data}")
    case True
    note quiet = quiet_sections [OF assms(1) True]
    then have "module_inv (SectionKind_rank kind) d' (rpos s') m'"
      using module_inv_cong [of m' m] module_inv_mono [OF inv order_refl pos] by simp
    with quiet show ?thesis by (simp add: contents_kept_def all_parts_def)
  next
    case False
    with assms(1,2,3) inv spaces pos not_custom show ?thesis
      by (cases kind)
        (auto simp: keep_declared_def bnd_Inr_iff
          intro: import_contents function_contents code_contents defining_contents [OF defining_sections(1)]
            defining_contents [OF defining_sections(2)] defining_contents [OF defining_sections(3)]
            defining_contents [OF defining_sections(4)])
  qed
qed

section \<open>The loop over sections\<close>

definition standard_kinds :: "Module \<Rightarrow> SectionKind list" where
  "standard_kinds m = filter (\<lambda>k. SectionKind_rank k \<noteq> 0) (map se_kind (mo_sections m))"

definition last_rank :: "Reading \<Rightarrow> nat" where
  "last_rank st = (case rd_last st of None \<Rightarrow> 0 | Some l \<Rightarrow> SectionKind_rank l)"

text \<open>Standard sections stand in strictly increasing rank, and the loop remembers the last.\<close>

definition ranks_ok :: "Reading \<Rightarrow> bool" where
  "ranks_ok st \<longleftrightarrow> (let ks = standard_kinds (rd_module st) in
     sorted_wrt (<) (map SectionKind_rank ks) \<and> rd_last st = (if ks = [] then None else Some (last ks)))"

fun is_name_finding :: "Finding \<Rightarrow> bool" where
  "is_name_finding (Finding_Name _) = True"
| "is_name_finding (Finding_Body _ _) = False"

definition reading_inv :: "u8 list \<Rightarrow> Reading \<Rightarrow> Reader \<Rightarrow> bool" where
  "reading_inv bytes st r \<longleftrightarrow> (let m = rd_module st in
     reader_wf r \<and> rbytes r = bytes \<and> rend r = length bytes \<and> mo_bytes m = bytes \<and>
     module_inv (last_rank st) (rd_declared st) (rpos r) m \<and>
     laid_out 0 (map se_contents (mo_sections m)) (rpos r) \<and> ranks_ok st \<and>
     list_all is_name_finding (mo_findings m))"

lemma sorted_wrt_snoc: "sorted_wrt (<) (xs @ [x]) \<longleftrightarrow> sorted_wrt (<) xs \<and> (\<forall>y \<in> set xs. y < (x :: nat))"
  by (simp add: sorted_wrt_append)

lemma name_findings [simp]: "list_all is_name_finding (map Finding_Name fs)"
  by (induction fs) simp_all

lemma sorted_wrt_le_last: "sorted_wrt (<) (map f ks) \<Longrightarrow> l \<in> set ks \<Longrightarrow> f l \<le> (f (last ks) :: nat)"
  by (induction ks) (auto dest: less_imp_le)

lemma ranks_ok_below:
  assumes "ranks_ok st" "\<not> out_of_rank (rd_last st) kind" "l \<in> set (standard_kinds (rd_module st))"
  shows "SectionKind_rank l < SectionKind_rank kind"
proof -
  have "standard_kinds (rd_module st) \<noteq> []" using assms(3) by auto
  with assms(1,2) have "SectionKind_rank (last (standard_kinds (rd_module st))) < SectionKind_rank kind"
    by (simp add: ranks_ok_def Let_def out_of_rank_def)
  moreover have "SectionKind_rank l \<le> SectionKind_rank (last (standard_kinds (rd_module st)))"
    using assms(1,3) by (simp add: ranks_ok_def Let_def sorted_wrt_le_last)
  ultimately show ?thesis by simp
qed

lemma section_range:
  assumes "laid_out 0 rgs (rpos r)" "rpos r < rpos s" "rpos s \<le> rend s" "rend s = rpos r'"
    "remaining s = unat (sz :: u32)"
  shows "laid_out 0 (rgs @ [(rpos s, rend s)]) (rpos r')"
  using assms unat_u32_le [of sz] by (auto simp: laid_out_append remaining_def)

text \<open>A custom section adds itself, findings about names, and perhaps the names.\<close>

definition custom_effect :: "Reading \<Rightarrow> Reader \<Rightarrow> name \<Rightarrow> NameProblem list \<Rightarrow> Names option \<Rightarrow> bool \<Rightarrow> Reading" where
  "custom_effect st s name fs nm seen = push_section (SectionKind_Custom name) (rpos s, rend s)
     (st\<lparr>rd_names_seen := seen, rd_module := (rd_module st)\<lparr>mo_findings := mo_findings (rd_module st) @ map Finding_Name fs,
       mo_names := nm\<rparr>\<rparr>)"

lemma read_custom_effect:
  assumes "read_custom st s = Inr st'"
  shows "\<exists>name fs nm seen. st' = custom_effect st s name fs nm seen"
proof -
  from assms obtain name s' where n: "read_name s = Inr (name, s')" by (auto simp: read_custom_def split: sum.splits)
  have "st' = custom_effect st s name [] (mo_names (rd_module st)) (rd_names_seen st)" if "name \<noteq> NAME"
    using assms n that by (auto simp: read_custom_def Let_def custom_effect_def push_section_def)
  moreover have "st' = custom_effect st s name [NameProblem_Repeated] (mo_names (rd_module st)) True"
    if "name = NAME" "rd_names_seen st"
    using assms n that
    by (auto simp: read_custom_def Let_def custom_effect_def push_section_def push_findings_def)
  moreover have "\<exists>fs nm. st' = custom_effect st s name fs (Some nm) True" if "name = NAME" "\<not> rd_names_seen st"
    using assms n that
    by (auto simp: read_custom_def Let_def custom_effect_def push_section_def push_findings_def split: sum.splits)
  ultimately show ?thesis by blast
qed

lemma custom_step:
  assumes inv: "reading_inv bytes st r" and f: "framed r = Inr ((sid, sz, s), r')" and c: "read_custom st s = Inr st'"
  shows "reading_inv bytes st' r'"
proof -
  have wf: "reader_wf r" using inv by (simp add: reading_inv_def Let_def)
  note frame = framed_frame [OF f wf]
  obtain name fs nm seen where st': "st' = custom_effect st s name fs nm seen"
    using read_custom_effect [OF c] by blast
  have "laid_out 0 (map se_contents (mo_sections (rd_module st))) (rpos r)"
    using inv by (simp add: reading_inv_def Let_def)
  then have sections: "laid_out 0 (map se_contents (mo_sections (rd_module st)) @ [(rpos s, rend s)]) (rpos r')"
    using frame by (intro section_range) auto
  have "module_inv (last_rank st) (rd_declared st) (rpos r') (rd_module st)"
    using inv frame by (auto simp: reading_inv_def Let_def elim: module_inv_mono)
  then have m: "module_inv (last_rank st') (rd_declared st') (rpos r') (rd_module st')"
    by (simp add: st' custom_effect_def push_section_def module_inv_def spaces_ok_def defs_ok_def last_rank_def)
  show ?thesis
    using inv frame sections m
    by (simp add: reading_inv_def Let_def st' custom_effect_def push_section_def ranks_ok_def standard_kinds_def)
qed

lemma read_standard_effect:
  assumes "read_standard st header sid sz s = Inr st'"
  obtains kind d fs m s' where "SectionKind_standard sid = Some kind" "\<not> out_of_rank (rd_last st) kind"
    "read_contents kind (rd_declared st)
       ((rd_module st)\<lparr>mo_findings := mo_findings (rd_module st) @ map Finding_Name fs\<rparr>) s = Inr ((d, m), s')"
    "at_end s'"
    "st' = (push_section kind (rpos s, rend s) (st\<lparr>rd_declared := d, rd_module := m\<rparr>))\<lparr>rd_last := Some kind\<rparr>"
proof -
  from assms obtain kind where kind: "SectionKind_standard sid = Some kind" "\<not> out_of_rank (rd_last st) kind"
    by (auto simp: read_standard_def split: option.splits if_splits)
  define fs where "fs = (if rd_names_seen st then [NameProblem_BeforeStandardSection sid] else [])"
  let ?st = "push_findings (map Finding_Name fs) st"
  have st: "(if rd_names_seen st then push_findings [Finding_Name (NameProblem_BeforeStandardSection sid)] st else st) = ?st"
    by (simp add: fs_def push_findings_def)
  from assms kind obtain d m s' where c: "read_contents kind (rd_declared ?st) (rd_module ?st) s = Inr ((d, m), s')"
    and e: "at_end s'"
    and st': "st' = (push_section kind (rpos s, rend s) (?st\<lparr>rd_declared := d, rd_module := m\<rparr>))\<lparr>rd_last := Some kind\<rparr>"
    unfolding read_standard_def st
    by (auto simp: Let_def bnd_Inr_iff filled_used_def panic_def split: sum.splits if_splits)
  show thesis
    by (rule that [OF kind _ e]) (use c st' in \<open>simp_all add: push_findings_def push_section_def\<close>)
qed

lemma last_rank_below: "\<not> out_of_rank (rd_last st) kind \<Longrightarrow> SectionKind_rank kind \<noteq> 0 \<Longrightarrow> last_rank st < SectionKind_rank kind"
  by (auto simp: out_of_rank_def last_rank_def split: option.splits)

lemma SectionKind_standard_rank: "SectionKind_standard sid = Some kind \<Longrightarrow> SectionKind_rank kind \<noteq> 0"
  by (auto simp: SectionKind_standard_def split: if_splits)

lemma standard_step:
  assumes inv: "reading_inv bytes st r" and f: "framed r = Inr ((sid, sz, s), r')"
    and c: "read_standard st header sid sz s = Inr st'"
  shows "reading_inv bytes st' r'"
proof -
  have wf: "reader_wf r" using inv by (simp add: reading_inv_def Let_def)
  note frame = framed_frame [OF f wf]
  obtain kind d fs m s'
    where kind: "SectionKind_standard sid = Some kind" "\<not> out_of_rank (rd_last st) kind"
      and contents: "read_contents kind (rd_declared st)
        ((rd_module st)\<lparr>mo_findings := mo_findings (rd_module st) @ map Finding_Name fs\<rparr>) s = Inr ((d, m), s')"
      and e: "at_end s'"
      and st': "st' = (push_section kind (rpos s, rend s) (st\<lparr>rd_declared := d, rd_module := m\<rparr>))\<lparr>rd_last := Some kind\<rparr>"
    by (rule read_standard_effect [OF c])
  let ?m = "(rd_module st)\<lparr>mo_findings := mo_findings (rd_module st) @ map Finding_Name fs\<rparr>"
  note rank = SectionKind_standard_rank [OF kind(1)]
  have "module_inv (last_rank st) (rd_declared st) (rpos s) (rd_module st)"
    using inv frame by (auto simp: reading_inv_def Let_def elim: module_inv_mono)
  then have "module_inv (last_rank st) (rd_declared st) (rpos s) ?m"
    by (simp add: module_inv_def spaces_ok_def defs_ok_def)
  from contents_step [OF contents this last_rank_below [OF kind(2) rank]]
  have m: "module_inv (SectionKind_rank kind) d (rpos s') m" and fixed: "fixed_part m = fixed_part ?m"
    by (simp_all add: contents_kept_def)
  have "reads 0 0 1 (read_contents kind (rd_declared st) ?m)"
    by (rule read_contents_reads) (rule SectionKind_standard_not_custom [OF kind(1)])
  then obtain n where "s' = advance n s"
    using movesD [of 0 1 "read_contents kind (rd_declared st) ?m" s "(d, m)" s'] contents by (auto simp: reads_def)
  with e frame have "rpos s' = rpos r'" by (simp add: at_end_def)
  with m have m': "module_inv (last_rank st') (rd_declared st') (rpos r') (rd_module st')"
    by (simp add: st' push_section_def module_inv_def spaces_ok_def defs_ok_def last_rank_def)
  have "laid_out 0 (map se_contents (mo_sections (rd_module st))) (rpos r)" and ranks: "ranks_ok st"
    using inv by (simp_all add: reading_inv_def Let_def)
  then have sections: "laid_out 0 (map se_contents (mo_sections (rd_module st)) @ [(rpos s, rend s)]) (rpos r')"
    using frame by (intro section_range) auto
  have "sorted_wrt (<) (map SectionKind_rank (standard_kinds (rd_module st)) @ [SectionKind_rank kind])"
    unfolding sorted_wrt_snoc using ranks_ok_below [OF ranks kind(2)] ranks by (auto simp: ranks_ok_def Let_def)
  then have "ranks_ok st'"
    using fixed rank by (simp add: ranks_ok_def Let_def st' push_section_def standard_kinds_def fixed_part_def)
  with inv frame sections m' fixed show ?thesis
    by (simp add: reading_inv_def Let_def st' push_section_def fixed_part_def)
qed

lemma read_sections_inv:
  "reading_inv bytes st r \<Longrightarrow> read_sections st r = Inr st' \<Longrightarrow> \<exists>r'. reading_inv bytes st' r' \<and> rpos r' = length bytes"
proof (induction st r rule: read_sections.induct)
  case (1 st r)
  show ?case
  proof (cases "at_end r")
    case True
    with 1 have "st' = st" by (subst (asm) (2) read_sections.simps) simp
    with 1 True show ?thesis by (auto simp: at_end_def reading_inv_def Let_def)
  next
    case False
    then obtain sid sz s r1 st1 where h: "framed r = Inr ((sid, sz, s), r1)"
      and t: "(if sid = 0 then read_custom st s else read_standard st (rpos r) sid sz s) = Inr st1"
      and rest: "read_sections st1 r1 = Inr st'"
      using "1.prems"(2) by (subst (asm) read_sections.simps) (auto split: sum.splits)
    have "reading_inv bytes st1 r1"
      using custom_step [OF "1.prems"(1) h] standard_step [OF "1.prems"(1) h] t by (auto split: if_splits)
    then show ?thesis using "1.IH" [OF False h refl refl refl t] rest by blast
  qed
qed

end
