(* ===== verification/Wasm_Module_Props.thy ===== *)
theory Wasm_Module_Props
  imports Wasm_Module_Inv
begin

text \<open>
  What a module that was read promises its clients: the answers of \<open>body_start\<close>,
  \<open>function_at\<close>, \<open>function_containing\<close> and \<open>Module::body\<close>, and the findings about bodies.
  \<open>module_ok\<close> is the contract \<open>read\<close> establishes and these questions rely on.
\<close>

section \<open>Binary search\<close>

definition partitioned :: "('a \<Rightarrow> bool) \<Rightarrow> 'a list \<Rightarrow> bool" where
  "partitioned P xs \<longleftrightarrow> (\<forall>i j. i \<le> j \<longrightarrow> j < length xs \<longrightarrow> P (xs ! j) \<longrightarrow> P (xs ! i))"

lemma partition_from_point:
  assumes "partitioned P xs" "lo \<le> hi" "hi \<le> length xs"
    and "\<forall>i < lo. P (xs ! i)" "\<forall>i. hi \<le> i \<and> i < length xs \<longrightarrow> \<not> P (xs ! i)"
  shows "partition_from P xs lo hi \<le> length xs \<and> (\<forall>i < partition_from P xs lo hi. P (xs ! i)) \<and>
    (\<forall>i. partition_from P xs lo hi \<le> i \<and> i < length xs \<longrightarrow> \<not> P (xs ! i))"
  using assms
proof (induction P xs lo hi rule: partition_from.induct)
  case (1 P xs lo hi)
  show ?case
  proof (cases "lo < hi")
    case False
    then have "partition_from P xs lo hi = lo" by (simp add: partition_from.simps [of P xs lo hi])
    with False 1(4-7) show ?thesis by auto
  next
    case True
    let ?mid = "lo + (hi - lo) div 2"
    have mid: "lo \<le> ?mid" "?mid < hi" using True by auto
    show ?thesis
    proof (cases "P (xs ! ?mid)")
      case True
      have below: "\<forall>i < ?mid + 1. P (xs ! i)"
      proof (intro allI impI)
        fix i assume "i < ?mid + 1"
        then have "i \<le> ?mid" "?mid < length xs" using mid 1(5) by simp_all
        with 1(3) True show "P (xs ! i)" unfolding partitioned_def by blast
      qed
      have eq: "partition_from P xs lo hi = partition_from P xs (?mid + 1) hi"
        using True \<open>lo < hi\<close> by (simp add: partition_from.simps [of P xs lo hi] Let_def)
      show ?thesis
        unfolding eq by (rule 1(1) [OF \<open>lo < hi\<close> refl True 1(3) _ 1(5) below 1(7)]) (use mid in simp)
    next
      case False
      have above: "\<forall>i. ?mid \<le> i \<and> i < length xs \<longrightarrow> \<not> P (xs ! i)"
        using 1(3) False unfolding partitioned_def by blast
      have eq: "partition_from P xs lo hi = partition_from P xs lo ?mid"
        using False \<open>lo < hi\<close> by (simp add: partition_from.simps [of P xs lo hi] Let_def)
      show ?thesis
        unfolding eq by (rule 1(2) [OF \<open>lo < hi\<close> refl False 1(3) mid(1) _ 1(6) above]) (use mid 1(5) in simp)
    qed
  qed
qed

lemma partition_point:
  assumes "partitioned P xs"
  shows "partition_point P xs \<le> length xs" "i < partition_point P xs \<Longrightarrow> P (xs ! i)"
    "partition_point P xs \<le> i \<Longrightarrow> i < length xs \<Longrightarrow> \<not> P (xs ! i)"
proof -
  have p: "partition_point P xs \<le> length xs \<and> (\<forall>i < partition_point P xs. P (xs ! i)) \<and>
    (\<forall>i. partition_point P xs \<le> i \<and> i < length xs \<longrightarrow> \<not> P (xs ! i))"
    unfolding partition_point_def by (rule partition_from_point [OF assms]) auto
  show "partition_point P xs \<le> length xs" "i < partition_point P xs \<Longrightarrow> P (xs ! i)"
    "partition_point P xs \<le> i \<Longrightarrow> i < length xs \<Longrightarrow> \<not> P (xs ! i)"
    using p by blast+
qed

section \<open>Layout by index\<close>

lemma laid_out_le: "laid_out a rgs b \<Longrightarrow> a \<le> b"
  by (induction a rgs b rule: laid_out.induct) auto

lemma laid_out_nth:
  assumes "laid_out a rgs b" "i < length rgs"
  shows "a < fst (rgs ! i) \<and> fst (rgs ! i) \<le> snd (rgs ! i) \<and> snd (rgs ! i) \<le> b \<and> snd (rgs ! i) - fst (rgs ! i) \<le> u32_MAX"
  using assms
proof (induction a rgs b arbitrary: i rule: laid_out.induct)
  case (2 a s e rgs b)
  have "e \<le> b" using 2(2) laid_out_le [of e rgs b] by simp
  with 2 show ?case by (cases i) fastforce+
qed simp

lemma laid_out_less:
  assumes "laid_out a rgs b" "i < j" "j < length rgs"
  shows "snd (rgs ! i) < fst (rgs ! j)"
  using assms
proof (induction a rgs b arbitrary: i j rule: laid_out.induct)
  case (2 a s e rgs b)
  then obtain j' where j: "j = Suc j'" by (cases j) auto
  show ?case
  proof (cases i)
    case 0
    with 2 j laid_out_nth [of e rgs b j'] show ?thesis by simp
  next
    case (Suc i')
    with 2 j show ?thesis by simp
  qed
qed simp

lemma laid_out_starts:
  assumes "laid_out a rgs b" "i < length rgs" "j < length rgs"
  shows "fst (rgs ! i) < fst (rgs ! j) \<longleftrightarrow> i < j"
proof -
  have lt: "fst (rgs ! k) < fst (rgs ! l)" if "k < l" "l < length rgs" for k l
    using laid_out_less [OF assms(1) that] laid_out_nth [OF assms(1), of k] that by simp
  show ?thesis using lt [of i j] lt [of j i] assms(2,3) by (metis less_asym linorder_neqE_nat)
qed

lemma laid_out_partitioned:
  assumes "laid_out a rgs b"
  shows "partitioned (\<lambda>rg. fst rg < off) rgs" "partitioned (\<lambda>rg. fst rg \<le> off) rgs"
proof -
  have le: "fst (rgs ! i) \<le> fst (rgs ! j)" if "i \<le> j" "j < length rgs" for i j
    using laid_out_starts [OF assms, of j i] that by (simp add: not_less [symmetric])
  show "partitioned (\<lambda>rg. fst rg < off) rgs" "partitioned (\<lambda>rg. fst rg \<le> off) rgs"
    unfolding partitioned_def using le by (meson le_less_trans order_trans)+
qed

section \<open>What \<open>read\<close> establishes\<close>

definition imported_count :: "Module \<Rightarrow> nat" where
  "imported_count m = length (takeWhile is_imported (mo_functions m))"

definition module_ok :: "Module \<Rightarrow> bool" where
  "module_ok m \<longleftrightarrow> defs_ok (length (mo_bodies m)) m \<and> laid_out 0 (mo_bodies m) (length (mo_bytes m)) \<and>
     mo_imported_functions m = of_nat (imported_count m)"

lemma take_4_header:
  assumes "take_bytes 4 (Reader_new bytes) = Inr (magic, r)"
  shows "reader_wf r \<and> rbytes r = bytes \<and> rend r = length bytes \<and> rpos r = 4"
  using assms unfolding take_bytes_Inr_iff [OF Reader_new_wf] by (auto simp: Reader_new_def reader_wf_def)

lemma read_header_Inr:
  assumes "read_header (Reader_new bytes) = Inr (u, r)"
  shows "reader_wf r \<and> rbytes r = bytes \<and> rend r = length bytes \<and> rpos r = 8"
proof -
  from assms obtain magic r1 bs where t: "take_bytes 4 (Reader_new bytes) = Inr (magic, r1)" "take_bytes 4 r1 = Inr (bs, r)"
    by (auto simp: read_header_def array_def bnd_Inr_iff err_def Let_def split: sum.splits if_splits)
  note r1 = take_4_header [OF t(1)]
  with t(2) show ?thesis by (auto simp: take_bytes_Inr_iff reader_wf_def)
qed

lemma take_bytes_refusal: "reader_wf r \<Longrightarrow> take_bytes n r = Inl e \<Longrightarrow> refusal_within (rpos r) (rend r) e"
  using take_bytes_reads [of "rpos r" "rpos r" n] by (auto simp: reads_def refuses_def)

lemma read_header_refusal:
  assumes "read_header (Reader_new bytes) = Inl e"
  shows "refusal_within 0 (length bytes) e"
proof (cases "take_bytes 4 (Reader_new bytes)")
  case (Inl e')
  then have "\<not> is_panic e'" using take_bytes_refusal [OF Reader_new_wf Inl] is_panic_refusal by blast
  with Inl assms show ?thesis by (auto simp: read_header_def err_def)
next
  case (Inr x)
  then obtain magic r where t: "take_bytes 4 (Reader_new bytes) = Inr (magic, r)" by (cases x) auto
  note r = take_4_header [OF t]
  show ?thesis
  proof (cases "take_bytes 4 r")
    case (Inl e')
    from take_bytes_refusal [OF _ Inl] r have "refusal_within 0 (length bytes) e'"
      by (auto elim: refusal_within_mono)
    with Inl t assms show ?thesis by (auto simp: read_header_def err_def array_def bnd_def split: if_splits)
  next
    case (Inr y)
    have "4 \<le> length bytes" using r by (auto simp: reader_wf_def)
    with Inr t assms show ?thesis
      by (auto simp: read_header_def err_def array_def bnd_def Let_def split: if_splits prod.splits)
  qed
qed

text \<open>The state the loop starts in satisfies its invariant, so what it ends in does.\<close>

lemma reading_inv_start:
  assumes "reader_wf r" "rbytes r = bytes" "rend r = length bytes"
  shows "reading_inv bytes
    \<lparr>rd_module = Module_empty bytes, rd_declared = 0, rd_last = None, rd_names_seen = False\<rparr> r"
  using assms
  by (simp add: reading_inv_def Let_def Module_empty_def module_inv_def spaces_ok_def space_ok_def defs_ok_def
      last_rank_def ranks_ok_def standard_kinds_def)

lemma read_stages:
  assumes "read bytes = Inr m"
  obtains st r where "reading_inv bytes st r" "rpos r = length bytes"
    "length (mo_bodies (rd_module st)) = unat (rd_declared st)" "finish_bodies (rd_module st) = Inr m"
    "mo_data_count (rd_module st) = None \<or> map_option unat (mo_data_count (rd_module st)) = Some (length (mo_data (rd_module st)))"
proof -
  let ?st0 = "\<lparr>rd_module = Module_empty bytes, rd_declared = 0, rd_last = None, rd_names_seen = False\<rparr>"
  from assms obtain u r0 st where h: "read_header (Reader_new bytes) = Inr (u, r0)"
    and s: "read_sections ?st0 r0 = Inr st" and f: "finish st (rend r0) = Inr m"
    by (auto simp: read_def read_unguarded_def split: sum.splits)
  obtain r where inv: "reading_inv bytes st r" "rpos r = length bytes"
    using read_sections_inv [OF reading_inv_start s] read_header_Inr [OF h] by blast
  from f show thesis
    by (intro that [OF inv]) (auto simp: finish_def Let_def split: if_splits option.splits)
qed

lemma finish_bodies_Inr:
  assumes "finish_bodies m0 = Inr m"
  obtains fs where "m = m0\<lparr>mo_imported_functions := of_nat (imported_count m0), mo_findings := mo_findings m0 @ fs\<rparr>"
    "body_findings (m0\<lparr>mo_imported_functions := of_nat (imported_count m0)\<rparr>) 0 (mo_bodies m0) = Inr fs"
  using assms by (auto simp: finish_bodies_def Let_def imported_count_def split: sum.splits)

lemma read_module_ok:
  assumes "read bytes = Inr m"
  shows "module_ok m"
proof -
  obtain st r where inv: "reading_inv bytes st r" "rpos r = length bytes"
    "length (mo_bodies (rd_module st)) = unat (rd_declared st)" "finish_bodies (rd_module st) = Inr m"
    by (rule read_stages [OF assms])
  obtain fs where m: "m = (rd_module st)\<lparr>mo_imported_functions := of_nat (imported_count (rd_module st)),
      mo_findings := mo_findings (rd_module st) @ fs\<rparr>"
    by (rule finish_bodies_Inr [OF inv(4)])
  show ?thesis
    using inv(1-3) unfolding m
    by (simp add: module_ok_def reading_inv_def Let_def module_inv_def defs_ok_def imported_count_def)
qed

section \<open>The function index space\<close>

lemma functions_split:
  assumes "module_ok m"
  shows "imported_count m + length (mo_bodies m) = length (mo_functions m)" "length (mo_functions m) \<le> 2 ^ 32"
    "i < length (mo_bodies m) \<Longrightarrow> fu_origin (mo_functions m ! (imported_count m + i)) = FuncOrigin_Defined i"
    "i < imported_count m \<Longrightarrow> is_imported (mo_functions m ! i)"
proof -
  let ?imp = "takeWhile is_imported (mo_functions m)" and ?def = "dropWhile is_imported (mo_functions m)"
  have fns: "mo_functions m = ?imp @ ?def" by simp
  have defs: "map fu_origin ?def = map FuncOrigin_Defined [0..<length (mo_bodies m)]"
    and "length (mo_functions m) \<le> 2 ^ 32" using assms by (auto simp: module_ok_def defs_ok_def)
  then show "length (mo_functions m) \<le> 2 ^ 32" by simp
  have len: "length ?def = length (mo_bodies m)" using arg_cong [OF defs, of length] by simp
  then show "imported_count m + length (mo_bodies m) = length (mo_functions m)"
    unfolding imported_count_def by (metis fns length_append)
  show "fu_origin (mo_functions m ! (imported_count m + i)) = FuncOrigin_Defined i" if "i < length (mo_bodies m)"
  proof -
    have "mo_functions m ! (imported_count m + i) = ?def ! i"
      unfolding imported_count_def by (subst fns) (simp only: nth_append_length_plus)
    moreover have "map fu_origin ?def ! i = FuncOrigin_Defined i" using that by (simp add: defs)
    ultimately show ?thesis using that len by simp
  qed
  show "is_imported (mo_functions m ! i)" if "i < imported_count m"
    using that unfolding imported_count_def by (metis nth_mem set_takeWhileD takeWhile_nth)
qed

text \<open>The index of the \<open>i\<close>-th body's function does not overflow, and is the entry of that body.\<close>

lemma func_at_defined:
  assumes "module_ok m" "i < length (mo_bodies m)"
  shows "\<exists>f. func_at (mo_imported_functions m) i = Inr (FuncIdx f) \<and> unat f = imported_count m + i"
proof -
  note split = functions_split [OF assms(1)]
  have small: "imported_count m + i \<le> u32_MAX" using split(1,2) assms(2) by simp
  then have n: "unat (mo_imported_functions m) = imported_count m" and i: "unat (of_nat i :: u32) = i"
    using assms(1) by (simp_all add: module_ok_def)
  then have "unat (mo_imported_functions m + of_nat i) = imported_count m + i"
    using small by (subst unat_add_lem [THEN iffD1]) simp_all
  with n i small show ?thesis by (auto simp: func_at_def)
qed

lemma function_of_defined:
  assumes "module_ok m" "function_of m (FuncIdx f) = Some fn" "fu_origin fn = FuncOrigin_Defined b"
  shows "b < length (mo_bodies m) \<and> unat f = imported_count m + b"
proof -
  note split = functions_split [OF assms(1)]
  from assms(2) have f: "unat f < length (mo_functions m)" "fn = mo_functions m ! unat f" by (auto split: if_splits)
  have "\<not> is_imported fn" using assms(3) by (simp add: is_imported_def)
  then have ge: "imported_count m \<le> unat f" using split(4) f by (metis not_less)
  then obtain i where i: "unat f = imported_count m + i" by (metis le_iff_add)
  then have "i < length (mo_bodies m)" using f(1) split(1) by simp
  with split(3) [OF this] f(2) i assms(3) show ?thesis by simp
qed

section \<open>Bodies by index and by offset\<close>

lemma body_start_iff:
  assumes "module_ok m"
  shows "body_start m (FuncIdx f) = Some off \<longleftrightarrow>
    (\<exists>i < length (mo_bodies m). unat f = imported_count m + i \<and> fst (mo_bodies m ! i) = off)"
proof
  assume "body_start m (FuncIdx f) = Some off"
  then obtain fn b where "function_of m (FuncIdx f) = Some fn" "fu_origin fn = FuncOrigin_Defined b"
    "get (mo_bodies m) b \<noteq> None" "fst (mo_bodies m ! b) = off"
    by (auto simp: body_start_def get_def split: option.splits FuncOrigin.splits if_splits)
  with function_of_defined [OF assms] show "\<exists>i < length (mo_bodies m). unat f = imported_count m + i \<and> fst (mo_bodies m ! i) = off"
    by blast
next
  assume "\<exists>i < length (mo_bodies m). unat f = imported_count m + i \<and> fst (mo_bodies m ! i) = off"
  then obtain i where i: "i < length (mo_bodies m)" "unat f = imported_count m + i" "fst (mo_bodies m ! i) = off" by blast
  with functions_split [OF assms] show "body_start m (FuncIdx f) = Some off"
    by (simp add: body_start_def get_def)
qed

lemma function_at_lemma:
  assumes "module_ok m"
  shows "function_at m off = Inr (Some (FuncIdx f)) \<longleftrightarrow> body_start m (FuncIdx f) = Some off"
    and "\<exists>f. function_at m off = Inr f"
proof -
  have lay: "laid_out 0 (mo_bodies m) (length (mo_bytes m))" using assms by (simp add: module_ok_def)
  let ?k = "partition_point (\<lambda>rg. fst rg < off) (mo_bodies m)"
  note pp = partition_point [OF laid_out_partitioned(1) [OF lay, of off]]
  have hit: "?k = i" if "i < length (mo_bodies m)" "fst (mo_bodies m ! i) = off" for i
  proof (rule antisym)
    show "?k \<le> i" using pp(2) [of i] that by (meson less_irrefl not_le)
    show "i \<le> ?k"
    proof (rule ccontr)
      assume "\<not> i \<le> ?k"
      then have "?k < i" by simp
      with pp(3) [of ?k] that laid_out_starts [OF lay, of ?k i] show False by auto
    qed
  qed
  have at: "function_at m off = (if ?k < length (mo_bodies m) \<and> fst (mo_bodies m ! ?k) = off
      then map_sum id Some (func_at (mo_imported_functions m) ?k) else Inr None)"
    by (simp add: function_at_def Let_def get_def)
  show "\<exists>f. function_at m off = Inr f"
    using func_at_defined [OF assms, of ?k] unfolding at by auto
  show "function_at m off = Inr (Some (FuncIdx f)) \<longleftrightarrow> body_start m (FuncIdx f) = Some off"
    unfolding body_start_iff [OF assms]
  proof
    assume "function_at m off = Inr (Some (FuncIdx f))"
    then show "\<exists>i < length (mo_bodies m). unat f = imported_count m + i \<and> fst (mo_bodies m ! i) = off"
      using func_at_defined [OF assms, of ?k] unfolding at by (auto split: if_splits)
  next
    assume "\<exists>i < length (mo_bodies m). unat f = imported_count m + i \<and> fst (mo_bodies m ! i) = off"
    then obtain i where i: "i < length (mo_bodies m)" "unat f = imported_count m + i" "fst (mo_bodies m ! i) = off" by blast
    with func_at_defined [OF assms i(1)] show "function_at m off = Inr (Some (FuncIdx f))"
      unfolding at hit [OF i(1,3)] by (auto simp: word_unat_eq_iff)
  qed
qed

text \<open>A body holds an offset of its range, and an empty one the offset where it stands.\<close>

definition holds_offset :: "range \<Rightarrow> nat \<Rightarrow> bool" where
  "holds_offset rg off \<longleftrightarrow> (fst rg \<le> off \<and> off < snd rg) \<or> (fst rg = snd rg \<and> fst rg = off)"

lemma function_containing_lemma:
  assumes "module_ok m"
  shows "function_containing m off = Inr (Some (FuncIdx f, rg)) \<longleftrightarrow>
      (\<exists>i < length (mo_bodies m). unat f = imported_count m + i \<and> mo_bodies m ! i = rg \<and> holds_offset rg off)"
    and "\<exists>x. function_containing m off = Inr x"
proof -
  have lay: "laid_out 0 (mo_bodies m) (length (mo_bytes m))" using assms by (simp add: module_ok_def)
  let ?k = "partition_point (\<lambda>rg. fst rg \<le> off) (mo_bodies m)"
  note pp = partition_point [OF laid_out_partitioned(2) [OF lay, of off]]
  have hit: "?k = i + 1" if i: "i < length (mo_bodies m)" "holds_offset (mo_bodies m ! i) off" for i
  proof (rule antisym)
    show "i + 1 \<le> ?k" using pp(3) [of i] i by (force simp: holds_offset_def)
    show "?k \<le> i + 1"
    proof (rule ccontr)
      assume "\<not> ?k \<le> i + 1"
      then have "i + 1 < ?k" by simp
      then have "fst (mo_bodies m ! (i + 1)) \<le> off" "i + 1 < length (mo_bodies m)" using pp(1) pp(2) by auto
      with laid_out_less [OF lay, of i "i + 1"] i show False by (auto simp: holds_offset_def)
    qed
  qed
  let ?b = "mo_bodies m ! (?k - 1)"
  have range: "off < snd ?b \<or> (\<not> fst ?b < snd ?b \<and> fst ?b = off) \<longleftrightarrow> holds_offset ?b off" if "0 < ?k"
    using pp(1) pp(2) [of "?k - 1"] laid_out_nth [OF lay, of "?k - 1"] that by (auto simp: holds_offset_def)
  have at: "function_containing m off = (if 0 < ?k \<and> holds_offset ?b off
      then map_sum id (\<lambda>f. Some (f, ?b)) (func_at (mo_imported_functions m) (?k - 1)) else Inr None)"
    using range pp(1) by (auto simp: function_containing_def Let_def get_def)
  have last: "?k - 1 < length (mo_bodies m)" if "0 < ?k" using pp(1) that by simp
  show "\<exists>x. function_containing m off = Inr x"
    using func_at_defined [OF assms, of "?k - 1"] last unfolding at by auto
  show "function_containing m off = Inr (Some (FuncIdx f, rg)) \<longleftrightarrow>
      (\<exists>i < length (mo_bodies m). unat f = imported_count m + i \<and> mo_bodies m ! i = rg \<and> holds_offset rg off)"
  proof
    assume "function_containing m off = Inr (Some (FuncIdx f, rg))"
    then show "\<exists>i < length (mo_bodies m). unat f = imported_count m + i \<and> mo_bodies m ! i = rg \<and> holds_offset rg off"
      using func_at_defined [OF assms, of "?k - 1"] last unfolding at by (auto split: if_splits)
  next
    assume "\<exists>i < length (mo_bodies m). unat f = imported_count m + i \<and> mo_bodies m ! i = rg \<and> holds_offset rg off"
    then obtain i where i: "i < length (mo_bodies m)" "unat f = imported_count m + i" "mo_bodies m ! i = rg" "holds_offset rg off"
      by blast
    with hit [of i] func_at_defined [OF assms i(1)] show "function_containing m off = Inr (Some (FuncIdx f, rg))"
      unfolding at by (auto simp: word_unat_eq_iff)
  qed
qed

section \<open>Findings about bodies\<close>

lemma body_findings_total:
  "(\<And>j. j < length rgs \<Longrightarrow> \<exists>f. func_at (mo_imported_functions m) (i + j) = Inr f) \<Longrightarrow>
     \<exists>fs. body_findings m i rgs = Inr fs"
proof (induction rgs arbitrary: i)
  case (Cons rg rgs)
  have "\<exists>f. func_at (mo_imported_functions m) (i + 1 + j) = Inr f" if "j < length rgs" for j
    using Cons.prems [of "j + 1"] that by simp
  then have "\<exists>fs. body_findings m (i + 1) rgs = Inr fs" by (rule Cons.IH)
  moreover have "\<not> is_panic e" if "body (data_indices m) (Reader_over (mo_bytes m) rg) = Inl e" for e
    using body.refusal [OF Reader_over_wf that] by (rule is_panic_refusal)
  ultimately show ?case
    using Cons.prems [of 0] by (auto split: sum.split)
qed simp

lemma body_findings_iff:
  "body_findings m i rgs = Inr fs \<Longrightarrow> Finding_Body f e \<in> set fs \<longleftrightarrow> (\<exists>j < length rgs.
     body (data_indices m) (Reader_over (mo_bytes m) (rgs ! j)) = Inl e \<and>
     func_at (mo_imported_functions m) (i + j) = Inr f)"
proof (induction rgs arbitrary: i fs)
  case (Cons rg rgs)
  let ?P = "\<lambda>rgs i j. body (data_indices m) (Reader_over (mo_bytes m) (rgs ! j)) = Inl e \<and>
    func_at (mo_imported_functions m) (i + j) = Inr f"
  have cons: "(\<exists>j < length (rg # rgs). ?P (rg # rgs) i j) \<longleftrightarrow> ?P (rg # rgs) i 0 \<or> (\<exists>j < length rgs. ?P rgs (i + 1) j)"
    by (auto simp: less_Suc_eq_0_disj)
  show ?case
  proof (cases "body (data_indices m) (Reader_over (mo_bytes m) rg)")
    case (Inr x)
    with Cons.prems Cons.IH [of "i + 1" fs] show ?thesis unfolding cons by simp
  next
    case (Inl e')
    with Cons.prems obtain g gs where g: "\<not> is_panic e'" "func_at (mo_imported_functions m) i = Inr g"
      "body_findings m (i + 1) rgs = Inr gs" "fs = Finding_Body g e' # gs"
      by (auto split: if_splits sum.splits)
    with Cons.IH [OF g(3)] Inl show ?thesis unfolding cons by auto
  qed
qed simp

lemma body_findings_only: "body_findings m i rgs = Inr fs \<Longrightarrow> list_all (\<lambda>x. \<not> is_name_finding x) fs"
  by (induction m i rgs arbitrary: fs rule: body_findings.induct) (auto split: sum.splits if_splits)

lemma Module_body_iff:
  assumes "module_ok m"
  shows "Module_body m (FuncIdx f) = Some x \<longleftrightarrow> (\<exists>i < length (mo_bodies m). unat f = imported_count m + i \<and>
    x = decode_body (mo_bytes m) (mo_bodies m ! i) (data_indices m))"
proof
  assume "Module_body m (FuncIdx f) = Some x"
  then obtain fn b where "function_of m (FuncIdx f) = Some fn" "fu_origin fn = FuncOrigin_Defined b"
    "x = decode_body (mo_bytes m) (mo_bodies m ! b) (data_indices m)"
    by (auto simp: Module_body_def get_def split: option.splits FuncOrigin.splits if_splits)
  with function_of_defined [OF assms] show "\<exists>i < length (mo_bodies m). unat f = imported_count m + i \<and>
      x = decode_body (mo_bytes m) (mo_bodies m ! i) (data_indices m)"
    by blast
next
  assume "\<exists>i < length (mo_bodies m). unat f = imported_count m + i \<and>
    x = decode_body (mo_bytes m) (mo_bodies m ! i) (data_indices m)"
  with functions_split [OF assms] show "Module_body m (FuncIdx f) = Some x"
    by (auto simp: Module_body_def get_def)
qed

lemma decode_body_Inl: "decode_body bytes rg d = Inl e \<longleftrightarrow> body d (Reader_over bytes rg) = Inl e"
  by (auto simp: decode_body_def split: sum.split)

lemma func_at_iff:
  assumes "module_ok m" "i < length (mo_bodies m)"
  shows "func_at (mo_imported_functions m) i = Inr (FuncIdx f) \<longleftrightarrow> unat f = imported_count m + i"
  using func_at_defined [OF assms] by (auto simp: word_unat_eq_iff)

lemma body_error_iff:
  assumes "module_ok m"
  shows "(\<exists>i < length (mo_bodies m). body (data_indices m) (Reader_over (mo_bytes m) (mo_bodies m ! i)) = Inl e \<and>
      func_at (mo_imported_functions m) i = Inr f) \<longleftrightarrow> Module_body m f = Some (Inl e)"
proof -
  obtain g where f: "f = FuncIdx g" by (cases f)
  show ?thesis
    unfolding f Module_body_iff [OF assms] decode_body_Inl [symmetric]
    using func_at_iff [OF assms] by metis
qed

section \<open>Reading never stops\<close>

lemma finish_bodies_total:
  assumes "reading_inv bytes st r" "rpos r = length bytes" "length (mo_bodies (rd_module st)) = unat (rd_declared st)"
  shows "\<exists>m. finish_bodies (rd_module st) = Inr m"
proof -
  let ?m = "(rd_module st)\<lparr>mo_imported_functions := of_nat (imported_count (rd_module st))\<rparr>"
  have "module_ok ?m"
    using assms by (simp add: module_ok_def reading_inv_def Let_def module_inv_def defs_ok_def imported_count_def)
  then have "\<exists>fs. body_findings ?m 0 (mo_bodies ?m) = Inr fs"
    using func_at_defined [of ?m] by (intro body_findings_total) auto
  then show ?thesis by (auto simp: finish_bodies_def Let_def imported_count_def)
qed

lemma read_refusal:
  assumes "read bytes = Inl e"
  shows "refusal_within 0 (length bytes) e"
proof (cases "read_header (Reader_new bytes)")
  case (Inl e')
  with assms read_header_refusal [OF Inl] show ?thesis by (simp add: read_def read_unguarded_def)
next
  case (Inr x)
  let ?st0 = "\<lparr>rd_module = Module_empty bytes, rd_declared = 0, rd_last = None, rd_names_seen = False\<rparr>"
  obtain u r where h: "read_header (Reader_new bytes) = Inr (u, r)" using Inr by (cases x) auto
  note r = read_header_Inr [OF h]
  show ?thesis
  proof (cases "read_sections ?st0 r")
    case (Inl e')
    with assms h have "e = e'" by (simp add: read_def read_unguarded_def)
    with read_sections_refusal [OF _ Inl] r show ?thesis by (auto elim: refusal_within_mono)
  next
    case (Inr st)
    then have f: "finish st (length bytes) = Inl e" using assms h r by (simp add: read_def read_unguarded_def)
    obtain r' where inv: "reading_inv bytes st r'" "rpos r' = length bytes"
      using read_sections_inv [OF reading_inv_start Inr] r by blast
    show ?thesis
      using f finish_bodies_total [OF inv]
      by (auto simp: finish_def Let_def split: if_splits option.splits)
  qed
qed

end
