(* ===== verification/Wasm_Eval.thy ===== *)
theory Wasm_Eval
  imports Wasm_Module_Props
begin

text \<open>
  Evaluation of the readers on concrete bytes inside the logic: a reader is a record of
  literals, a continuation is looked at only once its argument is known, and a number of
  one byte is read in one step.
\<close>

lemma bnd_lazy: "bnd m f r = bnd m f r" by (rule refl)
lemma with_offset_lazy: "with_offset f r = with_offset f r" by (rule refl)
lemma with_reader_lazy: "with_reader f r = with_reader f r" by (rule refl)
lemma iter_lazy: "iter n f s r = iter n f s r" by (rule refl)
lemma rep_lazy: "rep n f r = rep n f r" by (rule refl)
lemma decode_rows_lazy: "code = code' \<Longrightarrow> decode_rows rows code r = decode_rows rows code' r" by simp

lemmas lazy = bnd_lazy with_offset_lazy with_reader_lazy iter_lazy rep_lazy lookup_row_cong decode_rows_lazy

lemma bnd_eval: "bnd m f r = (case m r of Inl e \<Rightarrow> Inl e | Inr p \<Rightarrow> f (fst p) (snd p))"
  by (simp add: bnd_def split: sum.split prod.split)

lemma iter_eval: "iter n f s r = (if n = 0 then ret s r else bnd (f s) (iter (n - 1) f) r)"
  by (cases n) simp_all

lemma rep_eval: "rep n p r = (if n = 0 then ret [] r else bnd p (\<lambda>x. bnd (rep (n - 1) p) (\<lambda>xs. ret (x # xs))) r)"
  by (cases n) simp_all

lemma advance_literal: "advance n \<lparr>rbytes = bs, rpos = p, rend = e\<rparr> = \<lparr>rbytes = bs, rpos = p + n, rend = e\<rparr>"
  by (simp add: advance_def)

lemma byte_eval:
  "p < e \<Longrightarrow> e \<le> length bs \<Longrightarrow>
     byte \<lparr>rbytes = bs, rpos = p, rend = e\<rparr> = Inr (bs ! p, \<lparr>rbytes = bs, rpos = p + 1, rend = e\<rparr>)"
  by (simp add: byte_def)

lemma peek_eval:
  "p < e \<Longrightarrow> e \<le> length bs \<Longrightarrow>
     peek \<lparr>rbytes = bs, rpos = p, rend = e\<rparr> = Inr (bs ! p, \<lparr>rbytes = bs, rpos = p, rend = e\<rparr>)"
  by (simp add: peek_def)

lemma uN_one:
  assumes "unat b < 128" "7 \<le> N"
  shows "uN N [b] (unat b)"
proof -
  have "(2 :: nat) ^ 7 \<le> 2 ^ N" using assms(2) by (rule power_increasing) simp
  with assms(1) show ?thesis by (intro uN.intros) simp_all
qed

lemma read_u32_eval:
  assumes "p < e" "e \<le> length bs" "unat (bs ! p) < 128"
  shows "read_u32 \<lparr>rbytes = bs, rpos = p, rend = e\<rparr> =
    Inr (of_nat (unat (bs ! p)), \<lparr>rbytes = bs, rpos = p + 1, rend = e\<rparr>)"
proof -
  let ?r = "\<lparr>rbytes = bs, rpos = p, rend = e\<rparr>"
  have wf: "reader_wf ?r" using assms by (simp add: reader_wf_def)
  have "unat (of_nat (unat (bs ! p)) :: u32) = unat (bs ! p)"
    using assms(3) by (intro unat_of_nat_u32) simp
  moreover have "prefix [bs ! p] (window ?r)"
    using assms by (simp add: window_def nth_eq_drop_hd [of p bs] Suc_diff_Suc [symmetric])
  ultimately show ?thesis
    unfolding read_u32_iff [OF wf] using uN_one [OF assms(3), of 32]
    by (intro exI [of _ "[bs ! p]"]) (simp add: advance_literal)
qed

lemma lookup_plain:
  "lookup_row plain_rows c = (case lookup_row plain_rows_1 c of Some r \<Rightarrow> Some r | None \<Rightarrow> lookup_row plain_rows_2 c)"
  unfolding plain_rows_def by (rule lookup_row_append)

lemmas lookup_chunks = arg_cong [OF plain_rows_1_def, of lookup_row, THEN fun_cong]
  arg_cong [OF plain_rows_2_def, of lookup_row, THEN fun_cong]
  arg_cong [OF fb_rows_def, of lookup_row, THEN fun_cong] arg_cong [OF fc_rows_def, of lookup_row, THEN fun_cong]

lemmas cursor_eval = bnd_eval with_offset_def with_reader_def ret_def err_def byte_eval peek_eval read_u32_eval
  take_bytes_def sub_def remaining_def at_end_def offset_def array_def filled_def filled_used_def iter_eval rep_eval
  advance_literal Let_def saturating_mul_def Reader_new_def Reader_over_def count_def read_name_def short_def
  utf8_char_width_def utf8_second_def utf8_cont_def

lemmas type_eval = TypeIdx_read_def FuncIdx_read_def LabelIdx_read_def LocalIdx_read_def SubType_read_def CompositeType_read_def
  ValType_read_vec_def ValType_read_def ValLead_of_def BlockType_read_def RecGroup_read_head_def

lemmas body_eval = body_def local_run_def expression_def expression_from.simps decode_def decode_plain_def decode_rows_def
  lookup_plain lookup_chunks data_index_def arm_def

lemmas module_eval = read_def read_unguarded_def read_header_def MAGIC_def VERSION_def from_le_bytes_def framed_def
  read_sections.simps Module_empty_def read_standard_def SectionKind_standard_def out_of_rank_def push_section_def
  push_findings_def keep_declared_def read_type_section_def read_rec_group_def next_index_def u32_try_from_usize_def
  read_subtype_entry_def read_import_section_def read_import_def read_import_item_def place_import_def
  read_function_section_def read_function_def read_code_section_def read_code_entry_def finish_def finish_bodies_def
  is_imported_def data_indices_def

section \<open>A module\<close>

text \<open>
  A module of 36 bytes: one function type, one imported function, and one defined function
  whose body is an empty block.
\<close>

definition sample :: "u8 list" where
  "sample = [0x00, 0x61, 0x73, 0x6d, 1, 0, 0, 0, 1, 4, 1, 0x60, 0, 0, 2, 7, 1, 1, 0x6d, 1, 0x66, 0, 0,
     3, 2, 1, 0, 10, 7, 1, 5, 0, 0x02, 0x40, 0x0b, 0x0b]"

definition sample_module :: Module where
  "sample_module = (Module_empty sample)
     \<lparr>mo_sections := [\<lparr>se_kind = SectionKind_Type, se_contents = (10, 14)\<rparr>,
        \<lparr>se_kind = SectionKind_Import, se_contents = (16, 23)\<rparr>,
        \<lparr>se_kind = SectionKind_Function, se_contents = (25, 27)\<rparr>,
        \<lparr>se_kind = SectionKind_Code, se_contents = (29, 36)\<rparr>],
      mo_types := [\<lparr>su_final = True, su_supertypes = [],
        su_composite = CompositeType_Func \<lparr>fn_params = [], fn_results = []\<rparr>\<rparr>],
      mo_rec_groups := [RecGroup_Single (TypeIdx 0)],
      mo_imports := [\<lparr>im_module = [0x6d], im_name = [0x66], im_item = ImportItem_Func (TypeIdx 0)\<rparr>],
      mo_functions := [\<lparr>fu_ty = TypeIdx 0, fu_origin = FuncOrigin_Imported 0\<rparr>,
        \<lparr>fu_ty = TypeIdx 0, fu_origin = FuncOrigin_Defined 0\<rparr>],
      mo_bodies := [(31, 36)],
      mo_imported_functions := 1\<rparr>"

lemma read_sample: "read sample = Inr sample_module"
  by (simp add: cursor_eval type_eval body_eval module_eval sample_def sample_module_def cong: lazy)

end
