(* ===== verification/Wasm_Text.thy ===== *)
theory Wasm_Text
  imports Wasm_Body
begin

text \<open>
  The text rendering: \<open>fmt::Display\<close> of the types (\<open>src/crates/n0xis-wasm/src/types.rs\<close>) and
  \<open>Immediate::write\<close> and \<open>Display for Instr\<close> (\<open>src/crates/n0xis-wasm/src/instr.rs\<close>). A \<open>fmt\<close> is
  the string it writes; the error of the formatter's sink is not part of the model. The one
  arithmetic step that can stop is the shift \<open>1u64 << align_log2\<close> of a memory argument (the
  crate is built with overflow checks), so what contains one is an option, \<^const>\<open>None\<close> where
  the shift panics; \<open>instr_renders\<close> shows that no decoded instruction is.
\<close>

section \<open>Numbers\<close>

text \<open>The integers of \<open>{}\<close>, \<open>{:x}\<close>, \<open>{:#x}\<close>, \<open>{:0n$x}\<close> and \<open>{:+}\<close>.\<close>

definition digit :: "nat \<Rightarrow> char" where
  "digit d = char_of (if d < 10 then 48 + d else 87 + d)"

function radix :: "nat \<Rightarrow> nat \<Rightarrow> string" where
  "radix b n = (if b < 2 \<or> n < b then [digit n] else radix b (n div b) @ [digit (n mod b)])"
  by auto
termination by (relation "measure snd") auto

declare radix.simps [simp del]

definition decimal :: "nat \<Rightarrow> string" where
  "decimal n = radix 10 n"

definition hex :: "nat \<Rightarrow> string" where
  "hex n = radix 16 n"

definition signed_decimal :: "int \<Rightarrow> string" where
  "signed_decimal x = (if x < 0 then ''-'' @ decimal (nat (- x)) else decimal (nat x))"

definition plus_decimal :: "int \<Rightarrow> string" where
  "plus_decimal x = (if x < 0 then ''-'' @ decimal (nat (- x)) else ''+'' @ decimal (nat x))"

definition padded_hex :: "nat \<Rightarrow> nat \<Rightarrow> string" where
  "padded_hex w n = replicate (w - length (hex n)) (CHR ''0'') @ hex n"

definition trim_end_zeros :: "string \<Rightarrow> string" where
  "trim_end_zeros s = rev (dropWhile (\<lambda>c. c = CHR ''0'') (rev s))"

section \<open>Types\<close>

fun TypeIdx_fmt :: "TypeIdx \<Rightarrow> string" where
  "TypeIdx_fmt (TypeIdx x) = decimal (unat x)"

fun FuncIdx_fmt :: "FuncIdx \<Rightarrow> string" where
  "FuncIdx_fmt (FuncIdx x) = decimal (unat x)"

fun TableIdx_fmt :: "TableIdx \<Rightarrow> string" where
  "TableIdx_fmt (TableIdx x) = decimal (unat x)"

fun MemIdx_fmt :: "MemIdx \<Rightarrow> string" where
  "MemIdx_fmt (MemIdx x) = decimal (unat x)"

fun GlobalIdx_fmt :: "GlobalIdx \<Rightarrow> string" where
  "GlobalIdx_fmt (GlobalIdx x) = decimal (unat x)"

fun TagIdx_fmt :: "TagIdx \<Rightarrow> string" where
  "TagIdx_fmt (TagIdx x) = decimal (unat x)"

fun LocalIdx_fmt :: "LocalIdx \<Rightarrow> string" where
  "LocalIdx_fmt (LocalIdx x) = decimal (unat x)"

fun LabelIdx_fmt :: "LabelIdx \<Rightarrow> string" where
  "LabelIdx_fmt (LabelIdx x) = decimal (unat x)"

fun ElemIdx_fmt :: "ElemIdx \<Rightarrow> string" where
  "ElemIdx_fmt (ElemIdx x) = decimal (unat x)"

fun DataIdx_fmt :: "DataIdx \<Rightarrow> string" where
  "DataIdx_fmt (DataIdx x) = decimal (unat x)"

fun FieldIdx_fmt :: "FieldIdx \<Rightarrow> string" where
  "FieldIdx_fmt (FieldIdx x) = decimal (unat x)"

fun HeapType_fmt :: "HeapType \<Rightarrow> string" where
  "HeapType_fmt (HeapType_Abstract h) = AbsHeapType_name h"
| "HeapType_fmt (HeapType_Concrete x) = TypeIdx_fmt x"

definition RefType_fmt :: "RefType \<Rightarrow> string" where
  "RefType_fmt t = (case (rt_nullable t, rt_heap t) of
     (True, HeapType_Abstract h) \<Rightarrow> AbsHeapType_abbreviation h
   | (True, HeapType_Concrete x) \<Rightarrow> ''(ref null '' @ TypeIdx_fmt x @ '')''
   | (False, heap) \<Rightarrow> ''(ref '' @ HeapType_fmt heap @ '')'')"

fun ValType_fmt :: "ValType \<Rightarrow> string" where
  "ValType_fmt ValType_I32 = ''i32''"
| "ValType_fmt ValType_I64 = ''i64''"
| "ValType_fmt ValType_F32 = ''f32''"
| "ValType_fmt ValType_F64 = ''f64''"
| "ValType_fmt ValType_V128 = ''v128''"
| "ValType_fmt (ValType_Ref r) = RefType_fmt r"

fun StorageType_fmt :: "StorageType \<Rightarrow> string" where
  "StorageType_fmt (StorageType_Val t) = ValType_fmt t"
| "StorageType_fmt StorageType_I8 = ''i8''"
| "StorageType_fmt StorageType_I16 = ''i16''"

definition FieldType_fmt :: "FieldType \<Rightarrow> string" where
  "FieldType_fmt t = (if ft_mutable t then ''(mut '' @ StorageType_fmt (ft_storage t) @ '')''
     else StorageType_fmt (ft_storage t))"

definition StructType_fmt :: "StructType \<Rightarrow> string" where
  "StructType_fmt t = ''(struct'' @ concat (map (\<lambda>f. '' (field '' @ FieldType_fmt f @ '')'') (st_fields t)) @ '')''"

definition ArrayType_fmt :: "ArrayType \<Rightarrow> string" where
  "ArrayType_fmt t = ''(array '' @ FieldType_fmt (at_field t) @ '')''"

text \<open>One of the two groups of \<open>Display for FuncType\<close>, omitted when empty.\<close>

definition type_group :: "string \<Rightarrow> ValType list \<Rightarrow> string" where
  "type_group word types = (if types \<noteq> []
     then '' ('' @ word @ concat (map (\<lambda>t. '' '' @ ValType_fmt t) types) @ '')'' else [])"

definition FuncType_fmt :: "FuncType \<Rightarrow> string" where
  "FuncType_fmt t = ''(func'' @ type_group ''param'' (fn_params t) @ type_group ''result'' (fn_results t) @ '')''"

fun CompositeType_fmt :: "CompositeType \<Rightarrow> string" where
  "CompositeType_fmt (CompositeType_Func t) = FuncType_fmt t"
| "CompositeType_fmt (CompositeType_Struct t) = StructType_fmt t"
| "CompositeType_fmt (CompositeType_Array t) = ArrayType_fmt t"

definition SubType_fmt :: "SubType \<Rightarrow> string" where
  "SubType_fmt t = (if su_final t \<and> su_supertypes t = [] then CompositeType_fmt (su_composite t)
     else ''(sub'' @ (if su_final t then '' final'' else [])
       @ concat (map (\<lambda>s. '' '' @ TypeIdx_fmt s) (su_supertypes t))
       @ '' '' @ CompositeType_fmt (su_composite t) @ '')'')"

section \<open>Floats\<close>

text \<open>\<open>u64::leading_zeros\<close> is 64 less the length of the number in binary.\<close>

fun bit_length :: "nat \<Rightarrow> nat" where
  "bit_length n = (if n = 0 then 0 else Suc (bit_length (n div 2)))"

declare bit_length.simps [simp del]

definition leading_zeros :: "u64 \<Rightarrow> nat" where
  "leading_zeros w = 64 - bit_length (unat w)"

definition hex_float :: "u64 \<Rightarrow> nat \<Rightarrow> nat \<Rightarrow> string" where
  "hex_float bits mantissa_bits exponent_bits = (
    let mantissa_mask = push_bit mantissa_bits 1 - 1;
        exponent_max = push_bit exponent_bits 1 - 1;
        bias = 2 ^ (exponent_bits - 1) - 1 :: int;
        negative = (drop_bit (mantissa_bits + exponent_bits) bits AND 1 = 1);
        exponent = drop_bit mantissa_bits bits AND exponent_max;
        mantissa = bits AND mantissa_mask
    in (if negative then ''-'' else []) @
       (if exponent = exponent_max then (if mantissa = 0 then ''inf'' else ''nan:0x'' @ hex (unat mantissa))
        else if exponent = 0 \<and> mantissa = 0 then ''0x0p+0''
        else let (fraction, power) =
               (if exponent = 0
                then let lead = 63 - leading_zeros mantissa; shift = mantissa_bits - lead
                     in (push_bit shift mantissa AND mantissa_mask, 1 - bias - int shift)
                else (mantissa, uint exponent - bias));
             pad = (4 - mantissa_bits mod 4) mod 4;
             digits = (mantissa_bits + pad) div 4;
             text = trim_end_zeros (padded_hex digits (unat (push_bit pad fraction)))
           in if text = [] then ''0x1p'' @ plus_decimal power else ''0x1.'' @ text @ ''p'' @ plus_decimal power))"

section \<open>Immediates\<close>


definition TypeIdx_write :: "TypeIdx \<Rightarrow> string" where
  "TypeIdx_write x = '' '' @ TypeIdx_fmt x"

definition FuncIdx_write :: "FuncIdx \<Rightarrow> string" where
  "FuncIdx_write x = '' '' @ FuncIdx_fmt x"

definition LocalIdx_write :: "LocalIdx \<Rightarrow> string" where
  "LocalIdx_write x = '' '' @ LocalIdx_fmt x"

definition GlobalIdx_write :: "GlobalIdx \<Rightarrow> string" where
  "GlobalIdx_write x = '' '' @ GlobalIdx_fmt x"

definition TagIdx_write :: "TagIdx \<Rightarrow> string" where
  "TagIdx_write x = '' '' @ TagIdx_fmt x"

definition LabelIdx_write :: "LabelIdx \<Rightarrow> string" where
  "LabelIdx_write x = '' '' @ LabelIdx_fmt x"

definition TableIdx_write :: "TableIdx \<Rightarrow> string" where
  "TableIdx_write x = '' '' @ TableIdx_fmt x"

definition DataIdx_write :: "DataIdx \<Rightarrow> string" where
  "DataIdx_write x = '' '' @ DataIdx_fmt x"

definition ElemIdx_write :: "ElemIdx \<Rightarrow> string" where
  "ElemIdx_write x = '' '' @ ElemIdx_fmt x"

fun MemIdx_write :: "MemIdx \<Rightarrow> string" where
  "MemIdx_write (MemIdx x) = (if x \<noteq> 0 then '' '' @ MemIdx_fmt (MemIdx x) else [])"

fun BlockType_write :: "BlockType \<Rightarrow> string" where
  "BlockType_write BlockType_Empty = []"
| "BlockType_write (BlockType_Value t) = '' (result '' @ ValType_fmt t @ '')''"
| "BlockType_write (BlockType_Type x) = '' (type '' @ TypeIdx_fmt x @ '')''"

definition BrTargets_write :: "BrTargets \<Rightarrow> string" where
  "BrTargets_write t = concat (map (\<lambda>l. '' '' @ LabelIdx_fmt l) (bt_targets t)) @ '' '' @ LabelIdx_fmt (bt_default t)"

definition IndirectCall_write :: "IndirectCall \<Rightarrow> string" where
  "IndirectCall_write c = '' '' @ TableIdx_fmt (ic_table c) @ '' (type '' @ TypeIdx_fmt (ic_ty c) @ '')''"

fun SelectTypes_write :: "SelectTypes \<Rightarrow> string" where
  "SelectTypes_write (SelectTypes ts) = '' (result'' @ concat (map (\<lambda>t. '' '' @ ValType_fmt t) ts) @ '')''"

text \<open>\<open>1u64 << n\<close> with overflow checks.\<close>

definition shl_one :: "u32 \<Rightarrow> u64 option" where
  "shl_one n = (if unat n < 64 then Some (push_bit (unat n) 1) else None)"

definition MemArg_write :: "MemArg \<Rightarrow> string option" where
  "MemArg_write m = map_option (\<lambda>align. MemIdx_write (ma_memory m) @ '' offset='' @ decimal (unat (ma_offset m))
     @ '' align='' @ decimal (unat align)) (shl_one (ma_align_log2 m))"

definition i32_write :: "i32 \<Rightarrow> string" where
  "i32_write x = '' '' @ signed_decimal (sint x)"

definition i64_write :: "i64 \<Rightarrow> string" where
  "i64_write x = '' '' @ signed_decimal (sint x)"

fun Ieee32_write :: "Ieee32 \<Rightarrow> string" where
  "Ieee32_write (Ieee32 w) = '' '' @ hex_float (ucast w) 23 8"

fun Ieee64_write :: "Ieee64 \<Rightarrow> string" where
  "Ieee64_write (Ieee64 w) = '' '' @ hex_float w 52 11"

text \<open>\<open>as_chunks::<4>().0\<close>: the whole chunks of four.\<close>

fun chunks4 :: "u8 list \<Rightarrow> u8 list list" where
  "chunks4 (a # b # c # d # rest) = [a, b, c, d] # chunks4 rest"
| "chunks4 _ = []"

fun V128Bytes_write :: "V128Bytes \<Rightarrow> string" where
  "V128Bytes_write (V128Bytes bs) =
     '' i32x4'' @ concat (map (\<lambda>w. '' 0x'' @ padded_hex 8 (from_le_bytes w)) (chunks4 bs))"

fun ShuffleLanes_write :: "ShuffleLanes \<Rightarrow> string" where
  "ShuffleLanes_write (ShuffleLanes bs) = concat (map (\<lambda>b. '' '' @ decimal (unat b)) bs)"

fun LaneIdx_write :: "LaneIdx \<Rightarrow> string" where
  "LaneIdx_write (LaneIdx b) = '' '' @ decimal (unat b)"

definition MemArgLane_write :: "MemArgLane \<Rightarrow> string option" where
  "MemArgLane_write m = map_option (\<lambda>s. s @ LaneIdx_write (ml_lane m)) (MemArg_write (ml_memarg m))"

definition HeapType_write :: "HeapType \<Rightarrow> string" where
  "HeapType_write h = '' '' @ HeapType_fmt h"

definition NonNull_write :: "NonNull \<Rightarrow> string" where
  "NonNull_write h = '' '' @ RefType_fmt (NonNull_ref_type h)"

definition Nullable_write :: "Nullable \<Rightarrow> string" where
  "Nullable_write h = '' '' @ RefType_fmt (Nullable_ref_type h)"

definition CastBranch_write :: "CastBranch \<Rightarrow> string" where
  "CastBranch_write c = '' '' @ LabelIdx_fmt (cb_label c) @ '' '' @ RefType_fmt (cb_from c) @ '' '' @ RefType_fmt (cb_to c)"

definition FieldRef_write :: "FieldRef \<Rightarrow> string" where
  "FieldRef_write x = '' '' @ TypeIdx_fmt (fr_ty x) @ '' '' @ FieldIdx_fmt (fr_field x)"

definition FixedArray_write :: "FixedArray \<Rightarrow> string" where
  "FixedArray_write x = '' '' @ TypeIdx_fmt (fa_ty x) @ '' '' @ decimal (unat (fa_len x))"

definition ArrayData_write :: "ArrayData \<Rightarrow> string" where
  "ArrayData_write x = '' '' @ TypeIdx_fmt (ad_ty x) @ '' '' @ DataIdx_fmt (ad_data x)"

definition ArrayElem_write :: "ArrayElem \<Rightarrow> string" where
  "ArrayElem_write x = '' '' @ TypeIdx_fmt (ae_ty x) @ '' '' @ ElemIdx_fmt (ae_elem x)"

definition ArrayPair_write :: "ArrayPair \<Rightarrow> string" where
  "ArrayPair_write x = '' '' @ TypeIdx_fmt (ap_dst x) @ '' '' @ TypeIdx_fmt (ap_src x)"

text \<open>One clause of \<open>TryTable::write\<close>.\<close>

fun Catch_write :: "Catch \<Rightarrow> string" where
  "Catch_write (Catch_Catch tag label) = '' (catch '' @ TagIdx_fmt tag @ '' '' @ LabelIdx_fmt label @ '')''"
| "Catch_write (Catch_CatchRef tag label) = '' (catch_ref '' @ TagIdx_fmt tag @ '' '' @ LabelIdx_fmt label @ '')''"
| "Catch_write (Catch_CatchAll label) = '' (catch_all '' @ LabelIdx_fmt label @ '')''"
| "Catch_write (Catch_CatchAllRef label) = '' (catch_all_ref '' @ LabelIdx_fmt label @ '')''"

definition TryTable_write :: "TryTable \<Rightarrow> string" where
  "TryTable_write t = BlockType_write (ty_ty t) @ concat (map Catch_write (ty_catches t))"

definition FenceZero_write :: "FenceZero \<Rightarrow> string" where
  "FenceZero_write z = []"

definition DataToMemory_write :: "DataToMemory \<Rightarrow> string" where
  "DataToMemory_write x = MemIdx_write (dm_memory x) @ '' '' @ DataIdx_fmt (dm_data x)"

definition MemoryPair_write :: "MemoryPair \<Rightarrow> string" where
  "MemoryPair_write x = (if mp_dst x \<noteq> MemIdx 0 \<or> mp_src x \<noteq> MemIdx 0
     then '' '' @ MemIdx_fmt (mp_dst x) @ '' '' @ MemIdx_fmt (mp_src x) else [])"

definition ElemToTable_write :: "ElemToTable \<Rightarrow> string" where
  "ElemToTable_write x = '' '' @ TableIdx_fmt (et_table x) @ '' '' @ ElemIdx_fmt (et_elem x)"

definition TablePair_write :: "TablePair \<Rightarrow> string" where
  "TablePair_write x = '' '' @ TableIdx_fmt (tp_dst x) @ '' '' @ TableIdx_fmt (tp_src x)"

section \<open>Instructions\<close>

primrec Immediate_write :: "Immediate \<Rightarrow> string option" where
  "Immediate_write Imm_None = Some []"
| "Immediate_write (Imm_TypeIdx x) = Some (TypeIdx_write x)"
| "Immediate_write (Imm_FuncIdx x) = Some (FuncIdx_write x)"
| "Immediate_write (Imm_LocalIdx x) = Some (LocalIdx_write x)"
| "Immediate_write (Imm_GlobalIdx x) = Some (GlobalIdx_write x)"
| "Immediate_write (Imm_TagIdx x) = Some (TagIdx_write x)"
| "Immediate_write (Imm_LabelIdx x) = Some (LabelIdx_write x)"
| "Immediate_write (Imm_TableIdx x) = Some (TableIdx_write x)"
| "Immediate_write (Imm_DataIdx x) = Some (DataIdx_write x)"
| "Immediate_write (Imm_ElemIdx x) = Some (ElemIdx_write x)"
| "Immediate_write (Imm_MemIdx x) = Some (MemIdx_write x)"
| "Immediate_write (Imm_BlockType x) = Some (BlockType_write x)"
| "Immediate_write (Imm_BrTargets x) = Some (BrTargets_write x)"
| "Immediate_write (Imm_IndirectCall x) = Some (IndirectCall_write x)"
| "Immediate_write (Imm_SelectTypes x) = Some (SelectTypes_write x)"
| "Immediate_write (Imm_MemArg x) = MemArg_write x"
| "Immediate_write (Imm_i32 x) = Some (i32_write x)"
| "Immediate_write (Imm_i64 x) = Some (i64_write x)"
| "Immediate_write (Imm_Ieee32 x) = Some (Ieee32_write x)"
| "Immediate_write (Imm_Ieee64 x) = Some (Ieee64_write x)"
| "Immediate_write (Imm_V128Bytes x) = Some (V128Bytes_write x)"
| "Immediate_write (Imm_ShuffleLanes x) = Some (ShuffleLanes_write x)"
| "Immediate_write (Imm_LaneIdx x) = Some (LaneIdx_write x)"
| "Immediate_write (Imm_MemArgLane x) = MemArgLane_write x"
| "Immediate_write (Imm_HeapType x) = Some (HeapType_write x)"
| "Immediate_write (Imm_NonNull x) = Some (NonNull_write x)"
| "Immediate_write (Imm_Nullable x) = Some (Nullable_write x)"
| "Immediate_write (Imm_CastBranch x) = Some (CastBranch_write x)"
| "Immediate_write (Imm_FieldRef x) = Some (FieldRef_write x)"
| "Immediate_write (Imm_FixedArray x) = Some (FixedArray_write x)"
| "Immediate_write (Imm_ArrayData x) = Some (ArrayData_write x)"
| "Immediate_write (Imm_ArrayElem x) = Some (ArrayElem_write x)"
| "Immediate_write (Imm_ArrayPair x) = Some (ArrayPair_write x)"
| "Immediate_write (Imm_TryTable x) = Some (TryTable_write x)"
| "Immediate_write (Imm_FenceZero x) = Some (FenceZero_write x)"
| "Immediate_write (Imm_DataToMemory x) = Some (DataToMemory_write x)"
| "Immediate_write (Imm_MemoryPair x) = Some (MemoryPair_write x)"
| "Immediate_write (Imm_ElemToTable x) = Some (ElemToTable_write x)"
| "Immediate_write (Imm_TablePair x) = Some (TablePair_write x)"

fun write_immediates :: "Instr \<Rightarrow> string option" where
  "write_immediates (Instr v imm) = Immediate_write imm"

text \<open>\<open>Display for Instr\<close>; a variant the enum does not have has no text.\<close>

definition Instr_fmt :: "Instr \<Rightarrow> string option" where
  "Instr_fmt i = (case Instr_name i of
     None \<Rightarrow> None
   | Some n \<Rightarrow> map_option (\<lambda>s. n @ s) (write_immediates i))"

end
