(* ===== verification/Wasm_Text_Numbers.thy ===== *)
theory Wasm_Text_Numbers
  imports Wasm_Text Complex_Main
begin

text \<open>
  The numbers of the text rendering read back: a numeral gives its number, a float's text
  gives its bits, and the value the hexadecimal text denotes is the value of the float.
\<close>

section \<open>Numerals\<close>

definition undigit :: "char \<Rightarrow> nat" where
  "undigit c = (if of_char c < (87 :: nat) then of_char c - 48 else of_char c - 87)"

definition numeral_value :: "nat \<Rightarrow> string \<Rightarrow> nat" where
  "numeral_value b s = foldl (\<lambda>a c. a * b + undigit c) 0 s"

lemma undigit_digit [simp]: "d < 16 \<Longrightarrow> undigit (digit d) = d"
  by (auto simp: undigit_def digit_def)

lemma numeral_value_snoc: "numeral_value b (s @ [c]) = numeral_value b s * b + undigit c"
  by (simp add: numeral_value_def)

lemma numeral_value_radix:
  assumes "2 \<le> b" "b \<le> 16"
  shows "numeral_value b (radix b n) = n"
  using assms
proof (induction b n rule: radix.induct)
  case (1 b n)
  show ?case
  proof (cases "n < b")
    case True
    with 1(2,3) show ?thesis by (subst radix.simps) (simp add: numeral_value_def)
  next
    case False
    then have "numeral_value b (radix b (n div b)) = n div b" using 1 by simp
    moreover have "n mod b < 16" using 1(2,3) mod_less_divisor [of b n] by linarith
    ultimately show ?thesis
      using False 1(2) by (subst radix.simps) (simp add: numeral_value_snoc)
  qed
qed

lemma radix_digits: "2 \<le> b \<Longrightarrow> b \<le> 16 \<Longrightarrow> set (radix b n) \<subseteq> digit ` {..<b}"
proof (induction b n rule: radix.induct)
  case (1 b n)
  then show ?case by (subst radix.simps) auto
qed

lemma decimal_value [simp]: "numeral_value 10 (decimal n) = n"
  by (simp add: decimal_def numeral_value_radix)

lemma hex_value [simp]: "numeral_value 16 (hex n) = n"
  by (simp add: hex_def numeral_value_radix)

lemma decimal_inject [simp]: "decimal m = decimal n \<longleftrightarrow> m = n"
  by (metis decimal_value)

lemma hex_inject [simp]: "hex m = hex n \<longleftrightarrow> m = n"
  by (metis hex_value)

lemma decimal_digits:
  assumes "c \<in> set (decimal n)"
  shows "c \<in> set ''0123456789''"
proof -
  have "set (decimal n) \<subseteq> set (map digit [0..<10])"
    using radix_digits [of 10 n] by (simp add: decimal_def atLeast0LessThan)
  also have "\<dots> \<subseteq> set ''0123456789''" by code_simp
  finally show ?thesis using assms by (rule subsetD)
qed

lemma hex_digits:
  assumes "c \<in> set (hex n)"
  shows "c \<in> set ''0123456789abcdef''"
proof -
  have "set (hex n) \<subseteq> set (map digit [0..<16])"
    using radix_digits [of 16 n] by (simp add: hex_def atLeast0LessThan)
  also have "\<dots> \<subseteq> set ''0123456789abcdef''" by code_simp
  finally show ?thesis using assms by (rule subsetD)
qed

lemma decimal_Cons: "\<exists>c cs. decimal n = c # cs \<and> c \<in> set ''0123456789''"
proof -
  have "decimal n \<noteq> []" unfolding decimal_def by (subst radix.simps) simp
  then obtain c cs where "decimal n = c # cs" by (cases "decimal n") auto
  with decimal_digits [of c n] show ?thesis by simp
qed

lemma signed_decimal_inject [simp]: "signed_decimal x = signed_decimal y \<longleftrightarrow> x = y"
proof -
  have "''-'' @ decimal m \<noteq> decimal n" for m n
  proof
    assume "''-'' @ decimal m = decimal n"
    then have "CHR ''-'' \<in> set (decimal n)" by (metis append_Cons list.set_intros(1))
    then show False using decimal_digits by fastforce
  qed
  from this [THEN not_sym] this show ?thesis
    unfolding signed_decimal_def by (cases "x < 0"; cases "y < 0") auto
qed

lemma plus_decimal_inject [simp]: "plus_decimal x = plus_decimal y \<longleftrightarrow> x = y"
  by (auto simp: plus_decimal_def)

lemma padded_hex_value [simp]: "numeral_value 16 (padded_hex w n) = n"
proof -
  have zeros: "foldl (\<lambda>a c. a * 16 + undigit c) 0 (replicate k (CHR ''0'')) = 0" for k
    by (induction k) (simp_all add: undigit_def)
  show ?thesis
    using hex_value [of n] by (simp add: padded_hex_def numeral_value_def zeros del: hex_value)
qed

lemma padded_hex_inject [simp]: "padded_hex w m = padded_hex w n \<longleftrightarrow> m = n"
  by (metis padded_hex_value)

text \<open>A padded numeral has exactly the width it is padded to, when the number fits.\<close>

lemma length_radix: "2 \<le> b \<Longrightarrow> n < b ^ w \<Longrightarrow> 0 < w \<Longrightarrow> length (radix b n) \<le> w"
proof (induction w arbitrary: n)
  case (Suc w)
  show ?case
  proof (cases "n < b")
    case False
    with Suc.prems have "n div b < b ^ w" "0 < w"
      by (auto simp: less_mult_imp_div_less mult.commute intro: Nat.gr0I)
    with Suc.IH Suc.prems(1) have "length (radix b (n div b)) \<le> w" by simp
    with False Suc.prems(1) show ?thesis by (subst radix.simps) simp
  next
    case True
    then show ?thesis by (subst radix.simps) simp
  qed
qed simp

lemma length_padded_hex: "n < 16 ^ w \<Longrightarrow> 0 < w \<Longrightarrow> length (padded_hex w n) = w"
  using length_radix [of 16 n w] by (simp add: padded_hex_def hex_def)

lemma trim_end_zeros_append: "\<exists>k. s = trim_end_zeros s @ replicate k (CHR ''0'')"
proof -
  have "rev s = takeWhile (\<lambda>c. c = CHR ''0'') (rev s) @ dropWhile (\<lambda>c. c = CHR ''0'') (rev s)" by simp
  then have "s = trim_end_zeros s @ rev (takeWhile (\<lambda>c. c = CHR ''0'') (rev s))"
    unfolding trim_end_zeros_def by (metis rev_append rev_rev_ident)
  moreover have "takeWhile (\<lambda>c. c = CHR ''0'') (rev s) =
      replicate (length (takeWhile (\<lambda>c. c = CHR ''0'') (rev s))) (CHR ''0'')"
    by (rule replicate_eqI [OF refl]) (auto dest: set_takeWhileD)
  ultimately show ?thesis by (metis rev_replicate)
qed

lemma trim_end_zeros_inject:
  assumes "trim_end_zeros s = trim_end_zeros t" "length s = length t"
  shows "s = t"
proof -
  obtain j k where "s = trim_end_zeros s @ replicate j (CHR ''0'')" "t = trim_end_zeros t @ replicate k (CHR ''0'')"
    using trim_end_zeros_append by metis
  moreover from this assms have "j = k" by (metis add_left_cancel length_append length_replicate)
  ultimately show ?thesis using assms(1) by metis
qed

lemma trim_end_zeros_Nil: "trim_end_zeros s = [] \<longleftrightarrow> (\<forall>c \<in> set s. c = CHR ''0'')"
  by (simp add: trim_end_zeros_def)

lemma trim_end_zeros_subset: "set (trim_end_zeros s) \<subseteq> set s"
  unfolding trim_end_zeros_def by (auto dest: set_dropWhileD)

section \<open>Floats\<close>

lemma bit_length_bounds: "0 < n \<Longrightarrow> 0 < bit_length n \<and> 2 ^ (bit_length n - 1) \<le> n \<and> n < 2 ^ bit_length n"
proof (induction n rule: bit_length.induct)
  case (1 n)
  show ?case
  proof (cases "n div 2 = 0")
    case True
    with 1(2) have "n = 1" by simp
    then show ?thesis by (simp add: bit_length.simps)
  next
    case False
    define k where "k = bit_length (n div 2)"
    from False 1 have k: "0 < k" "2 ^ (k - 1) \<le> n div 2" "n div 2 < 2 ^ k" by (simp_all add: k_def)
    have "bit_length n = Suc k" using 1(2) by (subst bit_length.simps) (simp add: k_def)
    moreover have "(2 :: nat) ^ k = 2 * 2 ^ (k - 1)" using k(1) by (simp add: power_eq_if)
    ultimately show ?thesis using k by (simp, linarith)
  qed
qed

text \<open>The biased exponent and the fraction of a float of \<open>M\<close> fraction bits and \<open>E\<close> exponent bits.\<close>

definition float_exponent :: "nat \<Rightarrow> nat \<Rightarrow> nat \<Rightarrow> nat" where
  "float_exponent M E n = n div 2 ^ M mod 2 ^ E"

definition float_mantissa :: "nat \<Rightarrow> nat \<Rightarrow> nat" where
  "float_mantissa M n = n mod 2 ^ M"

text \<open>
  The parts of a float of \<open>M\<close> fraction bits and \<open>E\<close> exponent bits: \<^const>\<open>None\<close> where the text is
  a word or zero, otherwise the fraction after the leading one and the power of two.
\<close>

definition float_parts :: "nat \<Rightarrow> nat \<Rightarrow> nat \<Rightarrow> nat \<times> int" where
  "float_parts M E n = (let e = float_exponent M E n; m = float_mantissa M n; bias = 2 ^ (E - 1) - 1 in
     if e = 0 then (let shift = M - (bit_length m - 1) in (m * 2 ^ shift - 2 ^ M, 1 - bias - int shift))
     else (m, int e - bias))"

definition fraction_digits :: "nat \<Rightarrow> nat \<Rightarrow> string" where
  "fraction_digits M f = (let pad = (4 - M mod 4) mod 4 in trim_end_zeros (padded_hex ((M + pad) div 4) (f * 2 ^ pad)))"

definition finite_text :: "nat \<Rightarrow> nat \<times> int \<Rightarrow> string" where
  "finite_text M p = (let text = fraction_digits M (fst p) in
     if text = [] then ''0x1p'' @ plus_decimal (snd p) else ''0x1.'' @ text @ ''p'' @ plus_decimal (snd p))"

definition float_text :: "nat \<Rightarrow> nat \<Rightarrow> nat \<Rightarrow> string" where
  "float_text M E n = (let e = float_exponent M E n; m = float_mantissa M n in
     (if odd (n div 2 ^ (M + E)) then ''-'' else []) @
     (if e = 2 ^ E - 1 then (if m = 0 then ''inf'' else ''nan:0x'' @ hex m)
      else if e = 0 \<and> m = 0 then ''0x0p+0'' else finite_text M (float_parts M E n)))"

text \<open>A format of at most 64 bits whose padded fraction fits them too.\<close>

definition float_format :: "nat \<Rightarrow> nat \<Rightarrow> bool" where
  "float_format M E \<longleftrightarrow> 0 < M \<and> 1 < E \<and> M + E < 64 \<and> M < 61"

lemma mask_word: "n < 64 \<Longrightarrow> push_bit n 1 - 1 = (mask n :: u64)"
  by (simp add: mask_eq_exp_minus_1)

lemma unat_and_mask: "unat (w AND mask n :: u64) = unat w mod 2 ^ n"
  by (simp only: take_bit_eq_mask [symmetric] unsigned_take_bit_eq) (simp add: take_bit_eq_mod)

lemma unat_drop_bit: "unat (drop_bit n w :: u64) = unat w div 2 ^ n"
proof -
  have "unat w < 2 ^ 64" using unsigned_less [of w, where ?'a = nat] by simp
  then show ?thesis
    by (simp only: unsigned_drop_bit_eq) (simp add: drop_bit_eq_div take_bit_nat_eq_self)
qed

lemma unat_push_bit: "unat (w :: u64) * 2 ^ n < 2 ^ 64 \<Longrightarrow> unat (push_bit n w) = unat w * 2 ^ n"
  by (simp only: unsigned_push_bit_eq) (simp add: push_bit_eq_mult take_bit_nat_eq_self)

lemma unat_mask_u64: "n < 64 \<Longrightarrow> unat (mask n :: u64) = 2 ^ n - 1"
proof -
  assume "n < 64"
  then have "uint (mask n :: u64) = mask n" by (simp add: uint_mask_eq min_def)
  then show ?thesis by (simp only: unat_eq_nat_uint) (simp add: mask_eq_exp_minus_1 nat_diff_distrib nat_power_eq)
qed

lemma word_parity: "(w :: u64) AND 1 = 1 \<longleftrightarrow> odd (unat w)"
  using bit_iff_odd_unat [of w 0] by (simp add: and_one_eq odd_iff_mod_2_eq_one bit_0)

text \<open>A subnormal number shifted until its leading one is the implicit bit.\<close>

lemma subnormal_shift:
  assumes "0 < m" "m < 2 ^ M"
  defines "shift \<equiv> M - (bit_length m - 1)"
  shows "0 < shift" "shift \<le> M" "2 ^ M \<le> m * 2 ^ shift" "m * 2 ^ shift < 2 ^ Suc M" "bit_length m \<le> M"
proof -
  define l where "l = bit_length m - 1"
  have l: "bit_length m = Suc l" "2 ^ l \<le> m" "m < 2 ^ Suc l"
    using bit_length_bounds [OF assms(1)] by (auto simp: l_def)
  then have "(2 :: nat) ^ l < 2 ^ M" using assms(2) by linarith
  then have lM: "l < M" by simp
  then have M: "l + shift = M" using l(1) by (simp add: shift_def)
  show "0 < shift" "shift \<le> M" "bit_length m \<le> M" using lM l(1) M by simp_all
  have "2 ^ M = 2 ^ l * (2 :: nat) ^ shift" by (simp add: M [symmetric] power_add)
  then show "2 ^ M \<le> m * 2 ^ shift" "m * 2 ^ shift < 2 ^ Suc M" using l(2,3) by simp_all
qed

lemma mod_between: "n \<le> x \<Longrightarrow> x < 2 * n \<Longrightarrow> x mod n = x - (n :: nat)"
  by (simp add: le_mod_geq)

lemma float_parts_word:
  fixes bits :: u64
  assumes "float_format M E"
  defines "mantissa \<equiv> bits AND mask M" and "exponent \<equiv> drop_bit M bits AND mask E"
    and "bias \<equiv> 2 ^ (E - 1) - 1 :: int"
  assumes "mantissa \<noteq> 0 \<or> exponent \<noteq> 0"
  shows "(if exponent = 0
      then let lead = 63 - leading_zeros mantissa; shift = M - lead
           in (unat (push_bit shift mantissa AND mask M), 1 - bias - int shift)
      else (unat mantissa, uint exponent - bias)) = float_parts M E (unat bits)"
proof -
  have m: "unat mantissa = float_mantissa M (unat bits)" and e: "unat exponent = float_exponent M E (unat bits)"
    by (simp_all add: mantissa_def exponent_def float_exponent_def float_mantissa_def unat_and_mask unat_drop_bit)
  show ?thesis
  proof (cases "exponent = 0")
    case True
    with assms(5) have pos: "0 < unat mantissa" by (simp add: unat_gt_0)
    have lt: "unat mantissa < 2 ^ M" by (simp add: m float_mantissa_def)
    note sh = subnormal_shift [OF pos lt]
    have "bit_length (unat mantissa) \<le> 64" "0 < bit_length (unat mantissa)"
      using sh(5) assms(1) bit_length_bounds [OF pos] by (auto simp: float_format_def)
    then have lead: "63 - leading_zeros mantissa = bit_length (unat mantissa) - 1"
      by (simp add: leading_zeros_def)
    have "(2 :: nat) ^ Suc M \<le> 2 ^ 64"
      using assms(1) by (intro power_increasing) (auto simp: float_format_def)
    with sh(4) have "unat (push_bit (M - (bit_length (unat mantissa) - 1)) mantissa) =
        unat mantissa * 2 ^ (M - (bit_length (unat mantissa) - 1))"
      by (intro unat_push_bit) linarith
    then have "unat (push_bit (M - (bit_length (unat mantissa) - 1)) mantissa AND mask M) =
        unat mantissa * 2 ^ (M - (bit_length (unat mantissa) - 1)) - 2 ^ M"
      using sh(3,4) by (simp add: unat_and_mask mod_between)
    with True e show ?thesis
      by (simp add: float_parts_def Let_def lead m [symmetric] bias_def)
  next
    case False
    then have "unat exponent \<noteq> 0" by (simp add: unat_eq_zero)
    moreover have "uint exponent = int (unat exponent)" by simp
    ultimately show ?thesis
      using False by (simp add: float_parts_def Let_def m e bias_def)
  qed
qed

lemma fraction_digits_word:
  assumes "float_format M E" "unat (f :: u64) < 2 ^ M"
  shows "trim_end_zeros (padded_hex ((M + (4 - M mod 4) mod 4) div 4) (unat (push_bit ((4 - M mod 4) mod 4) f))) =
    fraction_digits M (unat f)"
proof -
  let ?pad = "(4 - M mod 4) mod 4"
  have "unat f * 2 ^ ?pad < 2 ^ M * 2 ^ ?pad" using assms(2) by simp
  also have "\<dots> \<le> 2 ^ 64"
    unfolding power_add [symmetric] using assms(1) by (intro power_increasing) (auto simp: float_format_def)
  finally have "unat (push_bit ?pad f) = unat f * 2 ^ ?pad" by (rule unat_push_bit)
  then show ?thesis by (simp add: fraction_digits_def Let_def)
qed

theorem hex_float_eq:
  assumes "float_format M E"
  shows "hex_float bits M E = float_text M E (unat bits)"
proof -
  define mantissa where "mantissa = bits AND mask M"
  define exponent where "exponent = drop_bit M bits AND mask E"
  have ME: "M < 64" "E < 64" using assms by (auto simp: float_format_def)
  have m: "unat mantissa = float_mantissa M (unat bits)" and e: "unat exponent = float_exponent M E (unat bits)"
    by (simp_all add: mantissa_def exponent_def float_exponent_def float_mantissa_def unat_and_mask unat_drop_bit)
  have sgn: "drop_bit (M + E) bits AND 1 = 1 \<longleftrightarrow> odd (unat bits div 2 ^ (M + E))"
    by (simp only: word_parity unat_drop_bit)
  have em: "exponent = mask E \<longleftrightarrow> float_exponent M E (unat bits) = 2 ^ E - 1"
    using ME by (simp add: word_unat_eq_iff e unat_mask_u64)
  have z: "mantissa = 0 \<longleftrightarrow> float_mantissa M (unat bits) = 0" "exponent = 0 \<longleftrightarrow> float_exponent M E (unat bits) = 0"
    by (simp_all only: word_unat_eq_iff m e unsigned_0)
  have parts: "finite_text M (float_parts M E (unat bits)) = (let (fraction, power) =
               (if exponent = 0
                then let lead = 63 - leading_zeros mantissa; shift = M - lead
                     in (push_bit shift mantissa AND mask M, 1 - (2 ^ (E - 1) - 1) - int shift)
                else (mantissa, uint exponent - (2 ^ (E - 1) - 1)));
             pad = (4 - M mod 4) mod 4;
             digits = (M + pad) div 4;
             text = trim_end_zeros (padded_hex digits (unat (push_bit pad fraction)))
           in if text = [] then ''0x1p'' @ plus_decimal power else ''0x1.'' @ text @ ''p'' @ plus_decimal power)"
    if "mantissa \<noteq> 0 \<or> exponent \<noteq> 0"
  proof -
    have "unat mantissa < 2 ^ M" "unat (w AND mask M) < 2 ^ M" for w :: u64 by (simp_all add: m float_mantissa_def unat_and_mask)
    note dg = this [THEN fraction_digits_word [OF assms]]
    show ?thesis
      unfolding float_parts_word [OF assms that [unfolded mantissa_def exponent_def], symmetric]
        mantissa_def [symmetric] exponent_def [symmetric]
      by (cases "exponent = 0")
        (simp_all only: finite_text_def Let_def dg if_True if_False prod.case fst_conv snd_conv simp_thms)
  qed
  show ?thesis
    unfolding hex_float_def float_text_def Let_def mask_word [OF ME(1)] mask_word [OF ME(2)]
      mantissa_def [symmetric] exponent_def [symmetric] sgn em
    using parts by (simp add: z m Let_def)
qed

lemma pad_dvd: "4 dvd M + (4 - M mod 4) mod (4 :: nat)"
proof -
  have "M mod 4 \<le> 4" using mod_less_divisor [of 4 M] by linarith
  then have "M mod 4 + (4 - M mod 4) = 4" by (rule le_add_diff_inverse)
  moreover have "(M + (4 - M mod 4) mod 4) mod 4 = (M mod 4 + (4 - M mod 4)) mod 4" by (simp only: mod_simps)
  ultimately show ?thesis by (simp only: dvd_eq_mod_eq_0 mod_self)
qed

lemma fraction_digits_inject:
  assumes "f < 2 ^ M" "g < 2 ^ M" "0 < M" "fraction_digits M f = fraction_digits M g"
  shows "f = g"
proof -
  define pad where "pad = (4 - M mod 4) mod 4"
  define w where "w = (M + pad) div 4"
  have "4 dvd M + pad" unfolding pad_def by (rule pad_dvd)
  then have w: "4 * w = M + pad" unfolding w_def by simp
  then have "0 < w" using assms(3) by (cases w) auto
  have "(16 :: nat) ^ w = 2 ^ M * 2 ^ pad"
    by (simp add: power_add [symmetric] w [symmetric] power_mult)
  then have "f * 2 ^ pad < 16 ^ w" "g * 2 ^ pad < 16 ^ w" using assms(1,2) by simp_all
  then have "length (padded_hex w (f * 2 ^ pad)) = length (padded_hex w (g * 2 ^ pad))"
    using \<open>0 < w\<close> by (simp add: length_padded_hex)
  moreover have "trim_end_zeros (padded_hex w (f * 2 ^ pad)) = trim_end_zeros (padded_hex w (g * 2 ^ pad))"
    using assms(4) by (simp add: fraction_digits_def Let_def pad_def w_def)
  ultimately have "padded_hex w (f * 2 ^ pad) = padded_hex w (g * 2 ^ pad)" by (rule trim_end_zeros_inject [rotated])
  then show ?thesis by simp
qed

lemma fraction_digits_chars: "c \<in> set (fraction_digits M f) \<Longrightarrow> c \<in> set ''0123456789abcdef''"
  using hex_digits [of c] trim_end_zeros_subset
  by (fastforce simp: fraction_digits_def Let_def padded_hex_def)

lemma plus_decimal_no_p: "CHR ''p'' \<notin> set (plus_decimal x)"
  using decimal_digits [of "CHR ''p''"] by (auto simp: plus_decimal_def)

lemma split_at: "c \<notin> set xs \<Longrightarrow> c \<notin> set ys \<Longrightarrow> xs @ c # s = ys @ c # t \<Longrightarrow> xs = ys \<and> s = t"
proof (induction xs arbitrary: ys)
  case Nil
  then show ?case by (cases ys) auto
next
  case (Cons x xs)
  then show ?case by (cases ys) auto
qed

lemma finite_text_inject:
  assumes "fst p < 2 ^ M" "fst q < 2 ^ M" "0 < M" "finite_text M p = finite_text M q"
  shows "p = q"
proof -
  have "CHR ''p'' \<notin> set (fraction_digits M f)" for f using fraction_digits_chars [of "CHR ''p''"] by auto
  then have split: "fraction_digits M f @ CHR ''p'' # s = fraction_digits M g @ CHR ''p'' # t \<Longrightarrow>
      fraction_digits M f = fraction_digits M g \<and> s = t" for f g s t
    by (intro split_at) auto
  have "fraction_digits M (fst p) = fraction_digits M (fst q) \<and> snd p = snd q"
    using assms(4) split [of "fst p" "plus_decimal (snd p)" "fst q" "plus_decimal (snd q)"]
    by (auto simp: finite_text_def Let_def split: if_splits)
  with fraction_digits_inject [OF assms(1,2,3)] show ?thesis by (simp add: prod_eq_iff)
qed

lemma float_parts_subnormal:
  assumes "float_exponent M E n = 0" "float_mantissa M n \<noteq> 0"
  obtains k where "0 < k" "snd (float_parts M E n) = 1 - (2 ^ (E - 1) - 1) - int k"
    "2 ^ M + fst (float_parts M E n) = float_mantissa M n * 2 ^ k" "fst (float_parts M E n) < 2 ^ M"
proof -
  have m: "0 < float_mantissa M n" "float_mantissa M n < 2 ^ M" using assms(2) by (simp_all add: float_mantissa_def)
  note sh = subnormal_shift [OF m]
  show thesis
    by (rule that [of "M - (bit_length (float_mantissa M n) - 1)"])
      (use sh in \<open>simp_all add: float_parts_def Let_def assms(1)\<close>)
qed

lemma float_parts_normal:
  assumes "float_exponent M E n \<noteq> 0"
  shows "float_parts M E n = (float_mantissa M n, int (float_exponent M E n) - (2 ^ (E - 1) - 1))"
  using assms by (simp add: float_parts_def Let_def)

lemma float_parts_inject:
  assumes "float_exponent M E n \<noteq> 0 \<or> float_mantissa M n \<noteq> 0" "float_exponent M E n' \<noteq> 0 \<or> float_mantissa M n' \<noteq> 0"
    "float_parts M E n = float_parts M E n'"
  shows "float_exponent M E n = float_exponent M E n' \<and> float_mantissa M n = float_mantissa M n'"
proof (cases "float_exponent M E n = 0"; cases "float_exponent M E n' = 0")
  assume e: "float_exponent M E n = 0" "float_exponent M E n' = 0"
  then have "float_mantissa M n \<noteq> 0" "float_mantissa M n' \<noteq> 0" using assms(1,2) by simp_all
  then obtain k k' where
    k: "snd (float_parts M E n) = 1 - (2 ^ (E - 1) - 1) - int k" "2 ^ M + fst (float_parts M E n) = float_mantissa M n * 2 ^ k"
    and k': "snd (float_parts M E n') = 1 - (2 ^ (E - 1) - 1) - int k'" "2 ^ M + fst (float_parts M E n') = float_mantissa M n' * 2 ^ k'"
    using e by (metis float_parts_subnormal)
  then have "k = k'" using assms(3) by simp
  then show ?thesis using k k' assms(3) e by simp
next
  assume e: "float_exponent M E n = 0" "float_exponent M E n' \<noteq> 0"
  with assms(1) have "float_mantissa M n \<noteq> 0" by simp
  then obtain k where "snd (float_parts M E n) = 1 - (2 ^ (E - 1) - 1) - int k" "0 < k"
    using e(1) by (metis float_parts_subnormal)
  with assms(3) e(2) show ?thesis by (simp add: float_parts_normal)
next
  assume e: "float_exponent M E n \<noteq> 0" "float_exponent M E n' = 0"
  with assms(2) have "float_mantissa M n' \<noteq> 0" by simp
  then obtain k where "snd (float_parts M E n') = 1 - (2 ^ (E - 1) - 1) - int k" "0 < k"
    using e(2) by (metis float_parts_subnormal)
  with assms(3) [symmetric] e(1) show ?thesis by (simp add: float_parts_normal)
next
  assume "float_exponent M E n \<noteq> 0" "float_exponent M E n' \<noteq> 0"
  then show ?thesis using assms(3) by (simp add: float_parts_normal)
qed

lemma float_parts_fraction: "float_exponent M E n \<noteq> 0 \<or> float_mantissa M n \<noteq> 0 \<Longrightarrow> fst (float_parts M E n) < 2 ^ M"
  by (cases "float_exponent M E n = 0") (auto elim: float_parts_subnormal simp: float_parts_normal, simp add: float_mantissa_def)

lemma float_split: "n = n div 2 ^ (M + E) * 2 ^ (M + E) + (float_exponent M E n * 2 ^ M + float_mantissa M n)"
proof -
  have "n div 2 ^ M = n div 2 ^ (M + E) * 2 ^ E + float_exponent M E n"
    unfolding float_exponent_def power_add div_mult2_eq by (rule div_mult_mod_eq [symmetric])
  moreover have "n = n div 2 ^ M * 2 ^ M + float_mantissa M n" unfolding float_mantissa_def by (rule div_mult_mod_eq [symmetric])
  ultimately show ?thesis by (metis add.assoc add_mult_distrib mult.assoc mult.commute power_add)
qed

text \<open>The text after the sign starts with one of three letters.\<close>

definition unsigned_text :: "nat \<Rightarrow> nat \<Rightarrow> nat \<Rightarrow> string" where
  "unsigned_text M E n = (if float_exponent M E n = 2 ^ E - 1
     then (if float_mantissa M n = 0 then ''inf'' else ''nan:0x'' @ hex (float_mantissa M n))
     else if float_exponent M E n = 0 \<and> float_mantissa M n = 0 then ''0x0p+0''
     else finite_text M (float_parts M E n))"

lemma float_text_sign: "float_text M E n = (if odd (n div 2 ^ (M + E)) then ''-'' else []) @ unsigned_text M E n"
  by (simp add: float_text_def unsigned_text_def Let_def)

lemma finite_text_start: "\<exists>c s. finite_text M p = ''0x1'' @ c # s"
  by (simp add: finite_text_def Let_def)

lemma unsigned_text_start: "hd (unsigned_text M E n) \<in> {CHR ''i'', CHR ''n'', CHR ''0''} \<and> unsigned_text M E n \<noteq> []"
  using finite_text_start [of M "float_parts M E n"] by (auto simp: unsigned_text_def)

lemma unsigned_text_inject:
  assumes "0 < M" "unsigned_text M E n = unsigned_text M E n'"
  shows "float_exponent M E n = float_exponent M E n' \<and> float_mantissa M n = float_mantissa M n'"
proof -
  have fin: "p = q" if "finite_text M p = finite_text M q" "fst p < 2 ^ M" "fst q < 2 ^ M" for p q
    using finite_text_inject [OF that(2,3) assms(1) that(1)] .
  note start = finite_text_start [of M "float_parts M E n"] finite_text_start [of M "float_parts M E n'"]
  show ?thesis
    using assms(2) start float_parts_inject [of M E n n'] fin [of "float_parts M E n" "float_parts M E n'"]
      float_parts_fraction [of M E n] float_parts_fraction [of M E n']
    by (auto simp: unsigned_text_def split: if_splits)
qed

theorem float_text_inject:
  assumes "0 < M" "m < 2 ^ (M + E + 1)" "n < 2 ^ (M + E + 1)" "float_text M E m = float_text M E n"
  shows "m = n"
proof -
  have "CHR ''-'' # s \<noteq> unsigned_text M E k" for s k
  proof
    assume "CHR ''-'' # s = unsigned_text M E k"
    then have "hd (unsigned_text M E k) = CHR ''-''" by (metis list.sel(1))
    with unsigned_text_start [of M E k] show False by simp
  qed
  from this this [THEN not_sym]
  have "unsigned_text M E m = unsigned_text M E n \<and> (odd (m div 2 ^ (M + E)) \<longleftrightarrow> odd (n div 2 ^ (M + E)))"
    using assms(4) by (auto simp: float_text_sign split: if_splits)
  moreover have "m div 2 ^ (M + E) < 2" "n div 2 ^ (M + E) < 2"
    using assms(2,3) by (simp_all add: less_mult_imp_div_less mult.commute)
  ultimately have "unsigned_text M E m = unsigned_text M E n" "m div 2 ^ (M + E) = n div 2 ^ (M + E)"
    by (auto simp: less_2_cases_iff)
  with unsigned_text_inject [OF assms(1)] show ?thesis by (metis float_split)
qed

section \<open>The value of a finite float\<close>

text \<open>The magnitude IEEE 754 gives a finite number that is not zero.\<close>

definition float_value :: "nat \<Rightarrow> nat \<Rightarrow> nat \<Rightarrow> rat" where
  "float_value M E n = (let e = float_exponent M E n; m = float_mantissa M n; bias = 2 ^ (E - 1) - 1 in
     if e = 0 then of_nat m * 2 powi (1 - bias - int M) else (2 ^ M + of_nat m) * 2 powi (int e - bias - int M))"

lemma float_parts_value:
  assumes "float_exponent M E n \<noteq> 0 \<or> float_mantissa M n \<noteq> 0"
  shows "(2 ^ M + of_nat (fst (float_parts M E n))) * 2 powi (snd (float_parts M E n) - int M) = float_value M E n"
proof (cases "float_exponent M E n = 0")
  case True
  with assms obtain k where k: "snd (float_parts M E n) = 1 - (2 ^ (E - 1) - 1) - int k"
    "2 ^ M + fst (float_parts M E n) = float_mantissa M n * 2 ^ k"
    by (metis float_parts_subnormal)
  have "(2 :: rat) ^ M + of_nat (fst (float_parts M E n)) = of_nat (2 ^ M + fst (float_parts M E n))" by simp
  also have "\<dots> = of_nat (float_mantissa M n) * 2 powi int k" unfolding k(2) by simp
  finally have "(2 ^ M + of_nat (fst (float_parts M E n))) * 2 powi (snd (float_parts M E n) - int M) =
      of_nat (float_mantissa M n) * ((2 :: rat) powi int k * 2 powi (snd (float_parts M E n) - int M))"
    by (simp only: mult.assoc)
  also have "(2 :: rat) powi int k * 2 powi (snd (float_parts M E n) - int M) = 2 powi (1 - (2 ^ (E - 1) - 1) - int M)"
    unfolding k(1) by (subst power_int_add [symmetric]) (simp_all add: algebra_simps)
  finally show ?thesis using True by (simp add: float_value_def Let_def)
next
  case False
  then show ?thesis by (simp add: float_parts_normal float_value_def Let_def)
qed

end
