(* ===== verification/Wasm_Text_Exact.thy ===== *)
theory Wasm_Text_Exact
  imports Wasm_Text_Numbers
begin

text \<open>
  The text of a value determines it. A text item stands between blanks and brackets:
  followed by one of them or by the end of the line, it can be read in one way only. The
  locale states that; words (texts without blanks and brackets) give it by injectivity, and
  the bracketed forms of reference types and immediates are built from them.
\<close>

section \<open>Text items\<close>

definition stop :: "char \<Rightarrow> bool" where
  "stop c \<longleftrightarrow> c = CHR '' '' \<or> c = CHR '')''"

definition ends :: "string \<Rightarrow> bool" where
  "ends s \<longleftrightarrow> s = [] \<or> stop (hd s)"

lemma ends_simps [simp]: "ends []" "ends (CHR '' '' # s)" "ends (CHR '')'' # s)"
  by (simp_all add: ends_def stop_def)

definition word_text :: "string \<Rightarrow> bool" where
  "word_text w \<longleftrightarrow> (\<forall>c \<in> set w. \<not> stop c)"

lemma word_text_simps [simp]:
  "word_text []" "word_text (c # w) \<longleftrightarrow> \<not> stop c \<and> word_text w" "word_text (v @ w) \<longleftrightarrow> word_text v \<and> word_text w"
  by (auto simp: word_text_def)

lemma word_ends_split:
  assumes "word_text v" "word_text w" "ends s" "ends t" "v @ s = w @ t"
  shows "v = w \<and> s = t"
  using assms
proof (induction v arbitrary: w)
  case Nil
  then show ?case by (cases w) (auto simp: ends_def)
next
  case (Cons c v)
  then show ?case by (cases w) (auto simp: ends_def)
qed

locale text_item =
  fixes ok :: "'a \<Rightarrow> bool" and render :: "'a \<Rightarrow> string"
  assumes exact: "ok x \<Longrightarrow> ok y \<Longrightarrow> ends s \<Longrightarrow> ends t \<Longrightarrow> render x @ s = render y @ t \<Longrightarrow> x = y \<and> s = t"
begin

lemma exact_iff: "ok x \<Longrightarrow> ok y \<Longrightarrow> ends s \<Longrightarrow> ends t \<Longrightarrow> render x @ s = render y @ t \<longleftrightarrow> x = y \<and> s = t"
  using exact by blast

lemma inject: "ok x \<Longrightarrow> ok y \<Longrightarrow> render x = render y \<longleftrightarrow> x = y"
  using exact [of x y "[]" "[]"] by auto

text \<open>A list of items, each after a blank, up to the end or a bracket.\<close>

lemma items_exact:
  assumes "\<forall>x \<in> set xs. ok x" "\<forall>y \<in> set ys. ok y" "s = [] \<or> hd s = CHR '')''" "t = [] \<or> hd t = CHR '')''"
    "concat (map (\<lambda>x. '' '' @ render x) xs) @ s = concat (map (\<lambda>x. '' '' @ render x) ys) @ t"
  shows "xs = ys \<and> s = t"
  using assms
proof (induction xs arbitrary: ys)
  case Nil
  then show ?case by (cases ys) auto
next
  case (Cons x xs)
  have more: "ends (concat (map (\<lambda>x. '' '' @ render x) zs) @ u)" if "u = [] \<or> hd u = CHR '')''" for zs u
    using that by (cases zs) (auto simp: ends_def stop_def)
  from Cons.prems obtain y ys' where ys: "ys = y # ys'" by (cases ys) auto
  with Cons.prems have "render x @ concat (map (\<lambda>x. '' '' @ render x) xs) @ s =
      render y @ concat (map (\<lambda>x. '' '' @ render x) ys') @ t" by simp
  with Cons.prems ys have "x = y \<and> concat (map (\<lambda>x. '' '' @ render x) xs) @ s = concat (map (\<lambda>x. '' '' @ render x) ys') @ t"
    by (intro exact more) simp_all
  with Cons.IH [of ys'] Cons.prems ys show ?case by simp
qed

end

locale text_word =
  fixes ok :: "'a \<Rightarrow> bool" and render :: "'a \<Rightarrow> string"
  assumes word: "ok x \<Longrightarrow> word_text (render x)"
    and word_inject: "ok x \<Longrightarrow> ok y \<Longrightarrow> render x = render y \<Longrightarrow> x = y"

sublocale text_word \<subseteq> text_item ok render
  by unfold_locales (meson word word_inject word_ends_split)

section \<open>Numbers and indices\<close>

lemma decimal_word [simp]: "word_text (decimal n)"
proof -
  have "\<forall>c \<in> set ''0123456789''. \<not> stop c" by (simp add: stop_def)
  then show ?thesis unfolding word_text_def using decimal_digits by blast
qed

lemma hex_word [simp]: "word_text (hex n)"
proof -
  have "\<forall>c \<in> set ''0123456789abcdef''. \<not> stop c" by (simp add: stop_def)
  then show ?thesis unfolding word_text_def using hex_digits by blast
qed

text \<open>A decimal starts with a digit.\<close>

lemma decimal_start:
  assumes "c \<notin> set ''0123456789''"
  shows "decimal n @ s \<noteq> c # t" "c # t \<noteq> decimal n @ s"
proof -
  obtain d cs where "decimal n = d # cs" "d \<in> set ''0123456789''" using decimal_Cons by blast
  then show "decimal n @ s \<noteq> c # t" "c # t \<noteq> decimal n @ s" using assms by auto
qed

interpretation decimal_text: text_word "\<lambda>_. True" decimal
  by unfold_locales simp_all

interpretation typeidx_text: text_word "\<lambda>_. True" TypeIdx_fmt
  by unfold_locales (metis TypeIdx_fmt.elims decimal_word, metis TypeIdx_fmt.elims decimal_inject unsigned_word_eqI)

interpretation funcidx_text: text_word "\<lambda>_. True" FuncIdx_fmt
  by unfold_locales (metis FuncIdx_fmt.elims decimal_word, metis FuncIdx_fmt.elims decimal_inject unsigned_word_eqI)

interpretation tableidx_text: text_word "\<lambda>_. True" TableIdx_fmt
  by unfold_locales (metis TableIdx_fmt.elims decimal_word, metis TableIdx_fmt.elims decimal_inject unsigned_word_eqI)

interpretation memidx_text: text_word "\<lambda>_. True" MemIdx_fmt
  by unfold_locales (metis MemIdx_fmt.elims decimal_word, metis MemIdx_fmt.elims decimal_inject unsigned_word_eqI)

interpretation globalidx_text: text_word "\<lambda>_. True" GlobalIdx_fmt
  by unfold_locales (metis GlobalIdx_fmt.elims decimal_word, metis GlobalIdx_fmt.elims decimal_inject unsigned_word_eqI)

interpretation tagidx_text: text_word "\<lambda>_. True" TagIdx_fmt
  by unfold_locales (metis TagIdx_fmt.elims decimal_word, metis TagIdx_fmt.elims decimal_inject unsigned_word_eqI)

interpretation localidx_text: text_word "\<lambda>_. True" LocalIdx_fmt
  by unfold_locales (metis LocalIdx_fmt.elims decimal_word, metis LocalIdx_fmt.elims decimal_inject unsigned_word_eqI)

interpretation labelidx_text: text_word "\<lambda>_. True" LabelIdx_fmt
  by unfold_locales (metis LabelIdx_fmt.elims decimal_word, metis LabelIdx_fmt.elims decimal_inject unsigned_word_eqI)

interpretation elemidx_text: text_word "\<lambda>_. True" ElemIdx_fmt
  by unfold_locales (metis ElemIdx_fmt.elims decimal_word, metis ElemIdx_fmt.elims decimal_inject unsigned_word_eqI)

interpretation dataidx_text: text_word "\<lambda>_. True" DataIdx_fmt
  by unfold_locales (metis DataIdx_fmt.elims decimal_word, metis DataIdx_fmt.elims decimal_inject unsigned_word_eqI)

interpretation fieldidx_text: text_word "\<lambda>_. True" FieldIdx_fmt
  by unfold_locales (metis FieldIdx_fmt.elims decimal_word, metis FieldIdx_fmt.elims decimal_inject unsigned_word_eqI)

section \<open>Types\<close>

interpretation abs_name_text: text_word "\<lambda>_. True" AbsHeapType_name
proof unfold_locales
  fix x y assume "AbsHeapType_name x = AbsHeapType_name y"
  then show "x = y" by (cases x; cases y; simp)
next
  fix x show "word_text (AbsHeapType_name x)" by (cases x; simp add: stop_def)
qed

interpretation abs_abbreviation_text: text_word "\<lambda>_. True" AbsHeapType_abbreviation
proof unfold_locales
  fix x y assume "AbsHeapType_abbreviation x = AbsHeapType_abbreviation y"
  then show "x = y" by (cases x; cases y; simp)
next
  fix x show "word_text (AbsHeapType_abbreviation x)" by (cases x; simp add: stop_def)
qed

lemma abs_name_start: "AbsHeapType_name h @ s \<noteq> decimal n @ t" "decimal n @ t \<noteq> AbsHeapType_name h @ s"
  using decimal_start by (cases h; simp)+

lemma abs_abbreviation_start: "AbsHeapType_abbreviation h @ s \<noteq> CHR ''('' # t" "CHR ''('' # t \<noteq> AbsHeapType_abbreviation h @ s"
  by (cases h; simp)+

interpretation heaptype_text: text_item "\<lambda>_. True" HeapType_fmt
proof unfold_locales
  fix x y s t assume h: "ends s" "ends t" "HeapType_fmt x @ s = HeapType_fmt y @ t"
  show "x = y \<and> s = t"
  proof (cases x; cases y)
    fix a b assume "x = HeapType_Abstract a" "y = HeapType_Abstract b"
    then show ?thesis using h abs_name_text.exact by auto
  next
    fix a b assume "x = HeapType_Abstract a" "y = HeapType_Concrete b"
    then show ?thesis using h abs_name_start by (cases b) auto
  next
    fix a b assume "x = HeapType_Concrete a" "y = HeapType_Abstract b"
    then show ?thesis using h abs_name_start by (cases a) auto
  next
    fix a b assume "x = HeapType_Concrete a" "y = HeapType_Concrete b"
    then show ?thesis using h typeidx_text.exact by auto
  qed
qed

lemma heaptype_not_null: "HeapType_fmt h @ CHR '')'' # s \<noteq> ''null '' @ t" "''null '' @ t \<noteq> HeapType_fmt h @ CHR '')'' # s"
proof -
  have "HeapType_fmt h @ CHR '')'' # s \<noteq> ''null '' @ t"
  proof (cases h)
    case (HeapType_Abstract a)
    then show ?thesis by (cases a) simp_all
  next
    case (HeapType_Concrete x)
    then show ?thesis by (cases x) (simp add: decimal_start)
  qed
  from this not_sym [OF this]
  show "HeapType_fmt h @ CHR '')'' # s \<noteq> ''null '' @ t" "''null '' @ t \<noteq> HeapType_fmt h @ CHR '')'' # s" .
qed

text \<open>The three shapes of a reference type.\<close>

lemma RefType_fmt_cases:
  obtains (abbreviated) h where "t = \<lparr>rt_nullable = True, rt_heap = HeapType_Abstract h\<rparr>" "RefType_fmt t = AbsHeapType_abbreviation h"
  | (nullable) x where "t = \<lparr>rt_nullable = True, rt_heap = HeapType_Concrete x\<rparr>" "RefType_fmt t = ''(ref null '' @ TypeIdx_fmt x @ '')''"
  | (non_null) h where "t = \<lparr>rt_nullable = False, rt_heap = h\<rparr>" "RefType_fmt t = ''(ref '' @ HeapType_fmt h @ '')''"
proof (cases t)
  case (fields n h)
  then show thesis
    using abbreviated nullable non_null by (cases n; cases h) (simp_all add: RefType_fmt_def)
qed

lemma RefType_fmt_exact:
  assumes "ends s" "ends t" "RefType_fmt x @ s = RefType_fmt y @ t"
  shows "x = y \<and> s = t"
proof (cases x rule: RefType_fmt_cases)
  case x: (abbreviated a)
  show ?thesis
    using assms x abs_abbreviation_start
    by (cases y rule: RefType_fmt_cases) (auto simp: abs_abbreviation_text.exact_iff)
next
  case x: (nullable i)
  show ?thesis
    using assms x abs_abbreviation_start heaptype_not_null
    by (cases y rule: RefType_fmt_cases) (auto simp: typeidx_text.exact_iff)
next
  case x: (non_null h)
  show ?thesis
    using assms x abs_abbreviation_start heaptype_not_null
    by (cases y rule: RefType_fmt_cases) (auto simp: heaptype_text.exact_iff)
qed

interpretation reftype_text: text_item "\<lambda>_. True" RefType_fmt
  by unfold_locales (rule RefType_fmt_exact)

lemma reftype_not_word:
  assumes "w \<in> {''i32'', ''i64'', ''f32'', ''f64'', ''v128'', ''i8'', ''i16''}" "ends s" "ends t"
  shows "RefType_fmt r @ s \<noteq> w @ t" "w @ t \<noteq> RefType_fmt r @ s"
proof -
  have w: "word_text w" "w \<noteq> AbsHeapType_abbreviation h" for h
    using assms(1) by (cases h; auto simp: stop_def)+
  have "RefType_fmt r @ s \<noteq> w @ t"
  proof (cases r rule: RefType_fmt_cases)
    case (abbreviated h)
    then show ?thesis using word_ends_split [OF abs_abbreviation_text.word w(1) assms(2,3)] w(2) by auto
  qed (use assms(1) in auto)
  from this not_sym [OF this] show "RefType_fmt r @ s \<noteq> w @ t" "w @ t \<noteq> RefType_fmt r @ s" .
qed

lemmas reftype_words = reftype_not_word [where w = "''i32''", simplified]
  reftype_not_word [where w = "''i64''", simplified]
  reftype_not_word [where w = "''f32''", simplified]
  reftype_not_word [where w = "''f64''", simplified]
  reftype_not_word [where w = "''v128''", simplified]
  reftype_not_word [where w = "''i8''", simplified]
  reftype_not_word [where w = "''i16''", simplified]

interpretation valtype_text: text_item "\<lambda>_. True" ValType_fmt
proof unfold_locales
  fix x y s t assume h: "ends s" "ends t" "ValType_fmt x @ s = ValType_fmt y @ t"
  then show "x = y \<and> s = t" by (cases x; cases y; simp add: reftype_text.exact_iff reftype_words)
qed

lemma valtype_not_packed:
  assumes "w \<in> {''i8'', ''i16''}" "ends s" "ends t"
  shows "ValType_fmt v @ s \<noteq> w @ t" "w @ t \<noteq> ValType_fmt v @ s"
proof -
  have "ValType_fmt v @ s \<noteq> w @ t"
    using assms reftype_not_word [where s = s and t = t and w = w] by (cases v) auto
  from this not_sym [OF this] show "ValType_fmt v @ s \<noteq> w @ t" "w @ t \<noteq> ValType_fmt v @ s" .
qed

lemmas valtype_words = valtype_not_packed [where w = "''i8''", simplified]
  valtype_not_packed [where w = "''i16''", simplified]

interpretation storagetype_text: text_item "\<lambda>_. True" StorageType_fmt
proof unfold_locales
  fix x y s t assume h: "ends s" "ends t" "StorageType_fmt x @ s = StorageType_fmt y @ t"
  then show "x = y \<and> s = t" by (cases x; cases y; simp add: valtype_text.exact_iff valtype_words)
qed

lemma storagetype_not_mut: "StorageType_fmt x @ s \<noteq> ''(mut'' @ t" "''(mut'' @ t \<noteq> StorageType_fmt x @ s"
proof -
  have ref: "RefType_fmt r @ s \<noteq> ''(mut'' @ t" for r
    by (cases r rule: RefType_fmt_cases) (simp_all add: abs_abbreviation_start)
  have val: "ValType_fmt v @ s \<noteq> ''(mut'' @ t" for v using ref by (cases v) simp_all
  have "StorageType_fmt x @ s \<noteq> ''(mut'' @ t" using val by (cases x) simp_all
  from this not_sym [OF this] show "StorageType_fmt x @ s \<noteq> ''(mut'' @ t" "''(mut'' @ t \<noteq> StorageType_fmt x @ s" .
qed

interpretation fieldtype_text: text_item "\<lambda>_. True" FieldType_fmt
proof unfold_locales
  fix x y :: FieldType and s t assume h: "ends s" "ends t" "FieldType_fmt x @ s = FieldType_fmt y @ t"
  then show "x = y \<and> s = t"
    by (cases x; cases y) (auto simp: FieldType_fmt_def storagetype_text.exact_iff storagetype_not_mut [simplified] split: if_splits)
qed

text \<open>A field of a structure, in its brackets.\<close>

definition field_fmt :: "FieldType \<Rightarrow> string" where
  "field_fmt f = ''(field '' @ FieldType_fmt f @ '')''"

interpretation field_text: text_item "\<lambda>_. True" field_fmt
  by unfold_locales (auto simp: field_fmt_def fieldtype_text.exact_iff)

lemma StructType_fmt_fields: "StructType_fmt x = ''(struct'' @ concat (map (\<lambda>f. '' '' @ field_fmt f) (st_fields x)) @ '')''"
  by (simp add: StructType_fmt_def field_fmt_def)

lemma type_group_exact:
  assumes "\<not> prefix ('' ('' @ w) s" "\<not> prefix ('' ('' @ w) t" "type_group w xs @ s = type_group w ys @ t"
  shows "xs = ys \<and> s = t"
proof -
  have start: "prefix ('' ('' @ w) (type_group w zs @ u)" if "zs \<noteq> []" for zs u using that by (simp add: type_group_def)
  show ?thesis
  proof (cases "xs = [] \<or> ys = []")
    case True
    with assms start show ?thesis by (auto simp: type_group_def split: if_splits)
  next
    case False
    with assms(3) have "concat (map (\<lambda>t. '' '' @ ValType_fmt t) xs) @ CHR '')'' # s =
        concat (map (\<lambda>t. '' '' @ ValType_fmt t) ys) @ CHR '')'' # t" by (simp add: type_group_def)
    from valtype_text.items_exact [OF _ _ _ _ this] show ?thesis by simp
  qed
qed

lemma FuncType_fmt_exact: "FuncType_fmt x @ s = FuncType_fmt y @ t \<Longrightarrow> x = y \<and> s = t"
proof -
  assume "FuncType_fmt x @ s = FuncType_fmt y @ t"
  then have eq: "type_group ''param'' (fn_params x) @ type_group ''result'' (fn_results x) @ '')'' @ s =
      type_group ''param'' (fn_params y) @ type_group ''result'' (fn_results y) @ '')'' @ t" by (simp add: FuncType_fmt_def)
  have "\<not> prefix '' (param'' (type_group ''result'' zs @ '')'' @ u)" for zs u by (simp add: type_group_def)
  with type_group_exact [where w = "''param''", OF _ _ eq]
  have p: "fn_params x = fn_params y"
    "type_group ''result'' (fn_results x) @ '')'' @ s = type_group ''result'' (fn_results y) @ '')'' @ t" by simp_all
  have "fn_results x = fn_results y \<and> '')'' @ s = '')'' @ t" by (rule type_group_exact [OF _ _ p(2)]) simp_all
  with p(1) show ?thesis by (cases x; cases y) simp
qed

lemma CompositeType_fmt_exact: "CompositeType_fmt x @ s = CompositeType_fmt y @ t \<Longrightarrow> x = y \<and> s = t"
proof -
  assume eq: "CompositeType_fmt x @ s = CompositeType_fmt y @ t"
  have array: "a = b \<and> s = t" if "ArrayType_fmt a @ s = ArrayType_fmt b @ t" for a b :: ArrayType
    using that by (cases a; cases b) (auto simp: ArrayType_fmt_def fieldtype_text.exact_iff)
  have struct: "a = b \<and> s = t" if "StructType_fmt a @ s = StructType_fmt b @ t" for a b :: StructType
    using that field_text.items_exact [of "st_fields a" "st_fields b" "'')'' @ s" "'')'' @ t"]
    by (cases a; cases b) (auto simp: StructType_fmt_fields)
  show ?thesis
    using eq array struct FuncType_fmt_exact [of _ s _ t]
    by (cases x; cases y) (auto simp: ArrayType_fmt_def StructType_fmt_def FuncType_fmt_def)
qed

interpretation compositetype_text: text_item "\<lambda>_. True" CompositeType_fmt
  by unfold_locales (rule CompositeType_fmt_exact)

lemma CompositeType_fmt_start:
  obtains u where "CompositeType_fmt x = CHR ''('' # u" "u \<noteq> []" "\<not> prefix ''sub'' (u @ s)"
  by (cases x) (auto simp: ArrayType_fmt_def StructType_fmt_def FuncType_fmt_def)

lemma typeidx_start: "TypeIdx_fmt x @ s \<noteq> CHR ''('' # t" "CHR ''('' # t \<noteq> TypeIdx_fmt x @ s"
  "TypeIdx_fmt x @ s \<noteq> CHR ''f'' # t" "CHR ''f'' # t \<noteq> TypeIdx_fmt x @ s"
  by (cases x; simp add: decimal_start)+

text \<open>Supertypes are followed by the bracket of the composite type.\<close>

lemma supertypes_exact:
  assumes "concat (map (\<lambda>x. '' '' @ TypeIdx_fmt x) xs) @ '' ('' @ s = concat (map (\<lambda>x. '' '' @ TypeIdx_fmt x) ys) @ '' ('' @ t"
  shows "xs = ys \<and> s = t"
  using assms
proof (induction xs arbitrary: ys)
  case Nil
  then show ?case using typeidx_start by (cases ys) auto
next
  case (Cons x xs)
  have more: "ends (concat (map (\<lambda>x. '' '' @ TypeIdx_fmt x) zs) @ '' ('' @ u)" for zs u by (cases zs) simp_all
  show ?case
  proof (cases ys)
    case Nil
    with Cons.prems show ?thesis using typeidx_start by auto
  next
    case ys: (Cons y ys')
    with Cons.prems have "x = y \<and> concat (map (\<lambda>x. '' '' @ TypeIdx_fmt x) xs) @ '' ('' @ s =
        concat (map (\<lambda>x. '' '' @ TypeIdx_fmt x) ys') @ '' ('' @ t"
      by (intro typeidx_text.exact more) simp_all
    with ys Cons.IH show ?thesis by blast
  qed
qed

lemma SubType_fmt_inject:
  assumes "SubType_fmt x = SubType_fmt y"
  shows "x = y"
proof -
  define plain where "plain z \<longleftrightarrow> su_final z \<and> su_supertypes z = []" for z :: SubType
  define rest where "rest z = (if su_final z then '' final'' else []) @
    concat (map (\<lambda>s. '' '' @ TypeIdx_fmt s) (su_supertypes z)) @ '' '' @ CompositeType_fmt (su_composite z) @ '')''" for z :: SubType
  have fmt: "SubType_fmt z = (if plain z then CompositeType_fmt (su_composite z) else ''(sub'' @ rest z)" for z
    by (simp add: SubType_fmt_def plain_def rest_def)
  have composite: "CompositeType_fmt c \<noteq> ''(sub'' @ u" for c u
    by (cases c) (simp_all add: ArrayType_fmt_def StructType_fmt_def FuncType_fmt_def)
  have rest: "su_final x = su_final y \<and> su_supertypes x = su_supertypes y \<and> su_composite x = su_composite y"
    if eq: "rest x = rest y"
  proof -
    obtain u v where uv: "CompositeType_fmt (su_composite x) = CHR ''('' # u" "CompositeType_fmt (su_composite y) = CHR ''('' # v"
      by (metis CompositeType_fmt_start)
    have fin: "su_final x = su_final y"
      using eq typeidx_start unfolding rest_def uv by (cases "su_supertypes x"; cases "su_supertypes y") (auto split: if_splits)
    with eq have "concat (map (\<lambda>s. '' '' @ TypeIdx_fmt s) (su_supertypes x)) @ '' ('' @ u @ '')'' =
        concat (map (\<lambda>s. '' '' @ TypeIdx_fmt s) (su_supertypes y)) @ '' ('' @ v @ '')''"
      unfolding rest_def uv by simp
    from supertypes_exact [OF this] have "su_supertypes x = su_supertypes y" "u = v" by simp_all
    moreover from \<open>u = v\<close> uv have "su_composite x = su_composite y"
      using compositetype_text.inject by metis
    ultimately show ?thesis using fin by simp
  qed
  show ?thesis
    using assms rest composite composite [THEN not_sym] compositetype_text.inject [of "su_composite x" "su_composite y"]
    by (cases x; cases y) (auto simp: fmt plain_def split: if_splits)
qed

end
