(* ===== verification/Wasm_Text_Instr.thy ===== *)
theory Wasm_Text_Instr
  imports Wasm_Text_Exact
begin

text \<open>
  The text of an instruction: every decoded instruction has one, and the text of an
  immediate determines it among the values of its kind that can be read.
\<close>

section \<open>Immediates of indices and types\<close>

lemmas index_text_inject [simp] = typeidx_text.inject [simplified] funcidx_text.inject [simplified] tableidx_text.inject [simplified]
  memidx_text.inject [simplified] globalidx_text.inject [simplified] tagidx_text.inject [simplified] localidx_text.inject [simplified]
  labelidx_text.inject [simplified] elemidx_text.inject [simplified] dataidx_text.inject [simplified] fieldidx_text.inject [simplified]

lemmas index_text_exact [simp] = typeidx_text.exact_iff [simplified] tableidx_text.exact_iff [simplified] memidx_text.exact_iff [simplified]
  tagidx_text.exact_iff [simplified] labelidx_text.exact_iff [simplified] decimal_text.exact_iff [simplified]

lemma index_write_inject [simp]:
  "TypeIdx_write a = TypeIdx_write a' \<longleftrightarrow> a = a'" "FuncIdx_write b = FuncIdx_write b' \<longleftrightarrow> b = b'"
  "LocalIdx_write c = LocalIdx_write c' \<longleftrightarrow> c = c'" "GlobalIdx_write d = GlobalIdx_write d' \<longleftrightarrow> d = d'"
  "TagIdx_write e = TagIdx_write e' \<longleftrightarrow> e = e'" "LabelIdx_write f = LabelIdx_write f' \<longleftrightarrow> f = f'"
  "TableIdx_write g = TableIdx_write g' \<longleftrightarrow> g = g'" "DataIdx_write h = DataIdx_write h' \<longleftrightarrow> h = h'"
  "ElemIdx_write i = ElemIdx_write i' \<longleftrightarrow> i = i'"
  by (simp_all add: TypeIdx_write_def FuncIdx_write_def LocalIdx_write_def GlobalIdx_write_def TagIdx_write_def
      LabelIdx_write_def TableIdx_write_def DataIdx_write_def ElemIdx_write_def)

lemma pair_write_inject [simp]:
  "IndirectCall_write a = IndirectCall_write a' \<longleftrightarrow> a = a'" "FieldRef_write b = FieldRef_write b' \<longleftrightarrow> b = b'"
  "FixedArray_write c = FixedArray_write c' \<longleftrightarrow> c = c'" "ArrayData_write d = ArrayData_write d' \<longleftrightarrow> d = d'"
  "ArrayElem_write e = ArrayElem_write e' \<longleftrightarrow> e = e'" "ArrayPair_write f = ArrayPair_write f' \<longleftrightarrow> f = f'"
  "ElemToTable_write g = ElemToTable_write g' \<longleftrightarrow> g = g'" "TablePair_write h = TablePair_write h' \<longleftrightarrow> h = h'"
  by (auto simp: IndirectCall_write_def FieldRef_write_def FixedArray_write_def ArrayData_write_def ArrayElem_write_def
      ArrayPair_write_def ElemToTable_write_def TablePair_write_def word_unat_eq_iff)

lemma heap_write_inject [simp]:
  "HeapType_write a = HeapType_write a' \<longleftrightarrow> a = a'" "NonNull_write b = NonNull_write b' \<longleftrightarrow> b = b'"
  "Nullable_write c = Nullable_write c' \<longleftrightarrow> c = c'" "CastBranch_write d = CastBranch_write d' \<longleftrightarrow> d = d'"
  using heaptype_text.inject [of a a'] reftype_text.inject
  by (cases b; cases b'; cases c; cases c'; auto simp: HeapType_write_def NonNull_write_def Nullable_write_def
      CastBranch_write_def reftype_text.exact_iff [simplified])+

lemma MemIdx_write_cases:
  obtains "x = MemIdx 0" "MemIdx_write x = []" | "x \<noteq> MemIdx 0" "MemIdx_write x = '' '' @ MemIdx_fmt x"
  by (cases x) auto

lemma MemIdx_write_inject [simp]: "MemIdx_write a = MemIdx_write a' \<longleftrightarrow> a = a'"
  by (cases a rule: MemIdx_write_cases; cases a' rule: MemIdx_write_cases) auto

lemma word_no_blank: "word_text w \<Longrightarrow> w \<noteq> v @ CHR '' '' # u"
  by (auto simp: stop_def)

lemma DataToMemory_write_inject [simp]: "DataToMemory_write b = DataToMemory_write b' \<longleftrightarrow> b = b'"
proof
  assume "DataToMemory_write b = DataToMemory_write b'"
  then have "dm_memory b = dm_memory b' \<and> dm_data b = dm_data b'"
    using word_no_blank [OF dataidx_text.word] word_no_blank [OF dataidx_text.word, THEN not_sym]
    by (cases "dm_memory b" rule: MemIdx_write_cases; cases "dm_memory b'" rule: MemIdx_write_cases)
      (auto simp: DataToMemory_write_def)
  then show "b = b'" by (cases b; cases b') simp
qed simp

lemma MemoryPair_write_inject [simp]: "MemoryPair_write c = MemoryPair_write c' \<longleftrightarrow> c = c'"
  by (cases c; cases c') (auto simp: MemoryPair_write_def split: if_splits)

section \<open>Lists and blocks\<close>

lemma BrTargets_write_inject [simp]: "BrTargets_write a = BrTargets_write a' \<longleftrightarrow> a = a'"
proof
  have items: "BrTargets_write x = concat (map (\<lambda>l. '' '' @ LabelIdx_fmt l) (bt_targets x @ [bt_default x]))" for x
    by (simp add: BrTargets_write_def)
  assume "BrTargets_write a = BrTargets_write a'"
  then have "bt_targets a @ [bt_default a] = bt_targets a' @ [bt_default a']"
    using labelidx_text.items_exact [of "bt_targets a @ [bt_default a]" "bt_targets a' @ [bt_default a']" "[]" "[]"]
    by (simp only: items) simp
  then show "a = a'" by (cases a; cases a') simp
qed simp

lemma SelectTypes_write_inject [simp]: "SelectTypes_write a = SelectTypes_write a' \<longleftrightarrow> a = a'"
  using valtype_text.items_exact [of _ _ "'')''" "'')''"] by (cases a; cases a') auto

lemma ShuffleLanes_write_inject [simp]: "ShuffleLanes_write a = ShuffleLanes_write a' \<longleftrightarrow> a = a'"
proof (cases a; cases a')
  fix xs ys assume a: "a = ShuffleLanes xs" "a' = ShuffleLanes ys"
  have "map unat xs = map unat ys" if "ShuffleLanes_write a = ShuffleLanes_write a'"
    using that decimal_text.items_exact [of "map unat xs" "map unat ys" "[]" "[]"] by (simp add: a comp_def)
  then show ?thesis using a by (auto simp: inj_map_eq_map inj_def word_unat_eq_iff)
qed

lemma BlockType_write_exact:
  assumes "s = [] \<or> prefix '' (catch'' s" "t = [] \<or> prefix '' (catch'' t" "BlockType_write x @ s = BlockType_write y @ t"
  shows "x = y \<and> s = t"
  using assms by (cases x; cases y) (auto simp: valtype_text.exact_iff [simplified] prefix_def)

lemma BlockType_write_inject [simp]: "BlockType_write x = BlockType_write y \<longleftrightarrow> x = y"
  using BlockType_write_exact [of "[]" "[]" x y] by auto

definition catch_fmt :: "Catch \<Rightarrow> string" where
  "catch_fmt c = tl (Catch_write c)"

lemma Catch_write_fmt: "Catch_write = (\<lambda>c. '' '' @ catch_fmt c)"
proof
  fix c show "Catch_write c = '' '' @ catch_fmt c" by (cases c) (simp_all add: catch_fmt_def)
qed

interpretation catch_text: text_item "\<lambda>_. True" catch_fmt
proof unfold_locales
  fix x y s t assume "ends s" "ends t" "catch_fmt x @ s = catch_fmt y @ t"
  then show "x = y \<and> s = t" by (cases x; cases y) (auto simp: catch_fmt_def)
qed

lemma TryTable_write_inject [simp]: "TryTable_write a = TryTable_write a' \<longleftrightarrow> a = a'"
proof
  have catches: "cs = [] \<or> prefix '' (catch'' (concat (map Catch_write cs))" for cs
  proof (cases cs)
    case (Cons c cs')
    then show ?thesis by (cases c) simp_all
  qed simp
  assume "TryTable_write a = TryTable_write a'"
  then have "ty_ty a = ty_ty a' \<and> concat (map Catch_write (ty_catches a)) = concat (map Catch_write (ty_catches a'))"
    using BlockType_write_exact [of "concat (map Catch_write (ty_catches a))" "concat (map Catch_write (ty_catches a'))"
        "ty_ty a" "ty_ty a'"] catches [of "ty_catches a"] catches [of "ty_catches a'"]
    by (auto simp: TryTable_write_def)
  moreover from this have "ty_catches a = ty_catches a'"
    using catch_text.items_exact [of "ty_catches a" "ty_catches a'" "[]" "[]"]
    by (simp add: Catch_write_fmt)
  ultimately show "a = a'" by (cases a; cases a') simp
qed simp

section \<open>Numbers\<close>

lemma integer_write_inject [simp]: "i32_write a = i32_write a' \<longleftrightarrow> a = a'" "i64_write b = i64_write b' \<longleftrightarrow> b = b'"
  by (auto simp: i32_write_def i64_write_def intro: signed_word_eqI)

lemma LaneIdx_write_inject [simp]: "LaneIdx_write a = LaneIdx_write a' \<longleftrightarrow> a = a'"
  by (cases a; cases a') (simp add: word_unat_eq_iff)

lemma float_formats: "float_format 23 8" "float_format 52 11"
  by (simp_all add: float_format_def)

lemma Ieee32_write_inject [simp]: "Ieee32_write a = Ieee32_write a' \<longleftrightarrow> a = a'"
proof (cases a; cases a')
  fix v w assume a: "a = Ieee32 v" "a' = Ieee32 w"
  have "unat v < 2 ^ 32" "unat w < 2 ^ 32" using unsigned_less [of v, where ?'a = nat] unsigned_less [of w, where ?'a = nat] by simp_all
  then show ?thesis
    using a float_text_inject [of 23 "unat v" 8 "unat w"] by (auto simp: hex_float_eq float_formats word_unat_eq_iff)
qed

lemma Ieee64_write_inject [simp]: "Ieee64_write a = Ieee64_write a' \<longleftrightarrow> a = a'"
proof (cases a; cases a')
  fix v w assume a: "a = Ieee64 v" "a' = Ieee64 w"
  have "unat v < 2 ^ 64" "unat w < 2 ^ 64" using unsigned_less [of v, where ?'a = nat] unsigned_less [of w, where ?'a = nat] by simp_all
  then show ?thesis
    using a float_text_inject [of 52 "unat v" 11 "unat w"] by (auto simp: hex_float_eq float_formats word_unat_eq_iff)
qed

lemma from_le_bytes_Cons: "from_le_bytes (b # bs) = unat b + 256 * from_le_bytes bs"
  by (simp add: from_le_bytes_def)

lemma from_le_bytes_inject:
  "length xs = length ys \<Longrightarrow> from_le_bytes xs = from_le_bytes ys \<Longrightarrow> xs = ys"
proof (induction xs ys rule: list_induct2)
  case (Cons x xs y ys)
  have "unat x < 256" "unat y < 256" using unsigned_less [of x, where ?'a = nat] unsigned_less [of y, where ?'a = nat] by simp_all
  moreover have "unat x + 256 * from_le_bytes xs = unat y + 256 * from_le_bytes ys" using Cons.prems by (simp add: from_le_bytes_Cons)
  then have "(unat x + 256 * from_le_bytes xs) mod 256 = (unat y + 256 * from_le_bytes ys) mod 256"
    "(unat x + 256 * from_le_bytes xs) div 256 = (unat y + 256 * from_le_bytes ys) div 256" by simp_all
  ultimately have "unat x = unat y" "from_le_bytes xs = from_le_bytes ys" by simp_all
  with Cons.IH show ?case by (simp add: word_unat_eq_iff)
qed simp

interpretation padded_text: text_word "\<lambda>_. True" "\<lambda>n. ''0x'' @ padded_hex 8 n"
proof unfold_locales
  fix n show "word_text (''0x'' @ padded_hex 8 n)"
    by (simp add: padded_hex_def stop_def word_text_def [of "replicate _ _"])
qed simp

lemma concat_chunks4: "4 dvd length xs \<Longrightarrow> concat (chunks4 xs) = xs"
proof (induction xs rule: chunks4.induct)
  case (1 a b c d rest)
  have "length (a # b # c # d # rest) = 4 + length rest" by simp
  with 1(2) have "4 dvd length rest" by (metis dvd_add_triv_left_iff)
  with 1 show ?case by simp
qed (auto dest: dvd_imp_le)

lemma chunks4_length: "c \<in> set (chunks4 xs) \<Longrightarrow> length c = 4"
  by (induction xs rule: chunks4.induct) auto

lemma V128Bytes_write_inject:
  assumes "length xs = 16" "length ys = 16" "V128Bytes_write (V128Bytes xs) = V128Bytes_write (V128Bytes ys)"
  shows "xs = ys"
proof -
  have "map from_le_bytes (chunks4 xs) = map from_le_bytes (chunks4 ys)"
    using assms(3) padded_text.items_exact [of "map from_le_bytes (chunks4 xs)" "map from_le_bytes (chunks4 ys)" "[]" "[]"]
    by (simp add: comp_def)
  moreover have "inj_on from_le_bytes (set (chunks4 xs) \<union> set (chunks4 ys))"
  proof (rule inj_onI)
    fix c d assume "c \<in> set (chunks4 xs) \<union> set (chunks4 ys)" "d \<in> set (chunks4 xs) \<union> set (chunks4 ys)"
    then have "length c = length d" using chunks4_length by (elim UnE) simp_all
    moreover assume "from_le_bytes c = from_le_bytes d"
    ultimately show "c = d" by (rule from_le_bytes_inject)
  qed
  ultimately have "chunks4 xs = chunks4 ys" by (rule map_inj_on)
  moreover have "concat (chunks4 xs) = xs" "concat (chunks4 ys) = ys" by (simp_all add: concat_chunks4 assms(1,2))
  ultimately show ?thesis by metis
qed

section \<open>Memory arguments\<close>

lemma shl_one_Some: "shl_one n = Some w \<longleftrightarrow> unat n < 64 \<and> unat w = 2 ^ unat n"
proof -
  have "unat (push_bit (unat n) 1 :: u64) = 2 ^ unat n" if "unat n < 64"
    using power_strict_increasing [OF that, of "2 :: nat"] by (subst unat_push_bit) simp_all
  then show ?thesis by (auto simp: shl_one_def word_unat_eq_iff)
qed

text \<open>The text of a memory argument, as a function of the alignment in bytes.\<close>

lemma MemArg_write_Some:
  "MemArg_write m = Some s \<longleftrightarrow> unat (ma_align_log2 m) < 64 \<and> s = MemIdx_write (ma_memory m) @ '' offset='' @
     decimal (unat (ma_offset m)) @ '' align='' @ decimal (2 ^ unat (ma_align_log2 m))"
proof -
  have "\<exists>w. shl_one n = Some w" if "unat n < 64" for n using that by (simp add: shl_one_def)
  then show ?thesis by (auto simp: MemArg_write_def shl_one_Some)
qed

lemma MemArg_text_exact:
  assumes "ends s" "ends t"
    "MemIdx_write m @ '' offset='' @ decimal a @ '' align='' @ decimal (2 ^ k) @ s =
     MemIdx_write m' @ '' offset='' @ decimal a' @ '' align='' @ decimal (2 ^ k') @ t"
  shows "m = m' \<and> a = a' \<and> k = k' \<and> s = t"
proof -
  have start: "MemIdx_fmt x @ u \<noteq> CHR ''o'' # v" "CHR ''o'' # v \<noteq> MemIdx_fmt x @ u" for x u v
    by (cases x; simp add: decimal_start)+
  have m: "m = m'" using assms(3) start
    by (cases m rule: MemIdx_write_cases; cases m' rule: MemIdx_write_cases) auto
  with assms show ?thesis by simp
qed

lemma MemArg_write_inject:
  "MemArg_write m = Some s \<Longrightarrow> MemArg_write m' = Some s \<Longrightarrow> m = m'"
  using MemArg_text_exact [of "[]" "[]" "ma_memory m" "unat (ma_offset m)" "unat (ma_align_log2 m)"
      "ma_memory m'" "unat (ma_offset m')" "unat (ma_align_log2 m')"]
  by (cases m; cases m') (auto simp: MemArg_write_Some word_unat_eq_iff)

lemma MemArgLane_write_inject:
  assumes "MemArgLane_write m = Some s" "MemArgLane_write m' = Some s"
  shows "m = m'"
proof -
  obtain b b' where "ml_lane m = LaneIdx b" "ml_lane m' = LaneIdx b'" by (metis LaneIdx.exhaust)
  with assms have "ml_memarg m = ml_memarg m' \<and> b = b'"
    using MemArg_text_exact [of "LaneIdx_write (ml_lane m)" "LaneIdx_write (ml_lane m')" "ma_memory (ml_memarg m)" "unat (ma_offset (ml_memarg m))"
      "unat (ma_align_log2 (ml_memarg m))" "ma_memory (ml_memarg m')" "unat (ma_offset (ml_memarg m'))" "unat (ma_align_log2 (ml_memarg m'))"]
    by (cases "ml_memarg m"; cases "ml_memarg m'") (auto simp: MemArgLane_write_def MemArg_write_Some word_unat_eq_iff)
  with \<open>ml_lane m = _\<close> \<open>ml_lane m' = _\<close> show ?thesis by (cases m; cases m') simp
qed

section \<open>Every kind\<close>

lemma MemArg_read_align:
  assumes "MemArg_read r = Inr (m, r')"
  shows "unat (ma_align_log2 m) < 64"
proof -
  have sub: "unat (flags - 64 :: u32) < 64" if "\<not> unat flags < 64" "unat flags < 128" for flags :: u32
  proof -
    have "unat (flags - 64) = unat flags - 64" using that(1) by (subst unat_sub) (simp_all add: word_le_nat_alt)
    then show ?thesis using that by simp
  qed
  show ?thesis
    using assms sub by (auto simp: MemArg_read_def with_offset_def bnd_Inr_iff split: if_splits)
qed

lemma MemArgLane_read_align: "MemArgLane_read r = Inr (m, r') \<Longrightarrow> unat (ma_align_log2 (ml_memarg m)) < 64"
  by (auto simp: MemArgLane_read_def bnd_Inr_iff dest: MemArg_read_align)

text \<open>What can be read has a text: the alignment is below 64.\<close>

lemma Immediate_write_total:
  assumes "Immediate_read k r = Inr (imm, r')"
  shows "\<exists>s. Immediate_write imm = Some s"
proof -
  have "\<exists>s. MemArg_write m = Some s" if "unat (ma_align_log2 m) < 64" for m
    using that by (simp add: MemArg_write_Some)
  then show ?thesis
    using assms MemArg_read_align MemArgLane_read_align
    by (cases k) (auto simp: bnd_Inr_iff MemArgLane_write_def)
qed

lemma array_length: "array n r = Inr (bs, r') \<Longrightarrow> length bs = n"
  by (auto simp: array_def take_bytes_def short_def panic_def err_def split: if_splits)

lemma Immediate_text_exact:
  assumes "Immediate_read k r = Inr (x, r')" "Immediate_read k q = Inr (y, q')" "Immediate_write x = Immediate_write y"
  shows "x = y"
proof -
  obtain s where s: "Immediate_write x = Some s" "Immediate_write y = Some s"
    using Immediate_write_total [OF assms(1)] assms(3) by auto
  have v128: "v = w" if "V128Bytes_read r = Inr (v, r')" "V128Bytes_read q = Inr (w, q')" "V128Bytes_write v = V128Bytes_write w" for v w
    using that by (auto simp: V128Bytes_read_def bnd_Inr_iff simp del: V128Bytes_write.simps intro: V128Bytes_write_inject [OF array_length array_length])
  have fence: "a = b" for a b :: FenceZero by (cases a; cases b) simp
  show ?thesis
    using assms s v128 fence by (cases k) (auto simp: bnd_Inr_iff dest: MemArg_write_inject MemArgLane_write_inject)
qed

section \<open>Instructions\<close>

lemma Instr_name_row:
  assumes "(code, v, k, n) \<in> set (space pfx)"
  shows "\<exists>m. Instr_name (Instr v imm) = Some m"
proof -
  have "\<exists>p. (p, code, v, k, n) \<in> set all_rows"
    using assms by (auto simp: space_def all_rows_def split: if_splits option.splits)
  then have "find (\<lambda>(p, c, v', k, n). v' = v) all_rows \<noteq> None" by (auto simp: find_None_iff)
  then show ?thesis by (auto simp: Instr_name_def Instr_opcode_def)
qed

lemma Instr_fmt_total:
  assumes "reader_wf r" "decode r = Inr (i, r')"
  shows "\<exists>n s. Instr_name i = Some n \<and> Instr_fmt i = Some (n @ s)"
proof -
  obtain pfx code v k n imm and bs :: "u8 list" where d: "(code, v, k, n) \<in> set (space pfx)"
    "Immediate_read k (advance (length bs) r) = Inr (imm, r')" "i = Instr v imm"
    using assms(2) unfolding decode_iff [OF assms(1)] by blast
  obtain m where "Instr_name i = Some m" using Instr_name_row [OF d(1)] d(3) by blast
  moreover obtain s where "Immediate_write imm = Some s" using Immediate_write_total [OF d(2)] by blast
  ultimately show ?thesis using d(3) by (simp add: Instr_fmt_def)
qed

end
