(* ===== verification/Wasm_Arch.thy ===== *)
theory Wasm_Arch
  imports Wasm_Module_Props Wasm_Text
begin

text \<open>
  WebAssembly behind the instruction-set interface, \<open>src/crates/n0xis-wasm-arch/src/lib.rs\<close>, with
  the data of the interface from \<open>src/crates/n0xis-arch/src/insn.rs\<close> and \<open>lib.rs\<close>. The architecture
  holds a module and the last body it decoded; a method that consults that cache returns the
  architecture with the cache it leaves. A stop (an index past a slice, a number without a
  text) is the error side of \<open>result\<close>. A \<open>usize\<close> has 64 bits, so \<open>usize::try_from\<close> of an
  address always succeeds.
\<close>

section \<open>The interface's data\<close>

type_synonym Va = u64

datatype InsnKind =
    InsnKind_Seq | InsnKind_Call | InsnKind_Jump | InsnKind_CondJump | InsnKind_Ret | InsnKind_Int
  | InsnKind_Invalid | InsnKind_Other

record IndexedTarget =
  it_index :: u32
  it_body :: "Va option"

record DecodedInsn =
  di_va :: Va
  di_len :: u32
  di_bytes :: "u8 list"
  di_mnemonic :: string
  di_text :: string
  di_kind :: InsnKind
  di_target :: "Va option"
  di_rip_target :: "Va option"
  di_cond :: "string option"
  di_stack_adjust :: "u16 option"
  di_target_function :: "IndexedTarget option"

datatype DecodeError =
    DecodeError_Invalid Va
  | DecodeError_Truncated Va

record IndexedFunction =
  if_index :: u32
  if_body :: Va
  if_end :: Va

datatype Lifting =
    Lifting_Lifts
  | Lifting_DecodeOnly string

section \<open>The architecture\<close>

record Decoded =
  de_func :: FuncIdx
  de_range :: range
  de_body :: Body

record Wasm =
  wa_module :: Module
  wa_identity :: string
  wa_last :: "Decoded option"

definition Wasm_new :: "Module \<Rightarrow> string \<Rightarrow> Wasm" where
  "Wasm_new m identity = \<lparr>wa_module = m, wa_identity = identity, wa_last = None\<rparr>"

text \<open>The question mark of Rust on a stop.\<close>

definition rbind :: "'a result \<Rightarrow> ('a \<Rightarrow> 'b result) \<Rightarrow> 'b result" where
  "rbind m f = (case m of Inl e \<Rightarrow> Inl e | Inr x \<Rightarrow> f x)"

lemma rbind_cong [fundef_cong]: "m = m' \<Longrightarrow> (\<And>x. m' = Inr x \<Longrightarrow> f x = f' x) \<Longrightarrow> rbind m f = rbind m' f'"
  by (auto simp: rbind_def split: sum.splits)

lemma rbind_simps [simp]: "rbind (Inl e) f = Inl e" "rbind (Inr x) f = f x"
  by (simp_all add: rbind_def)

definition body_at :: "Wasm \<Rightarrow> nat \<Rightarrow> (Decoded option \<times> Wasm) result" where
  "body_at w off = rbind (function_containing (wa_module w) off) (\<lambda>found.
     case found of
       None \<Rightarrow> Inr (None, w)
     | Some (func, rg) \<Rightarrow>
         (let cached = (case wa_last w of
            Some d \<Rightarrow> if de_func d = func then Some d else None
          | None \<Rightarrow> None) in case cached of
            Some d \<Rightarrow> Inr (Some d, w)
          | None \<Rightarrow> (case Module_body (wa_module w) func of
              Some (Inr b) \<Rightarrow>
                (let decoded = \<lparr>de_func = func, de_range = rg, de_body = b\<rparr>
                 in Inr (Some decoded, w\<lparr>wa_last := Some decoded\<rparr>))
            | _ \<Rightarrow> Inr (None, w))))"

text \<open>\<open>slice::binary_search_by_key\<close>: the position of the key, when the slice has it.\<close>

function search_base :: "nat list \<Rightarrow> nat \<Rightarrow> nat \<Rightarrow> nat \<Rightarrow> nat" where
  "search_base xs key base n =
     (if 1 < n then
        let half = n div 2; mid = base + half
        in search_base xs key (if key < xs ! mid then base else mid) (n - half)
      else base)"
  by pat_completeness auto
termination by (relation "measure (\<lambda>(xs, key, base, n). n)") auto

declare search_base.simps [simp del]

definition binary_search :: "nat list \<Rightarrow> nat \<Rightarrow> nat option" where
  "binary_search xs key = (if xs = [] then None
     else let base = search_base xs key 0 (length xs) in if xs ! base = key then Some base else None)"

definition bytes_of :: "Wasm \<Rightarrow> nat \<Rightarrow> nat \<Rightarrow> u8 list" where
  "bytes_of w start stop_at = (case Module_bytes (wa_module w) (start, stop_at) of Some bs \<Rightarrow> bs | None \<Rightarrow> [])"

text \<open>\<open>(end - start) as u32\<close> of two offsets.\<close>

definition len_u32 :: "nat \<Rightarrow> nat \<Rightarrow> u32" where
  "len_u32 start stop_at = word_of_int (int stop_at - int start)"

definition run_text :: "LocalRun \<Rightarrow> string" where
  "run_text r = decimal (unat (lr_count r)) @ '' '' @ ValType_fmt (lr_ty r)"

fun join :: "string \<Rightarrow> string list \<Rightarrow> string" where
  "join sep [] = []"
| "join sep [s] = s"
| "join sep (s # t # ts) = s @ sep @ join sep (t # ts)"

definition locals_decl :: "Wasm \<Rightarrow> Decoded \<Rightarrow> nat \<Rightarrow> DecodedInsn" where
  "locals_decl w d stop_at = (let runs = map run_text (bo_locals (de_body d)); start = fst (de_range d) in
     \<lparr>di_va = of_nat start, di_len = len_u32 start stop_at, di_bytes = bytes_of w start stop_at,
      di_mnemonic = ''locals'',
      di_text = (if runs = [] then ''locals'' else ''locals '' @ join '', '' runs),
      di_kind = InsnKind_Seq, di_target = None, di_rip_target = None, di_cond = None,
      di_stack_adjust = None, di_target_function = None\<rparr>)"

definition callee :: "Wasm \<Rightarrow> FuncIdx \<Rightarrow> Va option" where
  "callee w f = map_option of_nat (body_start (wa_module w) f)"

definition target_function :: "Wasm \<Rightarrow> Instr \<Rightarrow> IndexedTarget option" where
  "target_function w i = (case i of
     Instr v (Imm_FuncIdx (FuncIdx x)) \<Rightarrow>
       if v = ''Call'' \<or> v = ''ReturnCall'' \<or> v = ''RefFunc''
       then Some \<lparr>it_index = x, it_body = callee w (FuncIdx x)\<rparr> else None
   | _ \<Rightarrow> None)"

text \<open>The callee of a direct call, by its index.\<close>

definition direct_callee :: "Wasm \<Rightarrow> Instr \<Rightarrow> Va option" where
  "direct_callee w i = (case i of Instr _ (Imm_FuncIdx f) \<Rightarrow> callee w f | _ \<Rightarrow> None)"

definition flow :: "Wasm \<Rightarrow> Instr \<Rightarrow> InsnKind \<times> Va option" where
  "flow w i = (let v = variant i in
     if v = ''Call'' then (InsnKind_Call, direct_callee w i)
     else if v = ''ReturnCall'' then (InsnKind_Jump, direct_callee w i)
     else if v = ''CallIndirect'' \<or> v = ''CallRef'' then (InsnKind_Call, None)
     else if v = ''ReturnCallIndirect'' \<or> v = ''ReturnCallRef'' then (InsnKind_Jump, None)
     else if v = ''Br'' then (InsnKind_Jump, None)
     else if v \<in> {''BrIf'', ''BrTable'', ''If'', ''BrOnNull'', ''BrOnNonNull'', ''BrOnCast'', ''BrOnCastFail''}
       then (InsnKind_CondJump, None)
     else if v = ''Return'' then (InsnKind_Ret, None)
     else if v \<in> {''Unreachable'', ''Throw'', ''Rethrow'', ''ThrowRef''} then (InsnKind_Int, None)
     else (InsnKind_Seq, None))"

text \<open>A number without a text stops the rendering.\<close>

definition unwrap :: "string \<Rightarrow> 'a option \<Rightarrow> 'a result" where
  "unwrap why x = (case x of Some y \<Rightarrow> Inr y | None \<Rightarrow> Inl (Internal why))"

definition insn :: "Wasm \<Rightarrow> nat \<Rightarrow> nat \<Rightarrow> Instr \<Rightarrow> DecodedInsn result" where
  "insn w start stop_at i = rbind (unwrap ''no such instruction'' (Instr_name i)) (\<lambda>name.
     rbind (unwrap ''shift left with overflow'' (Instr_fmt i)) (\<lambda>text.
       Inr \<lparr>di_va = of_nat start, di_len = len_u32 start stop_at, di_bytes = bytes_of w start stop_at,
            di_mnemonic = name, di_text = text, di_kind = fst (flow w i), di_target = snd (flow w i),
            di_rip_target = None, di_cond = None, di_stack_adjust = None,
            di_target_function = target_function w i\<rparr>))"

text \<open>
  The loop of \<open>from\<close> over the instructions that are left: at most \<open>room\<close> of them, none that
  starts at or past \<open>limit\<close>; each ends where the next starts, the last where the body ends.
\<close>

fun insn_run :: "Wasm \<Rightarrow> nat \<Rightarrow> nat \<Rightarrow> nat \<Rightarrow> Located list \<Rightarrow> DecodedInsn list result" where
  "insn_run w body_end limit room [] = Inr []"
| "insn_run w body_end limit room (l # ls) =
     (if room = 0 \<or> limit \<le> lo_offset l then Inr []
      else rbind (insn w (lo_offset l) (case ls of [] \<Rightarrow> body_end | n # _ \<Rightarrow> lo_offset n) (lo_instr l)) (\<lambda>x.
        rbind (insn_run w body_end limit (room - 1) ls) (\<lambda>xs. Inr (x # xs))))"

definition insns_from :: "Wasm \<Rightarrow> Decoded \<Rightarrow> nat \<Rightarrow> nat \<Rightarrow> nat \<Rightarrow> DecodedInsn list option result" where
  "insns_from w d off limit most = (case bo_instructions (de_body d) of
     [] \<Rightarrow> Inr None
   | l # ls \<Rightarrow>
       if off = fst (de_range d) then
         let out = (if 0 < most \<and> off < limit then [locals_decl w d (lo_offset l)] else [])
         in rbind (insn_run w (snd (de_range d)) limit (most - length out) (l # ls)) (\<lambda>xs. Inr (Some (out @ xs)))
       else case binary_search (map lo_offset (l # ls)) off of
           None \<Rightarrow> Inr None
         | Some i \<Rightarrow> rbind (insn_run w (snd (de_range d)) limit most (drop i (l # ls))) (\<lambda>xs. Inr (Some xs)))"

definition handed :: "u8 list \<Rightarrow> DecodedInsn \<Rightarrow> DecodeError + unit" where
  "handed bytes x = (if length bytes < length (di_bytes x) then Inl (DecodeError_Truncated (di_va x))
     else if take (length (di_bytes x)) bytes = di_bytes x then Inr ()
     else Inl (DecodeError_Invalid (di_va x)))"

definition invalid :: "u8 list \<Rightarrow> Va \<Rightarrow> DecodedInsn" where
  "invalid bytes va = \<lparr>di_va = va, di_len = 1, di_bytes = (case bytes of [] \<Rightarrow> [] | b # _ \<Rightarrow> [b]),
     di_mnemonic = ''invalid'', di_text = ''invalid'', di_kind = InsnKind_Invalid, di_target = None,
     di_rip_target = None, di_cond = None, di_stack_adjust = None, di_target_function = None\<rparr>"

section \<open>The methods of the interface\<close>

definition arch_name :: "Wasm \<Rightarrow> string" where
  "arch_name w = ''wasm''"

definition decoder_id :: "Wasm \<Rightarrow> string" where
  "decoder_id w = ''wasm/'' @ wa_identity w"

definition pointer_size :: "Wasm \<Rightarrow> u8 option" where
  "pointer_size w = None"

definition WASM_NOT_LIFTED :: string where
  "WASM_NOT_LIFTED = ''the WebAssembly stack-machine lift is stage 3 of docs/design/WASM.md; this build decodes a module'' @
     [char_of (39 :: nat)] @ ''s instructions and lifts none of them''"

definition lifting :: "Wasm \<Rightarrow> Lifting" where
  "lifting w = Lifting_DecodeOnly WASM_NOT_LIFTED"

definition indexed_function :: "Wasm \<Rightarrow> Va \<Rightarrow> IndexedFunction option result" where
  "indexed_function w va = rbind (function_containing (wa_module w) (unat va)) (\<lambda>found. case found of
     None \<Rightarrow> Inr None
   | Some (FuncIdx f, rg) \<Rightarrow> Inr (Some \<lparr>if_index = f, if_body = of_nat (fst rg), if_end = of_nat (snd rg)\<rparr>))"

definition arch_decode :: "Wasm \<Rightarrow> u8 list \<Rightarrow> Va \<Rightarrow> ((DecodeError + DecodedInsn) \<times> Wasm) result" where
  "arch_decode w bytes va = rbind (body_at w (unat va)) (\<lambda>(found, w'). case found of
     None \<Rightarrow> Inr (Inl (DecodeError_Invalid va), w')
   | Some d \<Rightarrow> rbind (insns_from w' d (unat va) usize_MAX 1) (\<lambda>v. case v of
       Some (x # _) \<Rightarrow> (case handed bytes x of
           Inl e \<Rightarrow> Inr (Inl e, w')
         | Inr _ \<Rightarrow> Inr (Inr x, w'))
     | _ \<Rightarrow> Inr (Inl (DecodeError_Invalid va), w')))"

text \<open>The loop of \<open>decode_stream\<close>: up to the first instruction the bytes are not.\<close>

fun stream_out :: "u8 list \<Rightarrow> Va \<Rightarrow> DecodedInsn list \<Rightarrow> DecodedInsn list" where
  "stream_out bytes va [] = []"
| "stream_out bytes va (x # xs) = (let at = unat (di_va x - va); rest = drop (min at (length bytes)) bytes in
     case handed rest x of
       Inr _ \<Rightarrow> x # stream_out bytes va xs
     | Inl (DecodeError_Truncated _) \<Rightarrow> []
     | Inl (DecodeError_Invalid _) \<Rightarrow> [invalid rest (di_va x)])"

definition decode_stream :: "Wasm \<Rightarrow> u8 list \<Rightarrow> Va \<Rightarrow> nat \<Rightarrow> (DecodedInsn list \<times> Wasm) result" where
  "decode_stream w bytes va most = (let limit = min (unat va + length bytes) usize_MAX in
     rbind (body_at w (unat va)) (\<lambda>(found, w'). case found of
       None \<Rightarrow> Inr ([], w')
     | Some d \<Rightarrow> rbind (insns_from w' d (unat va) limit most) (\<lambda>v. case v of
         None \<Rightarrow> Inr ([], w')
       | Some insns \<Rightarrow> Inr (stream_out bytes va insns, w'))))"

definition is_padding :: "DecodedInsn \<Rightarrow> bool" where
  "is_padding x \<longleftrightarrow> di_mnemonic x = ''nop''"

definition is_trap :: "DecodedInsn \<Rightarrow> bool" where
  "is_trap x \<longleftrightarrow> False"

definition recognizes_jump_tables :: "Wasm \<Rightarrow> bool" where
  "recognizes_jump_tables w \<longleftrightarrow> False"

definition resync_step :: "u8 list \<Rightarrow> nat" where
  "resync_step bytes = 1"

text \<open>
  The instructions of one body that \<open>decode_range\<close> keeps: \<open>bytes[rel..]\<close> stops where \<open>rel\<close> is
  past the slice.
\<close>

fun range_out :: "u8 list \<Rightarrow> Va \<Rightarrow> nat \<Rightarrow> nat \<Rightarrow> DecodedInsn list \<Rightarrow> DecodedInsn list result" where
  "range_out bytes va hi room [] = Inr []"
| "range_out bytes va hi room (x # xs) =
     (if room = 0 \<or> hi < unat (di_va x) + unat (di_len x) then Inr []
      else let rel = unat (di_va x - va) in
        if length bytes < rel then Inl (Internal ''range start index out of range'')
        else case handed (drop rel bytes) x of
          Inl _ \<Rightarrow> Inr []
        | Inr _ \<Rightarrow> rbind (range_out bytes va hi (room - 1) xs) (\<lambda>ys. Inr (x # ys)))"

definition next_body :: "Module \<Rightarrow> nat \<Rightarrow> range option result" where
  "next_body m at = rbind (function_containing m at) (\<lambda>found. case found of
     Some (_, rg) \<Rightarrow> Inr (Some rg)
   | None \<Rightarrow> Inr (get (mo_bodies m) (partition_point (\<lambda>rg. fst rg < at) (mo_bodies m))))"

text \<open>What one turn of the loop adds: the instructions of the body at \<open>start\<close>, from \<open>at\<close> on.\<close>

definition range_turn :: "Wasm \<Rightarrow> u8 list \<Rightarrow> Va \<Rightarrow> nat \<Rightarrow> nat \<Rightarrow> nat \<Rightarrow> nat \<Rightarrow> (DecodedInsn list \<times> Wasm) result" where
  "range_turn w bytes va hi room at start = rbind (body_at w (max start at)) (\<lambda>(found, w'). case found of
     None \<Rightarrow> Inr ([], w')
   | Some d \<Rightarrow>
       (let first = (if at \<le> fst (de_range d) then Some (fst (de_range d))
          else find (\<lambda>off. at \<le> off) (map lo_offset (bo_instructions (de_body d)))) in
        case first of
          None \<Rightarrow> Inr ([], w')
        | Some f \<Rightarrow> rbind (insns_from w' d f hi room) (\<lambda>v. case v of
            None \<Rightarrow> Inr ([], w')
          | Some insns \<Rightarrow> rbind (range_out bytes va hi room insns) (\<lambda>xs. Inr (xs, w')))))"

function range_loop :: "Wasm \<Rightarrow> u8 list \<Rightarrow> Va \<Rightarrow> nat \<Rightarrow> nat \<Rightarrow> nat \<Rightarrow> (DecodedInsn list \<times> Wasm) result" where
  "range_loop w bytes va hi room at =
     (if at < hi \<and> 0 < room then
        rbind (next_body (wa_module w) at) (\<lambda>nb. case nb of
          None \<Rightarrow> Inr ([], w)
        | Some rg \<Rightarrow>
            if fst rg < hi then
              rbind (range_turn w bytes va hi room at (fst rg)) (\<lambda>(xs, w').
                rbind (range_loop w' bytes va hi (room - length xs) (max (snd rg) (at + 1))) (\<lambda>(ys, w'').
                  Inr (xs @ ys, w'')))
            else Inr ([], w))
      else Inr ([], w))"
  by pat_completeness auto
termination by (relation "measure (\<lambda>(w, bytes, va, hi, room, at). hi - at)") auto

declare range_loop.simps [simp del]

definition decode_range :: "Wasm \<Rightarrow> u8 list \<Rightarrow> Va \<Rightarrow> nat \<Rightarrow> (DecodedInsn list \<times> Wasm) result" where
  "decode_range w bytes va most =
     (if usize_MAX < length bytes \<or> usize_MAX < unat va + length bytes then Inr ([], w)
      else range_loop w bytes va (unat va + length bytes) most (unat va))"

end
