(* ===== verification/Wasm_Arch_Props.thy ===== *)
theory Wasm_Arch_Props
  imports Wasm_Arch Wasm_Text_Instr
begin

text \<open>
  What the architecture answers, for a module that was read: the cache never shows, nothing
  stops, and an instruction is decoded exactly where one starts.
\<close>

section \<open>A decoded body\<close>

text \<open>The shape of a body that was decoded: the locals first, then instructions that each start after the one before, every one with a text.\<close>

definition body_shape :: "range \<Rightarrow> Located list \<Rightarrow> bool" where
  "body_shape rg ls \<longleftrightarrow> ls \<noteq> [] \<and> sorted_wrt (<) (map lo_offset ls) \<and>
     (\<forall>l \<in> set ls. fst rg < lo_offset l \<and> lo_offset l < snd rg \<and>
       Instr_name (lo_instr l) \<noteq> None \<and> Instr_fmt (lo_instr l) \<noteq> None)"

lemma decodes_texts:
  "decodes r ls r' \<Longrightarrow> reader_wf r \<Longrightarrow> l \<in> set ls \<Longrightarrow> Instr_name (lo_instr l) \<noteq> None \<and> Instr_fmt (lo_instr l) \<noteq> None"
proof (induction rule: decodes.induct)
  case (decodes_Cons r i s ls r')
  have "reader_wf s" using instr.keeps_wf [OF decodes_Cons.hyps(1) decodes_Cons.prems(1)] .
  with decodes_Cons Instr_fmt_total [OF decodes_Cons.prems(1) decodes_Cons.hyps(1)] show ?case by auto
qed simp

lemma body_shape_of:
  assumes "body d (Reader_over bytes rg) = Inr ((locals, ls), r')" "fst rg \<le> snd rg" "snd rg \<le> length bytes"
  shows "body_shape rg ls"
proof -
  have r: "rpos (Reader_over bytes rg) = fst rg" "rend (Reader_over bytes rg) = snd rg" "reader_wf (Reader_over bytes rg)"
    using assms(2,3) by (simp_all add: Reader_over_def reader_wf_def Let_def)
  obtain s where s: "reader_wf s" "expression d s = Inr (ls, r')" using body_stages [OF assms(1) r(3)] by blast
  from s(2) have "decodes s ls r'" by (simp add: expression_iff)
  with body_offsets [OF assms(1) r(3)] decodes_texts [OF _ s(1)] show ?thesis by (simp add: body_shape_def r)
qed

section \<open>The cache\<close>

text \<open>The body that holds an offset, decoded: what \<open>body_at\<close> answers, without the cache.\<close>

definition decoded_at :: "Module \<Rightarrow> nat \<Rightarrow> Decoded option" where
  "decoded_at m off = (case function_containing m off of
     Inr (Some (f, rg)) \<Rightarrow> (case Module_body m f of
       Some (Inr b) \<Rightarrow> Some \<lparr>de_func = f, de_range = rg, de_body = b\<rparr>
     | _ \<Rightarrow> None)
   | _ \<Rightarrow> None)"

definition arch_inv :: "Module \<Rightarrow> Wasm \<Rightarrow> bool" where
  "arch_inv m w \<longleftrightarrow> wa_module w = m \<and> (\<forall>d. wa_last w = Some d \<longrightarrow> (\<exists>off. decoded_at m off = Some d))"

lemma arch_inv_new: "arch_inv m (Wasm_new m identity)"
  by (simp add: arch_inv_def Wasm_new_def)

lemma decoded_at_func:
  assumes "module_ok m" "decoded_at m off = Some d" "function_containing m off' = Inr (Some (de_func d, rg))"
  shows "decoded_at m off' = Some d"
proof -
  from assms(2) have f: "function_containing m off = Inr (Some (de_func d, de_range d))"
    and b: "Module_body m (de_func d) = Some (Inr (de_body d))"
    by (auto simp: decoded_at_def split: sum.splits option.splits)
  obtain f where "de_func d = FuncIdx f" by (cases "de_func d")
  with f assms(3) function_containing_lemma(1) [OF assms(1)] have "rg = de_range d" by auto
  with assms(3) b show ?thesis by (simp add: decoded_at_def)
qed

lemma body_at_spec:
  assumes "module_ok m" "arch_inv m w"
  obtains w' where "body_at w off = Inr (decoded_at m off, w')" "arch_inv m w'"
proof -
  obtain found where found: "function_containing m off = Inr found" using function_containing_lemma(2) [OF assms(1)] by blast
  have m: "wa_module w = m" using assms(2) by (simp add: arch_inv_def)
  show thesis
  proof (cases found)
    case None
    then show thesis using that [of w] found m assms(2) by (simp add: body_at_def decoded_at_def)
  next
    case (Some p)
    then obtain f rg where p: "found = Some (f, rg)" by (cases p) auto
    show thesis
    proof (cases "\<exists>d. wa_last w = Some d \<and> de_func d = f")
      case True
      then obtain d where d: "wa_last w = Some d" "de_func d = f" by blast
      then obtain off' where "decoded_at m off' = Some d" using assms(2) by (auto simp: arch_inv_def)
      then have "decoded_at m off = Some d" using decoded_at_func [OF assms(1)] found p d(2) by blast
      then show thesis using that [of w] found m p d assms(2) by (simp add: body_at_def)
    next
      case False
      then have miss: "(case wa_last w of Some d \<Rightarrow> if de_func d = f then Some d else None | None \<Rightarrow> None) = None"
        by (auto split: option.splits)
      show thesis
      proof (cases "\<exists>b. Module_body m f = Some (Inr b)")
        case True
        then obtain b where b: "Module_body m f = Some (Inr b)" by blast
        let ?d = "\<lparr>de_func = f, de_range = rg, de_body = b\<rparr>"
        have at: "decoded_at m off = Some ?d" using found p b by (simp add: decoded_at_def)
        then have "arch_inv m (w\<lparr>wa_last := Some ?d\<rparr>)" using m by (auto simp: arch_inv_def)
        then show thesis using that [of "w\<lparr>wa_last := Some ?d\<rparr>"] found m p b miss at by (simp add: body_at_def Let_def)
      next
        case False
        then have no_body: "(case Module_body m f of Some (Inr b) \<Rightarrow> A b | _ \<Rightarrow> B) = B" for A and B :: 'x
          by (auto split: option.splits sum.splits)
        have "decoded_at m off = None" using found p by (simp add: decoded_at_def no_body)
        moreover have "body_at w off = Inr (None, w)" using found m p miss by (simp add: body_at_def no_body)
        ultimately show thesis using that [of w] assms(2) by simp
      qed
    qed
  qed
qed

section \<open>Binary search\<close>

lemma search_base_index:
  assumes "sorted_wrt (<) xs" "base \<le> k" "k < base + n" "base + n \<le> length xs"
  shows "search_base xs (xs ! k) base n = k"
  using assms
proof (induction xs "xs ! k" base n rule: search_base.induct)
  case (1 xs base n)
  show ?case
  proof (cases "1 < n")
    case False
    with 1(2-5) show ?thesis by (subst search_base.simps) simp
  next
    case True
    let ?half = "n div 2"
    have bounds: "base + ?half < length xs" "k < length xs" using True 1(4,5) by auto
    have cmp: "xs ! k < xs ! (base + ?half) \<longleftrightarrow> k < base + ?half"
      using sorted_wrt_nth_less [OF 1(2)] bounds by (metis less_asym linorder_neqE_nat)
    have "search_base xs (xs ! k) (if xs ! k < xs ! (base + ?half) then base else base + ?half) (n - ?half) = k"
      by (rule 1(1) [OF True refl refl 1(2)]) (use cmp 1(3-5) True in \<open>auto split: if_splits\<close>)
    with True show ?thesis by (subst search_base.simps) (simp add: Let_def)
  qed
qed

lemma binary_search_Some:
  assumes "sorted_wrt (<) xs"
  shows "binary_search xs key = Some i \<longleftrightarrow> i < length xs \<and> xs ! i = key"
proof (cases "key \<in> set xs")
  case True
  then obtain k where k: "k < length xs" "xs ! k = key" by (auto simp: in_set_conv_nth)
  with search_base_index [OF assms, of 0 k "length xs"] have "binary_search xs key = Some k"
    by (auto simp: binary_search_def)
  moreover have "i = k" if "i < length xs" "xs ! i = key" for i
    using nth_eq_iff_index_eq [OF _ that(1) k(1)] assms that(2) k(2) by (simp add: strict_sorted_iff)
  ultimately show ?thesis using k by (metis option.inject)
next
  case False
  have "search_base xs key base n < base + max 1 n" for base n
  proof (induction xs key base n rule: search_base.induct)
    case (1 xs key base n)
    let ?base = "if key < xs ! (base + n div 2) then base else base + n div 2"
    have "search_base xs key ?base (n - n div 2) < ?base + max 1 (n - n div 2)" if "1 < n"
      by (rule 1 [OF that refl refl])
    moreover have "?base + max 1 (n - n div 2) \<le> base + n" if "1 < n" using that by simp
    ultimately show ?case by (subst search_base.simps) (auto simp: Let_def simp del: One_nat_def split: if_splits)
  qed
  from this [of 0 "length xs"] have "xs \<noteq> [] \<Longrightarrow> search_base xs key 0 (length xs) < length xs"
    by (cases xs) (simp_all add: max_def split: if_splits)
  then show ?thesis using False by (auto simp: binary_search_def Let_def in_set_conv_nth)
qed

section \<open>The stream of a body\<close>

text \<open>An instruction of a module that was read, with its name and text.\<close>

definition insn_spec :: "Wasm \<Rightarrow> nat \<Rightarrow> nat \<Rightarrow> Instr \<Rightarrow> DecodedInsn" where
  "insn_spec w start stop_at i =
     \<lparr>di_va = of_nat start, di_len = len_u32 start stop_at, di_bytes = bytes_of w start stop_at,
      di_mnemonic = the (Instr_name i), di_text = the (Instr_fmt i), di_kind = fst (flow w i), di_target = snd (flow w i),
      di_rip_target = None, di_cond = None, di_stack_adjust = None, di_target_function = target_function w i\<rparr>"

fun insns_spec :: "Wasm \<Rightarrow> nat \<Rightarrow> Located list \<Rightarrow> DecodedInsn list" where
  "insns_spec w body_end [] = []"
| "insns_spec w body_end (l # ls) =
     insn_spec w (lo_offset l) (case ls of [] \<Rightarrow> body_end | n # _ \<Rightarrow> lo_offset n) (lo_instr l) # insns_spec w body_end ls"

text \<open>The whole stream: the locals declaration, then every instruction.\<close>

definition stream_spec :: "Wasm \<Rightarrow> Decoded \<Rightarrow> DecodedInsn list" where
  "stream_spec w d = (let ls = bo_instructions (de_body d) in
     locals_decl w d (lo_offset (hd ls)) # insns_spec w (snd (de_range d)) ls)"

abbreviation pos_of :: "DecodedInsn \<Rightarrow> nat" where
  "pos_of x \<equiv> unat (di_va x)"

definition decoded_ok :: "Decoded \<Rightarrow> bool" where
  "decoded_ok d \<longleftrightarrow> body_shape (de_range d) (bo_instructions (de_body d)) \<and> snd (de_range d) \<le> usize_MAX"

lemma unat_of_nat_u64: "n \<le> usize_MAX \<Longrightarrow> unat (of_nat n :: u64) = n"
  by (simp add: unat_of_nat)

lemma insn_total:
  "Instr_name i \<noteq> None \<Longrightarrow> Instr_fmt i \<noteq> None \<Longrightarrow> insn w start stop_at i = Inr (insn_spec w start stop_at i)"
  by (auto simp: insn_def insn_spec_def unwrap_def)

lemma insn_run_spec:
  assumes "\<forall>l \<in> set ls. lo_offset l \<le> usize_MAX \<and> Instr_name (lo_instr l) \<noteq> None \<and> Instr_fmt (lo_instr l) \<noteq> None"
  shows "insn_run w body_end limit room ls = Inr (take room (takeWhile (\<lambda>x. pos_of x < limit) (insns_spec w body_end ls)))"
  using assms
proof (induction ls arbitrary: room)
  case (Cons l ls)
  then show ?case
    by (cases room) (auto simp: insn_total insn_spec_def [of w "lo_offset l"] unat_of_nat_u64 simp del: One_nat_def)
qed simp

lemma insns_spec_pos:
  "\<forall>l \<in> set ls. lo_offset l \<le> usize_MAX \<Longrightarrow> map pos_of (insns_spec w body_end ls) = map lo_offset ls"
  by (induction ls) (simp_all add: insn_spec_def unat_of_nat_u64)

lemma stream_spec_pos:
  assumes "decoded_ok d"
  shows "map pos_of (stream_spec w d) = fst (de_range d) # map lo_offset (bo_instructions (de_body d))"
proof -
  let ?ls = "bo_instructions (de_body d)"
  have "?ls \<noteq> []" and b: "\<forall>l \<in> set ?ls. fst (de_range d) < lo_offset l \<and> lo_offset l < snd (de_range d)"
    and e: "snd (de_range d) \<le> usize_MAX"
    using assms by (auto simp: decoded_ok_def body_shape_def)
  then have "fst (de_range d) \<le> usize_MAX" by (cases ?ls) auto
  moreover have "\<forall>l \<in> set ?ls. lo_offset l \<le> usize_MAX" using b e by auto
  ultimately show ?thesis by (simp add: stream_spec_def Let_def locals_decl_def insns_spec_pos unat_of_nat_u64)
qed

lemma drop_dropWhile_pos:
  fixes f :: "'a \<Rightarrow> nat"
  assumes "sorted_wrt (<) (map f xs)" "i < length xs"
  shows "drop i xs = dropWhile (\<lambda>x. f x \<noteq> f (xs ! i)) xs"
  using assms
proof (induction xs arbitrary: i)
  case (Cons x xs)
  show ?case
  proof (cases i)
    case (Suc j)
    then have "xs ! j \<in> set xs" using Cons.prems(2) by simp
    then have "f x < f (xs ! j)" using Cons.prems(1) by simp
    then have "f x \<noteq> f (xs ! j)" by simp
    with Suc Cons show ?thesis by simp
  qed simp
qed simp

text \<open>
  From an offset where something starts: the stream from there, at most \<open>most\<close> of it, none at
  or past \<open>limit\<close>.
\<close>

definition stream_from :: "Wasm \<Rightarrow> Decoded \<Rightarrow> nat \<Rightarrow> nat \<Rightarrow> nat \<Rightarrow> DecodedInsn list" where
  "stream_from w d off limit most =
     take most (takeWhile (\<lambda>x. pos_of x < limit) (dropWhile (\<lambda>x. pos_of x \<noteq> off) (stream_spec w d)))"

lemma insns_from_spec:
  assumes "decoded_ok d"
  shows "insns_from w d off limit most =
    Inr (if off \<in> pos_of ` set (stream_spec w d) then Some (stream_from w d off limit most) else None)"
proof -
  define ls where "ls = bo_instructions (de_body d)"
  have shape: "ls \<noteq> []" "sorted_wrt (<) (map lo_offset ls)"
    "\<forall>l \<in> set ls. fst (de_range d) < lo_offset l \<and> lo_offset l \<le> usize_MAX \<and> Instr_name (lo_instr l) \<noteq> None \<and> Instr_fmt (lo_instr l) \<noteq> None"
    using assms by (auto simp: decoded_ok_def body_shape_def ls_def intro: less_imp_le order_less_le_trans)
  obtain l ls' where l: "ls = l # ls'" using shape(1) by (cases ls) auto
  have run: "insn_run w e lim room (drop i ls) = Inr (take room (takeWhile (\<lambda>x. pos_of x < lim) (insns_spec w e (drop i ls))))" for e lim room i
    by (rule insn_run_spec) (use shape(3) in \<open>auto dest: in_set_dropD\<close>)
  have drop_spec: "insns_spec w e (drop i ls) = drop i (insns_spec w e ls)" for e i
  proof (induction ls arbitrary: i)
    case (Cons a as)
    then show ?case by (cases i) simp_all
  qed simp
  note pos = stream_spec_pos [OF assms, of w, folded ls_def]
  then have starts: "pos_of ` set (stream_spec w d) = insert (fst (de_range d)) (lo_offset ` set ls)"
    by (metis list.set_map list.simps(15))
  have spec: "stream_spec w d = locals_decl w d (lo_offset l) # insns_spec w (snd (de_range d)) ls"
    by (simp add: stream_spec_def Let_def ls_def [symmetric] l)
  have tail_pos: "map pos_of (insns_spec w (snd (de_range d)) ls) = map lo_offset ls" using pos spec by simp
  have first: "pos_of (locals_decl w d (lo_offset l)) = fst (de_range d)" using pos spec by simp
  have unf: "insns_from w d off limit most = (if off = fst (de_range d) then
         let out = (if 0 < most \<and> off < limit then [locals_decl w d (lo_offset l)] else [])
         in rbind (insn_run w (snd (de_range d)) limit (most - length out) ls) (\<lambda>xs. Inr (Some (out @ xs)))
       else case binary_search (map lo_offset ls) off of
           None \<Rightarrow> Inr None
         | Some i \<Rightarrow> rbind (insn_run w (snd (de_range d)) limit most (drop i ls)) (\<lambda>xs. Inr (Some xs)))"
    by (simp add: insns_from_def ls_def [symmetric] l split: option.split)
  show ?thesis
  proof (cases "off = fst (de_range d)")
    case True
    have late: "limit \<le> off \<Longrightarrow> takeWhile (\<lambda>x. pos_of x < limit) (insns_spec w (snd (de_range d)) ls) = []"
      using True shape(3) tail_pos l by (cases "insns_spec w (snd (de_range d)) ls") auto
    from True show ?thesis
      unfolding unf using run [of "snd (de_range d)" limit _ 0] starts first late
      by (cases most) (auto simp: Let_def stream_from_def spec not_less)
  next
    case False
    show ?thesis
    proof (cases "binary_search (map lo_offset ls) off")
      case None
      then have "off \<notin> set (map lo_offset ls)"
        using binary_search_Some [OF shape(2)] by (metis in_set_conv_nth option.distinct(1))
      with None False starts show ?thesis unfolding unf by auto
    next
      case (Some i)
      then have i: "i < length ls" "lo_offset (ls ! i) = off" using binary_search_Some [OF shape(2)] by auto
      have "length (insns_spec w (snd (de_range d)) ls) = length ls" using tail_pos by (metis length_map)
      then have "drop i (insns_spec w (snd (de_range d)) ls) = dropWhile (\<lambda>x. pos_of x \<noteq> off) (insns_spec w (snd (de_range d)) ls)"
        using drop_dropWhile_pos [of pos_of "insns_spec w (snd (de_range d)) ls" i] i shape(2) tail_pos by (metis nth_map)
      with Some False i starts first show ?thesis
        unfolding unf using run [of "snd (de_range d)" limit most i]
        by (auto simp: drop_spec stream_from_def spec)
    qed
  qed
qed

end
