(* ===== verification/Wasm_Arch_Answers.thy ===== *)
theory Wasm_Arch_Answers
  imports Wasm_Arch_Props
begin

text \<open>
  What \<open>decode\<close>, \<open>decode_stream\<close> and \<open>decode_range\<close> answer, as functions of the module alone,
  and that the architecture answers exactly that whatever was asked before.
\<close>

section \<open>The code of a body\<close>

definition code_of :: "Module \<Rightarrow> Decoded \<Rightarrow> DecodedInsn list" where
  "code_of m d = stream_spec (Wasm_new m []) d"

lemma insn_spec_module: "insn_spec w = insn_spec (Wasm_new (wa_module w) [])" (is "_ = insn_spec ?v")
proof -
  have c: "callee w = callee ?v" "bytes_of w = bytes_of ?v"
    by (intro ext, simp add: callee_def bytes_of_def Wasm_new_def)+
  have d: "direct_callee w = direct_callee ?v" "target_function w = target_function ?v"
    unfolding direct_callee_def [abs_def] target_function_def [abs_def] c by (rule refl)+
  have "flow w = flow ?v" unfolding flow_def [abs_def] d by (rule refl)
  then show ?thesis unfolding insn_spec_def [abs_def] c d by simp
qed

lemma insns_spec_module: "insns_spec w e ls = insns_spec (Wasm_new (wa_module w) []) e ls"
  by (induction ls) (simp_all add: insn_spec_module [of w])

lemma stream_spec_module: "stream_spec w d = code_of (wa_module w) d"
  by (simp add: code_of_def stream_spec_def locals_decl_def bytes_of_def insns_spec_module [of w] Wasm_new_def Let_def)

text \<open>The promise of \<open>read\<close> the architecture relies on, for a file that fits in memory.\<close>

definition served :: "Module \<Rightarrow> bool" where
  "served m \<longleftrightarrow> module_ok m \<and> length (mo_bytes m) \<le> usize_MAX"

lemma read_bytes:
  assumes "read bytes = Inr m"
  shows "mo_bytes m = bytes"
proof -
  obtain st r where inv: "reading_inv bytes st r" "finish_bodies (rd_module st) = Inr m"
    by (rule read_stages [OF assms])
  from inv(2) have "mo_bytes m = mo_bytes (rd_module st)" by (rule finish_bodies_Inr) simp
  with inv(1) show ?thesis by (simp add: reading_inv_def Let_def)
qed

lemma read_served: "read bytes = Inr m \<Longrightarrow> length bytes \<le> usize_MAX \<Longrightarrow> served m"
  using read_module_ok [of bytes m] read_bytes [of bytes m] by (simp add: served_def)

lemma decoded_at_ok:
  assumes "served m" "decoded_at m off = Some d"
  obtains i where "i < length (mo_bodies m)" "mo_bodies m ! i = de_range d" "holds_offset (de_range d) off" "decoded_ok d"
    "snd (de_range d) \<le> length (mo_bytes m)" "snd (de_range d) - fst (de_range d) \<le> u32_MAX"
proof -
  have ok: "module_ok m" and len: "length (mo_bytes m) \<le> usize_MAX" using assms(1) by (simp_all add: served_def)
  obtain f where f: "de_func d = FuncIdx f" by (cases "de_func d")
  with assms(2) have c: "function_containing m off = Inr (Some (FuncIdx f, de_range d))"
    and b: "Module_body m (FuncIdx f) = Some (Inr (de_body d))"
    by (auto simp: decoded_at_def split: sum.splits option.splits)
  from c function_containing_lemma(1) [OF ok] obtain i where i: "i < length (mo_bodies m)" "unat f = imported_count m + i"
    "mo_bodies m ! i = de_range d" "holds_offset (de_range d) off" by blast
  from b i(1-3) have "decode_body (mo_bytes m) (de_range d) (data_indices m) = Inr (de_body d)"
    unfolding Module_body_iff [OF ok] by auto
  then obtain locals r' where body: "body (data_indices m) (Reader_over (mo_bytes m) (de_range d)) = Inr ((locals, bo_instructions (de_body d)), r')"
    by (cases "de_body d") (auto simp: decode_body_def split: sum.splits)
  have rg: "fst (de_range d) \<le> snd (de_range d)" "snd (de_range d) \<le> length (mo_bytes m)"
    "snd (de_range d) - fst (de_range d) \<le> u32_MAX"
    using laid_out_nth [OF _ i(1), of 0 "length (mo_bytes m)"] ok i(3) by (auto simp: module_ok_def)
  have "decoded_ok d" using body_shape_of [OF body rg(1,2)] rg(2) len by (simp add: decoded_ok_def)
  with that i rg show thesis by blast
qed

text \<open>Where the code of a body starts: strictly increasing, from the body's start, inside its range.\<close>

lemma code_of_starts:
  assumes "decoded_ok d"
  shows "code_of m d \<noteq> []" "pos_of (hd (code_of m d)) = fst (de_range d)" "sorted_wrt (<) (map pos_of (code_of m d))"
    "\<forall>x \<in> set (code_of m d). fst (de_range d) \<le> pos_of x \<and> pos_of x < snd (de_range d)"
proof -
  let ?ls = "bo_instructions (de_body d)"
  have pos: "map pos_of (code_of m d) = fst (de_range d) # map lo_offset ?ls"
    unfolding code_of_def by (rule stream_spec_pos [OF assms])
  have shape: "?ls \<noteq> []" "sorted_wrt (<) (map lo_offset ?ls)"
    "\<forall>l \<in> set ?ls. fst (de_range d) < lo_offset l \<and> lo_offset l < snd (de_range d)"
    using assms by (auto simp: decoded_ok_def body_shape_def)
  have least: "fst (de_range d) < snd (de_range d)" using shape(1,3) by (cases ?ls) auto
  show "code_of m d \<noteq> []" using pos by auto
  then show "pos_of (hd (code_of m d)) = fst (de_range d)" using pos by (metis hd_map list.sel(1))
  show "sorted_wrt (<) (map pos_of (code_of m d))" unfolding pos using shape(2,3) by simp
  have "\<forall>p \<in> set (map pos_of (code_of m d)). fst (de_range d) \<le> p \<and> p < snd (de_range d)"
    unfolding pos using shape(3) least by (auto simp: less_imp_le)
  then show "\<forall>x \<in> set (code_of m d). fst (de_range d) \<le> pos_of x \<and> pos_of x < snd (de_range d)" by simp
qed

section \<open>Answers\<close>

definition decode_answer :: "Module \<Rightarrow> u8 list \<Rightarrow> Va \<Rightarrow> DecodeError + DecodedInsn" where
  "decode_answer m bs va = (case decoded_at m (unat va) of
     None \<Rightarrow> Inl (DecodeError_Invalid va)
   | Some d \<Rightarrow> (case find (\<lambda>x. pos_of x = unat va) (code_of m d) of
       None \<Rightarrow> Inl (DecodeError_Invalid va)
     | Some x \<Rightarrow> (case handed bs x of Inl e \<Rightarrow> Inl e | Inr _ \<Rightarrow> Inr x)))"

definition stream_answer :: "Module \<Rightarrow> u8 list \<Rightarrow> Va \<Rightarrow> nat \<Rightarrow> DecodedInsn list" where
  "stream_answer m bs va most = (case decoded_at m (unat va) of
     None \<Rightarrow> []
   | Some d \<Rightarrow> stream_out bs va (take most (takeWhile (\<lambda>x. pos_of x < min (unat va + length bs) usize_MAX)
       (dropWhile (\<lambda>x. pos_of x \<noteq> unat va) (code_of m d)))))"

text \<open>\<open>insns_from\<close> at a state of the architecture, over the code of the body.\<close>

lemma insns_from_code:
  assumes "decoded_ok d" "wa_module w = m"
  shows "\<exists>v. insns_from w d off limit most = Inr v \<and>
    (case v of None \<Rightarrow> [] | Some xs \<Rightarrow> xs) =
      take most (takeWhile (\<lambda>x. pos_of x < limit) (dropWhile (\<lambda>x. pos_of x \<noteq> off) (code_of m d)))"
proof -
  have s: "stream_spec w d = code_of m d" using assms(2) by (simp add: stream_spec_module)
  have "dropWhile (\<lambda>x. pos_of x \<noteq> off) (code_of m d) = []" if "off \<notin> pos_of ` set (code_of m d)"
    using that by (auto simp: dropWhile_eq_Nil_conv)
  then show ?thesis unfolding insns_from_spec [OF assms(1)] s stream_from_def by (simp del: dropWhile_eq_Nil_conv)
qed

lemma arch_decode_answer:
  assumes "served m" "arch_inv m w"
  shows "\<exists>w'. arch_decode w bs va = Inr (decode_answer m bs va, w') \<and> arch_inv m w'"
proof -
  have ok: "module_ok m" using assms(1) by (simp add: served_def)
  obtain w' where b: "body_at w (unat va) = Inr (decoded_at m (unat va), w')" "arch_inv m w'"
    by (rule body_at_spec [OF ok assms(2)])
  have m: "wa_module w' = m" using b(2) by (simp add: arch_inv_def)
  show ?thesis
  proof (cases "decoded_at m (unat va)")
    case None
    with b show ?thesis by (simp add: arch_decode_def decode_answer_def)
  next
    case (Some d)
    obtain ok: "decoded_ok d" "snd (de_range d) \<le> length (mo_bytes m)" using decoded_at_ok [OF assms(1) Some] by blast
    define xs where "xs = dropWhile (\<lambda>x. pos_of x \<noteq> unat va) (code_of m d)"
    have "pos_of x < usize_MAX" if "x \<in> set xs" for x
      using code_of_starts(4) [OF ok(1), of m] that ok(2) assms(1) set_dropWhileD [of x _ "code_of m d"]
      unfolding xs_def served_def by fastforce
    then have all: "takeWhile (\<lambda>x. pos_of x < usize_MAX) xs = xs" by (simp add: takeWhile_eq_all_conv)
    obtain v where v: "insns_from w' d (unat va) usize_MAX 1 = Inr v" "(case v of None \<Rightarrow> [] | Some ys \<Rightarrow> ys) = take 1 xs"
      using insns_from_code [OF ok(1) m, of "unat va" usize_MAX 1] unfolding xs_def [symmetric] all by blast
    have "find (\<lambda>x. pos_of x = unat va) (code_of m d) = (case xs of [] \<Rightarrow> None | x # _ \<Rightarrow> Some x)"
      unfolding xs_def by (simp add: find_dropWhile comp_def)
    with b v Some show ?thesis
      by (auto simp: arch_decode_def decode_answer_def split: option.splits list.splits sum.splits)
  qed
qed

lemma decode_stream_answer:
  assumes "served m" "arch_inv m w"
  shows "\<exists>w'. decode_stream w bs va most = Inr (stream_answer m bs va most, w') \<and> arch_inv m w'"
proof -
  have ok: "module_ok m" using assms(1) by (simp add: served_def)
  obtain w' where b: "body_at w (unat va) = Inr (decoded_at m (unat va), w')" "arch_inv m w'"
    by (rule body_at_spec [OF ok assms(2)])
  have m: "wa_module w' = m" using b(2) by (simp add: arch_inv_def)
  show ?thesis
  proof (cases "decoded_at m (unat va)")
    case None
    with b show ?thesis by (simp add: decode_stream_def stream_answer_def)
  next
    case (Some d)
    obtain ok: "decoded_ok d" using decoded_at_ok [OF assms(1) Some] by blast
    let ?limit = "min (unat va + length bs) usize_MAX"
    obtain v where v: "insns_from w' d (unat va) ?limit most = Inr v"
      "(case v of None \<Rightarrow> [] | Some xs \<Rightarrow> xs) =
        take most (takeWhile (\<lambda>x. pos_of x < ?limit) (dropWhile (\<lambda>x. pos_of x \<noteq> unat va) (code_of m d)))"
      using insns_from_code [OF ok m, of "unat va" ?limit most] by blast
    have "stream_answer m bs va most = stream_out bs va (case v of None \<Rightarrow> [] | Some xs \<Rightarrow> xs)"
      unfolding v(2) using Some by (simp add: stream_answer_def)
    with b v(1) Some show ?thesis by (simp add: decode_stream_def Let_def split: option.split)
  qed
qed

text \<open>An instruction is answered exactly where the code of a body has it and the bytes are its own.\<close>

lemma handed_iff: "(\<exists>u. handed bs x = Inr u) \<longleftrightarrow> prefix (di_bytes x) bs"
  by (auto simp: handed_def prefix_def) (metis append_take_drop_id)

lemma decode_answer_Inr:
  assumes "served m"
  shows "decode_answer m bs va = Inr x \<longleftrightarrow>
    (\<exists>d. decoded_at m (unat va) = Some d \<and> x \<in> set (code_of m d) \<and> di_va x = va \<and> prefix (di_bytes x) bs)"
proof (cases "decoded_at m (unat va)")
  case None
  then show ?thesis by (simp add: decode_answer_def)
next
  case (Some d)
  obtain ok: "decoded_ok d" using decoded_at_ok [OF assms Some] by blast
  let ?xs = "code_of m d"
  have inj: "y = x" if "y \<in> set ?xs" "x \<in> set ?xs" "pos_of y = pos_of x" for x y
    using code_of_starts(3) [OF ok, of m] that by (simp add: strict_sorted_iff distinct_map inj_on_def)
  have found: "find (\<lambda>x. pos_of x = unat va) ?xs = Some x \<longleftrightarrow> x \<in> set ?xs \<and> di_va x = va" for x
  proof
    assume "find (\<lambda>x. pos_of x = unat va) ?xs = Some x"
    then show "x \<in> set ?xs \<and> di_va x = va" by (auto simp: find_Some_iff word_unat_eq_iff)
  next
    assume x: "x \<in> set ?xs \<and> di_va x = va"
    then obtain y where y: "find (\<lambda>x. pos_of x = unat va) ?xs = Some y"
      by (cases "find (\<lambda>x. pos_of x = unat va) ?xs") (auto simp: find_None_iff)
    then have "y \<in> set ?xs" "pos_of y = unat va" by (auto simp: find_Some_iff)
    with x y inj [of y x] show "find (\<lambda>x. pos_of x = unat va) ?xs = Some x" by simp
  qed
  have "decode_answer m bs va = Inr x \<longleftrightarrow> find (\<lambda>x. pos_of x = unat va) ?xs = Some x \<and> (\<exists>u. handed bs x = Inr u)"
    using Some by (auto simp: decode_answer_def split: option.splits sum.splits)
  with Some found handed_iff show ?thesis by simp
qed

end
