(* ===== verification/Wasm_Arch_Range.thy ===== *)
theory Wasm_Arch_Range
  imports Wasm_Arch_Answers
begin

text \<open>
  The code of a body fills it, instruction after instruction, and a sweep of a window of the
  file returns exactly the instructions that lie in the window.
\<close>

section \<open>The code fills the body\<close>

text \<open>Instructions one after the other from \<open>a\<close> to \<open>b\<close>, each with the bytes of the file it stands for.\<close>

fun chain :: "u8 list \<Rightarrow> nat \<Rightarrow> DecodedInsn list \<Rightarrow> nat \<Rightarrow> bool" where
  "chain bytes a [] b \<longleftrightarrow> a = b"
| "chain bytes a (x # xs) b \<longleftrightarrow> pos_of x = a \<and> 0 < unat (di_len x) \<and> a + unat (di_len x) \<le> length bytes \<and>
     di_bytes x = take (unat (di_len x)) (drop a bytes) \<and> chain bytes (a + unat (di_len x)) xs b"

lemma chain_length: "chain bytes a xs b \<Longrightarrow> x \<in> set xs \<Longrightarrow> length (di_bytes x) = unat (di_len x)"
  by (induction xs arbitrary: a) auto

lemma chain_le: "chain bytes a xs b \<Longrightarrow> a + length xs \<le> b"
  by (induction xs arbitrary: a) fastforce+

lemma chain_bytes: "chain bytes a xs b \<Longrightarrow> concat (map di_bytes xs) = take (b - a) (drop a bytes)"
proof (induction xs arbitrary: a)
  case (Cons x xs)
  then have c: "chain bytes (a + unat (di_len x)) xs b" by simp
  have "b - a = unat (di_len x) + (b - (a + unat (di_len x)))" using chain_le [OF c] by simp
  with Cons.IH [OF c] Cons.prems show ?case by (simp add: take_add add.commute)
qed simp

lemma chain_window: "chain bytes a xs b \<Longrightarrow> x \<in> set xs \<Longrightarrow> di_bytes x = take (unat (di_len x)) (drop (pos_of x) bytes) \<and>
   a \<le> pos_of x \<and> pos_of x + unat (di_len x) \<le> b \<and> 0 < unat (di_len x)"
proof (induction xs arbitrary: a)
  case (Cons y xs)
  then have c: "chain bytes (a + unat (di_len y)) xs b" by simp
  from Cons.prems chain_le [OF c] Cons.IH [OF c] show ?case by fastforce
qed simp

lemma len_u32:
  assumes "start \<le> stop_at" "stop_at - start \<le> u32_MAX"
  shows "unat (len_u32 start stop_at) = stop_at - start"
proof -
  have "int stop_at - int start = int (stop_at - start)" using assms(1) by simp
  then have "len_u32 start stop_at = of_nat (stop_at - start)" by (simp only: len_u32_def of_int_of_nat_eq)
  then show ?thesis using unat_of_nat_u32 [OF assms(2)] by (simp only:)
qed

lemma insns_chain:
  assumes "sorted_wrt (<) (map lo_offset ls)" "ls \<noteq> []" "\<forall>l \<in> set ls. lo_offset l < e"
    "e \<le> length (mo_bytes (wa_module w))" "e - lo_offset (hd ls) \<le> u32_MAX" "e \<le> usize_MAX"
  shows "chain (mo_bytes (wa_module w)) (lo_offset (hd ls)) (insns_spec w e ls) e"
  using assms(1-3,5)
proof (induction ls)
  case (Cons l ls)
  let ?next = "case ls of [] \<Rightarrow> e | n # _ \<Rightarrow> lo_offset n"
  have next_at: "lo_offset l < ?next" "?next \<le> e" using Cons.prems by (auto split: list.split)
  then have len: "unat (len_u32 (lo_offset l) ?next) = ?next - lo_offset l"
    by (intro len_u32) (use Cons.prems in auto)
  have rest: "chain (mo_bytes (wa_module w)) ?next (insns_spec w e ls) e"
    using Cons.IH Cons.prems by (cases ls) auto
  have "lo_offset l \<le> usize_MAX" using next_at assms(6) by simp
  with next_at len rest assms(4) show ?case
    by (simp add: insn_spec_def bytes_of_def Module_bytes_def unat_of_nat_u64)
qed simp

lemma code_chain:
  assumes "served m" "decoded_at m off = Some d"
  shows "chain (mo_bytes m) (fst (de_range d)) (code_of m d) (snd (de_range d))"
proof -
  obtain ok: "decoded_ok d" and e: "snd (de_range d) \<le> length (mo_bytes m)" "snd (de_range d) - fst (de_range d) \<le> u32_MAX"
    using decoded_at_ok [OF assms] by blast
  define ls where "ls = bo_instructions (de_body d)"
  have shape: "ls \<noteq> []" "sorted_wrt (<) (map lo_offset ls)" "snd (de_range d) \<le> usize_MAX"
    "\<forall>l \<in> set ls. fst (de_range d) < lo_offset l \<and> lo_offset l < snd (de_range d)"
    using ok by (auto simp: decoded_ok_def body_shape_def ls_def)
  let ?w = "Wasm_new m []" and ?s = "fst (de_range d)" and ?t = "lo_offset (hd ls)"
  have m: "wa_module ?w = m" by (simp add: Wasm_new_def)
  have first: "?s < ?t" "?t < snd (de_range d)" using shape(1,4) by (auto simp: list.set_sel)
  have small: "snd (de_range d) - ?t \<le> u32_MAX" using e(2) first by simp
  have insns: "chain (mo_bytes m) ?t (insns_spec ?w (snd (de_range d)) ls) (snd (de_range d))"
    using insns_chain [of ls "snd (de_range d)" ?w, unfolded m, OF shape(2,1) _ e(1) small shape(3)] shape(4) by blast
  have "unat (len_u32 ?s ?t) = ?t - ?s" using first e by (intro len_u32) auto
  with insns first e shape(3) show ?thesis
    by (simp add: code_of_def stream_spec_def Let_def ls_def [symmetric] locals_decl_def bytes_of_def Module_bytes_def m
      unat_of_nat_u64)
qed

section \<open>The body at an offset\<close>

lemma holds_unique:
  assumes "served m" "i < length (mo_bodies m)" "j < length (mo_bodies m)"
    "holds_offset (mo_bodies m ! i) off" "holds_offset (mo_bodies m ! j) off"
  shows "i = j"
proof -
  have lay: "laid_out 0 (mo_bodies m) (length (mo_bytes m))" using assms(1) by (simp add: served_def module_ok_def)
  show ?thesis
    using laid_out_less [OF lay, of i j] laid_out_less [OF lay, of j i] assms(2-5)
    by (cases i j rule: linorder_cases) (auto simp: holds_offset_def)
qed

lemma body_layout:
  assumes "served m" "i < length (mo_bodies m)"
  shows "fst (mo_bodies m ! i) \<le> snd (mo_bodies m ! i)" "holds_offset (mo_bodies m ! i) (fst (mo_bodies m ! i))"
    "j < i \<Longrightarrow> snd (mo_bodies m ! j) < fst (mo_bodies m ! i)"
proof -
  have lay: "laid_out 0 (mo_bodies m) (length (mo_bytes m))" using assms(1) by (simp add: served_def module_ok_def)
  show "fst (mo_bodies m ! i) \<le> snd (mo_bodies m ! i)" using laid_out_nth [OF lay assms(2)] by simp
  then show "holds_offset (mo_bodies m ! i) (fst (mo_bodies m ! i))" by (auto simp: holds_offset_def)
  show "j < i \<Longrightarrow> snd (mo_bodies m ! j) < fst (mo_bodies m ! i)" using laid_out_less [OF lay _ assms(2)] by simp
qed

lemma containing_held:
  assumes "served m" "i < length (mo_bodies m)" "holds_offset (mo_bodies m ! i) off"
  obtains f where "function_containing m off = Inr (Some (FuncIdx f, mo_bodies m ! i))" "unat f = imported_count m + i"
proof -
  have ok: "module_ok m" using assms(1) by (simp add: served_def)
  obtain f :: u32 where f: "unat f = imported_count m + i" using func_at_defined [OF ok assms(2)] by blast
  then have "function_containing m off = Inr (Some (FuncIdx f, mo_bodies m ! i))"
    using assms(2,3) unfolding function_containing_lemma(1) [OF ok] by blast
  with f that show thesis by blast
qed

lemma decoded_at_held:
  assumes "served m" "i < length (mo_bodies m)" "holds_offset (mo_bodies m ! i) a" "holds_offset (mo_bodies m ! i) b"
  shows "decoded_at m a = decoded_at m b"
proof -
  obtain f where "function_containing m a = Inr (Some (FuncIdx f, mo_bodies m ! i))" "unat f = imported_count m + i"
    by (rule containing_held [OF assms(1-3)])
  moreover obtain g where "function_containing m b = Inr (Some (FuncIdx g, mo_bodies m ! i))" "unat g = imported_count m + i"
    by (rule containing_held [OF assms(1,2,4)])
  moreover from calculation have "f = g" by (simp add: word_unat_eq_iff)
  ultimately show ?thesis by (simp add: decoded_at_def)
qed

lemma decoded_at_start:
  assumes "served m" "i < length (mo_bodies m)" "decoded_at m (fst (mo_bodies m ! i)) = Some d"
  shows "de_range d = mo_bodies m ! i" "decoded_ok d"
    "chain (mo_bytes m) (fst (mo_bodies m ! i)) (code_of m d) (snd (mo_bodies m ! i))"
proof -
  obtain j where j: "j < length (mo_bodies m)" "mo_bodies m ! j = de_range d" "holds_offset (de_range d) (fst (mo_bodies m ! i))"
    "decoded_ok d" by (rule decoded_at_ok [OF assms(1,3)])
  then have "j = i" using holds_unique [OF assms(1) j(1) assms(2)] body_layout(2) [OF assms(1,2)] by simp
  with j show r: "de_range d = mo_bodies m ! i" "decoded_ok d" by simp_all
  show "chain (mo_bytes m) (fst (mo_bodies m ! i)) (code_of m d) (snd (mo_bodies m ! i))"
    using code_chain [OF assms(1,3)] unfolding r .
qed

text \<open>The next body from an offset on: all bodies before it end there, and it reaches further.\<close>

lemma next_body_spec:
  assumes "served m"
  obtains k where "next_body m off = Inr (get (mo_bodies m) k)"
    "\<forall>j < k. j < length (mo_bodies m) \<longrightarrow> snd (mo_bodies m ! j) \<le> off"
    "k < length (mo_bodies m) \<Longrightarrow> holds_offset (mo_bodies m ! k) (max (fst (mo_bodies m ! k)) off)"
proof (cases "\<exists>k < length (mo_bodies m). holds_offset (mo_bodies m ! k) off")
  case True
  then obtain k where k: "k < length (mo_bodies m)" "holds_offset (mo_bodies m ! k) off" by blast
  obtain f where "function_containing m off = Inr (Some (FuncIdx f, mo_bodies m ! k))" by (rule containing_held [OF assms k])
  then have "next_body m off = Inr (get (mo_bodies m) k)" using k(1) by (simp add: next_body_def get_def)
  moreover have "fst (mo_bodies m ! k) \<le> off" using k(2) by (auto simp: holds_offset_def)
  moreover from this have "snd (mo_bodies m ! j) \<le> off" if "j < k" for j
    using body_layout(3) [OF assms k(1) that] by simp
  ultimately show thesis using that [of k] k by (simp add: max_def)
next
  case False
  have ok: "module_ok m" and lay: "laid_out 0 (mo_bodies m) (length (mo_bytes m))"
    using assms by (simp_all add: served_def module_ok_def)
  let ?k = "partition_point (\<lambda>rg. fst rg < off) (mo_bodies m)"
  note pp = partition_point [OF laid_out_partitioned(1) [OF lay, of off]]
  obtain found where found: "function_containing m off = Inr found" using function_containing_lemma(2) [OF ok] by blast
  have "found = None"
  proof (cases found)
    case (Some p)
    obtain f rg where "p = (FuncIdx f, rg)" by (metis FuncIdx.exhaust surj_pair)
    with Some found function_containing_lemma(1) [OF ok, of off f rg] False show ?thesis by auto
  qed simp
  with found have "next_body m off = Inr (get (mo_bodies m) ?k)" by (simp add: next_body_def)
  moreover have "snd (mo_bodies m ! j) \<le> off" if "j < ?k" "j < length (mo_bodies m)" for j
  proof (rule ccontr)
    assume "\<not> snd (mo_bodies m ! j) \<le> off"
    with pp(2) [OF that(1)] have "holds_offset (mo_bodies m ! j) off" by (simp add: holds_offset_def)
    with False that(2) show False by blast
  qed
  moreover have "holds_offset (mo_bodies m ! ?k) (max (fst (mo_bodies m ! ?k)) off)" if "?k < length (mo_bodies m)"
    using pp(3) [of ?k] that body_layout(2) [OF assms that] by (simp add: max_def not_less)
  ultimately show thesis using that [of ?k] by blast
qed

section \<open>The sweep\<close>

text \<open>Whether a sweep keeps an instruction: it ends in the window, whose bytes are its own.\<close>

definition kept :: "u8 list \<Rightarrow> Va \<Rightarrow> nat \<Rightarrow> DecodedInsn \<Rightarrow> bool" where
  "kept bs va hi x \<longleftrightarrow> pos_of x + unat (di_len x) \<le> hi \<and> handed (drop (pos_of x - unat va) bs) x = Inr ()"

definition sweep :: "u8 list \<Rightarrow> Va \<Rightarrow> nat \<Rightarrow> Module \<Rightarrow> nat \<Rightarrow> range \<Rightarrow> DecodedInsn list" where
  "sweep bs va hi m off rg = (case decoded_at m (fst rg) of
     None \<Rightarrow> []
   | Some d \<Rightarrow> takeWhile (kept bs va hi) (dropWhile (\<lambda>x. pos_of x < off) (code_of m d)))"

lemma range_out_kept:
  assumes "\<forall>x \<in> set xs. unat va \<le> pos_of x" "hi \<le> unat va + length bs"
  shows "range_out bs va hi room xs = Inr (take room (takeWhile (kept bs va hi) xs))"
  using assms(1)
proof (induction xs arbitrary: room)
  case (Cons x xs)
  have rel: "unat (di_va x - va) = pos_of x - unat va" using Cons.prems by (simp add: unat_sub word_le_nat_alt)
  have "\<not> length bs < pos_of x - unat va" if "\<not> hi < pos_of x + unat (di_len x)"
    using that assms(2) Cons.prems by auto
  with Cons rel show ?case by (cases room) (auto simp: kept_def Let_def split: sum.split)
qed simp

lemma takeWhile_take: "take n (takeWhile P (take n xs)) = take n (takeWhile P xs)"
proof (induction xs arbitrary: n)
  case (Cons x xs)
  then show ?case by (cases n) auto
qed simp

lemma takeWhile_weaker: "(\<And>x. x \<in> set xs \<Longrightarrow> P x \<Longrightarrow> Q x) \<Longrightarrow> takeWhile P (takeWhile Q xs) = takeWhile P xs"
  by (induction xs) auto

text \<open>The first start at or after an offset is where the code from that offset on begins.\<close>

lemma dropWhile_first:
  assumes "find (\<lambda>p. off \<le> p) (map f xs) = Some s"
  shows "dropWhile (\<lambda>x. f x \<noteq> s) xs = dropWhile (\<lambda>x. f x < (off :: nat)) xs"
  using assms by (induction xs) (auto split: if_splits simp: find_Some_iff not_le)

lemma dropWhile_none: "find (\<lambda>p. off \<le> p) (map f xs) = None \<Longrightarrow> dropWhile (\<lambda>x. f x < (off :: nat)) xs = []"
  by (auto simp: find_None_iff not_le dropWhile_eq_Nil_conv)

lemma sorted_dropWhile_ge:
  assumes "sorted_wrt (<) (map f xs)" "x \<in> set (dropWhile (\<lambda>x. f x < (off :: nat)) xs)"
  shows "off \<le> f x"
  using assms by (induction xs) (auto split: if_splits simp: not_less)

lemma range_turn_sweep:
  assumes s: "served m" and inv: "arch_inv m w" and i: "i < length (mo_bodies m)"
    and held: "holds_offset (mo_bodies m ! i) (max (fst (mo_bodies m ! i)) off)"
    and low: "unat va \<le> off" and high: "hi \<le> unat va + length bs"
  shows "\<exists>w'. range_turn w bs va hi room off (fst (mo_bodies m ! i)) = Inr (take room (sweep bs va hi m off (mo_bodies m ! i)), w') \<and>
    arch_inv m w'"
proof -
  have ok: "module_ok m" using s by (simp add: served_def)
  let ?rg = "mo_bodies m ! i"
  have same: "decoded_at m (max (fst ?rg) off) = decoded_at m (fst ?rg)"
    by (rule decoded_at_held [OF s i held body_layout(2) [OF s i]])
  obtain w' where b: "body_at w (max (fst ?rg) off) = Inr (decoded_at m (fst ?rg), w')" "arch_inv m w'"
    unfolding same [symmetric] by (rule body_at_spec [OF ok inv])
  have m: "wa_module w' = m" using b(2) by (simp add: arch_inv_def)
  show ?thesis
  proof (cases "decoded_at m (fst ?rg)")
    case None
    with b show ?thesis by (simp add: range_turn_def sweep_def)
  next
    case (Some d)
    note d = decoded_at_start [OF s i Some]
    define code where "code = dropWhile (\<lambda>x. pos_of x < off) (code_of m d)"
    have starts: "map pos_of (code_of m d) = fst (de_range d) # map lo_offset (bo_instructions (de_body d))"
      unfolding code_of_def by (rule stream_spec_pos [OF d(2)])
    let ?first = "if off \<le> fst (de_range d) then Some (fst (de_range d))
      else find (\<lambda>p. off \<le> p) (map lo_offset (bo_instructions (de_body d)))"
    have first: "?first = find (\<lambda>p. off \<le> p) (map pos_of (code_of m d))" unfolding starts by simp
    have turn: "range_turn w bs va hi room off (fst ?rg) = (case ?first of
        None \<Rightarrow> Inr ([], w')
      | Some f \<Rightarrow> rbind (insns_from w' d f hi room) (\<lambda>v. case v of
          None \<Rightarrow> Inr ([], w')
        | Some insns \<Rightarrow> rbind (range_out bs va hi room insns) (\<lambda>xs. Inr (xs, w'))))"
      using b(1) Some by (simp add: range_turn_def Let_def)
    have sweep: "sweep bs va hi m off ?rg = takeWhile (kept bs va hi) code" using Some by (simp add: sweep_def code_def)
    show ?thesis
    proof (cases ?first)
      case None
      then have "code = []" unfolding first code_def by (rule dropWhile_none)
      with turn None sweep b(2) show ?thesis by simp
    next
      case (Some f)
      then have code: "dropWhile (\<lambda>x. pos_of x \<noteq> f) (code_of m d) = code"
        unfolding first code_def by (rule dropWhile_first)
      obtain v where v: "insns_from w' d f hi room = Inr v"
        "(case v of None \<Rightarrow> [] | Some xs \<Rightarrow> xs) = take room (takeWhile (\<lambda>x. pos_of x < hi) code)"
        using insns_from_code [OF d(2) m, of f hi room] unfolding code by blast
      have "unat va \<le> pos_of x" if "x \<in> set code" for x
        using code_of_starts(3) [OF d(2), of m] that low unfolding code_def
        by (auto dest!: sorted_dropWhile_ge)
      then have "\<forall>x \<in> set (take room (takeWhile (\<lambda>x. pos_of x < hi) code)). unat va \<le> pos_of x"
        by (blast dest: in_set_takeD set_takeWhileD)
      note out = range_out_kept [OF this high, of room]
      have "takeWhile (kept bs va hi) (takeWhile (\<lambda>x. pos_of x < hi) code) = takeWhile (kept bs va hi) code"
        using chain_window [OF d(3)] unfolding code_def
        by (intro takeWhile_weaker) (fastforce dest: set_dropWhileD simp: kept_def)
      then have "range_out bs va hi room (case v of None \<Rightarrow> [] | Some xs \<Rightarrow> xs) =
          Inr (take room (sweep bs va hi m off ?rg))"
        unfolding v(2) out sweep by (simp add: takeWhile_take)
      with turn Some v(1) b(2) show ?thesis by (cases v) auto
    qed
  qed
qed

lemma takeWhile_none: "(\<And>x. x \<in> set xs \<Longrightarrow> \<not> P x) \<Longrightarrow> takeWhile P xs = []"
  by (cases xs) auto

text \<open>What a sweep finds in the body at \<open>rg\<close>, by where the sweep stands.\<close>

lemma sweep_past:
  assumes "served m" "i < length (mo_bodies m)" "snd (mo_bodies m ! i) \<le> off"
  shows "sweep bs va hi m off (mo_bodies m ! i) = []"
proof (cases "decoded_at m (fst (mo_bodies m ! i))")
  case (Some d)
  note d = decoded_at_start [OF assms(1,2) Some]
  have "pos_of x < off" if "x \<in> set (code_of m d)" for x using chain_window [OF d(3) that] assms(3) by simp
  then have "dropWhile (\<lambda>x. pos_of x < off) (code_of m d) = []" by (simp add: dropWhile_eq_Nil_conv)
  with Some show ?thesis by (simp add: sweep_def del: dropWhile_eq_Nil_conv)
qed (simp add: sweep_def)

lemma sweep_before:
  assumes "served m" "i < length (mo_bodies m)" "off \<le> fst (mo_bodies m ! i)"
  shows "sweep bs va hi m off (mo_bodies m ! i) = sweep bs va hi m 0 (mo_bodies m ! i)"
proof (cases "decoded_at m (fst (mo_bodies m ! i))")
  case (Some d)
  note d = decoded_at_start [OF assms(1,2) Some]
  have "\<not> pos_of (hd (code_of m d)) < off" using code_of_starts(2) [OF d(2), of m] d(1) assms(3) by simp
  then have "dropWhile (\<lambda>x. pos_of x < off) (code_of m d) = code_of m d" by (cases "code_of m d") auto
  with Some show ?thesis by (simp add: sweep_def)
qed (simp add: sweep_def)

lemma sweep_beyond:
  assumes "served m" "i < length (mo_bodies m)" "hi \<le> fst (mo_bodies m ! i) \<or> hi \<le> off"
  shows "sweep bs va hi m off (mo_bodies m ! i) = []"
proof (cases "decoded_at m (fst (mo_bodies m ! i))")
  case (Some d)
  note d = decoded_at_start [OF assms(1,2) Some]
  have "\<not> kept bs va hi x" if "x \<in> set (dropWhile (\<lambda>x. pos_of x < off) (code_of m d))" for x
    using chain_window [OF d(3) set_dropWhileD [OF that]] sorted_dropWhile_ge [OF code_of_starts(3) [OF d(2)] that] assms(3)
    by (auto simp: kept_def)
  then have "takeWhile (kept bs va hi) (dropWhile (\<lambda>x. pos_of x < off) (code_of m d)) = []"
    by (rule takeWhile_none)
  with Some show ?thesis by (simp add: sweep_def)
qed (simp add: sweep_def)

abbreviation sweeps :: "u8 list \<Rightarrow> Va \<Rightarrow> nat \<Rightarrow> Module \<Rightarrow> nat \<Rightarrow> DecodedInsn list" where
  "sweeps bs va hi m off \<equiv> concat (map (sweep bs va hi m off) (mo_bodies m))"

lemma concat_nothing: "(\<And>i. i < length xs \<Longrightarrow> f (xs ! i) = []) \<Longrightarrow> concat (map f xs) = []"
  by (auto simp: in_set_conv_nth)

lemma sweeps_step:
  assumes s: "served m" and k: "k < length (mo_bodies m)"
    and before: "\<forall>j < k. j < length (mo_bodies m) \<longrightarrow> snd (mo_bodies m ! j) \<le> off"
    and held: "holds_offset (mo_bodies m ! k) (max (fst (mo_bodies m ! k)) off)"
  shows "sweeps bs va hi m off = sweep bs va hi m off (mo_bodies m ! k) @ sweeps bs va hi m (max (snd (mo_bodies m ! k)) (off + 1))"
    (is "_ = _ @ sweeps bs va hi m ?off'")
proof -
  let ?f = "sweep bs va hi m off" and ?g = "sweep bs va hi m ?off'" and ?bs = "mo_bodies m"
  have split: "?bs = take k ?bs @ ?bs ! k # drop (Suc k) ?bs" using k by (rule id_take_nth_drop)
  have f: "?f (?bs ! j) = []" and g: "?g (?bs ! j) = []" if "j < k" for j
    using that before k by (auto intro!: sweep_past [OF s])
  have take: "concat (map ?f (take k ?bs)) = []" "concat (map ?g (take k ?bs)) = []"
    by (rule concat_nothing, use f g k in simp)+
  have gk: "?g (?bs ! k) = []" by (rule sweep_past [OF s k]) simp
  have rest: "map ?f (drop (Suc k) ?bs) = map ?g (drop (Suc k) ?bs)"
  proof (rule map_cong [OF refl])
    fix rg assume "rg \<in> set (drop (Suc k) ?bs)"
    then obtain j where "j < length (drop (Suc k) ?bs)" "rg = drop (Suc k) ?bs ! j" by (metis in_set_conv_nth)
    then have j: "Suc k + j < length ?bs" and rg: "rg = ?bs ! (Suc k + j)" by simp_all
    have "snd (?bs ! k) < fst (?bs ! (Suc k + j))" using body_layout(3) [OF s j, of k] by simp
    moreover from this held have "off < fst (?bs ! (Suc k + j))" by (auto simp: holds_offset_def max_def split: if_splits)
    ultimately have le: "off \<le> fst (?bs ! (Suc k + j))" "?off' \<le> fst (?bs ! (Suc k + j))" by auto
    show "?f rg = ?g rg" unfolding rg by (rule sweep_before [OF s j le(1), THEN trans, OF sweep_before [OF s j le(2), symmetric]])
  qed
  have "sweeps bs va hi m off = ?f (?bs ! k) @ concat (map ?f (drop (Suc k) ?bs))"
    using arg_cong [OF split, of "\<lambda>l. concat (map ?f l)"] by (simp only: map_append concat_append list.map concat.simps take append.simps)
  moreover have "sweeps bs va hi m ?off' = concat (map ?g (drop (Suc k) ?bs))"
    using arg_cong [OF split, of "\<lambda>l. concat (map ?g l)"] by (simp only: map_append concat_append list.map concat.simps take gk append.simps)
  ultimately show ?thesis unfolding rest by simp
qed

lemma range_loop_sweeps:
  assumes "served m" "arch_inv m w" "unat va \<le> off" "hi \<le> unat va + length bs"
  shows "\<exists>w'. range_loop w bs va hi room off = Inr (take room (sweeps bs va hi m off), w') \<and> arch_inv m w'"
  using assms(2,3,4)
proof (induction w bs va hi room off rule: range_loop.induct)
  case (1 w bs va hi room off)
  note s = assms(1)
  have m: "wa_module w = m" using "1.prems"(1) by (simp add: arch_inv_def)
  show ?case
  proof (cases "off < hi \<and> 0 < room")
    case False
    then have "take room (sweeps bs va hi m off) = []"
      by (cases "room = 0") (auto intro!: concat_nothing sweep_beyond [OF s] simp del: concat_eq_Nil_conv)
    moreover have "range_loop w bs va hi room off = Inr ([], w)" by (subst range_loop.simps, subst if_not_P [OF False]) (rule refl)
    ultimately show ?thesis using "1.prems"(1) by metis
  next
    case True
    obtain k where nb: "next_body m off = Inr (get (mo_bodies m) k)"
      and before: "\<forall>j < k. j < length (mo_bodies m) \<longrightarrow> snd (mo_bodies m ! j) \<le> off"
      and held: "k < length (mo_bodies m) \<Longrightarrow> holds_offset (mo_bodies m ! k) (max (fst (mo_bodies m ! k)) off)"
      by (rule next_body_spec [OF s, of off]) blast
    show ?thesis
    proof (cases "k < length (mo_bodies m) \<and> fst (mo_bodies m ! k) < hi")
      case False
      have "sweep bs va hi m off (mo_bodies m ! i) = []" if i: "i < length (mo_bodies m)" for i
      proof (cases "i < k")
        case True
        with before i show ?thesis by (intro sweep_past [OF s i]) simp
      next
        case False': False
        then have "k < length (mo_bodies m)" using i by simp
        with False have "hi \<le> fst (mo_bodies m ! k)" by simp
        also have "\<dots> \<le> fst (mo_bodies m ! i)"
          using body_layout(1) [OF s \<open>k < length (mo_bodies m)\<close>] body_layout(3) [OF s i, of k] False' by (cases "k = i") auto
        finally show ?thesis by (intro sweep_beyond [OF s i]) simp
      qed
      then have "sweeps bs va hi m off = []" by (rule concat_nothing)
      moreover have "range_loop w bs va hi room off = Inr ([], w)"
        using True False nb m by (subst range_loop.simps) (auto simp: get_def)
      ultimately show ?thesis using "1.prems"(1) by (metis take_Nil)
    next
      case body: True
      let ?rg = "mo_bodies m ! k"
      have next_is: "next_body (wa_module w) off = Inr (Some ?rg)" using nb m body by (simp add: get_def)
      obtain w' where turn: "range_turn w bs va hi room off (fst ?rg) = Inr (take room (sweep bs va hi m off ?rg), w')" "arch_inv m w'"
        using range_turn_sweep [OF s "1.prems"(1) _ held "1.prems"(2,3)] body by blast
      have "unat va \<le> max (snd ?rg) (off + 1)" using "1.prems"(2) by simp
      from "1.IH" [OF True next_is refl _ turn(1) refl turn(2) this "1.prems"(3)] body obtain w'' where
        rest: "range_loop w' bs va hi (room - length (take room (sweep bs va hi m off ?rg))) (max (snd ?rg) (off + 1)) =
          Inr (take (room - length (take room (sweep bs va hi m off ?rg))) (sweeps bs va hi m (max (snd ?rg) (off + 1))), w'')"
          "arch_inv m w''"
        by blast
      have "take room (sweeps bs va hi m off) = take room (sweep bs va hi m off ?rg) @
          take (room - length (take room (sweep bs va hi m off ?rg))) (sweeps bs va hi m (max (snd ?rg) (off + 1)))"
        unfolding sweeps_step [OF s conjunct1 [OF body] before held [OF conjunct1 [OF body]]]
        by (cases "room \<le> length (sweep bs va hi m off ?rg)") simp_all
      moreover have "range_loop w bs va hi room off = Inr (take room (sweep bs va hi m off ?rg) @
          take (room - length (take room (sweep bs va hi m off ?rg))) (sweeps bs va hi m (max (snd ?rg) (off + 1))), w'')"
        using True next_is body turn(1) rest(1) by (subst range_loop.simps) simp
      ultimately show ?thesis using rest(2) by metis
    qed
  qed
qed

end
