(* ===== verification/Wasm_Arch_Queries.thy ===== *)
theory Wasm_Arch_Queries
  imports Wasm_Arch_Range
begin

text \<open>
  The architecture as its clients see it: a sequence of questions is answered as if each were
  asked of a fresh architecture, and a sweep over the module's own bytes returns the
  instructions of the window.
\<close>

section \<open>The sweep of a window\<close>

definition range_answer :: "Module \<Rightarrow> u8 list \<Rightarrow> Va \<Rightarrow> nat \<Rightarrow> DecodedInsn list" where
  "range_answer m bs va most =
     (if usize_MAX < length bs \<or> usize_MAX < unat va + length bs then []
      else take most (sweeps bs va (unat va + length bs) m (unat va)))"

lemma decode_range_answer:
  assumes "served m" "arch_inv m w"
  shows "\<exists>w'. decode_range w bs va most = Inr (range_answer m bs va most, w') \<and> arch_inv m w'"
  using range_loop_sweeps [OF assms order_refl order_refl, where va = va and bs = bs and room = most] assms(2)
  by (auto simp: decode_range_def range_answer_def)

text \<open>All the code of a module: the code of every body that can be decoded, in the order of the file.\<close>

definition all_code :: "Module \<Rightarrow> DecodedInsn list" where
  "all_code m = concat (map (\<lambda>rg. case decoded_at m (fst rg) of None \<Rightarrow> [] | Some d \<Rightarrow> code_of m d) (mo_bodies m))"

lemma chain_filter:
  assumes "chain bytes a xs b"
  shows "takeWhile (\<lambda>x. pos_of x + unat (di_len x) \<le> hi) (dropWhile (\<lambda>x. pos_of x < lo) xs) =
    filter (\<lambda>x. lo \<le> pos_of x \<and> pos_of x + unat (di_len x) \<le> hi) xs"
  using assms
proof (induction xs arbitrary: a)
  case (Cons x xs)
  let ?P = "\<lambda>x. pos_of x + unat (di_len x) \<le> hi"
  have c: "chain bytes (a + unat (di_len x)) xs b" and x: "pos_of x = a" using Cons.prems by simp_all
  note IH = Cons.IH [OF c] and later = chain_window [OF c]
  show ?case
  proof (cases "pos_of x < lo")
    case True
    with IH show ?thesis by simp
  next
    case False
    then have "dropWhile (\<lambda>x. pos_of x < lo) xs = xs" using later x by (cases xs) fastforce+
    moreover have "filter (\<lambda>x. lo \<le> pos_of x \<and> ?P x) xs = []" if "\<not> ?P x"
      using later x that by (fastforce simp: filter_empty_conv)
    ultimately show ?thesis using IH False by auto
  qed
qed simp

lemma handed_own:
  assumes "di_bytes x = take n (drop (pos_of x) bytes)" "lo \<le> pos_of x" "pos_of x + n \<le> lo + k" "lo + k \<le> length bytes"
  shows "handed (drop (pos_of x - lo) (take k (drop lo bytes))) x = Inr ()"
proof -
  have d: "drop (pos_of x - lo) (take k (drop lo bytes)) = take (k - (pos_of x - lo)) (drop (pos_of x) bytes)"
    using assms(2) by (simp add: drop_take)
  have n: "n \<le> k - (pos_of x - lo)" "n \<le> length (drop (pos_of x) bytes)" using assms(2-4) by auto
  have "length (di_bytes x) = n" using n(2) by (simp add: assms(1))
  moreover have "take n (take (k - (pos_of x - lo)) (drop (pos_of x) bytes)) = di_bytes x" using n(1) by (simp add: assms(1) min_def)
  moreover have "n \<le> length (take (k - (pos_of x - lo)) (drop (pos_of x) bytes))" using n by simp
  ultimately show ?thesis unfolding d handed_def by (simp only: linorder_not_less [symmetric] if_False refl if_True)
qed

lemma range_answer_window:
  assumes "served m" "lo + n \<le> length (mo_bytes m)"
  shows "range_answer m (take n (drop lo (mo_bytes m))) (of_nat lo) most =
    take most (filter (\<lambda>x. lo \<le> pos_of x \<and> pos_of x + unat (di_len x) \<le> lo + n) (all_code m))"
proof -
  let ?bs = "take n (drop lo (mo_bytes m))" and ?P = "\<lambda>x. lo \<le> pos_of x \<and> pos_of x + unat (di_len x) \<le> lo + n"
  have len: "length ?bs = n" using assms(2) by simp
  have "length (mo_bytes m) \<le> usize_MAX" using assms(1) unfolding served_def by (rule conjunct2)
  with assms(2) have small: "lo + n \<le> usize_MAX" by (rule le_trans)
  then have "lo \<le> usize_MAX" by (rule add_leD1)
  then have va: "unat (of_nat lo :: u64) = lo" by (rule unat_of_nat_u64)
  have one: "sweep ?bs (of_nat lo) (lo + n) m lo rg = filter ?P (case decoded_at m (fst rg) of None \<Rightarrow> [] | Some d \<Rightarrow> code_of m d)"
    if "rg \<in> set (mo_bodies m)" for rg
  proof (cases "decoded_at m (fst rg)")
    case (Some d)
    obtain i where i: "i < length (mo_bodies m)" "rg = mo_bodies m ! i"
      using \<open>rg \<in> set (mo_bodies m)\<close> by (auto simp only: in_set_conv_nth)
    note c = decoded_at_start(2,3) [OF assms(1) i(1) Some [unfolded i(2)]]
    have "kept ?bs (of_nat lo) (lo + n) x \<longleftrightarrow> pos_of x + unat (di_len x) \<le> lo + n"
      if "x \<in> set (dropWhile (\<lambda>x. pos_of x < lo) (code_of m d))" for x
    proof -
      have x: "di_bytes x = take (unat (di_len x)) (drop (pos_of x) (mo_bytes m))"
        using chain_window [OF c(2) set_dropWhileD [OF that]] by simp
      have "lo \<le> pos_of x" by (rule sorted_dropWhile_ge [OF code_of_starts(3) [OF c(1)] that])
      from handed_own [OF x this _ assms(2)] show ?thesis unfolding kept_def va by (intro iffI conjI) simp_all
    qed
    then have "takeWhile (kept ?bs (of_nat lo) (lo + n)) (dropWhile (\<lambda>x. pos_of x < lo) (code_of m d)) =
        takeWhile (\<lambda>x. pos_of x + unat (di_len x) \<le> lo + n) (dropWhile (\<lambda>x. pos_of x < lo) (code_of m d))"
      by (intro takeWhile_cong) auto
    then show ?thesis using Some chain_filter [OF c(2)] by (simp add: sweep_def)
  qed (simp add: sweep_def)
  have "sweeps ?bs (of_nat lo) (lo + n) m lo = filter ?P (all_code m)"
    unfolding all_code_def filter_concat map_map comp_def using one by (intro arg_cong [of _ _ concat] map_cong) auto
  with len va small show ?thesis by (simp add: range_answer_def)
qed

section \<open>The stream of a whole body\<close>

lemma stream_out_all:
  "(\<And>x. x \<in> set xs \<Longrightarrow> handed (drop (min (unat (di_va x - va)) (length bs)) bs) x = Inr ()) \<Longrightarrow> stream_out bs va xs = xs"
  by (induction xs) simp_all

lemma stream_answer_body:
  assumes "served m" "i < length (mo_bodies m)" "mo_bodies m ! i = (start, stop_at)" "decoded_at m start = Some d"
    "length (mo_bytes m) \<le> most"
  shows "stream_answer m (drop start (mo_bytes m)) (of_nat start) most = code_of m d"
proof -
  let ?bs = "drop start (mo_bytes m)"
  note d = decoded_at_start [OF assms(1,2), unfolded assms(3), simplified, OF assms(4)]
  have "snd (mo_bodies m ! i) \<le> length (mo_bytes m)" "length (mo_bytes m) \<le> usize_MAX"
    using laid_out_nth [OF _ assms(2), of 0 "length (mo_bytes m)"] assms(1) by (auto simp: served_def module_ok_def)
  then have size: "stop_at \<le> length (mo_bytes m)" "length (mo_bytes m) \<le> usize_MAX" using assms(3) by simp_all
  have le: "start \<le> stop_at" using chain_le [OF d(3)] by simp
  have va: "unat (of_nat start :: u64) = start" by (rule unat_of_nat_u64) (use size le in linarith)
  have hd: "dropWhile (\<lambda>x. pos_of x \<noteq> start) (code_of m d) = code_of m d"
    using code_of_starts(1,2) [OF d(2), of m] d(1) by (cases "code_of m d") simp_all
  have x: "di_bytes x = take (unat (di_len x)) (drop (pos_of x) (mo_bytes m))" "start \<le> pos_of x"
    "pos_of x + unat (di_len x) \<le> stop_at" "0 < unat (di_len x)" if "x \<in> set (code_of m d)" for x
    using chain_window [OF d(3) that] by simp_all
  have bound: "start + length ?bs = length (mo_bytes m)" using size(1) le by simp
  have "pos_of y < min (start + length ?bs) usize_MAX" if "y \<in> set (code_of m d)" for y
    using x(3,4) [OF that] size unfolding bound by linarith
  then have all: "takeWhile (\<lambda>x. pos_of x < min (start + length ?bs) usize_MAX) (code_of m d) = code_of m d"
    unfolding takeWhile_eq_all_conv by blast
  have short: "length (code_of m d) \<le> most" using chain_le [OF d(3)] size(1) assms(5) by linarith
  have own: "handed (drop (min (unat (di_va y - of_nat start)) (length ?bs)) ?bs) y = Inr ()" if "y \<in> set (code_of m d)" for y
  proof -
    have rel: "unat (di_va y - of_nat start) = pos_of y - start" using x(2) [OF that] va by (simp add: unat_sub word_le_nat_alt)
    have "pos_of y - start \<le> length ?bs" using x(3,4) [OF that] size(1) by simp
    moreover have "handed (drop (pos_of y - start) (take (length ?bs) ?bs)) y = Inr ()"
      by (rule handed_own [OF x(1,2) [OF that]]) (use x(3) [OF that] size(1) bound in linarith)+
    ultimately show ?thesis unfolding rel by (simp add: min_absorb1)
  qed
  show ?thesis
    unfolding stream_answer_def va assms(4) option.case hd all take_all [OF short] by (rule stream_out_all [OF own])
qed

text \<open>The body of a function by its index is the body decoded where it starts.\<close>

lemma body_decoded_at:
  assumes "served m" "Module_body m (FuncIdx f) = Some (Inr b)" "body_start m (FuncIdx f) = Some start"
  obtains i where "i < length (mo_bodies m)" "mo_bodies m ! i = (start, snd (bo_range b))"
    "decoded_at m start = Some \<lparr>de_func = FuncIdx f, de_range = (start, snd (bo_range b)), de_body = b\<rparr>"
proof -
  have ok: "module_ok m" using assms(1) by (simp add: served_def)
  obtain i where i: "i < length (mo_bodies m)" "unat f = imported_count m + i" "fst (mo_bodies m ! i) = start"
    using assms(3) unfolding body_start_iff [OF ok] by blast
  have "Inr b = decode_body (mo_bytes m) (mo_bodies m ! i) (data_indices m)"
    using assms(2) i(2) unfolding Module_body_iff [OF ok] by auto
  then have "bo_range b = mo_bodies m ! i" by (auto simp: decode_body_def split: sum.splits)
  with i(3) have rg: "mo_bodies m ! i = (start, snd (bo_range b))" by (cases "mo_bodies m ! i") simp
  obtain g where g: "function_containing m start = Inr (Some (FuncIdx g, mo_bodies m ! i))" "unat g = imported_count m + i"
    using containing_held [OF assms(1) i(1) body_layout(2) [OF assms(1) i(1)]] i(3) by blast
  then have "g = f" using i(2) by (simp add: word_unat_eq_iff)
  with g(1) rg assms(2) have "decoded_at m start = Some \<lparr>de_func = FuncIdx f, de_range = (start, snd (bo_range b)), de_body = b\<rparr>"
    by (simp add: decoded_at_def)
  with that i(1) rg show thesis by blast
qed

section \<open>Questions in sequence\<close>

datatype Query = Query_Decode "u8 list" Va | Query_Stream "u8 list" Va nat | Query_Range "u8 list" Va nat

datatype Answer = Answer_One "DecodeError + DecodedInsn" | Answer_Many "DecodedInsn list"

definition ask :: "Wasm \<Rightarrow> Query \<Rightarrow> (Answer \<times> Wasm) result" where
  "ask w q = (case q of
     Query_Decode bs va \<Rightarrow> rbind (arch_decode w bs va) (\<lambda>(x, w'). Inr (Answer_One x, w'))
   | Query_Stream bs va most \<Rightarrow> rbind (decode_stream w bs va most) (\<lambda>(xs, w'). Inr (Answer_Many xs, w'))
   | Query_Range bs va most \<Rightarrow> rbind (decode_range w bs va most) (\<lambda>(xs, w'). Inr (Answer_Many xs, w')))"

definition module_answer :: "Module \<Rightarrow> Query \<Rightarrow> Answer" where
  "module_answer m q = (case q of
     Query_Decode bs va \<Rightarrow> Answer_One (decode_answer m bs va)
   | Query_Stream bs va most \<Rightarrow> Answer_Many (stream_answer m bs va most)
   | Query_Range bs va most \<Rightarrow> Answer_Many (range_answer m bs va most))"

fun asks :: "('s \<Rightarrow> 'q \<Rightarrow> ('a \<times> 's) result) \<Rightarrow> 's \<Rightarrow> 'q list \<Rightarrow> ('a list \<times> 's) result" where
  "asks f s [] = Inr ([], s)"
| "asks f s (q # qs) = rbind (f s q) (\<lambda>(a, s'). rbind (asks f s' qs) (\<lambda>(as, s''). Inr (a # as, s'')))"

text \<open>
  A service that keeps something to be faster and shows nothing of it: whatever it keeps, a
  question is answered from what stays the same.
\<close>

locale history_free =
  fixes serve :: "'s \<Rightarrow> 'q \<Rightarrow> ('a \<times> 's) result"
    and inv :: "'s \<Rightarrow> bool"
    and view :: "'s \<Rightarrow> 'v"
    and answer :: "'v \<Rightarrow> 'q \<Rightarrow> 'a"
  assumes serve: "inv s \<Longrightarrow> \<exists>s'. serve s q = Inr (answer (view s) q, s') \<and> inv s' \<and> view s' = view s"
begin

lemma in_sequence:
  "inv s \<Longrightarrow> \<exists>s'. asks serve s qs = Inr (map (answer (view s)) qs, s') \<and> inv s' \<and> view s' = view s"
proof (induction qs arbitrary: s)
  case (Cons q qs)
  obtain s' where s': "serve s q = Inr (answer (view s) q, s')" "inv s'" "view s' = view s" using serve [OF Cons.prems] by blast
  with Cons.IH [OF s'(2)] show ?case by fastforce
qed simp

lemma alone: "inv s \<Longrightarrow> serve s q = Inr (a, s') \<Longrightarrow> a = answer (view s) q"
  using serve [of s q] by auto

end

definition arch_ready :: "Wasm \<Rightarrow> bool" where
  "arch_ready w \<longleftrightarrow> served (wa_module w) \<and> arch_inv (wa_module w) w"

lemma arch_ready_step: "served m \<Longrightarrow> arch_inv m w' \<Longrightarrow> arch_ready w' \<and> wa_module w' = m"
  by (auto simp: arch_ready_def arch_inv_def)

lemma ask_answer:
  assumes "served m" "arch_inv m w"
  shows "\<exists>w'. ask w q = Inr (module_answer m q, w') \<and> arch_inv m w'"
proof (cases q)
  case (Query_Decode bs va)
  obtain w' where "arch_decode w bs va = Inr (decode_answer m bs va, w')" "arch_inv m w'"
    using arch_decode_answer [OF assms] by blast
  with Query_Decode show ?thesis by (simp add: ask_def module_answer_def)
next
  case (Query_Stream bs va most)
  obtain w' where "decode_stream w bs va most = Inr (stream_answer m bs va most, w')" "arch_inv m w'"
    using decode_stream_answer [OF assms] by blast
  with Query_Stream show ?thesis by (simp add: ask_def module_answer_def)
next
  case (Query_Range bs va most)
  obtain w' where "decode_range w bs va most = Inr (range_answer m bs va most, w')" "arch_inv m w'"
    using decode_range_answer [OF assms] by blast
  with Query_Range show ?thesis by (simp add: ask_def module_answer_def)
qed

interpretation arch: history_free ask arch_ready wa_module module_answer
proof unfold_locales
  fix w q
  assume "arch_ready w"
  then have ok: "served (wa_module w)" "arch_inv (wa_module w) w" by (simp_all add: arch_ready_def)
  obtain w' where w': "ask w q = Inr (module_answer (wa_module w) q, w')" "arch_inv (wa_module w) w'"
    using ask_answer [OF ok] by blast
  show "\<exists>w'. ask w q = Inr (module_answer (wa_module w) q, w') \<and> arch_ready w' \<and> wa_module w' = wa_module w"
    using w'(1) arch_ready_step [OF ok(1) w'(2)] by (intro exI [of _ w'] conjI) simp_all
qed

lemma arch_ready_new: "served m \<Longrightarrow> arch_ready (Wasm_new m identity)"
  using arch_inv_new [of m identity] by (simp add: arch_ready_def Wasm_new_def)

end
