(* ===== verification/Wasm_Arch_Threads.thy ===== *)
theory Wasm_Arch_Threads
  imports Wasm_Arch_Queries
begin

text \<open>
  Threads that call \<open>body_at\<close> on one architecture, \<open>src/crates/n0xis-wasm-arch/src/lib.rs\<close>. The lock
  is part of the state: taking it, using what it guards and dropping it are steps of their own,
  and a thread that wants it waits while another holds it. A lock poisoned by a panic is taken
  like any other, as in the code.
\<close>

section \<open>The lock and the callers\<close>

text \<open>
  Where a caller stands, with the offset it asked for: before it searched the function, waiting for
  the lock to look, holding it, holding it after a miss, decoding without it, waiting for it to
  store, holding it to store, holding it with an answer, and done.
\<close>

datatype Phase =
    Phase_Start nat
  | Phase_Look nat FuncIdx range
  | Phase_Looking nat FuncIdx range
  | Phase_Missed nat FuncIdx range
  | Phase_Decode nat FuncIdx range
  | Phase_Store nat Decoded
  | Phase_Storing nat Decoded
  | Phase_Leave nat Decoded
  | Phase_Done nat "Decoded option"

text \<open>A step of one caller on the holder of the lock, the cache and its own phase.\<close>

inductive body_step ::
  "Module \<Rightarrow> nat \<Rightarrow> nat option \<times> Decoded option \<times> Phase \<Rightarrow> nat option \<times> Decoded option \<times> Phase \<Rightarrow> bool" for m t where
  no_body: "function_containing m off = Inr None \<Longrightarrow>
    body_step m t (l, c, Phase_Start off) (l, c, Phase_Done off None)"
| found: "function_containing m off = Inr (Some (f, rg)) \<Longrightarrow>
    body_step m t (l, c, Phase_Start off) (l, c, Phase_Look off f rg)"
| lock_look: "body_step m t (None, c, Phase_Look off f rg) (Some t, c, Phase_Looking off f rg)"
| hit: "de_func d = f \<Longrightarrow>
    body_step m t (l, Some d, Phase_Looking off f rg) (l, Some d, Phase_Leave off d)"
| miss: "map_option de_func c \<noteq> Some f \<Longrightarrow>
    body_step m t (l, c, Phase_Looking off f rg) (l, c, Phase_Missed off f rg)"
| unlock_missed: "body_step m t (l, c, Phase_Missed off f rg) (None, c, Phase_Decode off f rg)"
| undecodable: "(\<nexists>b. Module_body m f = Some (Inr b)) \<Longrightarrow>
    body_step m t (l, c, Phase_Decode off f rg) (l, c, Phase_Done off None)"
| decoded: "Module_body m f = Some (Inr b) \<Longrightarrow>
    body_step m t (l, c, Phase_Decode off f rg) (l, c, Phase_Store off \<lparr>de_func = f, de_range = rg, de_body = b\<rparr>)"
| lock_store: "body_step m t (None, c, Phase_Store off d) (Some t, c, Phase_Storing off d)"
| store: "body_step m t (l, c, Phase_Storing off d) (l, Some d, Phase_Leave off d)"
| unlock: "body_step m t (l, c, Phase_Leave off d) (None, c, Phase_Done off (Some d))"

inductive_cases body_stepE: "body_step m t s s'"

text \<open>All callers: any of them makes its next step.\<close>

type_synonym threads = "nat option \<times> Decoded option \<times> (nat \<rightharpoonup> Phase)"

inductive lock_step :: "Module \<Rightarrow> threads \<Rightarrow> threads \<Rightarrow> bool" for m where
  turn: "ts t = Some p \<Longrightarrow> body_step m t (l, c, p) (l', c', p') \<Longrightarrow> lock_step m (l, c, ts) (l', c', ts(t \<mapsto> p'))"

text \<open>The callers before any of them ran, each with its offset: the lock is free, the cache empty.\<close>

definition callers :: "(nat \<rightharpoonup> nat) \<Rightarrow> threads" where
  "callers offs = (None, None, \<lambda>t. map_option Phase_Start (offs t))"

inductive_cases lock_stepE: "lock_step m s s'"

section \<open>The invariant\<close>

fun phase_off :: "Phase \<Rightarrow> nat" where
  "phase_off (Phase_Start off) = off"
| "phase_off (Phase_Look off f rg) = off"
| "phase_off (Phase_Looking off f rg) = off"
| "phase_off (Phase_Missed off f rg) = off"
| "phase_off (Phase_Decode off f rg) = off"
| "phase_off (Phase_Store off d) = off"
| "phase_off (Phase_Storing off d) = off"
| "phase_off (Phase_Leave off d) = off"
| "phase_off (Phase_Done off a) = off"

text \<open>The phases between taking the lock and dropping it.\<close>

fun holding :: "Phase \<Rightarrow> bool" where
  "holding (Phase_Looking off f rg) = True"
| "holding (Phase_Missed off f rg) = True"
| "holding (Phase_Storing off d) = True"
| "holding (Phase_Leave off d) = True"
| "holding _ = False"

fun phase_ok :: "Module \<Rightarrow> Phase \<Rightarrow> bool" where
  "phase_ok m (Phase_Start off) = True"
| "phase_ok m (Phase_Look off f rg) = (function_containing m off = Inr (Some (f, rg)))"
| "phase_ok m (Phase_Looking off f rg) = (function_containing m off = Inr (Some (f, rg)))"
| "phase_ok m (Phase_Missed off f rg) = (function_containing m off = Inr (Some (f, rg)))"
| "phase_ok m (Phase_Decode off f rg) = (function_containing m off = Inr (Some (f, rg)))"
| "phase_ok m (Phase_Store off d) = (decoded_at m off = Some d)"
| "phase_ok m (Phase_Storing off d) = (decoded_at m off = Some d)"
| "phase_ok m (Phase_Leave off d) = (decoded_at m off = Some d)"
| "phase_ok m (Phase_Done off a) = (a = decoded_at m off)"

definition cached_ok :: "Module \<Rightarrow> Decoded option \<Rightarrow> bool" where
  "cached_ok m c \<longleftrightarrow> (\<forall>d. c = Some d \<longrightarrow> (\<exists>off. decoded_at m off = Some d))"

text \<open>The holder of the lock is the one caller that stands between taking and dropping it.\<close>

definition lock_inv :: "Module \<Rightarrow> (nat \<rightharpoonup> nat) \<Rightarrow> threads \<Rightarrow> bool" where
  "lock_inv m offs = (\<lambda>(l, c, ts). cached_ok m c \<and>
     (\<forall>t. map_option phase_off (ts t) = offs t) \<and>
     (\<forall>t p. ts t = Some p \<longrightarrow> phase_ok m p \<and> (holding p \<longleftrightarrow> l = Some t)) \<and>
     (\<forall>t. l = Some t \<longrightarrow> t \<in> dom ts))"

lemma lock_inv_callers: "lock_inv m offs (callers offs)"
proof -
  have "map_option phase_off (map_option Phase_Start (offs t)) = offs t" for t by (cases "offs t") simp_all
  moreover have "phase_ok m p \<and> \<not> holding p" if "map_option Phase_Start (offs t) = Some p" for t p using that by auto
  ultimately show ?thesis by (simp add: lock_inv_def callers_def cached_ok_def)
qed

text \<open>A step of one caller: what it keeps, and that it touches the lock only as free or as its own.\<close>

lemma body_step_keeps:
  assumes "body_step m t (l, c, p) (l', c', p')" "module_ok m" "cached_ok m c" "phase_ok m p"
  shows "cached_ok m c' \<and> phase_ok m p' \<and> phase_off p' = phase_off p"
  using assms(1)
proof (cases rule: body_step.cases)
  case (hit d f off rg)
  then obtain off' where "decoded_at m off' = Some d" using assms(3) by (auto simp: cached_ok_def)
  moreover have "function_containing m off = Inr (Some (de_func d, rg))" using hit assms(4) by simp
  ultimately have "decoded_at m off = Some d" by (rule decoded_at_func [OF assms(2)])
  with hit assms(3) show ?thesis by simp
next
  case (no_body off)
  then have "decoded_at m off = None" by (simp add: decoded_at_def)
  with no_body assms(3) show ?thesis by simp
next
  case (undecodable f off rg)
  then have "decoded_at m off = None" using assms(4) by (auto simp: decoded_at_def split: option.split sum.split)
  with undecodable assms(3) show ?thesis by simp
next
  case (decoded f b off rg)
  then show ?thesis using assms(3,4) by (simp add: decoded_at_def)
next
  case (store off d)
  then show ?thesis using assms(4) by (auto simp: cached_ok_def)
qed (use assms(3,4) in simp_all)

lemma body_step_lock:
  assumes "body_step m t (l, c, p) (l', c', p')" "holding p \<longleftrightarrow> l = Some t"
  shows "(holding p' \<longleftrightarrow> l' = Some t) \<and> (l' = l \<or> l = None \<and> l' = Some t \<or> l = Some t \<and> l' = None)"
  using assms by (cases rule: body_step.cases) auto

lemma lock_step_inv:
  assumes "lock_step m s s'" "module_ok m" "lock_inv m offs s"
  shows "lock_inv m offs s'"
  using assms(1)
proof (cases rule: lock_step.cases)
  case (turn ts t p l c l' c' p')
  have inv: "cached_ok m c" "\<forall>u. map_option phase_off (ts u) = offs u" "\<forall>u. l = Some u \<longrightarrow> u \<in> dom ts"
    and each: "\<forall>u q. ts u = Some q \<longrightarrow> phase_ok m q \<and> (holding q \<longleftrightarrow> l = Some u)"
    using assms(3) turn(1) by (simp_all add: lock_inv_def)
  have p: "phase_ok m p" "holding p \<longleftrightarrow> l = Some t" using each turn(3) by auto
  note keeps = body_step_keeps [OF turn(4) assms(2) inv(1) p(1)] and lock = body_step_lock [OF turn(4) p(2)]
  have "map_option phase_off ((ts(t \<mapsto> p')) u) = offs u" for u
    using keeps turn(3) inv(2) [rule_format, of u] by (cases "u = t") auto
  moreover have "phase_ok m q \<and> (holding q \<longleftrightarrow> l' = Some u)" if "(ts(t \<mapsto> p')) u = Some q" for u q
  proof (cases "u = t")
    case True
    with that keeps lock show ?thesis by auto
  next
    case False
    with that each have "phase_ok m q" "holding q \<longleftrightarrow> l = Some u" by auto
    with lock False show ?thesis by auto
  qed
  moreover have "u \<in> dom (ts(t \<mapsto> p'))" if "l' = Some u" for u using that lock inv(3) by auto
  ultimately show ?thesis using keeps turn(2) by (simp add: lock_inv_def)
qed

lemma lock_steps_inv: "(lock_step m)\<^sup>*\<^sup>* s s' \<Longrightarrow> module_ok m \<Longrightarrow> lock_inv m offs s \<Longrightarrow> lock_inv m offs s'"
  by (induction rule: rtranclp_induct) (auto intro: lock_step_inv)

lemma lock_run_inv:
  assumes "module_ok m" "(lock_step m)\<^sup>*\<^sup>* (callers offs) s"
  shows "lock_inv m offs s"
  by (rule lock_steps_inv [OF assms(2,1) lock_inv_callers])

lemma answer_of_done:
  assumes "lock_inv m offs (l, c, ts)" "ts t = Some (Phase_Done off a)"
  shows "offs t = Some off \<and> a = decoded_at m off"
proof -
  have each: "\<forall>t. map_option phase_off (ts t) = offs t" "\<forall>t p. ts t = Some p \<longrightarrow> phase_ok m p"
    using assms(1) by (simp_all add: lock_inv_def)
  from each(1) [rule_format, of t] each(2) [rule_format, OF assms(2)] assms(2) show ?thesis by simp
qed

section \<open>Every schedule ends\<close>

text \<open>What a caller still has to do: every step of it makes this smaller.\<close>

fun steps_left :: "Phase \<Rightarrow> nat" where
  "steps_left (Phase_Start off) = 8"
| "steps_left (Phase_Look off f rg) = 7"
| "steps_left (Phase_Looking off f rg) = 6"
| "steps_left (Phase_Missed off f rg) = 5"
| "steps_left (Phase_Decode off f rg) = 4"
| "steps_left (Phase_Store off d) = 3"
| "steps_left (Phase_Storing off d) = 2"
| "steps_left (Phase_Leave off d) = 1"
| "steps_left (Phase_Done off a) = 0"

definition all_left :: "threads \<Rightarrow> nat" where
  "all_left = (\<lambda>(l, c, ts). \<Sum>t \<in> dom ts. steps_left (the (ts t)))"

lemma body_step_left: "body_step m t (l, c, p) (l', c', p') \<Longrightarrow> steps_left p' < steps_left p"
  by (cases rule: body_step.cases) auto

lemma lock_step_left:
  assumes "lock_step m s s'" "finite (dom (snd (snd s)))"
  shows "all_left s' < all_left s \<and> dom (snd (snd s')) = dom (snd (snd s))"
  using assms(1)
proof (cases rule: lock_step.cases)
  case (turn ts t p l c l' c' p')
  have d: "dom (ts(t \<mapsto> p')) = dom ts" using turn(3) by auto
  have "(\<Sum>u \<in> dom ts. steps_left (the ((ts(t \<mapsto> p')) u))) < (\<Sum>u \<in> dom ts. steps_left (the (ts u)))"
  proof (rule sum_strict_mono_ex1)
    show "finite (dom ts)" using assms(2) turn(1) by simp
    show "\<forall>u \<in> dom ts. steps_left (the ((ts(t \<mapsto> p')) u)) \<le> steps_left (the (ts u))"
      using body_step_left [OF turn(4)] turn(3) by auto
    show "\<exists>u \<in> dom ts. steps_left (the ((ts(t \<mapsto> p')) u)) < steps_left (the (ts u))"
      using body_step_left [OF turn(4)] turn(3) by (intro bexI [of _ t]) auto
  qed
  with d turn show ?thesis by (simp add: all_left_def)
qed

lemma lock_run_left:
  assumes "(lock_step m ^^ n) s s'" "finite (dom (snd (snd s)))"
  shows "all_left s' + n \<le> all_left s"
proof -
  have "all_left s' + n \<le> all_left s \<and> dom (snd (snd s')) = dom (snd (snd s))"
    using assms(1)
  proof (induction n arbitrary: s')
    case (Suc n)
    then obtain r where r: "(lock_step m ^^ n) s r" "lock_step m r s'" by auto
    from Suc.IH [OF r(1)] lock_step_left [OF r(2)] assms(2) show ?case by auto
  qed simp
  then show ?thesis ..
qed

lemma all_left_callers:
  assumes "finite (dom offs)"
  shows "all_left (callers offs) = 8 * card (dom offs)"
proof -
  have "dom (\<lambda>t. map_option Phase_Start (offs t)) = dom offs" by (auto simp: dom_def)
  moreover have "(\<Sum>t \<in> dom offs. steps_left (the (map_option Phase_Start (offs t)))) = (\<Sum>t \<in> dom offs. 8)"
    by (rule sum.cong) auto
  ultimately show ?thesis by (simp add: all_left_def callers_def)
qed

section \<open>Nobody waits for ever\<close>

text \<open>A caller that is not done makes a step, unless it waits for the lock and another holds it.\<close>

lemma body_step_ready:
  assumes "module_ok m" "steps_left p \<noteq> 0" "l = None \<or> holding p"
  shows "\<exists>l' c' p'. body_step m t (l, c, p) (l', c', p')"
proof (cases p)
  case (Phase_Start off)
  obtain f where "function_containing m off = Inr f" using function_containing_lemma(2) [OF assms(1)] by blast
  with Phase_Start show ?thesis by (cases f) (auto intro: no_body found)
next
  case (Phase_Looking off f rg)
  show ?thesis
  proof (cases "map_option de_func c = Some f")
    case True
    then show ?thesis unfolding Phase_Looking by (auto intro: hit)
  next
    case False
    then show ?thesis unfolding Phase_Looking by (blast intro: miss)
  qed
next
  case (Phase_Decode off f rg)
  then show ?thesis by (blast intro: undecodable decoded)
qed (use assms in \<open>auto intro: body_step.intros\<close>)

lemma lock_stuck:
  assumes "module_ok m" "lock_inv m offs (l, c, ts)" "\<nexists>s'. lock_step m (l, c, ts) s'"
  shows "l = None \<and> (\<forall>t p. ts t = Some p \<longrightarrow> steps_left p = 0)"
proof -
  have stuck: "\<not> body_step m t (l, c, p) (l', c', p')" if "ts t = Some p" for t p l' c' p'
    using assms(3) turn [of ts t p m l c l' c' p'] that by blast
  have each: "\<forall>t p. ts t = Some p \<longrightarrow> (holding p \<longleftrightarrow> l = Some t)" and held: "\<forall>t. l = Some t \<longrightarrow> t \<in> dom ts"
    using assms(2) by (simp_all add: lock_inv_def)
  have free: "l = None"
  proof (cases l)
    case (Some t)
    then obtain p where p: "ts t = Some p" "holding p" using held each by blast
    then have "steps_left p \<noteq> 0" by (cases p) auto
    with body_step_ready [OF assms(1)] stuck [OF p(1)] p(2) show ?thesis by blast
  qed
  moreover have "steps_left p = 0" if "ts t = Some p" for t p
    using body_step_ready [OF assms(1)] stuck [OF that] free by blast
  ultimately show ?thesis by blast
qed

lemma lock_ends:
  assumes "module_ok m" "(lock_step m)\<^sup>*\<^sup>* (callers offs) s" "\<nexists>s'. lock_step m s s'"
  shows "fst s = None \<and> snd (snd s) = (\<lambda>t. map_option (\<lambda>off. Phase_Done off (decoded_at m off)) (offs t))"
proof -
  obtain l c ts where s: "s = (l, c, ts)" by (cases s) auto
  note inv = lock_run_inv [OF assms(1,2), unfolded s]
  note stuck = lock_stuck [OF assms(1) inv assms(3) [unfolded s]]
  have "ts t = map_option (\<lambda>off. Phase_Done off (decoded_at m off)) (offs t)" for t
  proof (cases "ts t")
    case None
    then show ?thesis using inv by (auto simp: lock_inv_def dest: spec [of _ t])
  next
    case (Some p)
    then have "steps_left p = 0" using stuck by blast
    then obtain off a where p: "p = Phase_Done off a" by (cases p) auto
    from answer_of_done [OF inv Some [unfolded p]] Some p show ?thesis by simp
  qed
  with stuck s show ?thesis by auto
qed

end
