(* ===== verification/Flirt.thy ===== *)
theory Flirt
  imports Prelude "HOL-Library.Product_Lexorder"
begin

text \<open>
  The signature matcher, \<open>src/crates/n0xis-flirt/src/lib.rs\<close>: patterns of bytes with wildcards,
  their text, and the database that names a function by the most specific pattern its bytes
  begin with. A Rust string is the list of its code points, since the code asks for Unicode
  white space and for lengths in UTF-8; a \<open>HashMap\<close> is a partial function. An index out of
  bounds, which stops the Rust program, is the left side of the answer.
\<close>

section \<open>Strings\<close>

type_synonym str = "nat list"

definition chars :: "string \<Rightarrow> str" where
  "chars s = map of_char s"

text \<open>\<open>char::is_whitespace\<close>.\<close>

definition is_whitespace :: "nat \<Rightarrow> bool" where
  "is_whitespace c \<longleftrightarrow> (9 \<le> c \<and> c \<le> 13) \<or> c = 0x20 \<or> c = 0x85 \<or> c = 0xa0 \<or> c = 0x1680 \<or> (0x2000 \<le> c \<and> c \<le> 0x200a) \<or>
     c = 0x2028 \<or> c = 0x2029 \<or> c = 0x202f \<or> c = 0x205f \<or> c = 0x3000"

text \<open>\<open>str::len\<close>: bytes of UTF-8.\<close>

definition len_utf8 :: "nat \<Rightarrow> nat" where
  "len_utf8 c = (if c < 0x80 then 1 else if c < 0x800 then 2 else if c < 0x10000 then 3 else 4)"

definition str_len :: "str \<Rightarrow> nat" where
  "str_len t = sum_list (map len_utf8 t)"

fun split_whitespace_from :: "str \<Rightarrow> str \<Rightarrow> str list" where
  "split_whitespace_from cur [] = (if cur = [] then [] else [cur])"
| "split_whitespace_from cur (c # cs) =
     (if is_whitespace c then (if cur = [] then split_whitespace_from [] cs else cur # split_whitespace_from [] cs)
      else split_whitespace_from (cur @ [c]) cs)"

definition split_whitespace :: "str \<Rightarrow> str list" where
  "split_whitespace = split_whitespace_from []"

definition trim :: "str \<Rightarrow> str" where
  "trim t = rev (dropWhile is_whitespace (rev (dropWhile is_whitespace t)))"

text \<open>\<open>str::lines\<close>: a line ends with a line feed, and a carriage return before it is no part of the line.\<close>

definition strip_cr :: "str \<Rightarrow> str" where
  "strip_cr t = (if t \<noteq> [] \<and> last t = 13 then butlast t else t)"

fun lines_from :: "str \<Rightarrow> str \<Rightarrow> str list" where
  "lines_from cur [] = (if cur = [] then [] else [cur])"
| "lines_from cur (c # cs) = (if c = 10 then strip_cr cur # lines_from [] cs else lines_from (cur @ [c]) cs)"

definition str_lines :: "str \<Rightarrow> str list" where
  "str_lines = lines_from []"

text \<open>\<open>str::rsplit_once(char::is_whitespace)\<close>: around the last blank.\<close>

definition rsplit_once_whitespace :: "str \<Rightarrow> (str \<times> str) option" where
  "rsplit_once_whitespace t = (let r = rev t in case dropWhile (\<lambda>c. \<not> is_whitespace c) r of
     [] \<Rightarrow> None
   | _ # before \<Rightarrow> Some (rev before, rev (takeWhile (\<lambda>c. \<not> is_whitespace c) r)))"

definition to_digit16 :: "nat \<Rightarrow> nat option" where
  "to_digit16 c = (if 48 \<le> c \<and> c \<le> 57 then Some (c - 48)
     else if 97 \<le> c \<and> c \<le> 102 then Some (c - 87)
     else if 65 \<le> c \<and> c \<le> 70 then Some (c - 55) else None)"

fun radix16_from :: "nat \<Rightarrow> str \<Rightarrow> nat option" where
  "radix16_from acc [] = Some acc"
| "radix16_from acc (c # cs) = (case to_digit16 c of
     None \<Rightarrow> None
   | Some d \<Rightarrow> if 255 < acc * 16 + d then None else radix16_from (acc * 16 + d) cs)"

text \<open>\<open>u8::from_str_radix(s, 16)\<close>: a plus sign may stand before the digits.\<close>

definition u8_from_str_radix16 :: "str \<Rightarrow> u8 option" where
  "u8_from_str_radix16 t = (if t = [] then None
     else if length t = 1 \<and> (hd t = 43 \<or> hd t = 45) then None
     else map_option of_nat (radix16_from 0 (if hd t = 43 then tl t else t)))"

section \<open>Patterns\<close>

datatype ParseError = BadByte str | Empty | NoName nat

datatype PatByte = Fixed u8 | Any

datatype Pattern = Pattern "PatByte list"

primrec pat_bytes :: "Pattern \<Rightarrow> PatByte list" where
  "pat_bytes (Pattern ps) = ps"

text \<open>The loop of \<open>Pattern::parse\<close> over the tokens.\<close>

fun parse_tokens :: "str list \<Rightarrow> ParseError + PatByte list" where
  "parse_tokens [] = Inr []"
| "parse_tokens (tok # toks) =
     (if tok = chars ''..'' \<or> tok = chars ''??'' then map_sum id ((#) Any) (parse_tokens toks)
      else if str_len tok = 2 then
        (case u8_from_str_radix16 tok of
           Some b \<Rightarrow> map_sum id ((#) (Fixed b)) (parse_tokens toks)
         | None \<Rightarrow> Inl (BadByte tok))
      else Inl (BadByte tok))"

definition Pattern_parse :: "str \<Rightarrow> ParseError + Pattern" where
  "Pattern_parse t = (case parse_tokens (split_whitespace t) of
     Inl e \<Rightarrow> Inl e
   | Inr out \<Rightarrow> if out = [] then Inl Empty else Inr (Pattern out))"

definition Pattern_len :: "Pattern \<Rightarrow> nat" where
  "Pattern_len p = length (pat_bytes p)"

definition Pattern_is_empty :: "Pattern \<Rightarrow> bool" where
  "Pattern_is_empty p \<longleftrightarrow> pat_bytes p = []"

definition fixed_count :: "Pattern \<Rightarrow> nat" where
  "fixed_count p = length (filter (\<lambda>b. b \<noteq> Any) (pat_bytes p))"

definition first_fixed :: "Pattern \<Rightarrow> u8 option" where
  "first_fixed p = (case pat_bytes p of Fixed v # _ \<Rightarrow> Some v | _ \<Rightarrow> None)"

definition pat_byte_matches :: "PatByte \<Rightarrow> u8 \<Rightarrow> bool" where
  "pat_byte_matches b c = (case b of Fixed v \<Rightarrow> v = c | Any \<Rightarrow> True)"

definition Pattern_matches :: "Pattern \<Rightarrow> u8 list \<Rightarrow> bool" where
  "Pattern_matches p code \<longleftrightarrow> \<not> length code < length (pat_bytes p) \<and>
     list_all (\<lambda>(b, c). pat_byte_matches b c) (zip (pat_bytes p) code)"

text \<open>The wildcard loops of \<open>Pattern::from_window\<close>, \<open>off.saturating_add(len)\<close> cut at the window.\<close>

definition saturating_add :: "nat \<Rightarrow> nat \<Rightarrow> nat" where
  "saturating_add a b = min (a + b) usize_MAX"

definition wild_range :: "nat \<times> nat \<Rightarrow> PatByte list \<Rightarrow> PatByte list" where
  "wild_range w bs = (case w of (off, n) \<Rightarrow>
     fold (\<lambda>pos bs. bs[pos := Any]) [off..<min (saturating_add off n) (length bs)] bs)"

fun trim_any :: "PatByte list \<Rightarrow> PatByte list" where
  "trim_any bs = (if bs \<noteq> [] \<and> last bs = Any then trim_any (butlast bs) else bs)"

declare trim_any.simps [simp del]

definition from_window :: "u8 list \<Rightarrow> (nat \<times> nat) list \<Rightarrow> Pattern" where
  "from_window window wildcards = Pattern (trim_any (fold wild_range wildcards (map Fixed window)))"

definition hex_digit_char :: "nat \<Rightarrow> nat" where
  "hex_digit_char d = (if d < 10 then 48 + d else 87 + d)"

definition pat_byte_text :: "PatByte \<Rightarrow> str" where
  "pat_byte_text b = (case b of
     Fixed v \<Rightarrow> [hex_digit_char (unat v div 16), hex_digit_char (unat v mod 16)]
   | Any \<Rightarrow> chars ''..'')"

fun join_blank :: "str list \<Rightarrow> str" where
  "join_blank [] = []"
| "join_blank [t] = t"
| "join_blank (t # u # ts) = t @ 32 # join_blank (u # ts)"

definition to_npat :: "Pattern \<Rightarrow> str" where
  "to_npat p = join_blank (map pat_byte_text (pat_bytes p))"

section \<open>The database\<close>

record Signature =
  sg_pattern :: Pattern
  sg_name :: str

record Db =
  db_sigs :: "Signature list"
  db_by_first :: "u8 \<rightharpoonup> nat list"
  db_wild_first :: "nat list"

definition Db_new :: Db where
  "Db_new = \<lparr>db_sigs = [], db_by_first = Map.empty, db_wild_first = []\<rparr>"

definition Db_len :: "Db \<Rightarrow> nat" where
  "Db_len db = length (db_sigs db)"

definition Db_is_empty :: "Db \<Rightarrow> bool" where
  "Db_is_empty db \<longleftrightarrow> db_sigs db = []"

definition or_default :: "'a list option \<Rightarrow> 'a list" where
  "or_default x = (case x of None \<Rightarrow> [] | Some xs \<Rightarrow> xs)"

definition Db_add :: "Db \<Rightarrow> Signature \<Rightarrow> Db" where
  "Db_add db sig = (let idx = length (db_sigs db);
     db' = (case first_fixed (sg_pattern sig) of
       Some b \<Rightarrow> db\<lparr>db_by_first := (db_by_first db)(b \<mapsto> or_default (db_by_first db b) @ [idx])\<rparr>
     | None \<Rightarrow> db\<lparr>db_wild_first := db_wild_first db @ [idx]\<rparr>)
   in db'\<lparr>db_sigs := db_sigs db' @ [sig]\<rparr>)"

definition add_pat :: "Db \<Rightarrow> str \<Rightarrow> str \<Rightarrow> ParseError option \<times> Db" where
  "add_pat db pattern name = (case Pattern_parse pattern of
     Inl e \<Rightarrow> (Some e, db)
   | Inr p \<Rightarrow> (None, Db_add db \<lparr>sg_pattern = p, sg_name = name\<rparr>))"

definition DEFAULT_MIN_FIXED_BYTES :: nat where
  "DEFAULT_MIN_FIXED_BYTES = 6"

text \<open>An index past the signatures, which stops the Rust program.\<close>

datatype OutOfBounds = OutOfBounds nat nat

definition sig_at :: "Db \<Rightarrow> nat \<Rightarrow> OutOfBounds + Signature" where
  "sig_at db i = (if i < length (db_sigs db) then Inr (db_sigs db ! i) else Inl (OutOfBounds i (length (db_sigs db))))"

text \<open>The candidates, in the order of the loop: the bucket of the first byte, then the patterns that start with a wildcard.\<close>

definition candidate_indices :: "Db \<Rightarrow> u8 list \<Rightarrow> nat list" where
  "candidate_indices db code =
     (case code of [] \<Rightarrow> [] | b # _ \<Rightarrow> or_default (db_by_first db b)) @ db_wild_first db"

type_synonym Best = "(Signature \<times> nat \<times> nat) option \<times> bool"

definition better :: "Best \<Rightarrow> Signature \<Rightarrow> Best" where
  "better st s = (let n = Pattern_len (sg_pattern s); fixed = fixed_count (sg_pattern s) in case st of
     (None, ambiguous) \<Rightarrow> (Some (s, n, fixed), ambiguous)
   | (Some (bs, blen, bfixed), ambiguous) \<Rightarrow>
       if (blen, bfixed) < (n, fixed) then (Some (s, n, fixed), False)
       else if (n, fixed) = (blen, bfixed) \<and> sg_name s \<noteq> sg_name bs then (Some (bs, blen, bfixed), True)
       else (Some (bs, blen, bfixed), ambiguous))"

fun best_of :: "Db \<Rightarrow> u8 list \<Rightarrow> Best \<Rightarrow> nat list \<Rightarrow> OutOfBounds + Best" where
  "best_of db code st [] = Inr st"
| "best_of db code st (i # js) = (case sig_at db i of
     Inl e \<Rightarrow> Inl e
   | Inr s \<Rightarrow> best_of db code (if Pattern_matches (sg_pattern s) code then better st s else st) js)"

definition lookup_min_fixed :: "Db \<Rightarrow> u8 list \<Rightarrow> nat \<Rightarrow> OutOfBounds + str option" where
  "lookup_min_fixed db code min_fixed = (case best_of db code (None, False) (candidate_indices db code) of
     Inl e \<Rightarrow> Inl e
   | Inr (Some (s, _, fixed), ambiguous) \<Rightarrow> Inr (if \<not> ambiguous \<and> min_fixed \<le> fixed then Some (sg_name s) else None)
   | Inr (None, _) \<Rightarrow> Inr None)"

definition Db_lookup :: "Db \<Rightarrow> u8 list \<Rightarrow> OutOfBounds + str option" where
  "Db_lookup db code = lookup_min_fixed db code DEFAULT_MIN_FIXED_BYTES"

text \<open>\<open>extend_npat\<close> stops at the first bad line and keeps what it added before.\<close>

fun extend_lines :: "Db \<Rightarrow> nat \<Rightarrow> str list \<Rightarrow> ParseError option \<times> Db" where
  "extend_lines db lineno [] = (None, db)"
| "extend_lines db lineno (raw # rest) = (let line = trim raw in
     if line = [] \<or> hd line = 35 then extend_lines db (lineno + 1) rest
     else case rsplit_once_whitespace line of
       None \<Rightarrow> (Some (NoName (lineno + 1)), db)
     | Some (pat, name) \<Rightarrow> (case add_pat db (trim pat) (trim name) of
         (Some e, db') \<Rightarrow> (Some e, db')
       | (None, db') \<Rightarrow> extend_lines db' (lineno + 1) rest))"

definition extend_npat :: "Db \<Rightarrow> str \<Rightarrow> ParseError option \<times> Db" where
  "extend_npat db t = extend_lines db 0 (str_lines t)"

definition load_npat :: "str \<Rightarrow> ParseError + Db" where
  "load_npat t = (case extend_npat Db_new t of (Some e, _) \<Rightarrow> Inl e | (None, db) \<Rightarrow> Inr db)"

end
