(* ===== verification/Flirt_Props.thy ===== *)
theory Flirt_Props
  imports Flirt
begin

text \<open>
  What the signature matcher promises: the index loses no signature, a lookup gives the name
  all most specific matches agree on, the order of loading does not matter, a pattern's text
  gives the pattern back, and a window's pattern matches what agrees with it outside the wildcards.
\<close>

section \<open>The index\<close>

definition sig_first :: "Db \<Rightarrow> nat \<Rightarrow> u8 option" where
  "sig_first db i = first_fixed (sg_pattern (db_sigs db ! i))"

definition db_inv :: "Db \<Rightarrow> bool" where
  "db_inv db \<longleftrightarrow> (\<forall>b. or_default (db_by_first db b) = filter (\<lambda>i. sig_first db i = Some b) [0..<length (db_sigs db)]) \<and>
     db_wild_first db = filter (\<lambda>i. sig_first db i = None) [0..<length (db_sigs db)]"

lemma db_inv_new: "db_inv Db_new"
  by (simp add: db_inv_def Db_new_def or_default_def)

lemma Db_add_sigs [simp]: "db_sigs (Db_add db s) = db_sigs db @ [s]"
  by (simp add: Db_add_def Let_def split: option.split)

lemma sig_first_add: "i < length (db_sigs db) \<Longrightarrow> sig_first (Db_add db s) i = sig_first db i"
  "sig_first (Db_add db s) (length (db_sigs db)) = first_fixed (sg_pattern s)"
  by (simp_all add: sig_first_def nth_append)

lemma db_inv_add:
  assumes "db_inv db"
  shows "db_inv (Db_add db s)"
proof -
  have upto: "filter (\<lambda>i. sig_first (Db_add db s) i = x) [0..<length (db_sigs (Db_add db s))] =
      filter (\<lambda>i. sig_first db i = x) [0..<length (db_sigs db)] @
      (if first_fixed (sg_pattern s) = x then [length (db_sigs db)] else [])" for x
    by (auto simp: sig_first_add intro!: filter_cong)
  show ?thesis
    using assms unfolding db_inv_def upto
    by (auto simp: Db_add_def Let_def or_default_def split: option.splits)
qed

lemma db_inv_adds: "db_inv db \<Longrightarrow> db_inv (foldl Db_add db sigs)"
  by (induction sigs arbitrary: db) (auto intro: db_inv_add)

lemma adds_sigs [simp]: "db_sigs (foldl Db_add db sigs) = db_sigs db @ sigs"
  by (induction sigs arbitrary: db) simp_all

section \<open>The most specific match\<close>

definition specificity :: "Signature \<Rightarrow> nat \<times> nat" where
  "specificity s = (Pattern_len (sg_pattern s), fixed_count (sg_pattern s))"

abbreviation sig_matches :: "u8 list \<Rightarrow> Signature \<Rightarrow> bool" where
  "sig_matches code s \<equiv> Pattern_matches (sg_pattern s) code"

lemma specificity_fixed: "specificity s = specificity t \<Longrightarrow> fixed_count (sg_pattern s) = fixed_count (sg_pattern t)"
  by (simp add: specificity_def)

lemma best_of_fold:
  assumes "\<forall>i \<in> set js. i < length (db_sigs db)"
  shows "best_of db code st js = Inr (foldl better st (filter (sig_matches code) (map ((!) (db_sigs db)) js)))"
  using assms by (induction js arbitrary: st) (simp_all add: sig_at_def)

lemma better_fold:
  assumes "ss \<noteq> []"
  shows "\<exists>s ambiguous. foldl better (None, False) ss = (Some (s, specificity s), ambiguous) \<and> s \<in> set ss \<and>
    (\<forall>t \<in> set ss. specificity t \<le> specificity s) \<and>
    (ambiguous \<longleftrightarrow> (\<exists>t \<in> set ss. specificity t = specificity s \<and> sg_name t \<noteq> sg_name s))"
  using assms
proof (induction ss rule: rev_induct)
  case (snoc x ss)
  show ?case
  proof (cases "ss = []")
    case True
    then show ?thesis by (simp add: better_def Let_def specificity_def)
  next
    case False
    with snoc.IH obtain s amb where s: "foldl better (None, False) ss = (Some (s, specificity s), amb)" "s \<in> set ss"
      "\<forall>t \<in> set ss. specificity t \<le> specificity s"
      "amb \<longleftrightarrow> (\<exists>t \<in> set ss. specificity t = specificity s \<and> sg_name t \<noteq> sg_name s)" by blast
    have step: "foldl better (None, False) (ss @ [x]) =
        (if specificity s < specificity x then (Some (x, specificity x), False)
         else if specificity x = specificity s \<and> sg_name x \<noteq> sg_name s then (Some (s, specificity s), True)
         else (Some (s, specificity s), amb))"
      by (simp add: s(1) better_def Let_def specificity_def)
    consider (more) "specificity s < specificity x" | (tie) "specificity x = specificity s" | (less) "specificity x < specificity s"
      by (rule linorder_cases)
    then show ?thesis
    proof cases
      case more
      then have "specificity t < specificity x" if "t \<in> set ss" for t using s(3) that le_less_trans by blast
      moreover from this have "specificity t \<noteq> specificity x" if "t \<in> set ss" for t using that by (metis less_irrefl)
      ultimately show ?thesis using more unfolding step by (intro exI [of _ x] exI [of _ False]) (auto simp: less_imp_le)
    next
      case tie
      with s show ?thesis unfolding step by (intro exI [of _ s]) auto
    next
      case less
      then have "specificity x \<noteq> specificity s" "specificity x \<le> specificity s" "\<not> specificity s < specificity x" by auto
      with s show ?thesis unfolding step by (intro exI [of _ s] exI [of _ amb]) simp
    qed
  qed
qed simp

text \<open>A name is the answer of a set of signatures when every most specific match has it.\<close>

definition named_by :: "Signature set \<Rightarrow> u8 list \<Rightarrow> nat \<Rightarrow> str \<Rightarrow> bool" where
  "named_by S code min_fixed name \<longleftrightarrow> (\<exists>s \<in> S. sig_matches code s \<and> sg_name s = name \<and> min_fixed \<le> fixed_count (sg_pattern s) \<and>
     (\<forall>t \<in> S. sig_matches code t \<longrightarrow> specificity t < specificity s \<or> specificity t = specificity s \<and> sg_name t = name))"

lemma matches_first: "Pattern_matches p code \<Longrightarrow> first_fixed p = Some b \<Longrightarrow> \<exists>cs. code = b # cs"
  by (cases code) (auto simp: Pattern_matches_def first_fixed_def pat_byte_matches_def split: list.splits PatByte.splits)

lemma candidates_complete:
  assumes "db_inv db"
  shows "\<forall>i \<in> set (candidate_indices db code). i < length (db_sigs db)"
    and "set (filter (sig_matches code) (map ((!) (db_sigs db)) (candidate_indices db code))) = {s \<in> set (db_sigs db). sig_matches code s}"
proof -
  have idx: "set (candidate_indices db code) = {i. i < length (db_sigs db) \<and>
      (sig_first db i = None \<or> (\<exists>b cs. code = b # cs \<and> sig_first db i = Some b))}"
    using assms by (auto simp: candidate_indices_def db_inv_def split: list.split)
  then show "\<forall>i \<in> set (candidate_indices db code). i < length (db_sigs db)" by simp
  have "i \<in> set (candidate_indices db code)" if "i < length (db_sigs db)" "sig_matches code (db_sigs db ! i)" for i
    using that matches_first [OF that(2)] unfolding idx by (cases "sig_first db i") (auto simp: sig_first_def)
  then show "set (filter (sig_matches code) (map ((!) (db_sigs db)) (candidate_indices db code))) = {s \<in> set (db_sigs db). sig_matches code s}"
    using idx by (force simp: in_set_conv_nth)
qed

lemma lookup_named:
  assumes "db_inv db"
  shows "\<exists>answer. lookup_min_fixed db code k = Inr answer \<and> (answer = Some name \<longleftrightarrow> named_by (set (db_sigs db)) code k name)"
proof -
  define ss where "ss = filter (sig_matches code) (map ((!) (db_sigs db)) (candidate_indices db code))"
  have ss: "set ss = {s \<in> set (db_sigs db). sig_matches code s}" unfolding ss_def by (rule candidates_complete(2) [OF assms])
  have best: "best_of db code (None, False) (candidate_indices db code) = Inr (foldl better (None, False) ss)"
    unfolding ss_def by (rule best_of_fold [OF candidates_complete(1) [OF assms]])
  have named: "named_by (set (db_sigs db)) code k name \<longleftrightarrow> (\<exists>s \<in> set ss. sg_name s = name \<and> k \<le> fixed_count (sg_pattern s) \<and>
      (\<forall>t \<in> set ss. specificity t < specificity s \<or> specificity t = specificity s \<and> sg_name t = name))"
    unfolding named_by_def ss by blast
  show ?thesis
  proof (cases "ss = []")
    case True
    then show ?thesis unfolding named by (simp add: lookup_min_fixed_def best)
  next
    case False
    obtain s amb where s: "foldl better (None, False) ss = (Some (s, specificity s), amb)" "s \<in> set ss"
      "\<forall>t \<in> set ss. specificity t \<le> specificity s"
      "amb \<longleftrightarrow> (\<exists>t \<in> set ss. specificity t = specificity s \<and> sg_name t \<noteq> sg_name s)"
      using better_fold [OF False] by blast
    have l: "lookup_min_fixed db code k = Inr (if \<not> amb \<and> k \<le> fixed_count (sg_pattern s) then Some (sg_name s) else None)"
      by (simp add: lookup_min_fixed_def best s(1) specificity_def)
    have "named_by (set (db_sigs db)) code k name \<longleftrightarrow> \<not> amb \<and> k \<le> fixed_count (sg_pattern s) \<and> sg_name s = name"
    proof
      assume "named_by (set (db_sigs db)) code k name"
      then obtain u where u: "u \<in> set ss" "sg_name u = name" "k \<le> fixed_count (sg_pattern u)"
        "\<forall>t \<in> set ss. specificity t < specificity u \<or> specificity t = specificity u \<and> sg_name t = name"
        unfolding named by blast
      have "specificity u \<le> specificity s" using s(3) u(1) by blast
      with u(4) s(2) have "specificity s = specificity u \<and> sg_name s = name" by (meson leD)
      with u s(4) show "\<not> amb \<and> k \<le> fixed_count (sg_pattern s) \<and> sg_name s = name" by (metis less_irrefl specificity_fixed)
    next
      assume r: "\<not> amb \<and> k \<le> fixed_count (sg_pattern s) \<and> sg_name s = name"
      have "specificity t < specificity s \<or> specificity t = specificity s \<and> sg_name t = name" if "t \<in> set ss" for t
        using s(3,4) r that le_neq_trans by metis
      with r s(2) show "named_by (set (db_sigs db)) code k name" unfolding named by blast
    qed
    with l show ?thesis by auto
  qed
qed

section \<open>Loading\<close>

text \<open>The signatures of a text, up to the first bad line: what \<open>extend_npat\<close> adds, whatever it adds to.\<close>

fun npat_sigs :: "nat \<Rightarrow> str list \<Rightarrow> ParseError option \<times> Signature list" where
  "npat_sigs lineno [] = (None, [])"
| "npat_sigs lineno (raw # rest) = (let line = trim raw in
     if line = [] \<or> hd line = 35 then npat_sigs (lineno + 1) rest
     else case rsplit_once_whitespace line of
       None \<Rightarrow> (Some (NoName (lineno + 1)), [])
     | Some (pat, name) \<Rightarrow> (case Pattern_parse (trim pat) of
         Inl e \<Rightarrow> (Some e, [])
       | Inr p \<Rightarrow> (case npat_sigs (lineno + 1) rest of
           (e, sigs) \<Rightarrow> (e, \<lparr>sg_pattern = p, sg_name = trim name\<rparr> # sigs))))"

lemma extend_lines_sigs:
  "extend_lines db lineno ls = (fst (npat_sigs lineno ls), foldl Db_add db (snd (npat_sigs lineno ls)))"
  by (induction db lineno ls rule: extend_lines.induct) (auto simp: Let_def add_pat_def split: option.splits sum.splits prod.splits)

lemma extend_npat_sigs:
  "extend_npat db t = (fst (npat_sigs 0 (str_lines t)), foldl Db_add db (snd (npat_sigs 0 (str_lines t))))"
  by (simp add: extend_npat_def extend_lines_sigs)

lemma lookup_set:
  assumes "db_inv db" "db_inv db'" "set (db_sigs db) = set (db_sigs db')"
  shows "lookup_min_fixed db code k = lookup_min_fixed db' code k"
proof -
  have "\<exists>a. lookup_min_fixed db code k = Inr a" "\<exists>b. lookup_min_fixed db' code k = Inr b"
    using lookup_named [OF assms(1)] lookup_named [OF assms(2)] by blast+
  then obtain a b where ab: "lookup_min_fixed db code k = Inr a" "lookup_min_fixed db' code k = Inr b" by blast
  have "a = Some name \<longleftrightarrow> b = Some name" for name
    using lookup_named [OF assms(1), of code k name] lookup_named [OF assms(2), of code k name] ab assms(3) by auto
  then have "a = b" by (metis not_Some_eq)
  with ab show ?thesis by simp
qed

section \<open>The text of a pattern\<close>

lemma split_whitespace_word:
  "(\<And>c. c \<in> set w \<Longrightarrow> \<not> is_whitespace c) \<Longrightarrow> split_whitespace_from cur (w @ t) = split_whitespace_from (cur @ w) t"
  by (induction w arbitrary: cur) simp_all

lemma is_whitespace_blank [simp]: "is_whitespace 32"
  by (simp add: is_whitespace_def)

lemma split_join_blank:
  "list_all (\<lambda>w. w \<noteq> [] \<and> list_all (\<lambda>c. \<not> is_whitespace c) w) ws \<Longrightarrow> split_whitespace (join_blank ws) = ws"
  unfolding split_whitespace_def
proof (induction ws rule: join_blank.induct)
  case (2 w)
  then show ?case using split_whitespace_word [of w "[]" "[]"] by (simp add: list_all_iff)
next
  case (3 w u ws)
  then show ?case using split_whitespace_word [of w "[]" "32 # join_blank (u # ws)"] by (simp add: list_all_iff)
qed simp

lemma unat_u8_lt: "unat (v :: u8) < 256"
  using unsigned_less [where 'a = nat, of v] by simp

lemma hex_digit_char: "d < 16 \<Longrightarrow> to_digit16 (hex_digit_char d) = Some d \<and> \<not> is_whitespace (hex_digit_char d) \<and>
    hex_digit_char d \<notin> {43, 45, 46, 63} \<and> hex_digit_char d < 128"
  by (auto simp: hex_digit_char_def to_digit16_def is_whitespace_def)

lemma fixed_text:
  "u8_from_str_radix16 (pat_byte_text (Fixed v)) = Some v" "str_len (pat_byte_text (Fixed v)) = 2"
  "pat_byte_text (Fixed v) \<noteq> chars ''..''" "pat_byte_text (Fixed v) \<noteq> chars ''??''"
proof -
  have b: "unat v < 256" by (rule unat_u8_lt)
  then have d: "unat v div 16 < 16" "unat v mod 16 < 16" by auto
  note h = hex_digit_char [OF d(1)] hex_digit_char [OF d(2)]
  have "unat v div 16 * 16 + unat v mod 16 = unat v" by simp
  with h d b show "u8_from_str_radix16 (pat_byte_text (Fixed v)) = Some v"
    by (simp add: u8_from_str_radix16_def pat_byte_text_def)
  show "str_len (pat_byte_text (Fixed v)) = 2" using h by (simp add: str_len_def pat_byte_text_def len_utf8_def)
  show "pat_byte_text (Fixed v) \<noteq> chars ''..''" "pat_byte_text (Fixed v) \<noteq> chars ''??''"
    using h by (auto simp: chars_def pat_byte_text_def)
qed

lemma parse_tokens_text: "parse_tokens (map pat_byte_text ps) = Inr ps"
proof (induction ps)
  case (Cons b ps)
  then show ?case by (cases b) (simp_all add: fixed_text, simp add: pat_byte_text_def)
qed simp

lemma pat_byte_text_word: "pat_byte_text b \<noteq> [] \<and> list_all (\<lambda>c. \<not> is_whitespace c) (pat_byte_text b)"
proof (cases b)
  case (Fixed v)
  have "unat v < 256" by (rule unat_u8_lt)
  then have "unat v div 16 < 16" "unat v mod 16 < 16" by auto
  with Fixed show ?thesis by (simp add: pat_byte_text_def hex_digit_char)
qed (simp add: pat_byte_text_def chars_def is_whitespace_def)

lemma parse_to_npat: "Pattern_parse (to_npat p) = (if pat_bytes p = [] then Inl Empty else Inr p)"
proof -
  have "split_whitespace (to_npat p) = map pat_byte_text (pat_bytes p)"
    unfolding to_npat_def using pat_byte_text_word by (intro split_join_blank) (simp add: list_all_iff)
  then show ?thesis by (cases p) (simp add: Pattern_parse_def parse_tokens_text)
qed

section \<open>The pattern of a window\<close>

definition masked :: "(nat \<times> nat) list \<Rightarrow> nat \<Rightarrow> bool" where
  "masked wildcards i \<longleftrightarrow> (\<exists>(off, n) \<in> set wildcards. off \<le> i \<and> i < off + n)"

lemma fold_update_any:
  "length (fold (\<lambda>pos bs. bs[pos := Any]) ps bs) = length bs"
  "i < length bs \<Longrightarrow> fold (\<lambda>pos bs. bs[pos := Any]) ps bs ! i = (if i \<in> set ps then Any else bs ! i)"
  by (induction ps arbitrary: bs) (auto simp: nth_list_update)

lemma wild_ranges:
  assumes "length bs \<le> usize_MAX"
  shows "length (fold wild_range ws bs) = length bs \<and>
    (\<forall>i < length bs. fold wild_range ws bs ! i = (if masked ws i then Any else bs ! i))"
  using assms
proof (induction ws arbitrary: bs)
  case (Cons w ws)
  obtain off n where w: "w = (off, n)" by (cases w)
  have "length (wild_range w bs) = length bs" by (simp add: wild_range_def w fold_update_any(1))
  moreover have "wild_range w bs ! i = (if off \<le> i \<and> i < off + n then Any else bs ! i)" if "i < length bs" for i
  proof -
    have "i < saturating_add off n \<longleftrightarrow> i < off + n" using that Cons.prems unfolding saturating_add_def min_def by auto
    with that show ?thesis by (simp add: wild_range_def w fold_update_any(2))
  qed
  ultimately show ?case using Cons.IH [of "wild_range w bs"] Cons.prems by (auto simp: masked_def w)
qed (simp add: masked_def)

lemma trim_any_spec:
  "\<exists>n \<le> length bs. trim_any bs = take n bs \<and> (\<forall>i. n \<le> i \<and> i < length bs \<longrightarrow> bs ! i = Any) \<and> (0 < n \<longrightarrow> bs ! (n - 1) \<noteq> Any)"
proof (induction bs rule: trim_any.induct)
  case (1 bs)
  show ?case
  proof (cases "bs \<noteq> [] \<and> last bs = Any")
    case False
    then have "trim_any bs = bs" by (subst trim_any.simps, subst if_not_P [OF False]) (rule refl)
    with False show ?thesis by (intro exI [of _ "length bs"]) (auto simp: last_conv_nth)
  next
    case True
    then have t: "trim_any bs = trim_any (butlast bs)" by (subst trim_any.simps) simp
    from "1.IH" [OF True] obtain n where n: "n \<le> length (butlast bs)" "trim_any (butlast bs) = take n (butlast bs)"
      "\<forall>i. n \<le> i \<and> i < length (butlast bs) \<longrightarrow> butlast bs ! i = Any" "0 < n \<longrightarrow> butlast bs ! (n - 1) \<noteq> Any" by blast
    have "bs ! i = Any" if "n \<le> i" "i < length bs" for i
      using n(3) that True by (cases "i = length bs - 1") (auto simp: last_conv_nth nth_butlast)
    moreover have "0 < n \<longrightarrow> bs ! (n - 1) \<noteq> Any" using n(1,4) by (auto simp: nth_butlast)
    moreover have "n < length bs" using n(1) length_greater_0_conv [of bs] True by (simp add: length_butlast del: length_greater_0_conv)
    ultimately show ?thesis using n(1,2) t by (intro exI [of _ n]) (auto simp: take_butlast)
  qed
qed

lemma from_window_matches:
  assumes "length window \<le> usize_MAX"
  shows "\<exists>n \<le> length window. Pattern_len (from_window window ws) = n \<and>
    (\<forall>i. n \<le> i \<and> i < length window \<longrightarrow> masked ws i) \<and> (0 < n \<longrightarrow> \<not> masked ws (n - 1)) \<and>
    (\<forall>code. Pattern_matches (from_window window ws) code \<longleftrightarrow>
       n \<le> length code \<and> (\<forall>i < n. masked ws i \<or> code ! i = window ! i))"
proof -
  define bs where "bs = fold wild_range ws (map Fixed window)"
  have len: "length bs = length window" and nth: "\<And>i. i < length window \<Longrightarrow> bs ! i = (if masked ws i then Any else Fixed (window ! i))"
    using wild_ranges [of "map Fixed window" ws] assms by (simp_all add: bs_def)
  obtain n where n: "n \<le> length bs" "trim_any bs = take n bs" "\<forall>i. n \<le> i \<and> i < length bs \<longrightarrow> bs ! i = Any" "0 < n \<longrightarrow> bs ! (n - 1) \<noteq> Any"
    using trim_any_spec by blast
  have p: "pat_bytes (from_window window ws) = take n bs" by (simp add: from_window_def bs_def [symmetric] n(2))
  have "Pattern_matches (from_window window ws) code \<longleftrightarrow> n \<le> length code \<and> (\<forall>i < n. masked ws i \<or> code ! i = window ! i)" for code
  proof -
    have "Pattern_matches (from_window window ws) code \<longleftrightarrow> n \<le> length code \<and> (\<forall>i < n. pat_byte_matches (bs ! i) (code ! i))"
      using n(1) by (auto simp: Pattern_matches_def p list_all_length min_def)
    also have "\<dots> \<longleftrightarrow> n \<le> length code \<and> (\<forall>i < n. masked ws i \<or> code ! i = window ! i)"
      using n(1) len nth by (auto simp: pat_byte_matches_def)
    finally show ?thesis .
  qed
  moreover have "masked ws i" if "n \<le> i" "i < length window" for i using n(3) nth [OF that(2)] that len by (auto split: if_splits)
  moreover have "\<not> masked ws (n - 1)" if "0 < n" using n(1,4) nth [of "n - 1"] that len by (auto split: if_splits)
  ultimately show ?thesis using n(1) len by (intro exI [of _ n]) (auto simp: Pattern_len_def p)
qed

end
