(* ===== verification/Dom.thy ===== *)
theory Dom
  imports Prelude
begin

text \<open>
  Dominator trees, \<open>src/crates/n0xis-core/src/dom.rs\<close>: the block graph of a function, the
  immediate dominators in reverse post-order, the intervals of a walk of the tree, forward and
  reverse, and dominance frontiers.

  A vector is a list, and an index past its end, which stops the Rust program, is a value
  \<open>Inl (OutOfRange i n)\<close>; so is a clock that overflows. A loop that ends by its shape is a total
  function. A loop whose end depends on the data (the climb in the tree, the passes up to a fixed
  point, the walk of the tree) is a partial function to an option, where \<open>None\<close> means that it does
  not return.
\<close>

section \<open>Stops and runs\<close>

datatype Stop = OutOfRange nat nat | ClockOverflow

type_synonym 'a run = "(Stop + 'a) option"

definition idx :: "'a list \<Rightarrow> nat \<Rightarrow> Stop + 'a" where
  "idx xs i = (if i < length xs then Inr (xs ! i) else Inl (OutOfRange i (length xs)))"

definition sbind :: "Stop + 'a \<Rightarrow> ('a \<Rightarrow> Stop + 'b) \<Rightarrow> Stop + 'b" where
  "sbind x f = (case x of Inl e \<Rightarrow> Inl e | Inr y \<Rightarrow> f y)"

lemma sbind_simps [simp]: "sbind (Inl e) f = Inl e" "sbind (Inr x) f = f x"
  by (simp_all add: sbind_def)

definition obind :: "'a run \<Rightarrow> ('a \<Rightarrow> 'b run) \<Rightarrow> 'b run" where
  "obind x f = (case x of None \<Rightarrow> None | Some (Inl e) \<Rightarrow> Some (Inl e) | Some (Inr y) \<Rightarrow> f y)"

lemma obind_simps [simp]: "obind None f = None" "obind (Some (Inl e)) f = Some (Inl e)" "obind (Some (Inr x)) f = f x"
  by (simp_all add: obind_def)

section \<open>The block graph\<close>

text \<open>The confidence is an \<open>f32\<close>, by its bits; nothing here reads it.\<close>

record Successor =
  sc_to :: u64
  sc_kind :: string
  sc_confidence :: u32

type_synonym graph = "nat list list"

text \<open>\<open>succ[i].push(j)\<close> and the like.\<close>

definition push_at :: "nat \<Rightarrow> 'a \<Rightarrow> 'a list list \<Rightarrow> 'a list list" where
  "push_at i x xss = xss[i := xss ! i @ [x]]"

text \<open>The address map: of two blocks with one start the later stays.\<close>

definition addr_to_idx :: "(u64 \<times> Successor list) list \<Rightarrow> u64 \<rightharpoonup> nat" where
  "addr_to_idx blocks = map_of (rev (zip (map fst blocks) [0..<length blocks]))"

fun link_successors :: "(u64 \<rightharpoonup> nat) \<Rightarrow> nat \<Rightarrow> Successor list \<Rightarrow> graph \<times> graph \<Rightarrow> graph \<times> graph" where
  "link_successors at i [] st = st"
| "link_successors at i (s # ss) (succ, pred) = (case at (sc_to s) of
     Some j \<Rightarrow> link_successors at i ss (push_at i j succ, push_at j i pred)
   | None \<Rightarrow> link_successors at i ss (succ, pred))"

definition block_graph_of :: "(u64 \<times> Successor list) list \<Rightarrow> graph \<times> graph" where
  "block_graph_of blocks = (let n = length blocks; at = addr_to_idx blocks in
     fold (\<lambda>(i, b). link_successors at i (snd b)) (zip [0..<n] blocks) (replicate n [], replicate n []))"

section \<open>Immediate dominators\<close>

definition NO_BLOCK :: nat where
  "NO_BLOCK = usize_MAX"

text \<open>The walk that numbers blocks in post-order; the top of the stack comes first.\<close>

definition unseen_work :: "graph \<Rightarrow> bool list \<Rightarrow> nat" where
  "unseen_work succ seen = sum_list (map (\<lambda>i. if seen ! i then 0 else length (succ ! i) + 1) [0..<length seen])"

definition stack_work :: "graph \<Rightarrow> (nat \<times> nat) list \<Rightarrow> nat" where
  "stack_work succ stack = sum_list (map (\<lambda>(b, next). Suc (length (succ ! b) - next)) stack)"

lemma unseen_work_see:
  assumes "s < length seen" "\<not> seen ! s"
  shows "unseen_work succ (seen[s := True]) + (length (succ ! s) + 1) = unseen_work succ seen"
proof -
  let ?f = "\<lambda>seen i. if seen ! i then 0 else length (succ ! i) + 1"
  have split: "[0..<length seen] = [0..<s] @ s # [Suc s..<length seen]"
    using assms(1) upt_add_eq_append [of 0 s "length seen - s"] upt_conv_Cons [OF assms(1)] by simp
  have "map (?f (seen[s := True])) [0..<s] = map (?f seen) [0..<s]"
    "map (?f (seen[s := True])) [Suc s..<length seen] = map (?f seen) [Suc s..<length seen]" by simp_all
  then have "map (?f (seen[s := True])) [0..<length seen] = map (?f seen) [0..<s] @ 0 # map (?f seen) [Suc s..<length seen]"
    unfolding split map_append list.map using assms by simp
  moreover have "map (?f seen) [0..<length seen] = map (?f seen) [0..<s] @ (length (succ ! s) + 1) # map (?f seen) [Suc s..<length seen]"
    unfolding split map_append list.map using assms by simp
  ultimately show ?thesis unfolding unseen_work_def length_list_update by (simp del: map_append list.map)
qed

function walk :: "graph \<Rightarrow> bool list \<Rightarrow> nat list \<Rightarrow> nat list \<Rightarrow> (nat \<times> nat) list \<Rightarrow>
    Stop + (bool list \<times> nat list \<times> nat list)" where
  "walk succ seen post_number post_order [] = Inr (seen, post_number, post_order)"
| "walk succ seen post_number post_order ((b, next) # stack) =
     (if length succ \<le> b then Inl (OutOfRange b (length succ))
      else if next < length (succ ! b) then
        let s = succ ! b ! next in
        if length seen \<le> s then Inl (OutOfRange s (length seen))
        else if seen ! s then walk succ seen post_number post_order ((b, next + 1) # stack)
        else walk succ (seen[s := True]) post_number post_order ((s, 0) # (b, next + 1) # stack)
      else if length post_number \<le> b then Inl (OutOfRange b (length post_number))
      else walk succ seen (post_number[b := length post_order]) (post_order @ [b]) stack)"
  by pat_completeness auto
termination
proof (relation "measure (\<lambda>(succ, seen, post_number, post_order, stack). unseen_work succ seen + stack_work succ stack)",
    goal_cases)
  case (3 succ seen post_number post_order b "next" stack s)
  with unseen_work_see [of s seen succ] show ?case by (simp add: stack_work_def)
qed (auto simp: stack_work_def)

text \<open>The closure \<open>meet\<close>: its two inner loops climb from one block to the height of the other.\<close>

partial_function (option) climb :: "nat list \<Rightarrow> nat list \<Rightarrow> nat \<Rightarrow> nat \<Rightarrow> nat run" where
  "climb post_number idom a b = (case idx post_number a of
     Inl e \<Rightarrow> Some (Inl e)
   | Inr x \<Rightarrow> (case idx post_number b of
       Inl e \<Rightarrow> Some (Inl e)
     | Inr y \<Rightarrow>
         if x < y then (case idx idom a of Inl e \<Rightarrow> Some (Inl e) | Inr a' \<Rightarrow> climb post_number idom a' b)
         else Some (Inr a)))"

partial_function (option) meet :: "nat list \<Rightarrow> nat list \<Rightarrow> nat \<Rightarrow> nat \<Rightarrow> nat run" where
  "meet post_number idom a b =
     (if a = b then Some (Inr a)
      else case climb post_number idom a b of
        None \<Rightarrow> None
      | Some (Inl e) \<Rightarrow> Some (Inl e)
      | Some (Inr a') \<Rightarrow> (case climb post_number idom b a' of
          None \<Rightarrow> None
        | Some (Inl e) \<Rightarrow> Some (Inl e)
        | Some (Inr b') \<Rightarrow> meet post_number idom a' b'))"

text \<open>The loop over the predecessors of a block, the ones without a dominator yet left out.\<close>

fun meet_preds :: "nat list \<Rightarrow> nat list \<Rightarrow> nat \<Rightarrow> nat list \<Rightarrow> nat run" where
  "meet_preds post_number idom new [] = Some (Inr new)"
| "meet_preds post_number idom new (p # ps) = (case idx idom p of
     Inl e \<Rightarrow> Some (Inl e)
   | Inr d \<Rightarrow>
       if d = NO_BLOCK then meet_preds post_number idom new ps
       else if new = NO_BLOCK then meet_preds post_number idom p ps
       else obind (meet post_number idom p new) (\<lambda>new'. meet_preds post_number idom new' ps))"

text \<open>One pass over the blocks in reverse post-order.\<close>

fun settle_pass :: "nat list \<Rightarrow> graph \<Rightarrow> nat list \<Rightarrow> bool \<Rightarrow> nat list \<Rightarrow> (nat list \<times> bool) run" where
  "settle_pass post_number pred idom changed [] = Some (Inr (idom, changed))"
| "settle_pass post_number pred idom changed (b # bs) = (case idx pred b of
     Inl e \<Rightarrow> Some (Inl e)
   | Inr ps \<Rightarrow> obind (meet_preds post_number idom NO_BLOCK ps) (\<lambda>new. case idx idom b of
       Inl e \<Rightarrow> Some (Inl e)
     | Inr old \<Rightarrow>
         if old \<noteq> new then settle_pass post_number pred (idom[b := new]) True bs
         else settle_pass post_number pred idom changed bs))"

partial_function (option) settle :: "nat list \<Rightarrow> graph \<Rightarrow> nat list \<Rightarrow> nat list \<Rightarrow> nat list run" where
  "settle post_number pred blocks idom = (case settle_pass post_number pred idom False blocks of
     None \<Rightarrow> None
   | Some (Inl e) \<Rightarrow> Some (Inl e)
   | Some (Inr (idom', changed)) \<Rightarrow> if changed then settle post_number pred blocks idom' else Some (Inr idom'))"

definition some_block :: "nat \<Rightarrow> nat option" where
  "some_block d = (if d \<noteq> NO_BLOCK then Some d else None)"

definition immediate_tree :: "nat \<Rightarrow> graph \<Rightarrow> graph \<Rightarrow> nat option list run" where
  "immediate_tree root succ pred = (let n = length succ in
     if n \<le> root then Some (Inl (OutOfRange root n))
     else case walk succ ((replicate n False)[root := True]) (replicate n 0) [] [(root, 0)] of
       Inl e \<Rightarrow> Some (Inl e)
     | Inr (seen, post_number, post_order) \<Rightarrow>
         obind (settle post_number pred (tl (rev post_order)) ((replicate n NO_BLOCK)[root := root])) (\<lambda>idom.
           Some (Inr (map some_block (idom[root := NO_BLOCK])))))"

section \<open>The tree\<close>

fun add_children :: "nat \<Rightarrow> nat option list \<Rightarrow> graph \<Rightarrow> Stop + graph" where
  "add_children i [] children = Inr children"
| "add_children i (None # ps) children = add_children (i + 1) ps children"
| "add_children i (Some p # ps) children =
     (if p < length children then add_children (i + 1) ps (push_at p i children)
      else Inl (OutOfRange p (length children)))"

definition dom_children :: "nat option list \<Rightarrow> Stop + graph" where
  "dom_children idom = add_children 0 idom (replicate (length idom) [])"

type_synonym spans = "(u32 \<times> u32) option list"

text \<open>\<open>clock += 1\<close>.\<close>

definition tick :: "u32 \<Rightarrow> Stop + u32" where
  "tick clock = (if unat clock < u32_MAX then Inr (clock + 1) else Inl ClockOverflow)"

type_synonym tree_stack = "(nat \<times> nat \<times> u32) list"

text \<open>One turn of the loop, on a stack that is not empty.\<close>

definition tree_turn :: "graph \<Rightarrow> u32 \<Rightarrow> spans \<Rightarrow> nat \<times> nat \<times> u32 \<Rightarrow> tree_stack \<Rightarrow> Stop + u32 \<times> spans \<times> tree_stack" where
  "tree_turn children clock spans entry rest = (case entry of (b, next, entered) \<Rightarrow>
     sbind (idx children b) (\<lambda>cs. sbind (tick clock) (\<lambda>clock'.
       if next < length cs then Inr (clock', spans, (cs ! next, 0, clock') # (b, next + 1, entered) # rest)
       else if b < length spans then Inr (clock', spans[b := Some (entered, clock')], rest)
       else Inl (OutOfRange b (length spans)))))"

partial_function (option) walk_tree :: "graph \<Rightarrow> u32 \<Rightarrow> spans \<Rightarrow> tree_stack \<Rightarrow> spans run" where
  "walk_tree children clock spans stack = (if stack = [] then Some (Inr spans)
     else case tree_turn children clock spans (hd stack) (tl stack) of
       Inl e \<Rightarrow> Some (Inl e)
     | Inr next \<Rightarrow> walk_tree children (fst next) (fst (snd next)) (snd (snd next)))"

definition tree_spans :: "nat \<Rightarrow> nat option list \<Rightarrow> spans run" where
  "tree_spans root idom = (case dom_children idom of
     Inl e \<Rightarrow> Some (Inl e)
   | Inr children \<Rightarrow> walk_tree children 0 (replicate (length idom) None) [(root, 0, 0)])"

datatype Unreached = OnlyItself | Everything

record DomTree =
  dt_idom :: "nat option list"
  dt_spans :: spans
  dt_unreached :: Unreached

definition dominates :: "DomTree \<Rightarrow> nat \<Rightarrow> nat \<Rightarrow> Stop + bool" where
  "dominates t a b = (if a = b then Inr True
     else sbind (idx (dt_spans t) a) (\<lambda>sa. sbind (idx (dt_spans t) b) (\<lambda>sb. Inr (case (sa, sb) of
       (_, None) \<Rightarrow> dt_unreached t = Everything
     | (None, Some _) \<Rightarrow> False
     | (Some (a_in, a_out), Some (b_in, b_out)) \<Rightarrow> a_in \<le> b_in \<and> b_out \<le> a_out))))"

text \<open>The successors \<open>forward\<close> builds from the predecessors.\<close>

definition forward_succ :: "nat \<Rightarrow> graph \<Rightarrow> graph" where
  "forward_succ n pred = fold (\<lambda>(i, ps) succ. fold (\<lambda>p. push_at p i) (filter (\<lambda>p. p < n) ps) succ)
     (zip [0..<n] pred) (replicate n [])"

definition DomTree_forward :: "nat \<Rightarrow> graph \<Rightarrow> DomTree run" where
  "DomTree_forward n pred =
     (if n = 0 then Some (Inr \<lparr>dt_idom = [], dt_spans = [], dt_unreached = OnlyItself\<rparr>)
      else obind (immediate_tree 0 (forward_succ n pred) pred) (\<lambda>idom.
        obind (tree_spans 0 idom) (\<lambda>spans. Some (Inr \<lparr>dt_idom = idom, dt_spans = spans, dt_unreached = OnlyItself\<rparr>))))"

text \<open>The edges of \<open>reverse\<close>: the virtual exit is block \<open>n\<close>.\<close>

definition push_checked :: "nat \<Rightarrow> 'a \<Rightarrow> 'a list list \<Rightarrow> Stop + 'a list list" where
  "push_checked i x xss = (if i < length xss then Inr (push_at i x xss) else Inl (OutOfRange i (length xss)))"

definition leads_out :: "graph \<Rightarrow> bool list \<Rightarrow> bool list \<Rightarrow> nat \<Rightarrow> Stop + bool" where
  "leads_out succ is_exit is_abort i = sbind (idx is_exit i) (\<lambda>e.
     if e then Inr True
     else sbind (idx succ i) (\<lambda>ss. if ss = [] then sbind (idx is_abort i) (\<lambda>a. Inr (\<not> a)) else Inr False))"

fun reverse_successors :: "nat \<Rightarrow> nat list \<Rightarrow> graph \<times> graph \<Rightarrow> Stop + graph \<times> graph" where
  "reverse_successors i [] g = Inr g"
| "reverse_successors i (s # ss) (rpred, rsucc) =
     sbind (push_checked i s rpred) (\<lambda>rpred'. sbind (push_checked s i rsucc) (\<lambda>rsucc'. reverse_successors i ss (rpred', rsucc')))"

fun reverse_edges :: "nat \<Rightarrow> graph \<Rightarrow> bool list \<Rightarrow> bool list \<Rightarrow> nat list \<Rightarrow> graph \<times> graph \<Rightarrow> Stop + graph \<times> graph" where
  "reverse_edges exit succ is_exit is_abort [] g = Inr g"
| "reverse_edges exit succ is_exit is_abort (i # is') (rpred, rsucc) = sbind (leads_out succ is_exit is_abort i) (\<lambda>out.
     sbind (if out
            then sbind (push_checked i exit rpred) (\<lambda>rpred'. sbind (push_checked exit i rsucc) (\<lambda>rsucc'. Inr (rpred', rsucc')))
            else Inr (rpred, rsucc)) (\<lambda>g.
       sbind (idx succ i) (\<lambda>ss. sbind (reverse_successors i ss g) (reverse_edges exit succ is_exit is_abort is'))))"

fun all_checked :: "('a \<Rightarrow> Stop + bool) \<Rightarrow> 'a list \<Rightarrow> Stop + bool" where
  "all_checked f [] = Inr True"
| "all_checked f (x # xs) = sbind (f x) (\<lambda>ok. if ok then all_checked f xs else Inr False)"

fun find_checked :: "('a \<Rightarrow> Stop + bool) \<Rightarrow> 'a list \<Rightarrow> Stop + 'a option" where
  "find_checked f [] = Inr None"
| "find_checked f (x # xs) = sbind (f x) (\<lambda>ok. if ok then Inr (Some x) else find_checked f xs)"

text \<open>The loop over the blocks with no path to an exit.\<close>

fun settle_unreached :: "nat \<Rightarrow> nat list \<Rightarrow> DomTree \<Rightarrow> Stop + DomTree" where
  "settle_unreached n [] t = Inr t"
| "settle_unreached n (i # is') t =
     sbind (find_checked (\<lambda>c. all_checked (\<lambda>d. dominates t d c) (filter (\<lambda>d. d \<noteq> i \<and> d \<noteq> c) [0..<n]))
         (filter (\<lambda>c. c \<noteq> i) [0..<n])) (\<lambda>found.
       if i < length (dt_idom t) then settle_unreached n is' (t\<lparr>dt_idom := (dt_idom t)[i := found]\<rparr>)
       else Inl (OutOfRange i (length (dt_idom t))))"

fun unreached_blocks :: "spans \<Rightarrow> nat list \<Rightarrow> Stop + nat list" where
  "unreached_blocks spans [] = Inr []"
| "unreached_blocks spans (i # is') = sbind (idx spans i) (\<lambda>s.
     sbind (unreached_blocks spans is') (\<lambda>rest. Inr (if s = None then i # rest else rest)))"

definition DomTree_reverse :: "nat \<Rightarrow> graph \<Rightarrow> bool list \<Rightarrow> bool list \<Rightarrow> DomTree run" where
  "DomTree_reverse n succ is_exit is_abort =
     (if n = 0 then Some (Inr \<lparr>dt_idom = [], dt_spans = [], dt_unreached = Everything\<rparr>)
      else case reverse_edges n succ is_exit is_abort [0..<n] (replicate (n + 1) [], replicate (n + 1) []) of
        Inl e \<Rightarrow> Some (Inl e)
      | Inr (rpred, rsucc) \<Rightarrow> obind (immediate_tree n rsucc rpred) (\<lambda>idom.
          obind (tree_spans n idom) (\<lambda>spans.
            let idom' = map (\<lambda>d. if d = Some n then None else d) (take n idom);
                t = \<lparr>dt_idom = idom', dt_spans = spans, dt_unreached = Everything\<rparr>
            in Some (sbind (unreached_blocks spans [0..<n]) (\<lambda>is'. settle_unreached n is' t)))))"

section \<open>Dominance frontiers\<close>

text \<open>The walk up from one predecessor of \<open>b\<close>, with the guard \<open>seen\<close> that ends it on any input.\<close>

lemma filter_not_less: "i < length bs \<Longrightarrow> \<not> bs ! i \<Longrightarrow> length (filter Not (bs[i := True])) < length (filter Not bs)"
proof (induction bs arbitrary: i)
  case (Cons b bs)
  then show ?case by (cases i) (auto split: if_splits)
qed simp

function run_up :: "nat \<Rightarrow> nat option list \<Rightarrow> bool list \<Rightarrow> nat \<Rightarrow> nat set list \<Rightarrow> Stop + nat set list" where
  "run_up b idom seen runner df =
     (if length idom \<le> b then Inl (OutOfRange b (length idom))
      else if idom ! b = Some runner then Inr df
      else if length seen \<le> runner then Inl (OutOfRange runner (length seen))
      else if seen ! runner then Inr df
      else if length df \<le> runner then Inl (OutOfRange runner (length df))
      else if length idom \<le> runner then Inl (OutOfRange runner (length idom))
      else case idom ! runner of
        None \<Rightarrow> Inr (df[runner := insert b (df ! runner)])
      | Some up \<Rightarrow> run_up b idom (seen[runner := True]) up (df[runner := insert b (df ! runner)]))"
  by pat_completeness auto
termination
proof (relation "measure (\<lambda>(b, idom, seen, runner, df). length (filter Not seen))", goal_cases)
  case (2 b idom seen runner df up)
  then have "length (filter Not (seen[runner := True])) < length (filter Not seen)"
    by (intro filter_not_less) auto
  then show ?case by simp
qed simp

declare run_up.simps [simp del]

fun frontier_preds :: "nat \<Rightarrow> nat option list \<Rightarrow> nat list \<Rightarrow> nat set list \<Rightarrow> Stop + nat set list" where
  "frontier_preds b idom [] df = Inr df"
| "frontier_preds b idom (p # ps) df =
     sbind (run_up b idom (replicate (length idom) False) p df) (frontier_preds b idom ps)"

fun frontier_from :: "graph \<Rightarrow> nat option list \<Rightarrow> nat list \<Rightarrow> nat set list \<Rightarrow> Stop + nat set list" where
  "frontier_from pred idom [] df = Inr df"
| "frontier_from pred idom (b # bs) df = sbind (idx pred b) (\<lambda>ps.
     sbind (if length ps < 2 then Inr df else frontier_preds b idom ps df) (frontier_from pred idom bs))"

definition dominance_frontier :: "nat \<Rightarrow> graph \<Rightarrow> nat option list \<Rightarrow> Stop + nat set list" where
  "dominance_frontier n pred idom = frontier_from pred idom [0..<n] (replicate n {})"

end
