(* ===== verification/Dom_Chain.thy ===== *)
theory Dom_Chain
  imports Main
begin

text \<open>
  Chains of a partial parent function: the blocks above a block. Heights, given by numbers that
  grow from child to parent, order a chain; moving one block under another parent changes the
  chains that pass through it, and no others.
\<close>

section \<open>Chains\<close>

definition anc :: "(nat \<rightharpoonup> nat) \<Rightarrow> nat \<Rightarrow> nat set" where
  "anc f x = {(x, y). f x = Some y}\<^sup>* `` {x}"

lemma anc_self [simp, intro]: "x \<in> anc f x"
  by (simp add: anc_def)

lemma anc_unfold: "anc f x = insert x (case f x of None \<Rightarrow> {} | Some y \<Rightarrow> anc f y)"
  by (auto simp: anc_def elim: converse_rtranclE intro: converse_rtrancl_into_rtrancl split: option.split)

lemma anc_None: "f x = None \<Longrightarrow> anc f x = {x}"
  by (subst anc_unfold) simp

lemma anc_Some: "f x = Some y \<Longrightarrow> anc f x = insert x (anc f y)"
  by (subst anc_unfold) simp

lemma anc_trans: "y \<in> anc f x \<Longrightarrow> z \<in> anc f y \<Longrightarrow> z \<in> anc f x"
  by (auto simp: anc_def)

lemma anc_step: "y \<in> anc f x \<Longrightarrow> f y = Some z \<Longrightarrow> z \<in> anc f x"
  by (auto simp: anc_def intro: rtrancl_into_rtrancl)

lemma anc_linear: "y \<in> anc f x \<Longrightarrow> z \<in> anc f x \<Longrightarrow> y \<in> anc f z \<or> z \<in> anc f y"
  using single_valued_confluent [of "{(x, y). f x = Some y}" x y z] by (auto simp: anc_def single_valued_def)

lemma anc_induct [consumes 1, case_names self step]:
  assumes "b \<in> anc f x" "P b" "\<And>x y. f x = Some y \<Longrightarrow> b \<in> anc f y \<Longrightarrow> P y \<Longrightarrow> P x"
  shows "P x"
proof -
  have "(x, b) \<in> {(x, y). f x = Some y}\<^sup>*" using assms(1) by (simp add: anc_def)
  then show ?thesis by (induction rule: converse_rtrancl_induct) (auto intro: assms simp: anc_def)
qed

definition climbs :: "(nat \<Rightarrow> nat) \<Rightarrow> (nat \<rightharpoonup> nat) \<Rightarrow> bool" where
  "climbs h f \<longleftrightarrow> (\<forall>x y. f x = Some y \<longrightarrow> h x < h y)"

lemma anc_height: "climbs h f \<Longrightarrow> y \<in> anc f x \<Longrightarrow> y = x \<or> h x < h y"
  by (rotate_tac, induction rule: anc_induct) (auto simp: climbs_def intro: less_trans)

lemma anc_height_le: "climbs h f \<Longrightarrow> y \<in> anc f x \<Longrightarrow> h x \<le> h y"
  using anc_height by fastforce

lemma anc_above:
  assumes "climbs h f" "y \<in> anc f x" "z \<in> anc f x" "h y \<le> h z"
  shows "z \<in> anc f y"
  using anc_linear [OF assms(2,3)] anc_height [OF assms(1), of y z] assms(4) by auto

lemma anc_same: "climbs h f \<Longrightarrow> anc f x = anc f y \<Longrightarrow> x = y"
  using anc_height [of h f x y] anc_height [of h f y x] anc_self [of x f] anc_self [of y f] by auto

section \<open>Moving a block\<close>

lemma anc_move_other:
  assumes "b \<notin> anc f x"
  shows "anc (f(b := v)) x = anc f x"
proof
  show "anc (f(b := v)) x \<subseteq> anc f x"
  proof
    fix z assume "z \<in> anc (f(b := v)) x"
    then have "(x, z) \<in> {(x, y). (f(b := v)) x = Some y}\<^sup>*" by (simp add: anc_def)
    then show "z \<in> anc f x"
    proof (induction rule: rtrancl_induct)
      case (step y z)
      with assms have "y \<noteq> b" by auto
      with step have "f y = Some z" by simp
      with step.IH show ?case by (rule anc_step)
    qed simp
  qed
  show "anc f x \<subseteq> anc (f(b := v)) x"
  proof
    fix z assume "z \<in> anc f x"
    then have "(x, z) \<in> {(x, y). f x = Some y}\<^sup>*" by (simp add: anc_def)
    then show "z \<in> anc (f(b := v)) x"
    proof (induction rule: rtrancl_induct)
      case (step y z)
      then have "y \<in> anc f x" by (simp add: anc_def)
      with assms have "y \<noteq> b" by auto
      with step have "(f(b := v)) y = Some z" by simp
      with step.IH show ?case by (rule anc_step)
    qed simp
  qed
qed

lemma anc_move_self:
  assumes "climbs h f" "h b < h w"
  shows "anc (f(b \<mapsto> w)) b = insert b (anc f w)"
proof -
  have "b \<notin> anc f w" using anc_height_le [OF assms(1), of b w] assms(2) by auto
  then show ?thesis using anc_Some [of "f(b \<mapsto> w)" b w] by (simp add: anc_move_other)
qed

lemma anc_move_below:
  assumes "climbs h f" "h b < h w" "b \<in> anc f x"
  shows "anc (f(b \<mapsto> w)) x = {z \<in> anc f x. h z < h b} \<union> insert b (anc f w)"
  using assms(3)
proof (induction rule: anc_induct)
  case self
  have "{z \<in> anc f b. h z < h b} = {}" using anc_height_le [OF assms(1)] by (auto simp: not_less)
  then show ?case unfolding anc_move_self [OF assms(1,2)] by blast
next
  case (step x y)
  have "h x < h b" using anc_height_le [OF assms(1) step.hyps(2)] step.hyps(1) assms(1) by (auto simp: climbs_def intro: less_le_trans)
  then have "x \<noteq> b" by auto
  then have new: "anc (f(b \<mapsto> w)) x = insert x (anc (f(b \<mapsto> w)) y)" using step.hyps(1) by (intro anc_Some) simp
  have old: "anc f x = insert x (anc f y)" by (rule anc_Some) (rule step.hyps(1))
  show ?case unfolding new old step.IH using \<open>h x < h b\<close> by blast
qed

lemma climbs_move: "climbs h f \<Longrightarrow> h b < h w \<Longrightarrow> climbs h (f(b \<mapsto> w))"
  by (simp add: climbs_def)

text \<open>Moving a block up, or giving a block a first parent, lets no chain grow but its own.\<close>

lemma anc_move_subset:
  assumes "climbs h f" "h b < h w" "\<And>y. f b = Some y \<Longrightarrow> w \<in> anc f y" "f b = None \<Longrightarrow> b \<notin> anc f x"
  shows "anc (f(b \<mapsto> w)) x \<subseteq> anc f x"
proof (cases "b \<in> anc f x")
  case False
  then show ?thesis by (simp add: anc_move_other)
next
  case True
  with assms(4) obtain y where y: "f b = Some y" by (cases "f b") auto
  have "anc f w \<subseteq> anc f b" using assms(3) [OF y] anc_Some [of f b y] y by (auto intro: anc_trans)
  with True show ?thesis unfolding anc_move_below [OF assms(1,2) True] by (auto intro: anc_trans)
qed

section \<open>The meeting of chains\<close>

definition meets :: "(nat \<rightharpoonup> nat) \<Rightarrow> nat set \<Rightarrow> nat \<Rightarrow> bool" where
  "meets f S w \<longleftrightarrow> anc f w = (\<Inter>p \<in> S. anc f p)"

lemma meets_singleton [simp]: "meets f {p} p"
  by (simp add: meets_def)

lemma meets_insert: "meets f S v \<Longrightarrow> anc f w = anc f p \<inter> anc f v \<Longrightarrow> meets f (insert p S) w"
  by (auto simp: meets_def)

lemma meets_in: "meets f S w \<Longrightarrow> p \<in> S \<Longrightarrow> w \<in> anc f p"
  using anc_self [of w f] by (auto simp: meets_def)

end
