(* ===== verification/Dom_Order.thy ===== *)
theory Dom_Order
  imports Dom_Chain
begin

text \<open>
  Dominance by its definition, over all paths from the root, and the invariant under which the
  blocks of a graph are settled one after the other in reverse post-order. A pass moves blocks up
  only, keeps every dominator on the chain of a block, and a pass that moves nothing leaves
  chains of exactly the dominators.
\<close>

section \<open>Dominance\<close>

inductive trail :: "(nat \<times> nat) set \<Rightarrow> nat \<Rightarrow> nat list \<Rightarrow> nat \<Rightarrow> bool" for E root where
  trail_root: "trail E root [root] root"
| trail_step: "trail E root vs p \<Longrightarrow> (p, b) \<in> E \<Longrightarrow> trail E root (vs @ [b]) b"

definition doms :: "(nat \<times> nat) set \<Rightarrow> nat \<Rightarrow> nat \<Rightarrow> nat set" where
  "doms E root x = {d. \<forall>vs. trail E root vs x \<longrightarrow> d \<in> set vs}"

lemma doms_pred: "(p, b) \<in> E \<Longrightarrow> d \<in> doms E root b \<Longrightarrow> d \<noteq> b \<Longrightarrow> d \<in> doms E root p"
  by (fastforce simp: doms_def dest: trail_step)

text \<open>
  The order the walk gives: numbers that tell the reached blocks apart, highest at the root, and
  for every other block a predecessor with a higher number.
\<close>

definition numbered :: "(nat \<times> nat) set \<Rightarrow> nat \<Rightarrow> nat set \<Rightarrow> (nat \<Rightarrow> nat) \<Rightarrow> (nat \<Rightarrow> nat) \<Rightarrow> bool" where
  "numbered E root R post par \<longleftrightarrow> finite R \<and> root \<in> R \<and> inj_on post R \<and> (\<forall>x \<in> R - {root}. post x < post root) \<and>
     (\<forall>p b. (p, b) \<in> E \<longrightarrow> p \<in> R \<longrightarrow> b \<in> R) \<and>
     (\<forall>x \<in> R - {root}. par x \<in> R \<and> (par x, x) \<in> E \<and> post x < post (par x))"

lemma numberedD:
  assumes "numbered E root R post par"
  shows "finite R" "root \<in> R" "inj_on post R" "x \<in> R \<Longrightarrow> x \<noteq> root \<Longrightarrow> post x < post root" "(p, b) \<in> E \<Longrightarrow> p \<in> R \<Longrightarrow> b \<in> R"
    "x \<in> R \<Longrightarrow> x \<noteq> root \<Longrightarrow> par x \<in> R" "x \<in> R \<Longrightarrow> x \<noteq> root \<Longrightarrow> (par x, x) \<in> E"
    "x \<in> R \<Longrightarrow> x \<noteq> root \<Longrightarrow> post x < post (par x)"
  using assms by (auto simp: numbered_def)

definition tree :: "nat \<Rightarrow> nat set \<Rightarrow> (nat \<Rightarrow> nat) \<Rightarrow> nat \<rightharpoonup> nat" where
  "tree root R par x = (if x \<in> R - {root} then Some (par x) else None)"

lemma tree_climbs: "numbered E root R post par \<Longrightarrow> climbs post (tree root R par)"
  by (auto simp: climbs_def tree_def numbered_def)

text \<open>A dominator above a block on the tree dominates the blocks below the block only if it dominates it.\<close>

lemma doms_below:
  assumes "numbered E root R post par" "b \<in> anc (tree root R par) x" "z \<in> doms E root x" "post b < post z"
  shows "z \<in> doms E root b"
  using assms(2,3)
proof (induction rule: anc_induct)
  case (step x y)
  then have x: "x \<in> R - {root}" "y = par x" by (auto simp: tree_def split: if_splits)
  then have e: "(y, x) \<in> E" using assms(1) by (auto simp: numbered_def)
  have "post x < post (par x)" using numberedD(8) [OF assms(1)] x(1) by blast
  then have "post x \<le> post b" using anc_height_le [OF tree_climbs [OF assms(1)] step.hyps(2)] x(2) by simp
  with assms(4) have "z \<noteq> x" by auto
  with doms_pred [OF e step.prems] step.IH show ?case by blast
qed

section \<open>Settling\<close>

abbreviation placed :: "nat \<Rightarrow> (nat \<rightharpoonup> nat) \<Rightarrow> nat set" where
  "placed root f \<equiv> insert root (dom f)"

text \<open>
  The state of a pass that has settled the blocks numbered \<open>t\<close> and higher. Chains end at the root
  inside the placed blocks (first three), keep within the tree and keep every dominator; a
  block's parent is not above the meeting of its placed predecessors; what its tree parent has
  on its chain above the block's parent is on the parent's chain too; blocks not settled in this
  pass leave no chain but together with the tree parent's; and settled blocks have their parent
  on the chain of the tree parent.
\<close>

definition settling :: "(nat \<times> nat) set \<Rightarrow> nat \<Rightarrow> nat set \<Rightarrow> (nat \<Rightarrow> nat) \<Rightarrow> (nat \<Rightarrow> nat) \<Rightarrow> nat \<Rightarrow> (nat \<rightharpoonup> nat) \<Rightarrow> bool" where
  "settling E root R post par t f \<longleftrightarrow>
     dom f \<subseteq> R - {root} \<and> climbs post f \<and> ran f \<subseteq> placed root f \<and>
     (\<forall>x \<in> R. t \<le> post x \<longrightarrow> x \<in> placed root f) \<and>
     (\<forall>x \<in> dom f. par x \<in> placed root f) \<and>
     (\<forall>x \<in> placed root f. anc f x \<subseteq> anc (tree root R par) x) \<and>
     (\<forall>x \<in> placed root f. doms E root x \<subseteq> anc f x) \<and>
     (\<forall>x y z. f x = Some y \<longrightarrow> (\<forall>p \<in> placed root f. (p, x) \<in> E \<longrightarrow> z \<in> anc f p) \<longrightarrow> post y \<le> post z) \<and>
     (\<forall>x y. f x = Some y \<longrightarrow> (\<forall>z \<in> anc f (par x). post y \<le> post z \<longrightarrow> z \<in> anc f y)) \<and>
     (\<forall>x y. f x = Some y \<longrightarrow> (\<forall>c \<in> anc f y. post c < t \<longrightarrow> c \<in> anc f (par x))) \<and>
     (\<forall>x y. f x = Some y \<longrightarrow> t \<le> post x \<longrightarrow> y \<in> anc f (par x))"

lemma settlingD:
  assumes "settling E root R post par t f"
  shows "dom f \<subseteq> R - {root}" "climbs post f" "ran f \<subseteq> placed root f"
    "x \<in> R \<Longrightarrow> t \<le> post x \<Longrightarrow> x \<in> placed root f"
    "f x = Some y \<Longrightarrow> par x \<in> placed root f"
    "x \<in> placed root f \<Longrightarrow> anc f x \<subseteq> anc (tree root R par) x"
    "x \<in> placed root f \<Longrightarrow> doms E root x \<subseteq> anc f x"
    "f x = Some y \<Longrightarrow> (\<And>p. p \<in> placed root f \<Longrightarrow> (p, x) \<in> E \<Longrightarrow> z \<in> anc f p) \<Longrightarrow> post y \<le> post z"
    "f x = Some y \<Longrightarrow> z \<in> anc f (par x) \<Longrightarrow> post y \<le> post z \<Longrightarrow> z \<in> anc f y"
    "f x = Some y \<Longrightarrow> c \<in> anc f y \<Longrightarrow> post c < t \<Longrightarrow> c \<in> anc f (par x)"
    "f x = Some y \<Longrightarrow> t \<le> post x \<Longrightarrow> y \<in> anc f (par x)"
proof -
  note r1 = assms [unfolded settling_def]
  note c1 = conjunct1 [OF r1] and r2 = conjunct2 [OF r1]
  note c2 = conjunct1 [OF r2] and r3 = conjunct2 [OF r2]
  note c3 = conjunct1 [OF r3] and r4 = conjunct2 [OF r3]
  note c4 = conjunct1 [OF r4] and r5 = conjunct2 [OF r4]
  note c5 = conjunct1 [OF r5] and r6 = conjunct2 [OF r5]
  note c6 = conjunct1 [OF r6] and r7 = conjunct2 [OF r6]
  note c7 = conjunct1 [OF r7] and r8 = conjunct2 [OF r7]
  note c8 = conjunct1 [OF r8] and r9 = conjunct2 [OF r8]
  note c9 = conjunct1 [OF r9] and r10 = conjunct2 [OF r9]
  note c10 = conjunct1 [OF r10] and r11 = conjunct2 [OF r10]
  show "dom f \<subseteq> R - {root}" "climbs post f" "ran f \<subseteq> placed root f" by (rule c1, rule c2, rule c3)
  show "x \<in> R \<Longrightarrow> t \<le> post x \<Longrightarrow> x \<in> placed root f" using c4 by blast
  show "f x = Some y \<Longrightarrow> par x \<in> placed root f" using c5 by blast
  show "x \<in> placed root f \<Longrightarrow> anc f x \<subseteq> anc (tree root R par) x" using c6 by (rule bspec)
  show "x \<in> placed root f \<Longrightarrow> doms E root x \<subseteq> anc f x" using c7 by (rule bspec)
  show "f x = Some y \<Longrightarrow> (\<And>p. p \<in> placed root f \<Longrightarrow> (p, x) \<in> E \<Longrightarrow> z \<in> anc f p) \<Longrightarrow> post y \<le> post z" using c8 by metis
  show "f x = Some y \<Longrightarrow> z \<in> anc f (par x) \<Longrightarrow> post y \<le> post z \<Longrightarrow> z \<in> anc f y" using c9 by blast
  show "f x = Some y \<Longrightarrow> c \<in> anc f y \<Longrightarrow> post c < t \<Longrightarrow> c \<in> anc f (par x)" using c10 by blast
  show "f x = Some y \<Longrightarrow> t \<le> post x \<Longrightarrow> y \<in> anc f (par x)" using r11 by blast
qed

lemma settling_start:
  assumes "numbered E root R post par"
  shows "settling E root R post par (post root) Map.empty"
proof -
  have "x = root" if "x \<in> R" "post root \<le> post x" for x using numberedD(4) [OF assms that(1)] that(2) by linarith
  moreover have "d = root" if "d \<in> doms E root root" for d using that trail_root [of E root] by (fastforce simp: doms_def)
  ultimately show ?thesis by (auto simp: settling_def climbs_def anc_None)
qed

text \<open>A pass that has settled every block is the start of the next.\<close>

lemma settling_next:
  assumes "settling E root R post par 0 f"
  shows "settling E root R post par t f"
proof -
  have "y \<in> anc f (par x)" if "f x = Some y" for x y using settlingD(11) [OF assms that] by simp
  then have "c \<in> anc f (par x)" if "f x = Some y" "c \<in> anc f y" for x y c using that by (blast intro: anc_trans)
  with assms show ?thesis unfolding settling_def by simp
qed

text \<open>The chains of placed blocks stay among the placed blocks and reach the root.\<close>

lemma placed_chain:
  assumes n: "numbered E root R post par" and s: "settling E root R post par t f" and x: "x \<in> placed root f"
  shows "anc f x \<subseteq> placed root f" "root \<in> anc f x" "x \<in> R"
proof -
  have ran: "ran f \<subseteq> placed root f" and dom: "dom f \<subseteq> R - {root}" and cl: "climbs post f" using settlingD [OF s] by blast+
  have step: "y \<in> placed root f" if "f x = Some y" for x y using that ran by (auto simp: ran_def)
  have R: "x \<in> R" if "x \<in> placed root f" for x using that dom n by (auto simp: numbered_def)
  show "x \<in> R" by (rule R [OF x])
  show "anc f x \<subseteq> placed root f"
  proof
    fix z assume "z \<in> anc f x"
    then have "(x, z) \<in> {(x, y). f x = Some y}\<^sup>*" by (simp add: anc_def)
    then show "z \<in> placed root f" using x by (induction rule: rtrancl_induct) (auto dest: step)
  qed
  show "root \<in> anc f x"
    using x
  proof (induction "post root - post x" arbitrary: x rule: less_induct)
    case less
    show ?case
    proof (cases "x = root")
      case False
      then obtain y where y: "f x = Some y" using less.prems by auto
      have "post x < post y" "post x < post root" using cl y R [OF less.prems] False n by (auto simp: climbs_def numbered_def)
      then have "root \<in> anc f y" using less.hyps [OF _ step [OF y]] by simp
      then show ?thesis using y by (simp add: anc_Some)
    qed simp
  qed
qed

section \<open>Settling one block\<close>

text \<open>The block \<open>b\<close> is moved to \<open>w\<close>, where the chains of its placed predecessors meet.\<close>

lemma settle_target:
  assumes n: "numbered E root R post par" and s: "settling E root R post par (Suc (post b)) f"
    and b: "b \<in> R" "b \<noteq> root" and w: "meets f {p \<in> placed root f. (p, b) \<in> E} w"
  shows "par b \<in> placed root f" "w \<in> anc f (par b)" "post b < post w" "f b = Some y \<Longrightarrow> w \<in> anc f y"
    "x \<in> placed root f \<Longrightarrow> f b = None \<Longrightarrow> b \<notin> anc f x"
proof -
  have par: "par b \<in> R" "(par b, b) \<in> E" "post b < post (par b)" using n b by (auto simp: numbered_def)
  show pb: "par b \<in> placed root f" using settlingD(4) [OF s par(1)] par(3) by simp
  show wp: "w \<in> anc f (par b)" using meets_in [OF w] pb par(2) by blast
  have cl: "climbs post f" by (rule settlingD(2) [OF s])
  show "post b < post w" using anc_height_le [OF cl wp] par(3) by simp
  show "w \<in> anc f y" if "f b = Some y"
  proof (rule settlingD(9) [OF s that wp])
    show "post y \<le> post w" using settlingD(8) [OF s that] meets_in [OF w] by blast
  qed
  show "b \<notin> anc f x" if "x \<in> placed root f" "f b = None" using placed_chain(1) [OF n s that(1)] that(2) b(2) by auto
qed

lemma settle_chains:
  assumes n: "numbered E root R post par" and s: "settling E root R post par (Suc (post b)) f"
    and b: "b \<in> R" "b \<noteq> root" and w: "meets f {p \<in> placed root f. (p, b) \<in> E} w"
  defines "g \<equiv> f(b \<mapsto> w)"
  shows "anc g b = insert b (anc f w)"
    "x \<in> placed root f \<Longrightarrow> anc g x \<subseteq> anc f x"
    "x \<in> placed root f \<Longrightarrow> z \<in> anc f x \<Longrightarrow> z \<notin> anc g x \<Longrightarrow> b \<in> anc f x \<and> post b < post z \<and> z \<notin> anc f w"
    "post b < post x \<Longrightarrow> anc g x = anc f x"
proof -
  note target = settle_target [OF n s b w]
  have cl: "climbs post f" by (rule settlingD(2) [OF s])
  show "anc g b = insert b (anc f w)" unfolding g_def by (rule anc_move_self [OF cl target(3)])
  show "anc g x = anc f x" if "post b < post x"
    unfolding g_def using anc_height_le [OF cl, of b x] that by (intro anc_move_other) auto
  show "anc g x \<subseteq> anc f x" if "x \<in> placed root f"
    unfolding g_def by (rule anc_move_subset [OF cl target(3)]) (use that target(4,5) in auto)
  show "b \<in> anc f x \<and> post b < post z \<and> z \<notin> anc f w" if "x \<in> placed root f" "z \<in> anc f x" "z \<notin> anc g x"
  proof (cases "b \<in> anc f x")
    case False
    then show ?thesis using that(2,3) by (simp add: g_def anc_move_other)
  next
    case True
    then have z: "\<not> post z < post b" "z \<noteq> b" "z \<notin> anc f w"
      using that(2,3) unfolding g_def anc_move_below [OF cl target(3) True] by auto
    then have "z \<in> anc f b" using anc_above [OF cl True that(2)] by simp
    with z(2) anc_height [OF cl this] True z(3) show ?thesis by blast
  qed
qed

text \<open>One conjunct after the other of the invariant after the move.\<close>

lemma settle_placed:
  assumes n: "numbered E root R post par" and s: "settling E root R post par (Suc (post b)) f"
    and b: "b \<in> R" "b \<noteq> root" and w: "meets f {p \<in> placed root f. (p, b) \<in> E} w"
  defines "g \<equiv> f(b \<mapsto> w)"
  shows "dom g \<subseteq> R - {root}" "climbs post g" "ran g \<subseteq> placed root g" "x \<in> R \<Longrightarrow> post b \<le> post x \<Longrightarrow> x \<in> placed root g"
    "g x = Some y \<Longrightarrow> par x \<in> placed root g" "placed root f \<subseteq> placed root g"
proof -
  note target = settle_target [OF n s b w]
  show "dom g \<subseteq> R - {root}" using settlingD(1) [OF s] b by (auto simp: g_def)
  show "climbs post g" unfolding g_def by (rule climbs_move [OF settlingD(2) [OF s] target(3)])
  show sub: "placed root f \<subseteq> placed root g" by (auto simp: g_def)
  have "w \<in> placed root f" using placed_chain(1) [OF n s target(1)] target(2) by blast
  moreover have "ran g \<subseteq> insert w (ran f)" by (auto simp: g_def ran_def)
  ultimately show "ran g \<subseteq> placed root g" using settlingD(3) [OF s] sub by blast
  show "x \<in> placed root g" if "x \<in> R" "post b \<le> post x"
  proof (cases "x = b")
    case False
    then have "post x \<noteq> post b" using numberedD(3) [OF n] that(1) b(1) by (auto dest: inj_onD)
    then have "x \<in> placed root f" using that by (intro settlingD(4) [OF s]) auto
    with sub show ?thesis by blast
  qed (simp add: g_def)
  show "par x \<in> placed root g" if "g x = Some y"
  proof (cases "x = b")
    case True
    then show ?thesis using target(1) sub by blast
  next
    case False
    then show ?thesis using settlingD(5) [OF s, of x y] that sub by (auto simp: g_def)
  qed
qed

lemma settle_above:
  assumes n: "numbered E root R post par" and s: "settling E root R post par (Suc (post b)) f"
    and b: "b \<in> R" "b \<noteq> root" and w: "meets f {p \<in> placed root f. (p, b) \<in> E} w"
  defines "g \<equiv> f(b \<mapsto> w)"
  assumes x: "x \<in> placed root g"
  shows "anc g x \<subseteq> anc (tree root R par) x" "doms E root x \<subseteq> anc g x"
proof -
  note target = settle_target [OF n s b w] and chains = settle_chains [OF n s b w, folded g_def]
  have tree_b: "anc (tree root R par) b = insert b (anc (tree root R par) (par b))"
    using b by (intro anc_Some) (simp add: tree_def)
  have doms_b: "doms E root b \<subseteq> insert b (anc f w)"
  proof
    fix d assume d: "d \<in> doms E root b"
    show "d \<in> insert b (anc f w)"
    proof (cases "d = b")
      case False
      have "d \<in> anc f p" if "p \<in> placed root f" "(p, b) \<in> E" for p
        using doms_pred [OF that(2) d False] settlingD(7) [OF s that(1)] by blast
      then show ?thesis using w by (auto simp: meets_def)
    qed simp
  qed
  show "anc g x \<subseteq> anc (tree root R par) x"
  proof (cases "x = b")
    case True
    have "anc f w \<subseteq> anc f (par b)" using target(2) by (auto intro: anc_trans)
    also have "\<dots> \<subseteq> anc (tree root R par) (par b)" by (rule settlingD(6) [OF s target(1)])
    finally show ?thesis unfolding True chains(1) tree_b by blast
  next
    case False
    with x have "x \<in> placed root f" by (auto simp: g_def)
    with chains(2) settlingD(6) [OF s] show ?thesis by blast
  qed
  show "doms E root x \<subseteq> anc g x"
  proof (cases "x = b")
    case True
    show ?thesis unfolding True chains(1) by (rule doms_b)
  next
    case False
    with x have p: "x \<in> placed root f" by (auto simp: g_def)
    show ?thesis
    proof
      fix z assume z: "z \<in> doms E root x"
      show "z \<in> anc g x"
      proof (rule ccontr)
        assume "z \<notin> anc g x"
        then have lost: "b \<in> anc f x" "post b < post z" "z \<notin> anc f w"
          using chains(3) [OF p] settlingD(7) [OF s p] z by blast+
        then have "z \<in> doms E root b" using doms_below [OF n _ z] settlingD(6) [OF s p] by blast
        with doms_b lost show False by auto
      qed
    qed
  qed
qed

lemma settle_meeting:
  assumes n: "numbered E root R post par" and s: "settling E root R post par (Suc (post b)) f"
    and b: "b \<in> R" "b \<noteq> root" and w: "meets f {p \<in> placed root f. (p, b) \<in> E} w"
  defines "g \<equiv> f(b \<mapsto> w)"
  assumes x: "g x = Some y"
  shows "(\<And>p. p \<in> placed root g \<Longrightarrow> (p, x) \<in> E \<Longrightarrow> z \<in> anc g p) \<Longrightarrow> post y \<le> post z"
    "z \<in> anc g (par x) \<Longrightarrow> post y \<le> post z \<Longrightarrow> z \<in> anc g y"
    "c \<in> anc g y \<Longrightarrow> post c < post b \<Longrightarrow> c \<in> anc g (par x)"
    "post b \<le> post x \<Longrightarrow> y \<in> anc g (par x)"
proof -
  note target = settle_target [OF n s b w] and chains = settle_chains [OF n s b w, folded g_def]
  have cl: "climbs post f" by (rule settlingD(2) [OF s])
  have sub: "placed root f \<subseteq> placed root g" by (auto simp: g_def)
  have cw: "anc g w = anc f w" by (rule chains(4) [OF target(3)])
  have cp: "anc g (par b) = anc f (par b)" by (rule chains(4)) (rule numberedD(8) [OF n b])
  have par: "par x \<in> placed root f" if "x \<noteq> b" using that x settlingD(5) [OF s, of x y] by (simp add: g_def)
  have fx: "f x = Some y" if "x \<noteq> b" using that x by (simp add: g_def)
  have y: "y = w" if "x = b" using that x by (simp add: g_def)
  have yp: "y \<in> placed root f" using settlingD(3) [OF s] fx y placed_chain(1) [OF n s target(1)] target(2)
    by (cases "x = b") (auto simp: ran_def)
  show "post y \<le> post z" if z: "\<And>p. p \<in> placed root g \<Longrightarrow> (p, x) \<in> E \<Longrightarrow> z \<in> anc g p"
  proof (cases "x = b")
    case True
    have "z \<in> anc f p" if "p \<in> placed root f" "(p, b) \<in> E" for p using z [of p] that True sub chains(2) by blast
    then have "z \<in> anc f w" using w by (auto simp: meets_def)
    then show ?thesis using anc_height_le [OF cl] y [OF True] by simp
  next
    case False
    show ?thesis
    proof (rule settlingD(8) [OF s fx [OF False]])
      fix p assume p: "p \<in> placed root f" "(p, x) \<in> E"
      show "z \<in> anc f p" using z [of p] p sub chains(2) [OF p(1)] by blast
    qed
  qed
  show "z \<in> anc g y" if z: "z \<in> anc g (par x)" "post y \<le> post z"
  proof (cases "x = b")
    case True
    then show ?thesis using anc_above [OF cl target(2)] z y [OF True] unfolding cw cp by (simp add: cw cp)
  next
    case False
    have zf: "z \<in> anc f y" using settlingD(9) [OF s fx [OF False]] chains(2) [OF par [OF False]] z by blast
    show ?thesis
    proof (rule ccontr)
      assume "z \<notin> anc g y"
      then have lost: "b \<in> anc f y" "post b < post z" "z \<notin> anc f w" using chains(3) [OF yp zf] by blast+
      then have "b \<in> anc f (par x)" using settlingD(10) [OF s fx [OF False]] by simp
      then have "anc g (par x) = {z \<in> anc f (par x). post z < post b} \<union> insert b (anc f w)"
        unfolding g_def by (rule anc_move_below [OF cl target(3)])
      with z(1) lost show False by auto
    qed
  qed
  show "c \<in> anc g (par x)" if c: "c \<in> anc g y" "post c < post b"
  proof (cases "x = b")
    case True
    then have "c \<in> anc f w" using c(1) y cw by simp
    then show ?thesis using True target(2) by (auto simp: cp intro: anc_trans)
  next
    case False
    have "c \<in> anc f y" using chains(2) [OF yp] c(1) by blast
    then have "c \<in> anc f (par x)" using settlingD(10) [OF s fx [OF False]] c(2) by simp
    then show ?thesis using chains(3) [OF par [OF False], of c] c(2) less_asym by blast
  qed
  show "y \<in> anc g (par x)" if px: "post b \<le> post x"
  proof (cases "x = b")
    case True
    then show ?thesis using target(2) y cp by simp
  next
    case False
    have xR: "x \<in> R" "x \<noteq> root" using settlingD(1) [OF s] fx [OF False] by auto
    have "post x \<noteq> post b" using numberedD(3) [OF n] xR b False by (auto dest: inj_onD)
    then have less: "post b < post x" using px by simp
    then have "y \<in> anc f (par x)" using settlingD(11) [OF s fx [OF False]] by simp
    moreover have "anc g (par x) = anc f (par x)" using numberedD(8) [OF n xR] less by (intro chains(4)) simp
    ultimately show ?thesis by simp
  qed
qed

lemma settle_step:
  assumes n: "numbered E root R post par" and s: "settling E root R post par (Suc (post b)) f"
    and b: "b \<in> R" "b \<noteq> root" and w: "meets f {p \<in> placed root f. (p, b) \<in> E} w"
  shows "settling E root R post par (post b) (f(b \<mapsto> w))"
  unfolding settling_def
proof (intro conjI ballI allI impI)
  note placed = settle_placed [OF n s b w] and above = settle_above [OF n s b w] and meeting = settle_meeting [OF n s b w]
  show "dom (f(b \<mapsto> w)) \<subseteq> R - {root}" "climbs post (f(b \<mapsto> w))" "ran (f(b \<mapsto> w)) \<subseteq> placed root (f(b \<mapsto> w))"
    by (rule placed)+
  show "x \<in> placed root (f(b \<mapsto> w))" if "x \<in> R" "post b \<le> post x" for x by (rule placed(4) [OF that])
  show "par x \<in> placed root (f(b \<mapsto> w))" if "x \<in> dom (f(b \<mapsto> w))" for x using that placed(5) [of x] by blast
  show "anc (f(b \<mapsto> w)) x \<subseteq> anc (tree root R par) x" "doms E root x \<subseteq> anc (f(b \<mapsto> w)) x"
    if "x \<in> placed root (f(b \<mapsto> w))" for x by (rule above(1) [OF that], rule above(2) [OF that])
  show "post y \<le> post z" if "(f(b \<mapsto> w)) x = Some y" "\<forall>p \<in> placed root (f(b \<mapsto> w)). (p, x) \<in> E \<longrightarrow> z \<in> anc (f(b \<mapsto> w)) p" for x y z
    by (rule meeting(1) [OF that(1)]) (use that(2) in blast)
  show "z \<in> anc (f(b \<mapsto> w)) y" if "(f(b \<mapsto> w)) x = Some y" "z \<in> anc (f(b \<mapsto> w)) (par x)" "post y \<le> post z" for x y z
    by (rule meeting(2) [OF that])
  show "c \<in> anc (f(b \<mapsto> w)) (par x)" if "(f(b \<mapsto> w)) x = Some y" "c \<in> anc (f(b \<mapsto> w)) y" "post c < post b" for x y c
    by (rule meeting(3) [OF that])
  show "y \<in> anc (f(b \<mapsto> w)) (par x)" if "(f(b \<mapsto> w)) x = Some y" "post b \<le> post x" for x y
    by (rule meeting(4) [OF that])
qed

section \<open>The fixed point\<close>

lemma settled_doms:
  assumes n: "numbered E root R post par" and s: "settling E root R post par 0 f"
    and fixed: "\<And>b. b \<in> R \<Longrightarrow> b \<noteq> root \<Longrightarrow> \<exists>w. f b = Some w \<and> meets f {p \<in> placed root f. (p, b) \<in> E} w"
    and x: "x \<in> R"
  shows "anc f x = doms E root x"
proof
  have placed: "placed root f = R" using settlingD(4) [OF s] settlingD(1) [OF s] numberedD(2) [OF n] by auto
  show "doms E root x \<subseteq> anc f x" using settlingD(7) [OF s] x unfolding placed by blast
  have "anc f x \<subseteq> set vs \<and> x \<in> R" if "trail E root vs x" for vs x
    using that
  proof (induction rule: trail.induct)
    case trail_root
    have "f root = None" using settlingD(1) [OF s] by auto
    then show ?case using numberedD(2) [OF n] by (simp add: anc_None)
  next
    case (trail_step vs p b)
    have bR: "b \<in> R" using numberedD(5) [OF n trail_step.hyps(2)] trail_step.IH by blast
    show ?case
    proof (cases "b = root")
      case True
      then show ?thesis using bR settlingD(1) [OF s] anc_None [of f root] by auto
    next
      case False
      then obtain w where w: "f b = Some w" "meets f {p \<in> placed root f. (p, b) \<in> E} w" using fixed [OF bR] by blast
      have "p \<in> {p \<in> placed root f. (p, b) \<in> E}" using trail_step placed by simp
      then have "anc f w \<subseteq> anc f p" using meets_in [OF w(2)] by (auto intro: anc_trans)
      then show ?thesis using trail_step.IH bR anc_Some [of f b w] w(1) by auto
    qed
  qed
  then show "anc f x \<subseteq> doms E root x" by (auto simp: doms_def)
qed

text \<open>How far the placed blocks are from where they can move no more: a move makes it less.\<close>

definition slack :: "nat set \<Rightarrow> (nat \<Rightarrow> nat) \<Rightarrow> nat \<Rightarrow> (nat \<rightharpoonup> nat) \<Rightarrow> nat" where
  "slack R post root f = (\<Sum>x \<in> R. case f x of None \<Rightarrow> Suc (post root) | Some y \<Rightarrow> post root - post y)"

lemma settle_slack:
  assumes n: "numbered E root R post par" and s: "settling E root R post par (Suc (post b)) f"
    and b: "b \<in> R" "b \<noteq> root" and w: "meets f {p \<in> placed root f. (p, b) \<in> E} w" and moved: "f b \<noteq> Some w"
  shows "slack R post root (f(b \<mapsto> w)) < slack R post root f"
proof -
  let ?h = "\<lambda>f x. case f x of None \<Rightarrow> Suc (post root) | Some y \<Rightarrow> post root - post y"
  note target = settle_target [OF n s b w]
  have "?h (f(b \<mapsto> w)) b < ?h f b"
  proof (cases "f b")
    case (Some y)
    then have "w \<noteq> y" "w \<in> anc f y" using moved target(4) by auto
    then have "post y < post w" using anc_height [OF settlingD(2) [OF s]] by blast
    moreover have "w \<in> R" using placed_chain(1,3) [OF n s] target(1,2) by blast
    then have "post w \<le> post root" using numberedD(4) [OF n, of w] by (cases "w = root") auto
    ultimately show ?thesis using Some by simp
  qed simp
  moreover have "(\<Sum>x \<in> R - {b}. ?h (f(b \<mapsto> w)) x) = (\<Sum>x \<in> R - {b}. ?h f x)" by (rule sum.cong) auto
  ultimately show ?thesis
    unfolding slack_def sum.remove [OF numberedD(1) [OF n] b(1)] by simp
qed

end
