(* ===== verification/Dom_Settle.thy ===== *)
theory Dom_Settle
  imports Dom Dom_Order
begin

text \<open>
  The loops of \<open>immediate_tree\<close> on vectors: \<open>meet\<close> finds where two chains meet, a pass settles every
  block in reverse post-order, and the passes end with the dominators.
\<close>

section \<open>A vector as a parent function\<close>

definition par_of :: "nat \<Rightarrow> nat list \<Rightarrow> nat \<rightharpoonup> nat" where
  "par_of root idom x = (if x < length idom \<and> x \<noteq> root \<and> idom ! x \<noteq> NO_BLOCK then Some (idom ! x) else None)"

definition edges :: "graph \<Rightarrow> (nat \<times> nat) set" where
  "edges pred = {(p, b). b < length pred \<and> p \<in> set (pred ! b)}"

definition graph_ok :: "nat \<Rightarrow> graph \<Rightarrow> bool" where
  "graph_ok n pred \<longleftrightarrow> length pred = n \<and> (\<forall>ps \<in> set pred. \<forall>p \<in> set ps. p < n)"

text \<open>What holds between the vectors of the loops and the chains they stand for.\<close>

definition stands :: "graph \<Rightarrow> nat \<Rightarrow> nat set \<Rightarrow> nat list \<Rightarrow> (nat \<Rightarrow> nat) \<Rightarrow> nat \<Rightarrow> nat list \<Rightarrow> bool" where
  "stands pred root R post_number par t idom \<longleftrightarrow>
     length post_number = length pred \<and> length idom = length pred \<and> length pred \<le> NO_BLOCK \<and> R \<subseteq> {..<length pred} \<and>
     graph_ok (length pred) pred \<and> root < length pred \<and> idom ! root = root \<and>
     numbered (edges pred) root R ((!) post_number) par \<and>
     settling (edges pred) root R ((!) post_number) par t (par_of root idom)"

lemma standsD:
  assumes "stands pred root R post_number par t idom"
  shows "length post_number = length pred" "length idom = length pred" "length pred \<le> NO_BLOCK" "R \<subseteq> {..<length pred}"
    "graph_ok (length pred) pred" "root < length pred" "idom ! root = root"
    "numbered (edges pred) root R ((!) post_number) par"
    "settling (edges pred) root R ((!) post_number) par t (par_of root idom)"
  using assms by (simp_all add: stands_def)

lemma placed_par_of: "root < length idom \<Longrightarrow> idom ! root = root \<Longrightarrow> root \<noteq> NO_BLOCK \<Longrightarrow>
    x \<in> placed root (par_of root idom) \<longleftrightarrow> x < length idom \<and> idom ! x \<noteq> NO_BLOCK"
  by (auto simp: par_of_def dom_def)

lemma placed_bounds:
  assumes "stands pred root R post_number par t idom" "x \<in> placed root (par_of root idom)"
  shows "x \<in> R" "x < length pred" "x \<noteq> NO_BLOCK" "post_number ! x \<le> post_number ! root"
    "x \<noteq> root \<Longrightarrow> post_number ! x < post_number ! root \<and> par_of root idom x = Some (idom ! x)"
proof -
  note d = standsD [OF assms(1)]
  show x: "x \<in> R" by (rule placed_chain(3) [OF d(8,9) assms(2)])
  then show l: "x < length pred" using d(4) by blast
  then show "x \<noteq> NO_BLOCK" using d(3) by simp
  show p: "x \<noteq> root \<Longrightarrow> post_number ! x < post_number ! root \<and> par_of root idom x = Some (idom ! x)"
    using numberedD(4) [OF d(8) x] assms(2) by (auto simp: par_of_def split: if_splits)
  then show "post_number ! x \<le> post_number ! root" by (cases "x = root") auto
qed

section \<open>Climbing and meeting\<close>

lemma climb_chain:
  assumes s: "stands pred root R post_number par t idom" and b: "b \<in> placed root (par_of root idom)"
    and a: "a \<in> placed root (par_of root idom)"
  shows "\<exists>a'. climb post_number idom a b = Some (Inr a') \<and> a' \<in> anc (par_of root idom) a \<and> post_number ! b \<le> post_number ! a' \<and>
    (\<forall>z \<in> anc (par_of root idom) a. post_number ! b \<le> post_number ! z \<longrightarrow> z \<in> anc (par_of root idom) a') \<and>
    (post_number ! b \<le> post_number ! a \<longrightarrow> a' = a)"
  using a
proof (induction "post_number ! root - post_number ! a" arbitrary: a rule: less_induct)
  case less
  note d = standsD [OF s] and ab = placed_bounds [OF s less.prems] and bb = placed_bounds [OF s b]
  let ?f = "par_of root idom"
  have idx: "idx post_number a = Inr (post_number ! a)" "idx post_number b = Inr (post_number ! b)" "idx idom a = Inr (idom ! a)"
    using ab(2) bb(2) d(1,2) by (simp_all add: idx_def)
  show ?case
  proof (cases "post_number ! a < post_number ! b")
    case False
    then have "climb post_number idom a b = Some (Inr a)" by (subst climb.simps) (simp add: idx)
    with False show ?thesis by (intro exI [of _ a]) simp
  next
    case True
    then have "a \<noteq> root" using bb(4) by auto
    then have up: "?f a = Some (idom ! a)" "post_number ! a < post_number ! root" using ab(5) by auto
    have placed: "idom ! a \<in> placed root ?f" using settlingD(3) [OF d(9)] up(1) by (auto simp: ran_def)
    have "post_number ! a < post_number ! (idom ! a)" using settlingD(2) [OF d(9)] up(1) by (simp add: climbs_def)
    then have "post_number ! root - post_number ! (idom ! a) < post_number ! root - post_number ! a" using up(2) by linarith
    from less.hyps [OF this placed] obtain a' where a': "climb post_number idom (idom ! a) b = Some (Inr a')" "a' \<in> anc ?f (idom ! a)"
      "post_number ! b \<le> post_number ! a'" "\<forall>z \<in> anc ?f (idom ! a). post_number ! b \<le> post_number ! z \<longrightarrow> z \<in> anc ?f a'" by blast
    have "climb post_number idom a b = Some (Inr a')" using True a'(1) by (subst climb.simps) (simp add: idx)
    moreover have "anc ?f a = insert a (anc ?f (idom ! a))" by (rule anc_Some) (rule up(1))
    ultimately show ?thesis using a'(2-4) True by (intro exI [of _ a']) auto
  qed
qed

lemma meet_chain:
  assumes s: "stands pred root R post_number par t idom"
    and a: "a \<in> placed root (par_of root idom)" and b: "b \<in> placed root (par_of root idom)"
  shows "\<exists>c. meet post_number idom a b = Some (Inr c) \<and> anc (par_of root idom) c = anc (par_of root idom) a \<inter> anc (par_of root idom) b"
  using a b
proof (induction "(post_number ! root - post_number ! a) + (post_number ! root - post_number ! b)" arbitrary: a b rule: less_induct)
  case less
  note d = standsD [OF s]
  let ?f = "par_of root idom"
  have cl: "climbs ((!) post_number) ?f" by (rule settlingD(2) [OF d(9)])
  show ?case
  proof (cases "a = b")
    case True
    then show ?thesis by (subst meet.simps) auto
  next
    case False
    obtain a' where a': "climb post_number idom a b = Some (Inr a')" "a' \<in> anc ?f a" "post_number ! b \<le> post_number ! a'"
      "\<forall>z \<in> anc ?f a. post_number ! b \<le> post_number ! z \<longrightarrow> z \<in> anc ?f a'" "post_number ! b \<le> post_number ! a \<longrightarrow> a' = a"
      using climb_chain [OF s less.prems(2,1)] by blast
    have pa: "a' \<in> placed root ?f" using placed_chain(1) [OF d(8,9) less.prems(1)] a'(2) by blast
    obtain b' where b': "climb post_number idom b a' = Some (Inr b')" "b' \<in> anc ?f b" "post_number ! a' \<le> post_number ! b'"
      "\<forall>z \<in> anc ?f b. post_number ! a' \<le> post_number ! z \<longrightarrow> z \<in> anc ?f b'" "post_number ! a' \<le> post_number ! b \<longrightarrow> b' = b"
      using climb_chain [OF s pa less.prems(2)] by blast
    have pb: "b' \<in> placed root ?f" using placed_chain(1) [OF d(8,9) less.prems(2)] b'(2) by blast
    have same: "anc ?f a' \<inter> anc ?f b' = anc ?f a \<inter> anc ?f b"
    proof -
      have "anc ?f a \<inter> anc ?f b = anc ?f a' \<inter> anc ?f b"
        using a'(2,4) anc_height_le [OF cl, of _ b] by (auto intro: anc_trans)
      also have "\<dots> = anc ?f a' \<inter> anc ?f b'"
        using b'(2,4) anc_height_le [OF cl, of _ a'] by (auto intro: anc_trans)
      finally show ?thesis ..
    qed
    have "post_number ! a \<noteq> post_number ! b"
      using False numberedD(3) [OF d(8)] placed_bounds(1) [OF s less.prems(1)] placed_bounds(1) [OF s less.prems(2)]
      by (auto dest: inj_onD)
    moreover have le: "post_number ! a \<le> post_number ! a'" "post_number ! b \<le> post_number ! b'"
      using anc_height_le [OF cl a'(2)] anc_height_le [OF cl b'(2)] .
    ultimately have "post_number ! a < post_number ! a' \<or> post_number ! b < post_number ! b'"
      using a'(3,5) b'(3) by linarith
    moreover have "post_number ! a' \<le> post_number ! root" "post_number ! b' \<le> post_number ! root"
      using placed_bounds(4) [OF s pa] placed_bounds(4) [OF s pb] .
    ultimately have "(post_number ! root - post_number ! a') + (post_number ! root - post_number ! b') <
        (post_number ! root - post_number ! a) + (post_number ! root - post_number ! b)"
      using le by linarith
    from less.hyps [OF this pa pb] obtain c where c: "meet post_number idom a' b' = Some (Inr c)"
      "anc ?f c = anc ?f a' \<inter> anc ?f b'" by blast
    have "meet post_number idom a b = Some (Inr c)" using False a'(1) b'(1) c(1) by (subst meet.simps) simp
    with c(2) same show ?thesis by auto
  qed
qed

lemma meet_preds_more:
  assumes s: "stands pred root R post_number par t idom" and ps: "\<forall>p \<in> set ps. p < length pred"
    and new: "new \<in> placed root (par_of root idom)" "meets (par_of root idom) S new"
  shows "\<exists>w. meet_preds post_number idom new ps = Some (Inr w) \<and> w \<in> placed root (par_of root idom) \<and>
    meets (par_of root idom) (S \<union> {p \<in> set ps. p \<in> placed root (par_of root idom)}) w"
  using ps new
proof (induction ps arbitrary: new S)
  case Nil
  then show ?case by auto
next
  case (Cons p ps)
  note d = standsD [OF s]
  let ?f = "par_of root idom"
  have root: "root < length idom" "idom ! root = root" "root \<noteq> NO_BLOCK" using d(2,3,6,7) by auto
  have idx: "idx idom p = Inr (idom ! p)" using Cons.prems(1) d(2) by (simp add: idx_def)
  have placed: "p \<in> placed root ?f \<longleftrightarrow> idom ! p \<noteq> NO_BLOCK" using placed_par_of [OF root] Cons.prems(1) d(2) by simp
  have new: "new \<noteq> NO_BLOCK" by (rule placed_bounds(3) [OF s Cons.prems(2)])
  show ?case
  proof (cases "idom ! p = NO_BLOCK")
    case True
    then have "{q \<in> set (p # ps). q \<in> placed root ?f} = {q \<in> set ps. q \<in> placed root ?f}" using placed by auto
    moreover have "meet_preds post_number idom new (p # ps) = meet_preds post_number idom new ps" using True idx by simp
    ultimately show ?thesis using Cons.IH [of new S] Cons.prems by simp
  next
    case False
    then have p: "p \<in> placed root ?f" using placed by simp
    obtain c where c: "meet post_number idom p new = Some (Inr c)" "anc ?f c = anc ?f p \<inter> anc ?f new"
      using meet_chain [OF s p Cons.prems(2)] by blast
    have "c \<in> anc ?f p" using c(2) anc_self [of c ?f] by blast
    then have pc: "c \<in> placed root ?f" using placed_chain(1) [OF d(8,9) p] by blast
    have "meets ?f (insert p S) c" by (rule meets_insert [OF Cons.prems(3) c(2)])
    moreover have "insert p S \<union> {q \<in> set ps. q \<in> placed root ?f} = S \<union> {q \<in> set (p # ps). q \<in> placed root ?f}" using p by auto
    moreover have "meet_preds post_number idom new (p # ps) = meet_preds post_number idom c ps" using False idx new c(1) by simp
    ultimately show ?thesis using Cons.IH [OF _ pc, of "insert p S"] Cons.prems(1) by simp
  qed
qed

lemma meet_preds_all:
  assumes s: "stands pred root R post_number par t idom" and ps: "\<forall>p \<in> set ps. p < length pred"
    and ne: "\<exists>p \<in> set ps. p \<in> placed root (par_of root idom)"
  shows "\<exists>w. meet_preds post_number idom NO_BLOCK ps = Some (Inr w) \<and> w \<in> placed root (par_of root idom) \<and>
    meets (par_of root idom) {p \<in> set ps. p \<in> placed root (par_of root idom)} w"
  using ps ne
proof (induction ps)
  case (Cons p ps)
  note d = standsD [OF s]
  let ?f = "par_of root idom"
  have root: "root < length idom" "idom ! root = root" "root \<noteq> NO_BLOCK" using d(2,3,6,7) by auto
  have idx: "idx idom p = Inr (idom ! p)" using Cons.prems(1) d(2) by (simp add: idx_def)
  have placed: "p \<in> placed root ?f \<longleftrightarrow> idom ! p \<noteq> NO_BLOCK" using placed_par_of [OF root] Cons.prems(1) d(2) by simp
  show ?case
  proof (cases "idom ! p = NO_BLOCK")
    case True
    then have "{q \<in> set (p # ps). q \<in> placed root ?f} = {q \<in> set ps. q \<in> placed root ?f}" using placed by auto
    moreover have "\<exists>q \<in> set ps. q \<in> placed root ?f" using Cons.prems(2) True placed by auto
    ultimately show ?thesis using Cons.IH Cons.prems(1) True idx by simp
  next
    case False
    then have p: "p \<in> placed root ?f" using placed by simp
    have "{p} \<union> {q \<in> set ps. q \<in> placed root ?f} = {q \<in> set (p # ps). q \<in> placed root ?f}" using p by auto
    moreover have "meet_preds post_number idom NO_BLOCK (p # ps) = meet_preds post_number idom p ps" using False idx by simp
    ultimately show ?thesis using meet_preds_more [OF s _ p meets_singleton, of ps] Cons.prems(1) by simp
  qed
qed simp

section \<open>A pass\<close>

lemma par_of_update: "b < length idom \<Longrightarrow> b \<noteq> root \<Longrightarrow> w \<noteq> NO_BLOCK \<Longrightarrow> par_of root (idom[b := w]) = (par_of root idom)(b \<mapsto> w)"
  by (auto simp: par_of_def fun_eq_iff)

abbreviation preds_placed :: "graph \<Rightarrow> nat \<Rightarrow> nat list \<Rightarrow> nat \<Rightarrow> nat set" where
  "preds_placed pred root idom b \<equiv> {p \<in> placed root (par_of root idom). (p, b) \<in> edges pred}"

text \<open>One block: the meeting of its predecessors is found, and the state stands one number lower.\<close>

lemma settle_one:
  assumes s: "stands pred root R post_number par (Suc (post_number ! b)) idom" and b: "b \<in> R" "b \<noteq> root"
  shows "\<exists>w. meet_preds post_number idom NO_BLOCK (pred ! b) = Some (Inr w) \<and>
    meets (par_of root idom) (preds_placed pred root idom b) w \<and> w \<noteq> NO_BLOCK \<and>
    stands pred root R post_number par (post_number ! b) (idom[b := w])"
proof -
  note d = standsD [OF s]
  have bl: "b < length pred" using b(1) d(4) by blast
  have ps: "\<forall>p \<in> set (pred ! b). p < length pred" using d(5) bl by (auto simp: graph_ok_def)
  have set_eq: "{p \<in> set (pred ! b). p \<in> placed root (par_of root idom)} = preds_placed pred root idom b"
    using bl by (auto simp: edges_def)
  have "par b \<in> set (pred ! b)" using numberedD(7) [OF d(8) b] by (simp add: edges_def)
  moreover have "par b \<in> placed root (par_of root idom)"
    using settlingD(4) [OF d(9) numberedD(6) [OF d(8) b]] numberedD(8) [OF d(8) b] by simp
  ultimately obtain w where w: "meet_preds post_number idom NO_BLOCK (pred ! b) = Some (Inr w)"
    "w \<in> placed root (par_of root idom)" "meets (par_of root idom) (preds_placed pred root idom b) w"
    using meet_preds_all [OF s ps] unfolding set_eq by blast
  have wn: "w \<noteq> NO_BLOCK" by (rule placed_bounds(3) [OF s w(2)])
  have up: "par_of root (idom[b := w]) = (par_of root idom)(b \<mapsto> w)"
    using bl d(2) b(2) wn by (intro par_of_update) simp_all
  have "stands pred root R post_number par (post_number ! b) (idom[b := w])"
    unfolding stands_def up using d b(2) settle_step [OF d(8,9) b w(3)] by simp
  with w wn show ?thesis by blast
qed

text \<open>The order of a pass: block number \<open>k - 1\<close> down to block number 0.\<close>

definition ordered :: "nat \<Rightarrow> nat set \<Rightarrow> nat list \<Rightarrow> nat list \<Rightarrow> bool" where
  "ordered root R post_number post_order \<longleftrightarrow> set post_order = R \<and> post_order \<noteq> [] \<and> last post_order = root \<and>
     (\<forall>i < length post_order. post_number ! (post_order ! i) = i)"

abbreviation slack_of :: "nat \<Rightarrow> nat set \<Rightarrow> nat list \<Rightarrow> nat list \<Rightarrow> nat" where
  "slack_of root R post_number idom \<equiv> slack R ((!) post_number) root (par_of root idom)"

definition at_rest :: "graph \<Rightarrow> nat \<Rightarrow> nat list \<Rightarrow> nat \<Rightarrow> bool" where
  "at_rest pred root idom b \<longleftrightarrow> (\<exists>w. par_of root idom b = Some w \<and> meets (par_of root idom) (preds_placed pred root idom b) w)"

lemma settle_pass_result:
  assumes o: "ordered root R post_number post_order" and k: "k < length post_order"
    and s: "stands pred root R post_number par k idom"
  shows "\<exists>idom' changed'. settle_pass post_number pred idom changed (rev (take k post_order)) = Some (Inr (idom', changed')) \<and>
    stands pred root R post_number par 0 idom' \<and>
    slack_of root R post_number idom' \<le> slack_of root R post_number idom \<and>
    (changed' \<longrightarrow> changed \<or> slack_of root R post_number idom' < slack_of root R post_number idom) \<and>
    (\<not> changed' \<longrightarrow> \<not> changed \<and> idom' = idom \<and> (\<forall>b \<in> set (take k post_order). at_rest pred root idom b))"
  using k s
proof (induction k arbitrary: idom changed)
  case 0
  then show ?case by auto
next
  case (Suc k)
  let ?b = "post_order ! k"
  note d = standsD [OF Suc.prems(2)]
  have num: "post_number ! ?b = k" and bR: "?b \<in> R" using o Suc.prems(1) by (auto simp: ordered_def)
  have "post_number ! root = length post_order - 1"
    using o by (metis last_conv_nth length_greater_0_conv ordered_def diff_less zero_less_one)
  then have br: "?b \<noteq> root" using num Suc.prems(1) by auto
  have bl: "?b < length pred" using bR d(4) by blast
  obtain w where w: "meet_preds post_number idom NO_BLOCK (pred ! ?b) = Some (Inr w)"
    "meets (par_of root idom) (preds_placed pred root idom ?b) w" "w \<noteq> NO_BLOCK"
    "stands pred root R post_number par k (idom[?b := w])"
    using settle_one [of pred root R post_number par ?b idom, OF _ bR br, unfolded num, OF Suc.prems(2)] by blast
  have list: "rev (take (Suc k) post_order) = ?b # rev (take k post_order)" using Suc.prems(1) by (simp add: take_Suc_conv_app_nth)
  have idx: "idx pred ?b = Inr (pred ! ?b)" "idx idom ?b = Inr (idom ! ?b)" using bl d(2) by (simp_all add: idx_def)
  have up: "par_of root (idom[?b := w]) = (par_of root idom)(?b \<mapsto> w)"
    using bl d(2) br w(3) by (intro par_of_update) simp_all
  show ?case
  proof (cases "idom ! ?b = w")
    case True
    then have same: "idom[?b := w] = idom" by auto
    have rest: "at_rest pred root idom ?b" using w(2,3) True br bl d(2) by (auto simp: at_rest_def par_of_def)
    have turn: "settle_pass post_number pred idom changed (rev (take (Suc k) post_order)) =
        settle_pass post_number pred idom changed (rev (take k post_order))" unfolding list using idx w(1) True by simp
    have "set (take (Suc k) post_order) = insert ?b (set (take k post_order))" using Suc.prems(1) by (simp add: take_Suc_conv_app_nth)
    with Suc.IH [of idom changed] Suc.prems(1) w(4) rest show ?thesis unfolding turn same by auto
  next
    case False
    have turn: "settle_pass post_number pred idom changed (rev (take (Suc k) post_order)) =
        settle_pass post_number pred (idom[?b := w]) True (rev (take k post_order))" unfolding list using idx w(1) False by simp
    have "par_of root idom ?b \<noteq> Some w" using False by (auto simp: par_of_def)
    then have "slack_of root R post_number (idom[?b := w]) < slack_of root R post_number idom"
      unfolding up using settle_slack [OF d(8) _ bR br w(2)] d(9) num by simp
    with Suc.IH [of "idom[?b := w]" True] Suc.prems(1) w(4) show ?thesis unfolding turn by (fastforce dest: less_imp_le)
  qed
qed

section \<open>The passes\<close>

lemma tl_rev: "xs \<noteq> [] \<Longrightarrow> tl (rev xs) = rev (take (length xs - 1) xs)"
  by (metis butlast_conv_take butlast_rev rev_rev_ident rev_swap)

lemma settle_result:
  assumes o: "ordered root R post_number post_order"
    and s: "stands pred root R post_number par (length post_order - 1) idom"
  shows "\<exists>idom'. settle post_number pred (tl (rev post_order)) idom = Some (Inr idom') \<and>
    stands pred root R post_number par 0 idom' \<and> (\<forall>b \<in> R - {root}. at_rest pred root idom' b)"
  using s
proof (induction "slack_of root R post_number idom" arbitrary: idom rule: less_induct)
  case less
  have ne: "post_order \<noteq> []" using o by (simp add: ordered_def)
  have list: "tl (rev post_order) = rev (take (length post_order - 1) post_order)" by (rule tl_rev [OF ne])
  obtain idom' ch where p: "settle_pass post_number pred idom False (tl (rev post_order)) = Some (Inr (idom', ch))"
    "stands pred root R post_number par 0 idom'"
    "ch \<longrightarrow> slack_of root R post_number idom' < slack_of root R post_number idom"
    "\<not> ch \<longrightarrow> idom' = idom \<and> (\<forall>b \<in> set (take (length post_order - 1) post_order). at_rest pred root idom b)"
    using settle_pass_result [OF o _ less.prems, of False] ne unfolding list by auto
  show ?case
  proof (cases ch)
    case True
    have "stands pred root R post_number par (length post_order - 1) idom'"
      using p(2) settling_next unfolding stands_def by blast
    from less.hyps [OF _ this] p(3) True obtain r where "settle post_number pred (tl (rev post_order)) idom' = Some (Inr r)"
      "stands pred root R post_number par 0 r" "\<forall>b \<in> R - {root}. at_rest pred root r b" by blast
    moreover have "settle post_number pred (tl (rev post_order)) idom = settle post_number pred (tl (rev post_order)) idom'"
      using p(1) True by (subst settle.simps) simp
    ultimately show ?thesis by auto
  next
    case False
    have "settle post_number pred (tl (rev post_order)) idom = Some (Inr idom')" using p(1) False by (subst settle.simps) simp
    moreover have "b \<in> set (take (length post_order - 1) post_order)" if "b \<in> R - {root}" for b
    proof -
      have "last post_order = root" "set post_order = R" using o by (auto simp: ordered_def)
      then have "b \<in> set (butlast post_order @ [root])" using append_butlast_last_id [OF ne] that by simp
      then show ?thesis using that by (simp add: butlast_conv_take)
    qed
    ultimately show ?thesis using p(2,4) False by blast
  qed
qed

end
