(* ===== verification/Dom_Walk.thy ===== *)
theory Dom_Walk
  imports Dom_Settle
begin

text \<open>
  The walk that numbers the blocks: it reaches exactly what the root reaches, numbers each block
  once, the root last, and every other block has a predecessor with a higher number.
\<close>

section \<open>The invariant of the walk\<close>

fun linked :: "graph \<Rightarrow> nat \<Rightarrow> nat list \<Rightarrow> bool" where
  "linked succ root [] \<longleftrightarrow> True"
| "linked succ root [b] \<longleftrightarrow> b = root"
| "linked succ root (b # c # bs) \<longleftrightarrow> b \<in> set (succ ! c) \<and> linked succ root (c # bs)"

definition walk_inv :: "graph \<Rightarrow> nat \<Rightarrow> bool list \<Rightarrow> nat list \<Rightarrow> nat list \<Rightarrow> (nat \<times> nat) list \<Rightarrow> bool" where
  "walk_inv succ root seen num order stack \<longleftrightarrow> length seen = length succ \<and> length num = length succ \<and>
     distinct (order @ map fst stack) \<and> set (order @ map fst stack) \<subseteq> {..<length succ} \<and>
     (\<forall>x < length succ. seen ! x \<longleftrightarrow> x \<in> set (order @ map fst stack)) \<and>
     (\<forall>i < length order. num ! (order ! i) = i) \<and>
     (\<forall>(b, k) \<in> set stack. \<forall>j < min k (length (succ ! b)). seen ! (succ ! b ! j)) \<and>
     (\<forall>x \<in> set order. \<forall>s \<in> set (succ ! x). seen ! s) \<and>
     linked succ root (map fst stack) \<and> (stack = [] \<longrightarrow> order \<noteq> [] \<and> last order = root) \<and>
     (\<forall>x \<in> set order. x \<noteq> root \<longrightarrow> (\<exists>p. x \<in> set (succ ! p) \<and> (p \<in> set (map fst stack) \<or> p \<in> set order \<and> num ! x < num ! p)))"

definition succ_ok :: "graph \<Rightarrow> bool" where
  "succ_ok succ \<longleftrightarrow> (\<forall>ss \<in> set succ. \<forall>s \<in> set ss. s < length succ)"

lemma succ_okD: "succ_ok succ \<Longrightarrow> b < length succ \<Longrightarrow> k < length (succ ! b) \<Longrightarrow> succ ! b ! k < length succ"
  unfolding succ_ok_def by (meson nth_mem)

lemma walk_inv_start:
  assumes "root < length succ"
  shows "walk_inv succ root ((replicate (length succ) False)[root := True]) (replicate (length succ) 0) [] [(root, 0)]"
  using assms by (auto simp: walk_inv_def nth_list_update)

text \<open>A successor seen before: the walk looks at the next one.\<close>

lemma walk_inv_skip:
  assumes "walk_inv succ root seen num order ((b, k) # stack)" "k < length (succ ! b)" "seen ! (succ ! b ! k)"
  shows "walk_inv succ root seen num order ((b, k + 1) # stack)"
  using assms by (auto simp: walk_inv_def less_Suc_eq min_def split: if_splits)

text \<open>A successor not seen before goes on the stack.\<close>

lemma walk_inv_push:
  assumes inv: "walk_inv succ root seen num order ((b, k) # stack)" and ok: "succ_ok succ"
    and k: "k < length (succ ! b)" "\<not> seen ! (succ ! b ! k)"
  defines "s \<equiv> succ ! b ! k"
  shows "walk_inv succ root (seen[s := True]) num order ((s, 0) # (b, k + 1) # stack)"
proof -
  have b: "b < length succ" and len: "length seen = length succ" using inv by (auto simp: walk_inv_def)
  have s: "s < length succ" unfolding s_def by (rule succ_okD [OF ok b k(1)])
  have edge: "s \<in> set (succ ! b)" unfolding s_def using k(1) by simp
  have fresh: "s \<notin> set (order @ map fst ((b, k) # stack))" using inv k(2) s unfolding s_def walk_inv_def by blast
  have mono: "seen ! x \<Longrightarrow> seen[s := True] ! x" for x by (cases "x = s") (simp_all add: len s)
  show ?thesis
    unfolding walk_inv_def
  proof (intro conjI ballI allI impI)
    show "length (seen[s := True]) = length succ" "length num = length succ" using inv by (simp_all add: walk_inv_def)
    show "distinct (order @ map fst ((s, 0) # (b, k + 1) # stack))" using inv fresh by (auto simp: walk_inv_def)
    show "set (order @ map fst ((s, 0) # (b, k + 1) # stack)) \<subseteq> {..<length succ}" using inv s by (auto simp: walk_inv_def)
    show "seen[s := True] ! x \<longleftrightarrow> x \<in> set (order @ map fst ((s, 0) # (b, k + 1) # stack))" if "x < length succ" for x
      using inv that len by (cases "x = s") (auto simp: walk_inv_def)
    show "num ! (order ! i) = i" if "i < length order" for i using inv that by (auto simp: walk_inv_def)
    fix e assume "e \<in> set ((s, 0) # (b, k + 1) # stack)"
    then consider "e = (s, 0)" | "e = (b, k + 1)" | "e \<in> set stack" by auto
    then show "case e of (b, k) \<Rightarrow> \<forall>j < min k (length (succ ! b)). seen[s := True] ! (succ ! b ! j)"
    proof cases
      case 2
      have "seen ! (succ ! b ! j)" if "j < k" for j using inv k(1) that by (simp add: walk_inv_def)
      then have "seen[s := True] ! (succ ! b ! j)" if "j < k" for j using that mono by blast
      moreover have "seen[s := True] ! (succ ! b ! k)" using s len unfolding s_def by simp
      ultimately show ?thesis using 2 by (auto simp: less_Suc_eq)
    next
      case 3
      then show ?thesis using inv mono by (auto simp: walk_inv_def)
    qed simp
  next
    show "seen[s := True] ! y" if "x \<in> set order" "y \<in> set (succ ! x)" for x y using inv that mono by (auto simp: walk_inv_def)
    show "linked succ root (map fst ((s, 0) # (b, k + 1) # stack))" using inv edge by (simp add: walk_inv_def)
    show "\<exists>p. x \<in> set (succ ! p) \<and> (p \<in> set (map fst ((s, 0) # (b, k + 1) # stack)) \<or> p \<in> set order \<and> num ! x < num ! p)"
      if x: "x \<in> set order" "x \<noteq> root" for x
    proof -
      obtain p where "x \<in> set (succ ! p)" "p \<in> set (map fst ((b, k) # stack)) \<or> p \<in> set order \<and> num ! x < num ! p"
        using inv x unfolding walk_inv_def by blast
      then show ?thesis by auto
    qed
  qed simp_all
qed

text \<open>A block with nothing left gets its number.\<close>

lemma walk_inv_pop:
  assumes inv: "walk_inv succ root seen num order ((b, k) # stack)" and k: "\<not> k < length (succ ! b)"
  shows "walk_inv succ root seen (num[b := length order]) (order @ [b]) stack"
proof -
  have b: "b < length succ" "b \<notin> set order" and len: "length num = length succ" using inv by (auto simp: walk_inv_def)
  have number: "num[b := length order] ! x = num ! x" if "x \<in> set order" for x using that b(2) by (cases "x = b") simp_all
  have below: "num ! x < length order" if "x \<in> set order" for x
    using inv that by (auto simp: walk_inv_def in_set_conv_nth)
  have next_on_stack: "stack = [] \<Longrightarrow> b = root" "stack \<noteq> [] \<Longrightarrow> \<exists>p \<in> set (map fst stack). b \<in> set (succ ! p)"
    using inv by (auto simp: walk_inv_def neq_Nil_conv)
  show ?thesis
    unfolding walk_inv_def
  proof (intro conjI ballI allI impI)
    show "length seen = length succ" "length (num[b := length order]) = length succ" using inv by (simp_all add: walk_inv_def)
    show "distinct ((order @ [b]) @ map fst stack)" "set ((order @ [b]) @ map fst stack) \<subseteq> {..<length succ}"
      using inv by (auto simp: walk_inv_def)
    show "seen ! x \<longleftrightarrow> x \<in> set ((order @ [b]) @ map fst stack)" if "x < length succ" for x using inv that by (auto simp: walk_inv_def)
    show "num[b := length order] ! ((order @ [b]) ! i) = i" if "i < length (order @ [b])" for i
    proof (cases "i < length order")
      case True
      then show ?thesis using number [of "order ! i"] inv by (simp add: nth_append walk_inv_def)
    next
      case False
      then show ?thesis using that b(1) len by (simp add: nth_append less_Suc_eq)
    qed
    show "case e of (b, k) \<Rightarrow> \<forall>j < min k (length (succ ! b)). seen ! (succ ! b ! j)" if "e \<in> set stack" for e
      using inv that by (auto simp: walk_inv_def)
    show "seen ! s" if "x \<in> set (order @ [b])" "s \<in> set (succ ! x)" for x s
    proof (cases "x = b")
      case True
      with that obtain j where "j < length (succ ! b)" "s = succ ! b ! j" by (auto simp: in_set_conv_nth)
      then show ?thesis using inv k by (auto simp: walk_inv_def)
    next
      case False
      then show ?thesis using inv that by (auto simp: walk_inv_def)
    qed
    show "linked succ root (map fst stack)" using inv by (cases "map fst stack") (auto simp: walk_inv_def)
    show "order @ [b] \<noteq> []" by simp
    show "last (order @ [b]) = root" if "stack = []" using next_on_stack(1) that by simp
    show "\<exists>p. x \<in> set (succ ! p) \<and> (p \<in> set (map fst stack) \<or> p \<in> set (order @ [b]) \<and> num[b := length order] ! x < num[b := length order] ! p)"
      if x: "x \<in> set (order @ [b])" "x \<noteq> root" for x
    proof (cases "x = b")
      case True
      then show ?thesis using next_on_stack x(2) by (cases "stack = []") auto
    next
      case False
      then have xo: "x \<in> set order" using x(1) by simp
      then obtain p where p: "x \<in> set (succ ! p)" "p \<in> set (map fst ((b, k) # stack)) \<or> p \<in> set order \<and> num ! x < num ! p"
        using inv x(2) unfolding walk_inv_def by blast
      have "num[b := length order] ! b = length order" using b(1) len by simp
      then show ?thesis using p number [OF xo] number [of p] below [OF xo] by (intro exI [of _ p]) auto
    qed
  qed
qed

lemma walk_result:
  assumes "succ_ok succ" "walk_inv succ root seen num order stack"
  shows "\<exists>seen' num' order'. walk succ seen num order stack = Inr (seen', num', order') \<and> walk_inv succ root seen' num' order' []"
  using assms
proof (induction succ seen num order stack rule: walk.induct)
  case (1 succ seen num order)
  then show ?case by simp
next
  case (2 succ seen num order b k stack)
  have b: "b < length succ" "length seen = length succ" "length num = length succ" using "2.prems"(2) by (auto simp: walk_inv_def)
  show ?case
  proof (cases "k < length (succ ! b)")
    case True
    have s: "succ ! b ! k < length succ" by (rule succ_okD [OF "2.prems"(1) b(1) True])
    show ?thesis
    proof (cases "seen ! (succ ! b ! k)")
      case seen: True
      have "walk_inv succ root seen num order ((b, k + 1) # stack)" by (rule walk_inv_skip [OF "2.prems"(2) True seen])
      from "2.IH"(1) [OF _ True refl _ seen "2.prems"(1) this] b s True seen show ?thesis by simp
    next
      case fresh: False
      note push = walk_inv_push [OF "2.prems"(2,1) True fresh]
      from "2.IH"(2) [OF _ True refl _ fresh "2.prems"(1) push] b s True fresh show ?thesis by (simp add: Let_def)
    qed
  next
    case False
    note pop = walk_inv_pop [OF "2.prems"(2) False]
    from "2.IH"(3) [OF _ False _ "2.prems"(1) pop] b False show ?thesis by simp
  qed
qed

section \<open>What the walk gives\<close>

definition mirrors :: "graph \<Rightarrow> graph \<Rightarrow> bool" where
  "mirrors succ pred \<longleftrightarrow> length succ = length pred \<and>
     (\<forall>p < length pred. \<forall>b < length pred. p \<in> set (pred ! b) \<longleftrightarrow> b \<in> set (succ ! p))"

lemma mirrors_edges:
  assumes "mirrors succ pred" "graph_ok (length pred) pred" "succ_ok succ" "p < length pred"
  shows "(p, b) \<in> edges pred \<longleftrightarrow> b \<in> set (succ ! p)"
proof -
  have "b < length pred" if "b \<in> set (succ ! p)" using assms that by (auto simp: mirrors_def succ_ok_def)
  then show ?thesis using assms(1,4) by (auto simp: mirrors_def edges_def)
qed

lemma walk_numbered:
  assumes inv: "walk_inv succ root seen num order []" and ok: "succ_ok succ"
    and m: "mirrors succ pred" "graph_ok (length pred) pred"
  shows "\<exists>par. numbered (edges pred) root (set order) ((!) num) par" "ordered root (set order) num order"
    "set order \<subseteq> {..<length pred}" "length num = length pred"
proof -
  have len: "length succ = length pred" using m(1) by (simp add: mirrors_def)
  show sub: "set order \<subseteq> {..<length pred}" "length num = length pred" using inv len by (simp_all add: walk_inv_def)
  have root: "order \<noteq> []" "last order = root" using inv by (simp_all add: walk_inv_def)
  have at: "num ! (order ! i) = i" if "i < length order" for i using inv that by (simp add: walk_inv_def)
  show o: "ordered root (set order) num order" using root at by (simp add: ordered_def)
  have seen: "seen ! x \<longleftrightarrow> x \<in> set order" if "x < length pred" for x using inv that len by (simp add: walk_inv_def)
  have edge: "(p, b) \<in> edges pred \<longleftrightarrow> b \<in> set (succ ! p)" if "p < length pred" for p b by (rule mirrors_edges [OF m ok that])
  have "root = order ! (length order - 1)" using root by (simp add: last_conv_nth)
  then have top: "num ! root = length order - 1" using at root(1) by simp
  have inj: "inj_on ((!) num) (set order)" using at by (auto simp: inj_on_def in_set_conv_nth)
  have less: "num ! x < num ! root" if x: "x \<in> set order - {root}" for x
  proof -
    obtain i where i: "i < length order" "x = order ! i" using x by (auto simp: in_set_conv_nth)
    have "i \<noteq> length order - 1" using i x root by (auto simp: last_conv_nth)
    then show ?thesis using i at top by simp
  qed
  have "\<forall>x \<in> set order - {root}. \<exists>p. p \<in> set order \<and> (p, x) \<in> edges pred \<and> num ! x < num ! p"
  proof
    fix x assume x: "x \<in> set order - {root}"
    then obtain p where p: "x \<in> set (succ ! p)" "p \<in> set order" "num ! x < num ! p" using inv by (auto simp: walk_inv_def)
    with sub edge [of p x] show "\<exists>p. p \<in> set order \<and> (p, x) \<in> edges pred \<and> num ! x < num ! p" by blast
  qed
  from bchoice [OF this] obtain par where
    par: "\<forall>x \<in> set order - {root}. par x \<in> set order \<and> (par x, x) \<in> edges pred \<and> num ! x < num ! (par x)" by blast
  have closed: "b \<in> set order" if "(p, b) \<in> edges pred" "p \<in> set order" for p b
  proof -
    have "p < length pred" "b < length pred" using that sub by (auto simp: edges_def)
    moreover have "seen ! b" using inv that edge [OF calculation(1)] by (auto simp: walk_inv_def)
    ultimately show ?thesis using seen by blast
  qed
  have "root \<in> set order" using root last_in_set by blast
  then have "numbered (edges pred) root (set order) ((!) num) par"
    using inj less closed par unfolding numbered_def by blast
  then show "\<exists>par. numbered (edges pred) root (set order) ((!) num) par" by blast
qed

definition reached :: "graph \<Rightarrow> nat \<Rightarrow> nat \<Rightarrow> bool" where
  "reached pred root x \<longleftrightarrow> (\<exists>vs. trail (edges pred) root vs x)"

lemma numbered_reached:
  assumes "numbered (edges pred) root R post par"
  shows "x \<in> R \<longleftrightarrow> reached pred root x"
proof
  assume "x \<in> R"
  then show "reached pred root x"
  proof (induction "post root - post x" arbitrary: x rule: less_induct)
    case less
    show ?case
    proof (cases "x = root")
      case False
      note p = numberedD(6-8) [OF assms less.prems False]
      have "post x < post root" by (rule numberedD(4) [OF assms less.prems False])
      then have "reached pred root (par x)" using less.hyps [OF _ p(1)] p(3) by simp
      then show ?thesis using p(2) by (auto simp: reached_def intro: trail_step)
    qed (auto simp: reached_def intro: trail_root)
  qed
next
  assume "reached pred root x"
  then obtain vs where "trail (edges pred) root vs x" by (auto simp: reached_def)
  then show "x \<in> R" by induction (auto intro: numberedD(2,5) [OF assms])
qed

section \<open>Immediate dominators\<close>

definition up_of :: "nat option list \<Rightarrow> nat \<rightharpoonup> nat" where
  "up_of idom x = (if x < length idom then idom ! x else None)"

lemma up_of_tree:
  assumes "root < length idom"
  shows "up_of (map some_block (idom[root := NO_BLOCK])) = par_of root idom"
  using assms by (auto simp: up_of_def par_of_def some_block_def fun_eq_iff nth_list_update)

lemma immediate_tree_doms:
  assumes size: "root < length succ" "length succ \<le> usize_MAX" and ok: "succ_ok succ"
    and m: "mirrors succ pred" "graph_ok (length pred) pred"
  shows "\<exists>idom post. immediate_tree root succ pred = Some (Inr idom) \<and> length idom = length pred \<and> climbs post (up_of idom) \<and>
    (\<forall>x. reached pred root x \<longrightarrow> anc (up_of idom) x = doms (edges pred) root x) \<and>
    (\<forall>x. up_of idom x \<noteq> None \<longleftrightarrow> reached pred root x \<and> x \<noteq> root)"
proof -
  let ?n = "length pred"
  have len: "length succ = ?n" using m(1) by (simp add: mirrors_def)
  obtain seen num order where w: "walk succ ((replicate ?n False)[root := True]) (replicate ?n 0) [] [(root, 0)] = Inr (seen, num, order)"
    and inv: "walk_inv succ root seen num order []"
    using walk_result [OF ok walk_inv_start [OF size(1)]] unfolding len by blast
  note walked = walk_numbered [OF inv ok m]
  then obtain par where num: "numbered (edges pred) root (set order) ((!) num) par" by blast
  let ?start = "(replicate ?n NO_BLOCK)[root := root]"
  have empty: "par_of root ?start = Map.empty" using size(1) len by (auto simp: par_of_def fun_eq_iff nth_list_update split: if_splits)
  have "num ! root = length order - 1" using walked(2) unfolding ordered_def
    by (metis last_conv_nth length_greater_0_conv diff_less zero_less_one)
  then have start: "stands pred root (set order) num par (length order - 1) ?start"
    unfolding stands_def empty using settling_start [OF num] walked(3,4) num m(2) size len by (simp add: NO_BLOCK_def)
  obtain idom where i: "settle num pred (tl (rev order)) ?start = Some (Inr idom)" "stands pred root (set order) num par 0 idom"
    "\<forall>b \<in> set order - {root}. at_rest pred root idom b" using settle_result [OF walked(2) start] by blast
  note d = standsD [OF i(2)]
  let ?r = "map some_block (idom[root := NO_BLOCK])"
  have up: "up_of ?r = par_of root idom" using d(2,6) by (intro up_of_tree) simp
  have "immediate_tree root succ pred = Some (Inr ?r)"
    unfolding immediate_tree_def Let_def len using size(1) w i(1) len by simp
  moreover have "length ?r = ?n" using d(2) by simp
  moreover have "climbs ((!) num) (up_of ?r)" unfolding up by (rule settlingD(2) [OF d(9)])
  moreover have "anc (up_of ?r) x = doms (edges pred) root x" if "reached pred root x" for x
    unfolding up using settled_doms [OF d(8,9)] i(3) that numbered_reached [OF num, of x] by (auto simp: at_rest_def)
  moreover have "up_of ?r x \<noteq> None \<longleftrightarrow> reached pred root x \<and> x \<noteq> root" for x
  proof -
    have "x \<in> dom (par_of root idom) \<longleftrightarrow> x \<in> set order - {root}"
      using settlingD(1) [OF d(9)] settlingD(4) [OF d(9), of x] by auto
    then show ?thesis unfolding up using numbered_reached [OF num, of x] by auto
  qed
  ultimately show ?thesis by blast
qed

end
