(* ===== verification/Dom_Spans.thy ===== *)
theory Dom_Spans
  imports Dom_Walk
begin

text \<open>
  The walk of the tree gives every block an interval, and one block's interval holds another's
  exactly when it is above it.
\<close>

section \<open>Children\<close>

lemma add_children_result:
  assumes "\<forall>p. Some p \<in> set ps \<longrightarrow> p < length children"
  shows "\<exists>ch. add_children i ps children = Inr ch \<and> length ch = length children \<and>
    (\<forall>p < length children. ch ! p = children ! p @ map ((+) i) (filter (\<lambda>j. ps ! j = Some p) [0..<length ps]))"
  using assms
proof (induction i ps children rule: add_children.induct)
  case (1 i children)
  then show ?case by simp
next
  case (2 i ps children)
  have shift: "map ((+) i) (filter (\<lambda>j. (None # ps) ! j = Some p) [0..<length (None # ps)]) =
      map ((+) (i + 1)) (filter (\<lambda>j. ps ! j = Some p) [0..<length ps])" for p
    by (simp add: upt_conv_Cons map_Suc_upt [symmetric] filter_map comp_def del: upt_Suc)
  show ?case using "2.IH" "2.prems" unfolding shift by auto
next
  case (3 i p ps children)
  have shift: "map ((+) i) (filter (\<lambda>j. (Some p # ps) ! j = Some q) [0..<length (Some p # ps)]) =
      (if p = q then [i] else []) @ map ((+) (i + 1)) (filter (\<lambda>j. ps ! j = Some q) [0..<length ps])" for q
    by (simp add: upt_conv_Cons map_Suc_upt [symmetric] filter_map comp_def del: upt_Suc)
  have p: "p < length children" using "3.prems" by simp
  then obtain ch where "add_children (i + 1) ps (push_at p i children) = Inr ch" "length ch = length children"
    "\<forall>q < length children. ch ! q = push_at p i children ! q @ map ((+) (i + 1)) (filter (\<lambda>j. ps ! j = Some q) [0..<length ps])"
    using "3.IH" [OF p] "3.prems" by (auto simp: push_at_def)
  with p show ?case unfolding shift by (auto simp: push_at_def nth_list_update)
qed

lemma dom_children_result:
  assumes "\<forall>p. Some p \<in> set idom \<longrightarrow> p < length idom"
  shows "\<exists>ch. dom_children idom = Inr ch \<and> length ch = length idom \<and>
    (\<forall>p < length idom. ch ! p = filter (\<lambda>j. idom ! j = Some p) [0..<length idom])"
proof -
  have "map ((+) 0) xs = xs" for xs :: "nat list" by (induction xs) simp_all
  then show ?thesis
    unfolding dom_children_def using add_children_result [of idom "replicate (length idom) []" 0] assms by simp
qed

section \<open>Intervals\<close>

definition below :: "(nat \<rightharpoonup> nat) \<Rightarrow> nat \<Rightarrow> nat set" where
  "below f b = {x. b \<in> anc f x}"

definition holds_span :: "spans \<Rightarrow> nat \<Rightarrow> nat \<Rightarrow> bool" where
  "holds_span spans a b = (case (spans ! a, spans ! b) of
     (Some (a_in, a_out), Some (b_in, b_out)) \<Rightarrow> a_in \<le> b_in \<and> b_out \<le> a_out
   | _ \<Rightarrow> False)"

text \<open>Intervals between two times, each of some length.\<close>

definition timed :: "spans \<Rightarrow> nat \<Rightarrow> nat \<Rightarrow> nat set \<Rightarrow> bool" where
  "timed spans lo hi S \<longleftrightarrow> (\<forall>x \<in> S. \<exists>i k. spans ! x = Some (i, k) \<and> lo \<le> unat i \<and> unat i < unat k \<and> unat k \<le> hi)"

text \<open>Among these blocks, intervals nest as the chains do.\<close>

definition nested :: "(nat \<rightharpoonup> nat) \<Rightarrow> spans \<Rightarrow> nat set \<Rightarrow> bool" where
  "nested f spans S \<longleftrightarrow> (\<forall>x \<in> S. \<forall>y \<in> S. holds_span spans x y \<longleftrightarrow> x \<in> anc f y)"

lemma timedE:
  assumes "timed spans lo hi S" "x \<in> S"
  obtains i k where "spans ! x = Some (i, k)" "lo \<le> unat i" "unat i < unat k" "unat k \<le> hi"
  using assms by (auto simp: timed_def)

lemma timed_mono: "timed spans lo hi S \<Longrightarrow> lo' \<le> lo \<Longrightarrow> hi \<le> hi' \<Longrightarrow> timed spans lo' hi' S"
  by (fastforce simp: timed_def)

lemma timed_cong: "(\<And>x. x \<in> S \<Longrightarrow> spans' ! x = spans ! x) \<Longrightarrow> timed spans' lo hi S \<longleftrightarrow> timed spans lo hi S"
  by (simp add: timed_def)

lemma nested_cong: "(\<And>x. x \<in> S \<Longrightarrow> spans' ! x = spans ! x) \<Longrightarrow> nested f spans' S \<longleftrightarrow> nested f spans S"
  by (simp add: nested_def holds_span_def)

lemma apart_spans:
  assumes "timed spans a b S" "timed spans c d T" "b < c" "x \<in> S" "y \<in> T"
  shows "\<not> holds_span spans x y" "\<not> holds_span spans y x"
proof -
  obtain i k where x: "spans ! x = Some (i, k)" "unat i < unat k" "unat k \<le> b" using timedE [OF assms(1,4)] by metis
  obtain j l where y: "spans ! y = Some (j, l)" "c \<le> unat j" "unat j < unat l" using timedE [OF assms(2,5)] by metis
  show "\<not> holds_span spans x y" "\<not> holds_span spans y x"
    using x y assms(3) by (simp_all add: holds_span_def word_le_nat_alt)
qed

lemma nested_union:
  assumes "timed spans a b S" "timed spans c d T" "b < c" "nested f spans S" "nested f spans T"
    "\<And>x y. x \<in> S \<Longrightarrow> y \<in> T \<Longrightarrow> x \<notin> anc f y \<and> y \<notin> anc f x"
  shows "nested f spans (S \<union> T)"
  using assms apart_spans [OF assms(1-3)] by (simp add: nested_def ball_Un)

lemma nested_insert:
  assumes "timed spans lo hi S" "nested f spans S" "spans ! b = Some (i, k)" "unat i < lo" "hi < unat k"
    "\<And>x. x \<in> S \<Longrightarrow> b \<in> anc f x \<and> x \<notin> anc f b"
  shows "nested f spans (insert b S)"
proof -
  have "holds_span spans b x" "\<not> holds_span spans x b" if "x \<in> S" for x
  proof -
    obtain j l where "spans ! x = Some (j, l)" "lo \<le> unat j" "unat l \<le> hi"
      using assms(1) \<open>x \<in> S\<close> unfolding timed_def by blast
    with assms(3-5) show "holds_span spans b x" "\<not> holds_span spans x b" by (simp_all add: holds_span_def word_le_nat_alt)
  qed
  moreover have "holds_span spans b b" using assms(3) by (simp add: holds_span_def)
  ultimately show ?thesis using assms(2,6) by (simp add: nested_def)
qed

section \<open>The walk of a tree\<close>

definition tree_ok :: "(nat \<Rightarrow> nat) \<Rightarrow> graph \<Rightarrow> nat option list \<Rightarrow> bool" where
  "tree_ok h ch idom \<longleftrightarrow> length ch = length idom \<and> climbs h (up_of idom) \<and> (\<forall>x p. up_of idom x = Some p \<longrightarrow> p < length idom) \<and>
     (\<forall>p < length idom. ch ! p = filter (\<lambda>j. idom ! j = Some p) [0..<length idom])"

lemma tree_okD:
  assumes "tree_ok h ch idom" "b < length idom"
  shows "length ch = length idom" "climbs h (up_of idom)" "c \<in> set (ch ! b) \<longleftrightarrow> up_of idom c = Some b" "distinct (ch ! b)"
    "c \<in> set (ch ! b) \<Longrightarrow> c < length idom \<and> h c < h b"
proof -
  show cl: "length ch = length idom" "climbs h (up_of idom)" using assms(1) by (simp_all add: tree_ok_def)
  have ch: "ch ! b = filter (\<lambda>j. idom ! j = Some b) [0..<length idom]" using assms by (simp add: tree_ok_def)
  show c: "c \<in> set (ch ! b) \<longleftrightarrow> up_of idom c = Some b" by (auto simp: ch up_of_def)
  show "distinct (ch ! b)" by (simp add: ch)
  show "c < length idom \<and> h c < h b" if "c \<in> set (ch ! b)" using c that cl(2) by (auto simp: climbs_def up_of_def split: if_splits)
qed

lemma below_children:
  assumes "tree_ok h ch idom" "b < length idom"
  shows "below (up_of idom) b = insert b (\<Union> (below (up_of idom) ` set (ch ! b)))"
proof -
  have "x = b \<or> (\<exists>c. up_of idom c = Some b \<and> c \<in> anc (up_of idom) x)" if "b \<in> anc (up_of idom) x" for x
    using that
  proof (induction rule: anc_induct)
    case (step x y)
    have "anc (up_of idom) x = insert x (anc (up_of idom) y)" by (rule anc_Some) (rule step.hyps(1))
    with step show ?case by auto
  qed simp
  moreover have "b \<in> anc (up_of idom) x" if "up_of idom c = Some b" "c \<in> anc (up_of idom) x" for c x
    using anc_step [OF that(2,1)] .
  ultimately have "b \<in> anc (up_of idom) x \<longleftrightarrow> x = b \<or> (\<exists>c. up_of idom c = Some b \<and> c \<in> anc (up_of idom) x)" for x
    by (metis anc_self)
  then show ?thesis using tree_okD(3) [OF assms] unfolding below_def by blast
qed

lemma below_bounds:
  assumes "tree_ok h ch idom" "b < length idom"
  shows "below (up_of idom) b \<subseteq> {..<length idom}" "finite (below (up_of idom) b)" "x \<in> below (up_of idom) b \<Longrightarrow> h x \<le> h b"
proof -
  have "x < length idom" if "b \<in> anc (up_of idom) x" for x
    using that by (induction rule: anc_induct) (use assms(2) in \<open>auto simp: up_of_def split: if_splits\<close>)
  then show "below (up_of idom) b \<subseteq> {..<length idom}" by (auto simp: below_def)
  then show "finite (below (up_of idom) b)" by (rule finite_subset) simp
  show "x \<in> below (up_of idom) b \<Longrightarrow> h x \<le> h b" using anc_height_le [OF tree_okD(2) [OF assms]] by (simp add: below_def)
qed

text \<open>Below two children of a block there are different blocks, none above another.\<close>

lemma below_apart:
  assumes "tree_ok h ch idom" "b < length idom" "c \<in> set (ch ! b)" "d \<in> set (ch ! b)" "c \<noteq> d"
    "x \<in> below (up_of idom) c" "y \<in> below (up_of idom) d"
  shows "x \<notin> anc (up_of idom) y" "x \<noteq> y"
proof -
  let ?f = "up_of idom"
  have cl: "climbs h ?f" by (rule tree_okD(2) [OF assms(1,2)])
  have no: "c' \<notin> anc ?f d'" if "c' \<in> set (ch ! b)" "d' \<in> set (ch ! b)" "c' \<noteq> d'" for c' d'
  proof
    assume "c' \<in> anc ?f d'"
    moreover have "?f d' = Some b" using tree_okD(3) [OF assms(1,2)] that by simp
    then have "anc ?f d' = insert d' (anc ?f b)" by (rule anc_Some)
    ultimately have "c' \<in> anc ?f b" using that(3) by simp
    then have "h b \<le> h c'" by (rule anc_height_le [OF cl])
    with tree_okD(5) [OF assms(1,2) that(1)] show False by simp
  qed
  have "False" if "c \<in> anc ?f y" using anc_linear [OF that, of d] assms(7) no [OF assms(3,4,5)] no [OF assms(4,3)] assms(5)
    by (auto simp: below_def)
  then show "x \<notin> anc ?f y" using assms(6) by (auto simp: below_def intro: anc_trans)
  then show "x \<noteq> y" by auto
qed

text \<open>What the walk does with the subtree of a block it enters at time \<open>t\<close>.\<close>

definition walks :: "graph \<Rightarrow> nat option list \<Rightarrow> nat \<Rightarrow> bool" where
  "walks ch idom b \<longleftrightarrow> (\<forall>t spans rest. length spans = length idom \<longrightarrow> t + 2 * card (below (up_of idom) b) \<le> u32_MAX \<longrightarrow>
     (\<exists>spans'. walk_tree ch (of_nat t) spans ((b, 0, of_nat t) # rest) =
         walk_tree ch (of_nat (t + 2 * card (below (up_of idom) b) - 1)) spans' rest \<and>
       length spans' = length idom \<and> (\<forall>x. x \<notin> below (up_of idom) b \<longrightarrow> spans' ! x = spans ! x) \<and>
       timed spans' t (t + 2 * card (below (up_of idom) b) - 1) (below (up_of idom) b) \<and> nested (up_of idom) spans' (below (up_of idom) b)))"

lemma walk_tree_turn:
  assumes "b < length ch" "t < u32_MAX"
  shows "walk_tree ch (of_nat t) spans ((b, k, e) # rest) =
    (if k < length (ch ! b) then walk_tree ch (of_nat (t + 1)) spans ((ch ! b ! k, 0, of_nat (t + 1)) # (b, k + 1, e) # rest)
     else if b < length spans then walk_tree ch (of_nat (t + 1)) (spans[b := Some (e, of_nat (t + 1))]) rest
     else Some (Inl (OutOfRange b (length spans))))"
proof -
  have "unat (of_nat t :: u32) = t" using assms(2) by (intro unat_of_nat_u32) simp
  then have "tick (of_nat t) = Inr (of_nat (t + 1))" using assms(2) by (simp add: tick_def add.commute)
  then show ?thesis using assms(1) by (subst walk_tree.simps) (simp add: tree_turn_def idx_def)
qed

lemma walk_children:
  assumes ok: "tree_ok h ch idom" "b < length idom" and ds: "ds = drop k (ch ! b)" "k \<le> length (ch ! b)"
    and child: "\<forall>c \<in> set (ch ! b). walks ch idom c"
    and spans: "length spans = length idom" and time: "t + 2 * card (\<Union> (below (up_of idom) ` set ds)) + 1 \<le> u32_MAX"
  defines "S \<equiv> \<Union> (below (up_of idom) ` set ds)"
  shows "\<exists>spans'. walk_tree ch (of_nat t) spans ((b, k, e) # rest) = walk_tree ch (of_nat (t + 2 * card S + 1)) spans' rest \<and>
    length spans' = length idom \<and> spans' ! b = Some (e, of_nat (t + 2 * card S + 1)) \<and>
    (\<forall>x. x \<notin> insert b S \<longrightarrow> spans' ! x = spans ! x) \<and> timed spans' (t + 1) (t + 2 * card S) S \<and> nested (up_of idom) spans' S"
  unfolding S_def using ds spans time
proof (induction ds arbitrary: k t spans)
  case Nil
  have "\<not> k < length (ch ! b)" using Nil.prems(1) by simp
  then have "walk_tree ch (of_nat t) spans ((b, k, e) # rest) = walk_tree ch (of_nat (t + 1)) (spans[b := Some (e, of_nat (t + 1))]) rest"
    using walk_tree_turn [of b ch t spans k e rest] ok(2) tree_okD(1) [OF ok] Nil.prems(3,4) by simp
  with Nil.prems(3) ok(2) show ?case
    by (intro exI [of _ "spans[b := Some (e, of_nat (t + 1))]"]) (auto simp: timed_def nested_def)
next
  case (Cons c ds)
  let ?f = "up_of idom"
  let ?C = "below ?f c" and ?D = "\<Union> (below ?f ` set ds)"
  have k1: "k < length (ch ! b)" using Cons.prems(1) by (metis drop_eq_Nil list.distinct(1) not_less)
  then have "c # ds = ch ! b ! k # drop (k + 1) (ch ! b)" using Cons.prems(1) Cons_nth_drop_Suc [OF k1] by simp
  then have k: "k < length (ch ! b)" "ch ! b ! k = c" "ds = drop (k + 1) (ch ! b)" using k1 by simp_all
  have cin: "c \<in> set (ch ! b)" using k by auto
  have din: "set ds \<subseteq> set (ch ! b)" using k(3) set_drop_subset by metis
  have "distinct (c # ds)" using tree_okD(4) [OF ok] Cons.prems(1) by (metis distinct_drop)
  then have ne: "c \<noteq> d" if "d \<in> set ds" for d using that by auto
  have disj: "?C \<inter> ?D = {}" using below_apart(2) [OF ok cin] din ne by blast
  have fin: "finite ?C" "finite ?D"
    using below_bounds(2) [OF ok(1)] tree_okD(5) [OF ok] cin din by (auto intro!: finite_UN_I)
  have card: "card (\<Union> (below ?f ` set (c # ds))) = card ?C + card ?D" using card_Un_disjoint [OF fin disj] by simp
  have "?C \<noteq> {}" using anc_self by (auto simp: below_def)
  then have pos: "0 < card ?C" using fin(1) by (simp add: card_gt_0_iff)
  let ?t1 = "t + 2 * card ?C"
  have time: "?t1 + 2 * card ?D + 1 \<le> u32_MAX" using Cons.prems(4) unfolding card by simp
  have turn: "walk_tree ch (of_nat t) spans ((b, k, e) # rest) =
      walk_tree ch (of_nat (t + 1)) spans ((c, 0, of_nat (t + 1)) # (b, k + 1, e) # rest)"
    using walk_tree_turn [of b ch t spans k e rest] ok(2) tree_okD(1) [OF ok] k time by simp
  have "t + 1 + 2 * card ?C \<le> u32_MAX" using time by linarith
  with child cin Cons.prems(3) obtain s1 where s1:
    "walk_tree ch (of_nat (t + 1)) spans ((c, 0, of_nat (t + 1)) # (b, k + 1, e) # rest) =
      walk_tree ch (of_nat (t + 1 + 2 * card ?C - 1)) s1 ((b, k + 1, e) # rest)"
    "length s1 = length idom" "\<forall>x. x \<notin> ?C \<longrightarrow> s1 ! x = spans ! x" "timed s1 (t + 1) (t + 1 + 2 * card ?C - 1) ?C" "nested ?f s1 ?C"
    unfolding walks_def by blast
  have t1: "t + 1 + 2 * card ?C - 1 = ?t1" by simp
  obtain s2 where s2: "walk_tree ch (of_nat ?t1) s1 ((b, k + 1, e) # rest) = walk_tree ch (of_nat (?t1 + 2 * card ?D + 1)) s2 rest"
    "length s2 = length idom" "s2 ! b = Some (e, of_nat (?t1 + 2 * card ?D + 1))" "\<forall>x. x \<notin> insert b ?D \<longrightarrow> s2 ! x = s1 ! x"
    "timed s2 (?t1 + 1) (?t1 + 2 * card ?D) ?D" "nested ?f s2 ?D"
    using Cons.IH [OF k(3) _ s1(2) time] k(1) by auto
  have bC: "b \<notin> ?C" using below_bounds(3) [OF ok(1), of c b] tree_okD(5) [OF ok cin] by auto
  have keep: "s2 ! x = s1 ! x" if x: "x \<in> ?C" for x
  proof -
    have "x \<notin> insert b ?D" using x bC disj by (metis IntI empty_iff insertE)
    with s2(4) show ?thesis by simp
  qed
  have tC: "timed s2 (t + 1) ?t1 ?C" using s1(4) timed_cong [of ?C s2 s1, OF keep] unfolding t1 by simp
  have nC: "nested ?f s2 ?C" using s1(5) nested_cong [of ?C s2 s1, OF keep] by simp
  have un: "\<Union> (below ?f ` set (c # ds)) = ?C \<union> ?D" by simp
  have "nested ?f s2 (?C \<union> ?D)"
  proof (rule nested_union [OF tC s2(5) _ nC s2(6)])
    fix x y assume x: "x \<in> ?C" and "y \<in> ?D"
    then obtain d where d: "d \<in> set ds" "y \<in> below ?f d" by blast
    then have din': "d \<in> set (ch ! b)" using din by blast
    show "x \<notin> anc ?f y \<and> y \<notin> anc ?f x"
      using below_apart(1) [OF ok cin din' ne [OF d(1)] x d(2)] below_apart(1) [OF ok din' cin _ d(2) x] ne [OF d(1)] by auto
  qed simp
  moreover have "timed s2 (t + 1) (?t1 + 2 * card ?D) (?C \<union> ?D)"
    using timed_mono [OF tC] timed_mono [OF s2(5)] by (auto simp: timed_def ball_Un)
  moreover have "s2 ! x = spans ! x" if "x \<notin> insert b (?C \<union> ?D)" for x using s1(3) s2(4) that by simp
  ultimately have "length s2 = length idom \<and> s2 ! b = Some (e, of_nat (?t1 + 2 * card ?D + 1)) \<and>
      (\<forall>x. x \<notin> insert b (?C \<union> ?D) \<longrightarrow> s2 ! x = spans ! x) \<and>
      timed s2 (t + 1) (?t1 + 2 * card ?D) (?C \<union> ?D) \<and> nested ?f s2 (?C \<union> ?D)"
    using s2(2,3) by blast
  moreover have eq: "t + 2 * (card ?C + card ?D) = ?t1 + 2 * card ?D" by simp
  moreover have "walk_tree ch (of_nat t) spans ((b, k, e) # rest) = walk_tree ch (of_nat (?t1 + 2 * card ?D + 1)) s2 rest"
    unfolding turn s1(1) t1 by (rule s2(1))
  ultimately show ?case unfolding card unfolding un eq by blast
qed

lemma walks_all:
  assumes "tree_ok h ch idom" "b < length idom"
  shows "walks ch idom b"
  using assms(2)
proof (induction "h b" arbitrary: b rule: less_induct)
  case less
  let ?f = "up_of idom"
  let ?S = "\<Union> (below ?f ` set (ch ! b))"
  note ok = assms(1) less.prems
  have child: "\<forall>c \<in> set (ch ! b). walks ch idom c" using less.hyps tree_okD(5) [OF ok] by blast
  have b: "below ?f b = insert b ?S" by (rule below_children [OF ok])
  have out: "b \<in> anc ?f x \<and> x \<notin> anc ?f b" if x: "x \<in> ?S" for x
  proof -
    obtain c where c: "c \<in> set (ch ! b)" "x \<in> below ?f c" using x by blast
    have "h x < h b" using below_bounds(3) [OF assms(1), of c x] tree_okD(5) [OF ok c(1)] c(2) by auto
    then have "x \<notin> anc ?f b" using anc_height_le [OF tree_okD(2) [OF ok], of x b] by auto
    moreover have "x \<in> below ?f b" using x b by blast
    ultimately show ?thesis by (simp add: below_def)
  qed
  then have "b \<notin> ?S" by auto
  moreover have fin: "finite ?S" using below_bounds(2) [OF ok] b by simp
  ultimately have card: "card (below ?f b) = card ?S + 1" unfolding b by simp
  show ?case
    unfolding walks_def
  proof (intro allI impI)
    fix t spans rest
    assume spans: "length (spans :: spans) = length idom" and time: "t + 2 * card (below ?f b) \<le> u32_MAX"
    have e: "t + 2 * card (below ?f b) - 1 = t + 2 * card ?S + 1" unfolding card by simp
    obtain s where s: "walk_tree ch (of_nat t) spans ((b, 0, of_nat t) # rest) = walk_tree ch (of_nat (t + 2 * card ?S + 1)) s rest"
      "length s = length idom" "s ! b = Some (of_nat t, of_nat (t + 2 * card ?S + 1))"
      "\<forall>x. x \<notin> insert b ?S \<longrightarrow> s ! x = spans ! x" "timed s (t + 1) (t + 2 * card ?S) ?S" "nested ?f s ?S"
      using walk_children [OF ok _ _ child spans, of "ch ! b" 0 t "of_nat t" rest] time unfolding card by auto
    have u: "unat (of_nat t :: u32) = t" "unat (of_nat (t + 2 * card ?S + 1) :: u32) = t + 2 * card ?S + 1"
      by (rule unat_of_nat_u32, use time card in linarith)+
    have "nested ?f s (insert b ?S)" by (rule nested_insert [OF s(5,6,3)]) (use u out in auto)
    moreover have "timed s t (t + 2 * card ?S + 1) (insert b ?S)"
      using timed_mono [OF s(5), of t "t + 2 * card ?S + 1"] s(3) u unfolding timed_def by auto
    ultimately show "\<exists>spans'. walk_tree ch (of_nat t) spans ((b, 0, of_nat t) # rest) =
        walk_tree ch (of_nat (t + 2 * card (below ?f b) - 1)) spans' rest \<and> length spans' = length idom \<and>
        (\<forall>x. x \<notin> below ?f b \<longrightarrow> spans' ! x = spans ! x) \<and> timed spans' t (t + 2 * card (below ?f b) - 1) (below ?f b) \<and>
        nested ?f spans' (below ?f b)"
      unfolding e unfolding b using s(1,2,4) by blast
  qed
qed

section \<open>The intervals of a tree\<close>

lemma tree_spans_result:
  assumes "climbs h (up_of idom)" "\<forall>x p. up_of idom x = Some p \<longrightarrow> p < length idom" "root < length idom" "2 * length idom \<le> u32_MAX"
  shows "\<exists>spans. tree_spans root idom = Some (Inr spans) \<and> length spans = length idom \<and>
    (\<forall>x < length idom. spans ! x \<noteq> None \<longleftrightarrow> root \<in> anc (up_of idom) x) \<and> nested (up_of idom) spans (below (up_of idom) root)"
proof -
  let ?S = "below (up_of idom) root"
  have "p < length idom" if p: "Some p \<in> set idom" for p
  proof -
    obtain x where "x < length idom" "idom ! x = Some p" using p by (auto simp: in_set_conv_nth)
    then have "up_of idom x = Some p" by (simp add: up_of_def)
    with assms(2) show ?thesis by blast
  qed
  then obtain ch where ch: "dom_children idom = Inr ch" "length ch = length idom"
    "\<forall>p < length idom. ch ! p = filter (\<lambda>j. idom ! j = Some p) [0..<length idom]" using dom_children_result by blast
  then have ok: "tree_ok h ch idom" using assms(1,2) by (simp add: tree_ok_def)
  have "card ?S \<le> length idom" using card_mono [OF _ below_bounds(1) [OF ok assms(3)]] by simp
  then have "0 + 2 * card ?S \<le> u32_MAX" using assms(4) by linarith
  then obtain spans where s: "walk_tree ch (of_nat 0) (replicate (length idom) None) ((root, 0, of_nat 0) # []) =
      walk_tree ch (of_nat (0 + 2 * card ?S - 1)) spans []" "length spans = length idom"
    "\<forall>x. x \<notin> ?S \<longrightarrow> spans ! x = replicate (length idom) None ! x" "timed spans 0 (0 + 2 * card ?S - 1) ?S"
    "nested (up_of idom) spans ?S"
    using walks_all [OF ok assms(3)] unfolding walks_def by (metis length_replicate)
  have "tree_spans root idom = Some (Inr spans)" using s(1) ch(1) by (simp add: tree_spans_def walk_tree.simps [of ch _ spans])
  moreover have "spans ! x \<noteq> None \<longleftrightarrow> root \<in> anc (up_of idom) x" if "x < length idom" for x
    using s(3,4) that by (cases "x \<in> ?S") (auto simp: below_def elim: timedE)
  ultimately show ?thesis using s(2,5) by blast
qed

end
