(* ===== verification/Dom_Graph.thy ===== *)
theory Dom_Graph
  imports Dom_Spans
begin

text \<open>
  The graphs the trees are built on: \<open>block_graph_of\<close> gives successors and predecessors that mirror
  each other, \<open>forward\<close> turns predecessors into successors, and \<open>reverse\<close> turns every edge
  round and adds the virtual exit.
\<close>

section \<open>Pushing edges\<close>

lemma in_zip_upt: "(i, x) \<in> set (zip [0..<length xs] xs) \<longleftrightarrow> i < length xs \<and> x = xs ! i"
proof -
  have "(i, x) \<in> set (zip [0..<length xs] xs) \<longleftrightarrow> (\<exists>k < length xs. i = k \<and> x = xs ! k)" by (force simp: in_set_zip)
  then show ?thesis by blast
qed

lemma push_at_length [simp]: "length (push_at i x xss) = length xss"
  by (simp add: push_at_def)

lemma push_at_set: "k < length xss \<Longrightarrow> set (push_at i x xss ! k) = set (xss ! k) \<union> (if k = i then {x} else {})"
  by (auto simp: push_at_def nth_list_update)

section \<open>The successors of forward\<close>

lemma push_column_length [simp]: "length (fold (\<lambda>p. push_at p i) ps succ) = length succ"
  by (induction ps arbitrary: succ) simp_all

lemma push_column_set:
  "k < length succ \<Longrightarrow> set (fold (\<lambda>p. push_at p i) ps succ ! k) = set (succ ! k) \<union> (if k \<in> set ps then {i} else {})"
  by (induction ps arbitrary: succ) (auto simp: push_at_set)

lemma push_columns_length:
  "length (fold (\<lambda>(i, ps) succ. fold (\<lambda>p. push_at p i) (filter Q ps) succ) ips succ) = length succ"
  by (induction ips arbitrary: succ) (auto split: prod.split)

lemma push_columns_set:
  "k < length succ \<Longrightarrow> Q k \<Longrightarrow> set (fold (\<lambda>(i, ps) succ. fold (\<lambda>p. push_at p i) (filter Q ps) succ) ips succ ! k) =
    set (succ ! k) \<union> {i. \<exists>ps. (i, ps) \<in> set ips \<and> k \<in> set ps}"
proof (induction ips arbitrary: succ)
  case (Cons e ips)
  obtain i ps where e: "e = (i, ps)" by (cases e)
  show ?case using Cons.prems by (auto simp: e Cons.IH push_column_set)
qed simp

lemma forward_succ_length [simp]: "length (forward_succ n pred) = n"
  by (simp add: forward_succ_def push_columns_length)

lemma forward_succ_set:
  assumes "length pred = n" "p < n"
  shows "set (forward_succ n pred ! p) = {b. b < n \<and> p \<in> set (pred ! b)}"
proof -
  have "(\<exists>ps. (b, ps) \<in> set (zip [0..<n] pred) \<and> p \<in> set ps) \<longleftrightarrow> b < n \<and> p \<in> set (pred ! b)" for b
    using in_zip_upt [of b _ pred] assms(1) by auto
  then show ?thesis unfolding forward_succ_def using assms(2) by (subst push_columns_set) auto
qed

lemma forward_succ_ok:
  assumes "graph_ok n pred"
  shows "mirrors (forward_succ n pred) pred" "succ_ok (forward_succ n pred)"
proof -
  have len: "length pred = n" using assms by (simp add: graph_ok_def)
  then show "mirrors (forward_succ n pred) pred" by (auto simp: mirrors_def forward_succ_set)
  have "\<forall>p < n. \<forall>b \<in> set (forward_succ n pred ! p). b < n" using len by (simp add: forward_succ_set)
  then show "succ_ok (forward_succ n pred)" unfolding succ_ok_def by (metis forward_succ_length in_set_conv_nth)
qed

section \<open>Blocks and their jumps\<close>

definition jumps :: "(u64 \<times> Successor list) list \<Rightarrow> (nat \<times> nat) set" where
  "jumps blocks = {(i, j). i < length blocks \<and> (\<exists>s \<in> set (snd (blocks ! i)). addr_to_idx blocks (sc_to s) = Some j)}"

lemma addr_to_idx_Some:
  assumes "addr_to_idx blocks v = Some j"
  shows "j < length blocks" "fst (blocks ! j) = v"
proof -
  have "(v, j) \<in> set (zip (map fst blocks) [0..<length blocks])" using map_of_SomeD [OF assms [unfolded addr_to_idx_def]] by simp
  then show "j < length blocks" "fst (blocks ! j) = v" by (auto simp: in_set_zip)
qed

lemma addr_to_idx_distinct:
  assumes "distinct (map fst blocks)"
  shows "addr_to_idx blocks v = Some j \<longleftrightarrow> j < length blocks \<and> fst (blocks ! j) = v"
proof
  assume "j < length blocks \<and> fst (blocks ! j) = v"
  then have "(v, j) \<in> set (rev (zip (map fst blocks) [0..<length blocks]))" by (force simp: in_set_zip)
  moreover have "distinct (map fst (rev (zip (map fst blocks) [0..<length blocks])))" using assms by (simp add: rev_map [symmetric])
  ultimately show "addr_to_idx blocks v = Some j" unfolding addr_to_idx_def by (intro map_of_is_SomeI)
qed (auto dest: addr_to_idx_Some)

lemma link_successors_result:
  assumes "\<forall>v j. at v = Some j \<longrightarrow> j < n" "i < n" "length succ = n" "length pred = n"
  shows "\<exists>succ' pred'. link_successors at i ss (succ, pred) = (succ', pred') \<and> length succ' = n \<and> length pred' = n \<and>
    (\<forall>k < n. set (succ' ! k) = set (succ ! k) \<union> {j. k = i \<and> (\<exists>s \<in> set ss. at (sc_to s) = Some j)}) \<and>
    (\<forall>k < n. set (pred' ! k) = set (pred ! k) \<union> {j. j = i \<and> (\<exists>s \<in> set ss. at (sc_to s) = Some k)})"
  using assms(3,4)
proof (induction ss arbitrary: succ pred)
  case (Cons s ss)
  show ?case
  proof (cases "at (sc_to s)")
    case None
    with Cons.IH [OF Cons.prems] show ?thesis by simp
  next
    case (Some j)
    with assms(1) have "j < n" by blast
    with Some assms(2) Cons.IH [of "push_at i j succ" "push_at j i pred"] Cons.prems obtain succ' pred' where
      "link_successors at i ss (push_at i j succ, push_at j i pred) = (succ', pred')" "length succ' = n" "length pred' = n"
      "\<forall>k < n. set (succ' ! k) = set (push_at i j succ ! k) \<union> {j. k = i \<and> (\<exists>s \<in> set ss. at (sc_to s) = Some j)}"
      "\<forall>k < n. set (pred' ! k) = set (push_at j i pred ! k) \<union> {j. j = i \<and> (\<exists>s \<in> set ss. at (sc_to s) = Some k)}"
      by auto
    with Some Cons.prems show ?thesis by (auto simp: push_at_set)
  qed
qed simp

lemma link_blocks_result:
  assumes "\<forall>v j. at v = Some j \<longrightarrow> j < n" "\<forall>(i, b) \<in> set ibs. i < n" "length succ = n" "length pred = n"
  shows "\<exists>succ' pred'. fold (\<lambda>(i, b). link_successors at i (snd b)) ibs (succ, pred) = (succ', pred') \<and>
    length succ' = n \<and> length pred' = n \<and>
    (\<forall>k < n. set (succ' ! k) = set (succ ! k) \<union> {j. \<exists>b. (k, b) \<in> set ibs \<and> (\<exists>s \<in> set (snd b). at (sc_to s) = Some j)}) \<and>
    (\<forall>k < n. set (pred' ! k) = set (pred ! k) \<union> {i. \<exists>b. (i, b) \<in> set ibs \<and> (\<exists>s \<in> set (snd b). at (sc_to s) = Some k)})"
  using assms(2-4)
proof (induction ibs arbitrary: succ pred)
  case (Cons e ibs)
  obtain i b where e: "e = (i, b)" by (cases e)
  have i: "i < n" and rest: "\<forall>(i, b) \<in> set ibs. i < n" using Cons.prems(1) e by simp_all
  obtain s1 p1 where l: "link_successors at i (snd b) (succ, pred) = (s1, p1)" "length s1 = n" "length p1 = n"
    "\<forall>k < n. set (s1 ! k) = set (succ ! k) \<union> {j. k = i \<and> (\<exists>s \<in> set (snd b). at (sc_to s) = Some j)}"
    "\<forall>k < n. set (p1 ! k) = set (pred ! k) \<union> {j. j = i \<and> (\<exists>s \<in> set (snd b). at (sc_to s) = Some k)}"
    using link_successors_result [OF assms(1) i Cons.prems(2,3), of "snd b"] by (elim exE conjE) (rule that)
  obtain s2 p2 where f: "fold (\<lambda>(i, b). link_successors at i (snd b)) ibs (s1, p1) = (s2, p2)" "length s2 = n" "length p2 = n"
    "\<forall>k < n. set (s2 ! k) = set (s1 ! k) \<union> {j. \<exists>b. (k, b) \<in> set ibs \<and> (\<exists>s \<in> set (snd b). at (sc_to s) = Some j)}"
    "\<forall>k < n. set (p2 ! k) = set (p1 ! k) \<union> {i. \<exists>b. (i, b) \<in> set ibs \<and> (\<exists>s \<in> set (snd b). at (sc_to s) = Some k)}"
    using Cons.IH [OF rest l(2,3)] by (elim exE conjE) (rule that)
  have e': "(k, b') \<in> set (e # ibs) \<longleftrightarrow> (k = i \<and> b' = b) \<or> (k, b') \<in> set ibs" for k b' using e by auto
  have "set (s2 ! k) = set (succ ! k) \<union> {j. \<exists>b. (k, b) \<in> set (e # ibs) \<and> (\<exists>s \<in> set (snd b). at (sc_to s) = Some j)}" if k: "k < n" for k
    unfolding e' f(4) [rule_format, OF k] l(4) [rule_format, OF k] by blast
  moreover have "set (p2 ! k) = set (pred ! k) \<union> {i. \<exists>b. (i, b) \<in> set (e # ibs) \<and> (\<exists>s \<in> set (snd b). at (sc_to s) = Some k)}" if k: "k < n" for k
    unfolding e' f(5) [rule_format, OF k] l(5) [rule_format, OF k] by blast
  ultimately show ?case using f(1-3) l(1) e by simp
qed simp

lemma block_graph_of_result:
  "\<exists>succ pred. block_graph_of blocks = (succ, pred) \<and> length succ = length blocks \<and> graph_ok (length blocks) pred \<and>
    succ_ok succ \<and> mirrors succ pred \<and> edges pred = jumps blocks"
proof -
  let ?n = "length blocks" and ?at = "addr_to_idx blocks"
  have jump: "(\<exists>b. (i, b) \<in> set (zip [0..<?n] blocks) \<and> (\<exists>s \<in> set (snd b). ?at (sc_to s) = Some j)) \<longleftrightarrow> (i, j) \<in> jumps blocks" for i j
    unfolding in_zip_upt jumps_def by auto
  have "\<forall>v j. ?at v = Some j \<longrightarrow> j < ?n" using addr_to_idx_Some by blast
  moreover have "\<forall>(i, b) \<in> set (zip [0..<?n] blocks). i < ?n" unfolding in_zip_upt by (auto dest: set_zip_leftD)
  ultimately obtain succ pred where g: "block_graph_of blocks = (succ, pred)" "length succ = ?n" "length pred = ?n"
    "\<forall>k < ?n. set (succ ! k) = {j. (k, j) \<in> jumps blocks}" "\<forall>k < ?n. set (pred ! k) = {i. (i, k) \<in> jumps blocks}"
    using link_blocks_result [of ?at ?n "zip [0..<?n] blocks" "replicate ?n []" "replicate ?n []"]
    unfolding block_graph_of_def Let_def jump by auto
  have bound: "i < ?n \<and> j < ?n" if "(i, j) \<in> jumps blocks" for i j using that addr_to_idx_Some(1) by (auto simp: jumps_def)
  have "graph_ok ?n pred" unfolding graph_ok_def using g(3,5) bound by (auto simp: in_set_conv_nth [of _ pred])
  moreover have "succ_ok succ" unfolding succ_ok_def using g(2,4) bound by (auto simp: in_set_conv_nth [of _ succ])
  moreover have "mirrors succ pred" unfolding mirrors_def using g(2-5) by auto
  moreover have "edges pred = jumps blocks" unfolding edges_def using g(3,5) bound by auto
  ultimately show ?thesis using g(1,2) by blast
qed

end
