(* ===== verification/Dom_Tree.thy ===== *)
theory Dom_Tree
  imports Dom_Graph
begin

text \<open>
  The two trees. \<open>forward\<close> returns for every graph whose edges stay inside it, \<open>dominates\<close> then
  answers dominance by all paths from the entry, and the parents are the immediate dominators.
\<close>

section \<open>Dominance and reached blocks\<close>

lemma trail_root_in: "trail E root vs x \<Longrightarrow> root \<in> set vs"
  by (induction rule: trail.induct) simp_all

lemma trail_last_in: "trail E root vs x \<Longrightarrow> x \<in> set vs"
  by (induction rule: trail.induct) simp_all

lemma trail_through: "trail E root vs x \<Longrightarrow> d \<in> set vs \<Longrightarrow> \<exists>us. trail E root us d"
  by (induction rule: trail.induct) (auto intro: trail.intros)

lemma doms_reached: "reached pred root b \<Longrightarrow> a \<in> doms (edges pred) root b \<Longrightarrow> reached pred root a"
  by (auto simp: reached_def doms_def dest: trail_through)

lemma doms_root: "root \<in> doms E root x" "x \<in> doms E root x" "doms E root root = {root}"
proof -
  show "root \<in> doms E root x" "x \<in> doms E root x" by (auto simp: doms_def dest: trail_root_in trail_last_in)
  show "doms E root root = {root}" using trail_root [of E root] by (fastforce simp: doms_def dest: trail_root_in)
qed

lemma reached_root: "reached pred root root"
  by (auto simp: reached_def intro: trail_root)

text \<open>The immediate dominator: a strict dominator that every other strict dominator dominates.\<close>

definition immediate_dom :: "(nat \<times> nat) set \<Rightarrow> nat \<Rightarrow> nat \<Rightarrow> nat \<Rightarrow> bool" where
  "immediate_dom E root d b \<longleftrightarrow> d \<in> doms E root b - {b} \<and> doms E root b - {b} \<subseteq> doms E root d"

section \<open>A tree from a root\<close>

lemma immediate_tree_idom:
  assumes c: "climbs post f" and r: "\<forall>x. reached pred root x \<longrightarrow> anc f x = doms (edges pred) root x"
    and n: "\<forall>x. f x \<noteq> None \<longleftrightarrow> reached pred root x \<and> x \<noteq> root"
  shows "f b = Some d \<longleftrightarrow> reached pred root b \<and> immediate_dom (edges pred) root d b"
proof (cases "reached pred root b \<and> b \<noteq> root")
  case False
  then have "f b = None" using n by blast
  with False show ?thesis by (auto simp: immediate_dom_def doms_root(3))
next
  case True
  then obtain w where w: "f b = Some w" using n by blast
  have b: "doms (edges pred) root b = insert b (anc f w)" using anc_Some [of f b w] w r True by simp
  then have "w \<in> doms (edges pred) root b" by simp
  then have rw: "reached pred root w" using doms_reached True by blast
  have "b \<notin> anc f w" using anc_height_le [OF c, of b w] c w unfolding climbs_def by (metis not_less)
  then have strict: "doms (edges pred) root b - {b} = anc f w" using b by simp
  have "d = w" if d: "immediate_dom (edges pred) root d b"
  proof -
    have "reached pred root d" using d doms_reached True by (auto simp: immediate_dom_def)
    then have "d \<in> anc f w" "w \<in> anc f d" using d r unfolding immediate_dom_def strict by auto
    then show ?thesis using anc_height [OF c, of d w] anc_height [OF c, of w d] by auto
  qed
  moreover have "immediate_dom (edges pred) root w b" unfolding immediate_dom_def strict using r rw by (simp add: doms_root(2))
  ultimately show ?thesis using True w by auto
qed

text \<open>The parents make a forest whose chains are the dominators.\<close>

definition forest :: "graph \<Rightarrow> nat \<Rightarrow> nat option list \<Rightarrow> bool" where
  "forest pred root idom \<longleftrightarrow> (\<exists>h. climbs h (up_of idom)) \<and>
     (\<forall>x. reached pred root x \<longrightarrow> anc (up_of idom) x = doms (edges pred) root x) \<and>
     (\<forall>x. up_of idom x \<noteq> None \<longleftrightarrow> reached pred root x \<and> x \<noteq> root)"

lemma tree_built:
  assumes size: "root < length succ" "2 * length succ \<le> u32_MAX" and ok: "succ_ok succ"
    and m: "mirrors succ pred" "graph_ok (length pred) pred"
  shows "\<exists>idom spans. immediate_tree root succ pred = Some (Inr idom) \<and> tree_spans root idom = Some (Inr spans) \<and>
    length idom = length succ \<and> length spans = length succ \<and>
    (\<forall>x < length succ. spans ! x \<noteq> None \<longleftrightarrow> reached pred root x) \<and>
    (\<forall>a b. reached pred root a \<longrightarrow> reached pred root b \<longrightarrow> holds_span spans a b \<longleftrightarrow> a \<in> doms (edges pred) root b) \<and>
    (\<forall>b < length succ. \<forall>d. idom ! b = Some d \<longleftrightarrow> reached pred root b \<and> immediate_dom (edges pred) root d b) \<and>
    forest pred root idom"
proof -
  have len: "length succ = length pred" using m(1) by (simp add: mirrors_def)
  have le: "length succ \<le> usize_MAX" using size(2) by simp
  obtain idom post where i: "immediate_tree root succ pred = Some (Inr idom)" "length idom = length pred" "climbs post (up_of idom)"
    "\<forall>x. reached pred root x \<longrightarrow> anc (up_of idom) x = doms (edges pred) root x"
    "\<forall>x. up_of idom x \<noteq> None \<longleftrightarrow> reached pred root x \<and> x \<noteq> root"
    using immediate_tree_doms [OF size(1) le ok m] by (elim exE conjE) (rule that)
  note idom = immediate_tree_idom [OF i(3-5)]
  have below: "root \<in> anc (up_of idom) x \<longleftrightarrow> reached pred root x" for x
  proof (cases "reached pred root x")
    case False
    then have "anc (up_of idom) x = {x}" using i(5) by (intro anc_None) blast
    with False reached_root show ?thesis by auto
  qed (use i(4) doms_root(1) in simp)
  have "p < length idom" if "up_of idom x = Some p" for x p
  proof -
    have "reached pred root p" using that idom [of x p] doms_reached by (auto simp: immediate_dom_def)
    then obtain vs where "trail (edges pred) root vs p" by (auto simp: reached_def)
    then show ?thesis using size(1) i(2) len by cases (auto simp: edges_def)
  qed
  then obtain spans where s: "tree_spans root idom = Some (Inr spans)" "length spans = length idom"
    "\<forall>x < length idom. spans ! x \<noteq> None \<longleftrightarrow> root \<in> anc (up_of idom) x" "nested (up_of idom) spans (below (up_of idom) root)"
    using tree_spans_result [OF i(3), of root] size i(2) len by auto
  have "holds_span spans a b \<longleftrightarrow> a \<in> doms (edges pred) root b" if "reached pred root a" "reached pred root b" for a b
    using s(4) i(4) that below unfolding nested_def by (simp add: below_def)
  moreover have "idom ! b = Some d \<longleftrightarrow> reached pred root b \<and> immediate_dom (edges pred) root d b" if "b < length succ" for b d
    using idom [of b d] that i(2) len by (simp add: up_of_def)
  moreover have "forest pred root idom" unfolding forest_def using i(3-5) by blast
  ultimately show ?thesis using i(1,2) s(1-3) below len by auto
qed

lemma dominates_spans:
  assumes "a < length (dt_spans t)" "b < length (dt_spans t)"
  shows "dominates t a b = Inr (a = b \<or> (if dt_spans t ! b = None then dt_unreached t = Everything else holds_span (dt_spans t) a b))"
  using assms by (auto simp: dominates_def idx_def holds_span_def split: option.splits)

lemma holds_span_Some: "holds_span spans a b \<Longrightarrow> spans ! a \<noteq> None"
  by (auto simp: holds_span_def split: option.splits)

section \<open>Forward\<close>

lemma forward_result:
  assumes g: "graph_ok n pred" and size: "2 * n \<le> u32_MAX"
  shows "\<exists>t. DomTree_forward n pred = Some (Inr t) \<and> length (dt_idom t) = n \<and>
    (\<forall>a < n. \<forall>b < n. dominates t a b = Inr (a = b \<or> reached pred 0 b \<and> a \<in> doms (edges pred) 0 b)) \<and>
    (\<forall>b < n. \<forall>d. dt_idom t ! b = Some d \<longleftrightarrow> reached pred 0 b \<and> immediate_dom (edges pred) 0 d b) \<and>
    (n \<noteq> 0 \<longrightarrow> forest pred 0 (dt_idom t))"
proof (cases "n = 0")
  case True
  then show ?thesis by (simp add: DomTree_forward_def)
next
  case False
  have gl: "graph_ok (length pred) pred" using g by (simp add: graph_ok_def)
  obtain idom spans where t: "immediate_tree 0 (forward_succ n pred) pred = Some (Inr idom)" "tree_spans 0 idom = Some (Inr spans)"
    "length idom = n" "length spans = n" "\<forall>x < n. spans ! x \<noteq> None \<longleftrightarrow> reached pred 0 x"
    "\<forall>a b. reached pred 0 a \<longrightarrow> reached pred 0 b \<longrightarrow> holds_span spans a b \<longleftrightarrow> a \<in> doms (edges pred) 0 b"
    "\<forall>b < n. \<forall>d. idom ! b = Some d \<longleftrightarrow> reached pred 0 b \<and> immediate_dom (edges pred) 0 d b" "forest pred 0 idom"
    using tree_built [OF _ _ forward_succ_ok(2,1) [OF g] gl, of 0] False size unfolding forward_succ_length by blast
  let ?t = "\<lparr>dt_idom = idom, dt_spans = spans, dt_unreached = OnlyItself\<rparr>"
  have "dominates ?t a b = Inr (a = b \<or> reached pred 0 b \<and> a \<in> doms (edges pred) 0 b)" if ab: "a < n" "b < n" for a b
  proof -
    have "holds_span spans a b \<longleftrightarrow> a \<in> doms (edges pred) 0 b" if b: "reached pred 0 b"
      using t(5,6) b ab holds_span_Some [of spans a b] doms_reached [OF b, of a] by blast
    then show ?thesis using dominates_spans [of a ?t b] ab t(4,5) by auto
  qed
  moreover have "DomTree_forward n pred = Some (Inr ?t)" using False t(1,2) by (simp add: DomTree_forward_def)
  ultimately show ?thesis using t(3,7,8) by (intro exI [of _ ?t]) simp
qed

end
