(* ===== verification/Dom_Reverse.thy ===== *)
theory Dom_Reverse
  imports Dom_Tree
begin

text \<open>
  Post-dominance. \<open>reverse\<close> is the tree of the reversed graph from a virtual exit; blocks with no
  path to an exit are post-dominated by everything, and get the first block that all others
  post-dominate.
\<close>

section \<open>Searches that can stop\<close>

lemma all_checked_result: "\<forall>x \<in> set xs. f x = Inr (P x) \<Longrightarrow> all_checked f xs = Inr (\<forall>x \<in> set xs. P x)"
  by (induction xs) auto

lemma find_checked_result: "\<forall>x \<in> set xs. f x = Inr (P x) \<Longrightarrow> find_checked f xs = Inr (find P xs)"
  by (induction xs) auto

lemma find_SomeD: "find P xs = Some x \<Longrightarrow> x \<in> set xs \<and> P x"
  by (induction xs) (auto split: if_splits)

lemma unreached_blocks_result:
  "\<forall>i \<in> set is'. i < length spans \<Longrightarrow> unreached_blocks spans is' = Inr (filter (\<lambda>i. spans ! i = None) is')"
  by (induction is') (auto simp: idx_def)

section \<open>The reversed edges\<close>

text \<open>A block leaves the function when it is an exit, or ends without a successor and is no abort.\<close>

definition leaves :: "graph \<Rightarrow> bool list \<Rightarrow> bool list \<Rightarrow> nat \<Rightarrow> bool" where
  "leaves succ is_exit is_abort i \<longleftrightarrow> is_exit ! i \<or> succ ! i = [] \<and> \<not> is_abort ! i"

definition back_edges :: "graph \<Rightarrow> bool list \<Rightarrow> bool list \<Rightarrow> (nat \<times> nat) set" where
  "back_edges succ is_exit is_abort = {(s, i). i < length succ \<and> s \<in> set (succ ! i)} \<union>
     {(s, i). i < length succ \<and> s = length succ \<and> leaves succ is_exit is_abort i}"

lemma push_checked_ok: "i < length xss \<Longrightarrow> push_checked i x xss = Inr (push_at i x xss)"
  by (simp add: push_checked_def)

lemma leads_out_result:
  "i < length succ \<Longrightarrow> length is_exit = length succ \<Longrightarrow> length is_abort = length succ \<Longrightarrow>
    leads_out succ is_exit is_abort i = Inr (leaves succ is_exit is_abort i)"
  by (auto simp: leads_out_def idx_def leaves_def)

text \<open>A graph and its mirror after edges have been added to both.\<close>

definition grown :: "nat \<Rightarrow> graph \<times> graph \<Rightarrow> (nat \<times> nat) set \<Rightarrow> graph \<times> graph \<Rightarrow> bool" where
  "grown n g E g' \<longleftrightarrow> length (fst g') = n \<and> length (snd g') = n \<and>
     (\<forall>k < n. set (fst g' ! k) = set (fst g ! k) \<union> {s. (s, k) \<in> E}) \<and>
     (\<forall>k < n. set (snd g' ! k) = set (snd g ! k) \<union> {i. (k, i) \<in> E})"

lemma grown_trans: "grown n g E g' \<Longrightarrow> grown n g' E' g'' \<Longrightarrow> grown n g (E \<union> E') g''"
  by (auto simp: grown_def)

lemma grown_none: "length p = n \<Longrightarrow> length s = n \<Longrightarrow> grown n (p, s) {} (p, s)"
  by (simp add: grown_def)

lemma grown_edge:
  "length p = n \<Longrightarrow> length q = n \<Longrightarrow> i < n \<Longrightarrow> s < n \<Longrightarrow> grown n (p, q) {(s, i)} (push_at i s p, push_at s i q)"
  by (auto simp: grown_def push_at_set)

lemma reverse_successors_result:
  assumes "i < n" "\<forall>s \<in> set ss. s < n" "length p = n" "length q = n"
  shows "\<exists>g. reverse_successors i ss (p, q) = Inr g \<and> grown n (p, q) {(s, j). j = i \<and> s \<in> set ss} g"
  using assms(2-4)
proof (induction ss arbitrary: p q)
  case Nil
  then show ?case using grown_none [of p n q] by simp
next
  case (Cons s ss)
  have s: "s < n" using Cons.prems(1) by simp
  then obtain g where g: "reverse_successors i ss (push_at i s p, push_at s i q) = Inr g"
    "grown n (push_at i s p, push_at s i q) {(s, j). j = i \<and> s \<in> set ss} g"
    using Cons.IH [of "push_at i s p" "push_at s i q"] Cons.prems by auto
  have "{(s, i)} \<union> {(s, j). j = i \<and> s \<in> set ss} = {(t, j). j = i \<and> t \<in> set (s # ss)}" by auto
  then have "grown n (p, q) {(t, j). j = i \<and> t \<in> set (s # ss)} g"
    using grown_trans [OF grown_edge [OF Cons.prems(2,3) assms(1) s] g(2)] by simp
  with g(1) s assms(1) Cons.prems show ?case by (auto simp: push_checked_ok)
qed

lemma reverse_edges_result:
  assumes ok: "graph_ok n succ" "length is_exit = n" "length is_abort = n" and "\<forall>i \<in> set is'. i < n" "length p = n + 1" "length q = n + 1"
  shows "\<exists>g. reverse_edges n succ is_exit is_abort is' (p, q) = Inr g \<and>
    grown (n + 1) (p, q) {(s, i) \<in> back_edges succ is_exit is_abort. i \<in> set is'} g"
  using assms(4-6)
proof (induction is' arbitrary: p q)
  case Nil
  then show ?case using grown_none [of p "n + 1" q] by simp
next
  case (Cons i is')
  let ?out = "leaves succ is_exit is_abort i"
  have n: "length succ = n" "i < n" using ok(1) Cons.prems(1) by (simp_all add: graph_ok_def)
  define p1 q1 where "p1 = (if ?out then push_at i n p else p)" and "q1 = (if ?out then push_at n i q else q)"
  have len: "length p1 = n + 1" "length q1 = n + 1" using Cons.prems(2,3) by (simp_all add: p1_def q1_def)
  have g1: "grown (n + 1) (p, q) {(s, j). j = i \<and> s = n \<and> ?out} (p1, q1)"
    using grown_edge [of p "n + 1" q i n] grown_none [of p "n + 1" q] Cons.prems(2,3) n(2)
    by (cases ?out) (auto simp: p1_def q1_def grown_def)
  have "\<forall>s \<in> set (succ ! i). s < n + 1" using ok(1) n by (fastforce simp: graph_ok_def)
  then obtain g2 where g2: "reverse_successors i (succ ! i) (p1, q1) = Inr g2"
    "grown (n + 1) (p1, q1) {(s, j). j = i \<and> s \<in> set (succ ! i)} g2"
    using reverse_successors_result [of i "n + 1" "succ ! i" p1 q1] n(2) len by auto
  obtain p2 q2 where pq: "g2 = (p2, q2)" by (cases g2)
  have "length p2 = n + 1" "length q2 = n + 1" using g2(2) unfolding pq grown_def by simp_all
  with Cons.IH [of p2 q2] Cons.prems(1) obtain g3 where g3: "reverse_edges n succ is_exit is_abort is' (p2, q2) = Inr g3"
    "grown (n + 1) (p2, q2) {(s, i) \<in> back_edges succ is_exit is_abort. i \<in> set is'} g3" by auto
  have "{(s, j). j = i \<and> s = n \<and> ?out} \<union> {(s, j). j = i \<and> s \<in> set (succ ! i)} \<union>
      {(s, i) \<in> back_edges succ is_exit is_abort. i \<in> set is'} = {(s, j) \<in> back_edges succ is_exit is_abort. j \<in> set (i # is')}"
    using n by (auto simp: back_edges_def)
  then have "grown (n + 1) (p, q) {(s, j) \<in> back_edges succ is_exit is_abort. j \<in> set (i # is')} g3"
    using grown_trans [OF grown_trans [OF g1 g2(2)] g3(2) [folded pq]] by simp
  moreover have "reverse_edges n succ is_exit is_abort (i # is') (p, q) = Inr g3"
    using g2(1) g3(1) n leads_out_result [of i succ is_exit is_abort] ok(2,3) Cons.prems(2,3)
    by (simp add: idx_def push_checked_ok p1_def q1_def pq split: if_splits)
  ultimately show ?case by blast
qed

lemma reversed_graph:
  assumes ok: "graph_ok n succ" "length is_exit = n" "length is_abort = n"
  shows "\<exists>rpred rsucc. reverse_edges n succ is_exit is_abort [0..<n] (replicate (n + 1) [], replicate (n + 1) []) = Inr (rpred, rsucc) \<and>
    graph_ok (n + 1) rpred \<and> length rsucc = n + 1 \<and> succ_ok rsucc \<and> mirrors rsucc rpred \<and> edges rpred = back_edges succ is_exit is_abort"
proof -
  let ?E = "back_edges succ is_exit is_abort"
  have bound: "s < n + 1 \<and> i < n" if "(s, i) \<in> ?E" for s i
    using that ok(1) by (fastforce simp: back_edges_def graph_ok_def)
  then have "{(s, i) \<in> ?E. i \<in> set [0..<n]} = ?E" by auto
  then obtain rpred rsucc where
    r: "reverse_edges n succ is_exit is_abort [0..<n] (replicate (n + 1) [], replicate (n + 1) []) = Inr (rpred, rsucc)" and
    "grown (n + 1) (replicate (n + 1) [], replicate (n + 1) []) ?E (rpred, rsucc)"
    using reverse_edges_result [OF ok, of "[0..<n]" "replicate (n + 1) []" "replicate (n + 1) []"] by auto
  then have g: "length rpred = n + 1" "length rsucc = n + 1" "\<forall>k < n + 1. set (rpred ! k) = {s. (s, k) \<in> ?E}"
    "\<forall>k < n + 1. set (rsucc ! k) = {i. (k, i) \<in> ?E}" by (simp_all add: grown_def del: replicate_Suc)
  have "graph_ok (n + 1) rpred" unfolding graph_ok_def using g(1,3) bound by (auto simp: in_set_conv_nth [of _ rpred])
  moreover have "i < n + 1" if "k < n + 1" "i \<in> set (rsucc ! k)" for k i using g(4) bound that by fastforce
  then have "succ_ok rsucc" unfolding succ_ok_def using g(2) by (metis in_set_conv_nth)
  moreover have "mirrors rsucc rpred" unfolding mirrors_def using g by auto
  moreover have "edges rpred = ?E" unfolding edges_def using g(1,3) bound by fastforce
  ultimately show ?thesis using r g(2) by blast
qed

section \<open>Post-dominance\<close>

text \<open>\<open>a\<close> is on every way from \<open>b\<close> to an exit: of the reversed graph, on every trail to \<open>b\<close>.\<close>

definition post_dom :: "nat \<Rightarrow> (nat \<times> nat) set \<Rightarrow> nat \<Rightarrow> nat \<Rightarrow> bool" where
  "post_dom exit E a b \<longleftrightarrow> (\<forall>vs. trail E exit vs b \<longrightarrow> a \<in> set vs)"

definition nearest_post_dom :: "nat \<Rightarrow> (nat \<times> nat) set \<Rightarrow> nat \<Rightarrow> nat \<Rightarrow> bool" where
  "nearest_post_dom n E d b \<longleftrightarrow> d < n \<and> d \<noteq> b \<and> post_dom n E d b \<and> (\<forall>c < n. c \<noteq> b \<longrightarrow> post_dom n E c b \<longrightarrow> post_dom n E c d)"

lemma dominates_idom [simp]: "dominates (t\<lparr>dt_idom := is'\<rparr>) a b = dominates t a b"
proof -
  have "dt_spans (t\<lparr>dt_idom := is'\<rparr>) = dt_spans t" "dt_unreached (t\<lparr>dt_idom := is'\<rparr>) = dt_unreached t" by simp_all
  then show ?thesis unfolding dominates_def by (simp only:)
qed

lemma settle_unreached_result:
  assumes d: "\<forall>a < n. \<forall>b < n. dominates t a b = Inr (P a b)" and len: "length (dt_idom t) = n" and "\<forall>i \<in> set is'. i < n"
  shows "\<exists>t'. settle_unreached n is' t = Inr t' \<and> dt_spans t' = dt_spans t \<and> dt_unreached t' = dt_unreached t \<and> length (dt_idom t') = n \<and>
    (\<forall>b < n. dt_idom t' ! b = (if b \<in> set is'
       then find (\<lambda>c. \<forall>d < n. d \<noteq> b \<longrightarrow> d \<noteq> c \<longrightarrow> P d c) (filter (\<lambda>c. c \<noteq> b) [0..<n]) else dt_idom t ! b))"
  using assms
proof (induction is' arbitrary: t)
  case (Cons i is')
  let ?Q = "\<lambda>b c. \<forall>d < n. d \<noteq> b \<longrightarrow> d \<noteq> c \<longrightarrow> P d c"
  let ?found = "find (?Q i) (filter (\<lambda>c. c \<noteq> i) [0..<n])"
  have "all_checked (\<lambda>d. dominates t d c) (filter (\<lambda>d. d \<noteq> i \<and> d \<noteq> c) [0..<n]) = Inr (?Q i c)" if "c < n" for c
    using all_checked_result [of "filter (\<lambda>d. d \<noteq> i \<and> d \<noteq> c) [0..<n]" "\<lambda>d. dominates t d c" "\<lambda>d. P d c"] Cons.prems(1) that by auto
  then have f: "find_checked (\<lambda>c. all_checked (\<lambda>d. dominates t d c) (filter (\<lambda>d. d \<noteq> i \<and> d \<noteq> c) [0..<n])) (filter (\<lambda>c. c \<noteq> i) [0..<n]) = Inr ?found"
    by (intro find_checked_result) simp
  let ?t = "t\<lparr>dt_idom := (dt_idom t)[i := ?found]\<rparr>"
  obtain t' where t': "settle_unreached n is' ?t = Inr t'" "dt_spans t' = dt_spans ?t" "dt_unreached t' = dt_unreached ?t" "length (dt_idom t') = n"
    "\<forall>b < n. dt_idom t' ! b = (if b \<in> set is' then find (?Q b) (filter (\<lambda>c. c \<noteq> b) [0..<n]) else dt_idom ?t ! b)"
    using Cons.IH [of ?t] Cons.prems by auto
  have "settle_unreached n (i # is') t = Inr t'" using f t'(1) Cons.prems(2,3) by simp
  with t'(2-5) Cons.prems(2,3) show ?case by (auto simp: nth_list_update)
qed simp

lemma reverse_result:
  assumes ok: "graph_ok n succ" "length is_exit = n" "length is_abort = n" and size: "2 * (n + 1) \<le> u32_MAX"
  defines "E \<equiv> back_edges succ is_exit is_abort"
  shows "\<exists>t. DomTree_reverse n succ is_exit is_abort = Some (Inr t) \<and> length (dt_idom t) = n \<and>
    (\<forall>a < n. \<forall>b < n. dominates t a b = Inr (post_dom n E a b)) \<and>
    (\<forall>b < n. case dt_idom t ! b of Some d \<Rightarrow> nearest_post_dom n E d b | None \<Rightarrow> \<forall>d. \<not> nearest_post_dom n E d b)"
proof (cases "n = 0")
  case True
  then show ?thesis by (simp add: DomTree_reverse_def)
next
  case False
  obtain rpred rsucc where r: "reverse_edges n succ is_exit is_abort [0..<n] (replicate (n + 1) [], replicate (n + 1) []) = Inr (rpred, rsucc)"
    "graph_ok (n + 1) rpred" "length rsucc = n + 1" "succ_ok rsucc" "mirrors rsucc rpred" "edges rpred = E"
    using reversed_graph [OF ok] unfolding E_def by blast
  have gl: "graph_ok (length rpred) rpred" using r(2) by (simp add: graph_ok_def)
  obtain idom spans where t: "immediate_tree n rsucc rpred = Some (Inr idom)" "tree_spans n idom = Some (Inr spans)"
    "length idom = n + 1" "length spans = n + 1" "\<forall>x < n + 1. spans ! x \<noteq> None \<longleftrightarrow> reached rpred n x"
    "\<forall>a b. reached rpred n a \<longrightarrow> reached rpred n b \<longrightarrow> holds_span spans a b \<longleftrightarrow> a \<in> doms E n b"
    "\<forall>b < n + 1. \<forall>d. idom ! b = Some d \<longleftrightarrow> reached rpred n b \<and> immediate_dom E n d b"
    using tree_built [OF _ _ r(4,5) gl, of n] size unfolding r(3,6) by auto
  let ?idom = "map (\<lambda>d. if d = Some n then None else d) (take n idom)"
  let ?t = "\<lparr>dt_idom = ?idom, dt_spans = spans, dt_unreached = Everything\<rparr>"
  let ?un = "filter (\<lambda>i. spans ! i = None) [0..<n]"
  have pd: "post_dom n E a b \<longleftrightarrow> a \<in> doms E n b" for a b by (simp add: post_dom_def doms_def)
  have un: "post_dom n E a b" if "\<not> reached rpred n b" for a b using that r(6) by (auto simp: post_dom_def reached_def)
  have dom: "dominates u a b = Inr (post_dom n E a b)" if u: "dt_spans u = spans" "dt_unreached u = Everything" and ab: "a < n" "b < n" for u a b
  proof (cases "reached rpred n b")
    case True
    have "holds_span spans a b \<longleftrightarrow> a \<in> doms E n b"
      using t(5,6) True ab holds_span_Some [of spans a b] doms_reached [OF True, of a] r(6) by auto
    moreover have "spans ! b \<noteq> None" using t(5) ab True by simp
    ultimately show ?thesis using dominates_spans [of a u b] u ab t(4) pd doms_root(2) by auto
  next
    case no: False
    moreover have "b < n + 1" using ab by simp
    ultimately have "spans ! b = None" using t(5) by blast
    then show ?thesis using dominates_spans [of a u b] u ab t(4) un [OF no] by auto
  qed
  have "\<forall>a < n. \<forall>b < n. dominates ?t a b = Inr (post_dom n E a b)" using dom [of ?t] by simp
  moreover have "length (dt_idom ?t) = n" using t(3) by simp
  moreover have "\<forall>i \<in> set ?un. i < n" by simp
  ultimately obtain t' where t': "settle_unreached n ?un ?t = Inr t'" "dt_spans t' = dt_spans ?t" "dt_unreached t' = dt_unreached ?t"
    "length (dt_idom t') = n" "\<forall>b < n. dt_idom t' ! b = (if b \<in> set ?un
       then find (\<lambda>c. \<forall>d < n. d \<noteq> b \<longrightarrow> d \<noteq> c \<longrightarrow> post_dom n E d c) (filter (\<lambda>c. c \<noteq> b) [0..<n]) else dt_idom ?t ! b)"
    using settle_unreached_result [of n ?t "post_dom n E" ?un] by (elim meta_impE exE conjE) (assumption | rule that)+
  have "unreached_blocks spans [0..<n] = Inr ?un" using t(4) by (intro unreached_blocks_result) simp
  then have res: "DomTree_reverse n succ is_exit is_abort = Some (Inr t')"
    using False r(1) t(1,2) t'(1) by (simp add: DomTree_reverse_def del: upt_Suc replicate_Suc)
  have near: "case dt_idom t' ! b of Some d \<Rightarrow> nearest_post_dom n E d b | None \<Rightarrow> \<forall>d. \<not> nearest_post_dom n E d b" if b: "b < n" for b
  proof (cases "reached rpred n b")
    case no: False
    moreover have "b < n + 1" using b by simp
    ultimately have "spans ! b = None" using t(5) by blast
    then have "b \<in> set ?un" using b by simp
    then have "dt_idom t' ! b = find (\<lambda>c. \<forall>d < n. d \<noteq> b \<longrightarrow> d \<noteq> c \<longrightarrow> post_dom n E d c) (filter (\<lambda>c. c \<noteq> b) [0..<n])" using t'(5) b by simp
    moreover have "nearest_post_dom n E c b \<longleftrightarrow> c < n \<and> c \<noteq> b \<and> (\<forall>d < n. d \<noteq> b \<longrightarrow> d \<noteq> c \<longrightarrow> post_dom n E d c)" for c
      using un [OF no] pd doms_root(2) unfolding nearest_post_dom_def by metis
    ultimately show ?thesis by (auto split: option.split simp: find_None_iff dest!: find_SomeD)
  next
    case True
    then have "b \<notin> set ?un" using t(5) b by auto
    then have i: "dt_idom t' ! b = (if idom ! b = Some n then None else idom ! b)"
      using t'(5) [rule_format, OF b] b t(3) by (simp only: if_False) simp
    have im: "idom ! b = Some d \<longleftrightarrow> immediate_dom E n d b" for d using t(7) b True by simp
    have bound: "c \<le> n" if c: "c \<in> doms E n b" for c
    proof -
      have "reached rpred n c" using c doms_reached [OF True, of c] r(6) by simp
      then obtain vs where "trail (edges rpred) n vs c" by (auto simp: reached_def)
      then show ?thesis using r(2) by cases (auto simp: edges_def graph_ok_def)
    qed
    have near: "nearest_post_dom n E d b \<longleftrightarrow> d < n \<and> immediate_dom E n d b" for d
    proof
      assume d: "nearest_post_dom n E d b"
      have "c \<in> doms E n d" if c: "c \<in> doms E n b - {b}" for c
      proof (cases "c = n")
        case True
        then show ?thesis using doms_root(1) by simp
      next
        case False
        then have "c < n" using bound [of c] c by simp
        then show ?thesis using d c by (auto simp: nearest_post_dom_def pd)
      qed
      then show "d < n \<and> immediate_dom E n d b" using d by (auto simp: nearest_post_dom_def immediate_dom_def pd)
    qed (auto simp: nearest_post_dom_def immediate_dom_def pd)
    show ?thesis
    proof (cases "dt_idom t' ! b")
      case None
      then have "\<not> (d < n \<and> idom ! b = Some d)" for d using i by (auto split: if_splits)
      then show ?thesis using None near im by auto
    next
      case (Some d)
      then have d: "idom ! b = Some d" "d \<noteq> n" using i by (auto split: if_splits)
      then have "immediate_dom E n d b" using im by simp
      moreover from this have "d \<le> n" using bound by (simp add: immediate_dom_def)
      ultimately show ?thesis using Some near d(2) by simp
    qed
  qed
  then have "\<forall>b < n. case dt_idom t' ! b of Some d \<Rightarrow> nearest_post_dom n E d b | None \<Rightarrow> \<forall>d. \<not> nearest_post_dom n E d b" by blast
  moreover have "\<forall>a < n. \<forall>b < n. dominates t' a b = Inr (post_dom n E a b)" using dom [of t'] t'(2,3) by simp
  ultimately show ?thesis using res t'(4) by (intro exI [of _ t'] conjI) simp_all
qed

end
