(* ===== verification/Dom_Frontier.thy ===== *)
theory Dom_Frontier
  imports Dom_Reverse
begin

text \<open>
  Dominance frontiers: the walks up from the predecessors of a block mark the chain from the
  predecessor to just under the block's immediate dominator, which are the blocks that dominate
  the predecessor and do not strictly dominate the block.
\<close>

section \<open>Walks up\<close>

text \<open>The blocks a walk up from \<open>p\<close> marks.\<close>

definition marks :: "nat option list \<Rightarrow> nat \<Rightarrow> nat \<Rightarrow> nat set" where
  "marks idom b p = {x \<in> anc (up_of idom) p. \<not> (\<exists>d \<in> anc (up_of idom) p. idom ! b = Some d \<and> x \<in> anc (up_of idom) d)}"

lemma marks_stop: "idom ! b = Some p \<Longrightarrow> marks idom b p = {}"
  by (auto simp: marks_def)

lemma marks_top: "up_of idom p = None \<Longrightarrow> idom ! b \<noteq> Some p \<Longrightarrow> marks idom b p = {p}"
  by (auto simp: marks_def anc_None)

lemma marks_up:
  assumes "climbs h (up_of idom)" "up_of idom p = Some q" "idom ! b \<noteq> Some p"
  shows "marks idom b p = insert p (marks idom b q)"
proof -
  have p: "anc (up_of idom) p = insert p (anc (up_of idom) q)" using anc_Some [of "up_of idom" p q] assms(2) .
  have "h p < h q" using assms(1,2) by (simp add: climbs_def)
  then have "p \<notin> anc (up_of idom) d" if "d \<in> anc (up_of idom) q" for d
    using anc_height_le [OF assms(1) that] anc_height_le [OF assms(1), of p d] by auto
  then show ?thesis using assms(3) unfolding marks_def p by auto
qed

lemma run_up_result:
  assumes "climbs h (up_of idom)" "\<forall>x p. up_of idom x = Some p \<longrightarrow> p < length idom" "b < length idom"
    "runner < length idom" "length seen = length idom" "length df = length idom" "\<forall>x \<in> anc (up_of idom) runner. \<not> seen ! x"
  shows "\<exists>df'. run_up b idom seen runner df = Inr df' \<and> length df' = length idom \<and>
    (\<forall>x < length idom. df' ! x = df ! x \<union> (if x \<in> marks idom b runner then {b} else {}))"
  using assms
proof (induction b idom seen runner df rule: run_up.induct)
  case (1 b idom seen runner df)
  note c = "1.prems"(1) and len = "1.prems"(3-6)
  show ?case
  proof (cases "idom ! b = Some runner")
    case True
    then show ?thesis using len marks_stop [OF True] by (simp add: run_up.simps)
  next
    case False
    have seen: "\<not> seen ! runner" using "1.prems"(7) by simp
    show ?thesis
    proof (cases "idom ! runner")
      case None
      then have "marks idom b runner = {runner}" using False len by (intro marks_top) (simp add: up_of_def)
      then show ?thesis using False None seen len by (auto simp: run_up.simps nth_list_update)
    next
      case (Some up)
      then have up: "up_of idom runner = Some up" using len by (simp add: up_of_def)
      let ?df = "df[runner := insert b (df ! runner)]" and ?seen = "seen[runner := True]"
      have ul: "up < length idom" using "1.prems"(2) up by blast
      have "h runner < h up" using c up by (simp add: climbs_def)
      then have "runner \<notin> anc (up_of idom) up" using anc_height_le [OF c, of runner up] by auto
      moreover have "anc (up_of idom) runner = insert runner (anc (up_of idom) up)" using anc_Some [of "up_of idom" runner up] up .
      ultimately have "\<forall>x \<in> anc (up_of idom) up. \<not> ?seen ! x" using "1.prems"(7) by (metis insertI2 nth_list_update_neq)
      then obtain df' where df': "run_up b idom ?seen up ?df = Inr df'" "length df' = length idom"
        "\<forall>x < length idom. df' ! x = ?df ! x \<union> (if x \<in> marks idom b up then {b} else {})"
        using "1.IH" [OF _ False _ _ _ _ Some c "1.prems"(2) len(1) ul] seen len by auto
      have "run_up b idom seen runner df = Inr df'" using False Some seen len df'(1) by (simp add: run_up.simps [of b idom seen])
      with df'(2,3) marks_up [OF c up False] len show ?thesis by (auto simp: nth_list_update)
    qed
  qed
qed

lemma chain_bound:
  assumes "\<forall>x p. f x = Some p \<longrightarrow> p < n" "runner < n" "x \<in> anc f runner"
  shows "x < (n :: nat)"
proof -
  have "(runner, x) \<in> {(x, y). f x = Some y}\<^sup>*" using assms(3) by (simp add: anc_def)
  then show ?thesis by (induction rule: rtrancl_induct) (use assms(1,2) in auto)
qed

lemma frontier_preds_result:
  assumes "climbs h (up_of idom)" "\<forall>x p. up_of idom x = Some p \<longrightarrow> p < length idom" "b < length idom"
  shows "\<forall>p \<in> set ps. p < length idom \<Longrightarrow> length df = length idom \<Longrightarrow>
    \<exists>df'. frontier_preds b idom ps df = Inr df' \<and> length df' = length idom \<and>
      (\<forall>x < length idom. df' ! x = df ! x \<union> {c. c = b \<and> (\<exists>p \<in> set ps. x \<in> marks idom b p)})"
proof (induction ps arbitrary: df)
  case (Cons p ps)
  have "p < length idom" using Cons.prems(1) by simp
  then obtain df1 where 1: "run_up b idom (replicate (length idom) False) p df = Inr df1" "length df1 = length idom"
    "\<forall>x < length idom. df1 ! x = df ! x \<union> (if x \<in> marks idom b p then {b} else {})"
    using run_up_result [OF assms, of p "replicate (length idom) False" df] Cons.prems(2) chain_bound [OF assms(2)] by auto
  then obtain df2 where 2: "frontier_preds b idom ps df1 = Inr df2" "length df2 = length idom"
    "\<forall>x < length idom. df2 ! x = df1 ! x \<union> {c. c = b \<and> (\<exists>p \<in> set ps. x \<in> marks idom b p)}"
    using Cons.IH [of df1] Cons.prems(1) by auto
  have "df2 ! x = df ! x \<union> {c. c = b \<and> (\<exists>p \<in> set (p # ps). x \<in> marks idom b p)}" if "x < length idom" for x
    using 1(3) 2(3) that by auto
  then show ?case using 1(1) 2(1,2) by simp
qed simp

lemma frontier_from_result:
  assumes "climbs h (up_of idom)" "\<forall>x p. up_of idom x = Some p \<longrightarrow> p < length idom" "graph_ok (length idom) pred"
  shows "\<forall>b \<in> set bs. b < length idom \<Longrightarrow> length df = length idom \<Longrightarrow>
    \<exists>df'. frontier_from pred idom bs df = Inr df' \<and> length df' = length idom \<and>
      (\<forall>x < length idom. df' ! x = df ! x \<union> {b \<in> set bs. 2 \<le> length (pred ! b) \<and> (\<exists>p \<in> set (pred ! b). x \<in> marks idom b p)})"
proof (induction bs arbitrary: df)
  case (Cons b bs)
  have b: "b < length idom" using Cons.prems(1) by simp
  then have ps: "\<forall>p \<in> set (pred ! b). p < length idom" using assms(3) unfolding graph_ok_def by (metis nth_mem)
  obtain df1 where 1: "(if length (pred ! b) < 2 then Inr df else frontier_preds b idom (pred ! b) df) = Inr df1" "length df1 = length idom"
    "\<forall>x < length idom. df1 ! x = df ! x \<union> {c. c = b \<and> 2 \<le> length (pred ! b) \<and> (\<exists>p \<in> set (pred ! b). x \<in> marks idom b p)}"
  proof (cases "length (pred ! b) < 2")
    case True
    then show ?thesis using Cons.prems(2) by (intro that [of df]) auto
  next
    case False
    then have l: "2 \<le> length (pred ! b)" by simp
    from frontier_preds_result [OF assms(1,2) b ps Cons.prems(2)] obtain df' where
      df': "frontier_preds b idom (pred ! b) df = Inr df'" "length df' = length idom"
        "\<forall>x < length idom. df' ! x = df ! x \<union> {c. c = b \<and> (\<exists>p \<in> set (pred ! b). x \<in> marks idom b p)}" by blast
    have "\<forall>x < length idom. df' ! x = df ! x \<union> {c. c = b \<and> 2 \<le> length (pred ! b) \<and> (\<exists>p \<in> set (pred ! b). x \<in> marks idom b p)}"
      using df'(3) l by simp
    then show ?thesis using df'(1,2) False by (intro that [of df']) simp_all
  qed
  then obtain df2 where 2: "frontier_from pred idom bs df1 = Inr df2" "length df2 = length idom"
    "\<forall>x < length idom. df2 ! x = df1 ! x \<union> {b \<in> set bs. 2 \<le> length (pred ! b) \<and> (\<exists>p \<in> set (pred ! b). x \<in> marks idom b p)}"
    using Cons.IH [of df1] Cons.prems(1) by auto
  have "df2 ! x = df ! x \<union> {c \<in> set (b # bs). 2 \<le> length (pred ! c) \<and> (\<exists>p \<in> set (pred ! c). x \<in> marks idom c p)}" if "x < length idom" for x
    using 1(3) 2(3) that by auto
  moreover have "idx pred b = Inr (pred ! b)" using b assms(3) by (simp add: idx_def graph_ok_def)
  ultimately show ?case using 1(1) 2(1,2) by simp
qed simp

section \<open>The frontier by its definition\<close>

text \<open>A block whose only predecessor is \<open>p\<close> is not on every trail to \<open>p\<close>.\<close>

lemma sole_pred:
  assumes "\<forall>q. (q, b) \<in> E \<longrightarrow> q = p" "b \<noteq> root"
  shows "trail E root vs x \<Longrightarrow> (\<exists>us. trail E root us x \<and> b \<notin> set us) \<or> (\<exists>us. trail E root us p \<and> b \<notin> set us)"
proof (induction rule: trail.induct)
  case trail_root
  then show ?case using assms(2) trail.trail_root [of E root] by (metis empty_iff empty_set set_ConsD)
next
  case (trail_step vs q x)
  then show ?case
  proof (cases "x = b")
    case True
    then have "q = p" using trail_step.hyps(2) assms(1) by blast
    with trail_step.IH show ?thesis by blast
  next
    case False
    have "\<exists>vs. trail E root vs x \<and> b \<notin> set vs" if "trail E root us q" "b \<notin> set us" for us
      using trail.trail_step [OF that(1) trail_step.hyps(2)] that(2) False by (intro exI [of _ "us @ [x]"]) simp
    with trail_step.IH show ?thesis by blast
  qed
qed

lemma sole_pred_doms:
  assumes "\<forall>q. (q, b) \<in> E \<longrightarrow> q = p" "b \<noteq> root" "trail E root vs p" "a \<in> doms E root p"
  shows "a \<noteq> b \<and> a \<in> doms E root b"
proof -
  have "b \<notin> doms E root p" using sole_pred [OF assms(1-3)] by (auto simp: doms_def)
  moreover have "a \<in> set us" if "trail E root us b" for us
    using that assms(2)
  proof cases
    case (trail_step vs q)
    with assms(1,4) show ?thesis by (auto simp: doms_def)
  qed simp
  ultimately show ?thesis using assms(4) by (auto simp: doms_def)
qed

definition frontier :: "graph \<Rightarrow> nat \<Rightarrow> nat \<Rightarrow> nat set" where
  "frontier pred root a = {b. b < length pred \<and> (\<exists>p \<in> set (pred ! b). reached pred root p \<and> a \<in> doms (edges pred) root p) \<and>
     \<not> (a \<noteq> b \<and> a \<in> doms (edges pred) root b)}"

lemma marks_frontier:
  assumes f: "forest pred root idom" and len: "length idom = length pred" and a: "reached pred root a" and b: "b < length pred" and p: "p \<in> set (pred ! b)"
  shows "a \<in> marks idom b p \<longleftrightarrow> reached pred root p \<and> a \<in> doms (edges pred) root p \<and> \<not> (a \<noteq> b \<and> a \<in> doms (edges pred) root b)"
proof (cases "reached pred root p")
  case False
  then have "anc (up_of idom) p = {p}" using f by (intro anc_None) (auto simp: forest_def)
  with False a show ?thesis by (auto simp: marks_def)
next
  case True
  have e: "(p, b) \<in> edges pred" using b p by (simp add: edges_def)
  with True have rb: "reached pred root b" by (auto simp: reached_def intro: trail_step)
  have up: "up_of idom b = idom ! b" using b len by (simp add: up_of_def)
  have cp: "anc (up_of idom) p = doms (edges pred) root p" and cb: "anc (up_of idom) b = doms (edges pred) root b"
    using f True rb by (simp_all add: forest_def)
  show ?thesis
  proof (cases "idom ! b")
    case None
    then have "doms (edges pred) root b = {b}" using anc_None [of "up_of idom" b] up cb by simp
    then show ?thesis using None True cp by (auto simp: marks_def)
  next
    case (Some d)
    obtain h where c: "climbs h (up_of idom)" using f by (auto simp: forest_def)
    have d: "doms (edges pred) root b = insert b (anc (up_of idom) d)" using anc_Some [of "up_of idom" b d] up Some cb by simp
    have "h b < h d" using c Some up by (simp add: climbs_def)
    then have nb: "b \<notin> anc (up_of idom) d" using anc_height_le [OF c, of b d] by auto
    have "d \<noteq> b" using \<open>h b < h d\<close> by auto
    then have "d \<in> anc (up_of idom) p" using doms_pred [OF e, of d root] d cp by simp
    then show ?thesis using Some True cp d nb by (auto simp: marks_def)
  qed
qed

lemma frontier_result:
  assumes g: "graph_ok n pred" and f: "forest pred 0 idom" and len: "length idom = n"
  shows "\<exists>df. dominance_frontier n pred idom = Inr df \<and> length df = n \<and>
    (\<forall>a < n. reached pred 0 a \<longrightarrow> df ! a = frontier pred 0 a - {b. b = 0 \<and> length (pred ! b) < 2})"
proof -
  have lp: "length pred = n" using g by (simp add: graph_ok_def)
  obtain h where c: "climbs h (up_of idom)" using f by (auto simp: forest_def)
  have par: "p < length idom" if u: "up_of idom x = Some p" for x p
  proof -
    have "reached pred 0 x" using f u by (auto simp: forest_def)
    moreover have "p \<in> anc (up_of idom) x" using u anc_Some [of "up_of idom" x p] by simp
    ultimately have "p \<in> doms (edges pred) 0 x" "reached pred 0 x" using f by (auto simp: forest_def)
    then have "reached pred 0 p" using doms_reached by blast
    then obtain vs where "trail (edges pred) 0 vs p" by (auto simp: reached_def)
    moreover have "x < length idom" using u by (auto simp: up_of_def split: if_splits)
    ultimately show ?thesis using lp len by cases (auto simp: edges_def)
  qed
  obtain df where df: "dominance_frontier n pred idom = Inr df" "length df = n"
    "\<forall>x < n. df ! x = {b. b < n \<and> 2 \<le> length (pred ! b) \<and> (\<exists>p \<in> set (pred ! b). x \<in> marks idom b p)}"
    using frontier_from_result [OF c _ g [folded len], of "[0..<n]" "replicate n {}"] par len
    by (auto simp: dominance_frontier_def)
  have "df ! a = frontier pred 0 a - {b. b = 0 \<and> length (pred ! b) < 2}" if a: "a < n" "reached pred 0 a" for a
  proof -
    have sole: "2 \<le> length (pred ! b)" if b: "b \<in> frontier pred 0 a" "b \<noteq> 0" for b
    proof (rule ccontr)
      obtain p where p: "b < n" "p \<in> set (pred ! b)" "reached pred 0 p" "a \<in> doms (edges pred) 0 p"
        "\<not> (a \<noteq> b \<and> a \<in> doms (edges pred) 0 b)" using b(1) lp by (auto simp: frontier_def)
      assume "\<not> 2 \<le> length (pred ! b)"
      then have "pred ! b = [p]" using p(2) by (cases "pred ! b"; cases "tl (pred ! b)") auto
      then have "\<forall>q. (q, b) \<in> edges pred \<longrightarrow> q = p" by (simp add: edges_def)
      moreover obtain vs where "trail (edges pred) 0 vs p" using p(3) by (auto simp: reached_def)
      ultimately show False using sole_pred_doms [of b "edges pred" p 0 vs a] b(2) p(4,5) by blast
    qed
    have mk: "(\<exists>p \<in> set (pred ! b). a \<in> marks idom b p) \<longleftrightarrow> b \<in> frontier pred 0 a" if "b < n" for b
    proof -
      have b: "b < length pred" using that lp by simp
      show ?thesis using marks_frontier [OF f len [folded lp] a(2) b] b unfolding frontier_def mem_Collect_eq by blast
    qed
    have in_n: "b < n" if "b \<in> frontier pred 0 a" for b using that lp by (simp add: frontier_def)
    have "b \<in> df ! a \<longleftrightarrow> b < n \<and> 2 \<le> length (pred ! b) \<and> b \<in> frontier pred 0 a" for b
      using df(3) [rule_format, OF a(1)] mk [of b] by blast
    moreover have "2 \<le> length (pred ! b) \<longleftrightarrow> \<not> (b = 0 \<and> length (pred ! b) < 2)" if "b \<in> frontier pred 0 a" for b
      using sole [OF that] by (cases "b = 0") auto
    ultimately show ?thesis using in_n by blast
  qed
  then show ?thesis using df(1,2) by blast
qed

end
