(* ===== verification/Micro.thy ===== *)
theory Micro
  imports Dom
begin

text \<open>
  The micro-IR, \<open>src/crates/n0xis-arch/src/microir.rs\<close>: expressions, statements, what a shift
  computes, what an unlifted instruction reads and does to memory; and the SSA blocks of
  \<open>src/crates/n0xis-core/src/ssa.rs\<close> that hold them.

  An \<open>i128\<close> or \<open>u128\<close> is a word of 128 bits; a width in bits is a natural number.
\<close>

type_synonym u128 = "128 word"
type_synonym i128 = "128 word"
type_synonym Bits = nat

section \<open>Operations\<close>

definition FLAGS_VAR :: string where
  "FLAGS_VAR = ''flags''"

definition CALL_CLOBBER :: string where
  "CALL_CLOBBER = ''call-clobbered''"

definition JUMP_TARGET_VAR :: string where
  "JUMP_TARGET_VAR = ''__jump''"

definition OLD_MEMORY_VAR :: string where
  "OLD_MEMORY_VAR = ''old''"

datatype UnOp = UnOp_Neg | UnOp_Not

datatype BinOp =
    BinOp_Add | BinOp_Sub | BinOp_Mul | BinOp_UDiv | BinOp_SDiv | BinOp_UMod | BinOp_SMod
  | BinOp_And | BinOp_Or | BinOp_Xor | BinOp_Shl | BinOp_Shr | BinOp_Sar
  | BinOp_Eq | BinOp_Ne | BinOp_Ult | BinOp_Ule | BinOp_Ugt | BinOp_Uge
  | BinOp_Slt | BinOp_Sle | BinOp_Sgt | BinOp_Sge

datatype Shift = Shift_Shl | Shift_Shr | Shift_Sar

fun as_shift :: "BinOp \<Rightarrow> Shift option" where
  "as_shift BinOp_Shl = Some Shift_Shl"
| "as_shift BinOp_Shr = Some Shift_Shr"
| "as_shift BinOp_Sar = Some Shift_Sar"
| "as_shift _ = None"

definition Shift_apply :: "Shift \<Rightarrow> u128 \<Rightarrow> u128 \<Rightarrow> Bits \<Rightarrow> u128" where
  "Shift_apply shift val count width0 = (
     let width = max 1 (min 128 width0);
         msk = (if width = 128 then - 1 else push_bit width 1 - 1);
         v = val AND msk;
         negative = (drop_bit (width - 1) v AND 1 = 1);
         out = (if of_nat width \<le> count then (if shift = Shift_Sar \<and> negative then - 1 else 0)
           else let c = unat count in case shift of
             Shift_Shl \<Rightarrow> push_bit c v
           | Shift_Shr \<Rightarrow> drop_bit c v
           | Shift_Sar \<Rightarrow> signed_drop_bit c (if negative then v OR NOT msk else v))
     in out AND msk)"

datatype CmpKind = CmpKind_Cmp | CmpKind_Test | CmpKind_Result | CmpKind_LogicalResult

section \<open>Expressions and statements\<close>

datatype MicroExpr =
    ConstE i128 Bits
  | VarE string
  | LoadE MicroExpr Bits bool
  | UnaryE UnOp MicroExpr
  | BinaryE BinOp MicroExpr MicroExpr
  | CastE bool Bits MicroExpr
  | AddrOfE MicroExpr
  | CompareE CmpKind MicroExpr MicroExpr
  | OpaqueFlagsE string
  | CallE CallTarget "MicroExpr list"
  | SelectE MicroExpr MicroExpr MicroExpr
  | UnknownE string
and CallTarget =
    Direct u64
  | Indirect MicroExpr
  | Intrinsic string

datatype UnliftedReads = Reads_Exact "string list" | Reads_Bound "string list" | Reads_Unknown

fun Reads_regs :: "UnliftedReads \<Rightarrow> string list" where
  "Reads_regs (Reads_Exact r) = r"
| "Reads_regs (Reads_Bound r) = r"
| "Reads_regs Reads_Unknown = []"

fun Reads_exact :: "UnliftedReads \<Rightarrow> string list option" where
  "Reads_exact (Reads_Exact r) = Some r"
| "Reads_exact _ = None"

fun Reads_map_names :: "(string \<Rightarrow> string) \<Rightarrow> UnliftedReads \<Rightarrow> UnliftedReads" where
  "Reads_map_names f (Reads_Exact r) = Reads_Exact (map f r)"
| "Reads_map_names f (Reads_Bound r) = Reads_Bound (map f r)"
| "Reads_map_names f Reads_Unknown = Reads_Unknown"

datatype MemEffect = Mem_NoAccess | Mem_Read | Mem_Write | Mem_ReadWrite | Mem_Unknown

fun from_access :: "bool \<Rightarrow> bool \<Rightarrow> MemEffect" where
  "from_access False False = Mem_NoAccess"
| "from_access True False = Mem_Read"
| "from_access False True = Mem_Write"
| "from_access True True = Mem_ReadWrite"

definition may_read :: "MemEffect \<Rightarrow> bool" where
  "may_read m = (m = Mem_Read \<or> m = Mem_ReadWrite \<or> m = Mem_Unknown)"

definition may_write :: "MemEffect \<Rightarrow> bool" where
  "may_write m = (m = Mem_Write \<or> m = Mem_ReadWrite \<or> m = Mem_Unknown)"

datatype MicroStmt =
    AssignS string MicroExpr
  | StoreS MicroExpr MicroExpr Bits
  | CallS CallTarget "MicroExpr list" "string option"
  | ReturnS "MicroExpr option"
  | NopS
  | UnliftedS u64 string UnliftedReads MemEffect

definition unlifted_unknown :: "u64 \<Rightarrow> string \<Rightarrow> MicroStmt" where
  "unlifted_unknown va txt = UnliftedS va txt Reads_Unknown Mem_Unknown"

section \<open>SSA blocks\<close>

record PhiInput =
  pi_from_block :: nat
  pi_value :: string

record Phi =
  ph_var :: string
  ph_dst :: string
  ph_inputs :: "PhiInput list"

record SsaStmt =
  ss_va :: u64
  ss_stmt :: MicroStmt

record SsaBlock =
  sb_id :: nat
  sb_start :: u64
  sb_end :: u64
  sb_terminator :: string
  sb_successors :: "Successor list"
  sb_phis :: "Phi list"
  sb_stmts :: "SsaStmt list"
  sb_condition :: "MicroExpr option"

section \<open>Names\<close>

text \<open>The part of a name before its first dot: \<open>rax.3\<close> is a version of \<open>rax\<close>.\<close>

definition base_name :: "string \<Rightarrow> string" where
  "base_name n = takeWhile (\<lambda>c. c \<noteq> CHR ''.'') n"

section \<open>What a shift computes\<close>

lemma low_mask: "w \<le> 128 \<Longrightarrow> (if w = 128 then - 1 else push_bit w 1 - 1) = (mask w :: u128)"
  by (simp add: mask_eq_exp_minus_1 push_bit_of_1 mask_eq_decr_exp)

lemma top_bit_iff: "1 \<le> w \<Longrightarrow> drop_bit (w - 1) (take_bit w v :: u128) AND 1 = 1 \<longleftrightarrow> bit v (w - 1)"
  by (simp add: and_one_eq mod_2_eq_odd odd_iff_mod_2_eq_one [symmetric] bit_iff_odd_drop_bit [symmetric] bit_take_bit_iff)

lemma uint_take_bit_u128: "uint (take_bit w v :: u128) = take_bit w (uint v)"
  by (simp add: unsigned_take_bit_eq)

lemma signed_extend:
  assumes "1 \<le> w" "w \<le> 128"
  shows "(if bit v (w - 1) then take_bit w v OR NOT (mask w) else take_bit w v) = (signed_take_bit (w - 1) v :: u128)"
proof -
  obtain u where u: "w = Suc u" using assms(1) by (cases w) auto
  show ?thesis unfolding u using assms(2) [unfolded u]
    by (intro bit_eqI) (auto simp: bit_or_iff bit_not_iff bit_mask_iff bit_take_bit_iff bit_signed_take_bit_iff min_def less_Suc_eq not_less)
qed

lemma sint_signed_extend:
  assumes "1 \<le> w" "w \<le> 128"
  shows "sint (signed_take_bit (w - 1) v :: u128) = signed_take_bit (w - 1) (uint v)"
  using assms by (intro bit_eqI) (auto simp: bit_sint_iff bit_signed_take_bit_iff bit_uint_iff min_def)

lemma signed_take_bit_div:
  assumes "1 \<le> w" "w \<le> c"
  shows "signed_take_bit (w - 1) (k :: int) div 2 ^ c = (if bit k (w - 1) then - 1 else 0)"
proof -
  have p: "(2 :: int) ^ (w - 1) \<le> 2 ^ c" using assms by (intro power_increasing) simp_all
  show ?thesis
  proof (cases "bit k (w - 1)")
    case True
    have "signed_take_bit (w - 1) k < 0" using True by simp
    moreover have "- (2 ^ (w - 1)) \<le> signed_take_bit (w - 1) k" by (rule signed_take_bit_int_greater_eq_minus_exp)
    ultimately have "signed_take_bit (w - 1) k div 2 ^ c = - 1"
      using p by (intro int_div_pos_eq [of _ _ "- 1" "signed_take_bit (w - 1) k + 2 ^ c"]) linarith+
    with True show ?thesis by simp
  next
    case False
    then have "0 \<le> signed_take_bit (w - 1) k" by simp
    moreover have "signed_take_bit (w - 1) k < 2 ^ (w - 1)" by (rule signed_take_bit_int_less_exp)
    ultimately have "signed_take_bit (w - 1) k div 2 ^ c = 0" using p by (intro div_pos_pos_trivial) linarith+
    with False show ?thesis by simp
  qed
qed

lemma Shift_apply_exact:
  fixes v count :: u128 and width :: nat
  defines "w \<equiv> max 1 (min 128 width)"
  shows "uint (Shift_apply shift v count width) = (case shift of
      Shift_Shl \<Rightarrow> uint v * 2 ^ unat count mod 2 ^ w
    | Shift_Shr \<Rightarrow> (uint v mod 2 ^ w) div 2 ^ unat count
    | Shift_Sar \<Rightarrow> (signed_take_bit (w - 1) (uint v) div 2 ^ unat count) mod 2 ^ w)"
proof -
  have w: "1 \<le> w" "w \<le> 128" by (simp_all add: w_def)
  have c: "of_nat w \<le> count \<longleftrightarrow> w \<le> unat count" using w by (simp add: word_le_nat_alt unat_of_nat)
  have def: "Shift_apply shift v count width = take_bit w (
      if w \<le> unat count then (if shift = Shift_Sar \<and> bit v (w - 1) then - 1 else 0)
      else case shift of
         Shift_Shl \<Rightarrow> push_bit (unat count) (take_bit w v)
       | Shift_Shr \<Rightarrow> drop_bit (unat count) (take_bit w v)
       | Shift_Sar \<Rightarrow> signed_drop_bit (unat count) (signed_take_bit (w - 1) v))"
    unfolding Shift_apply_def Let_def w_def [symmetric] low_mask [OF w(2)] c take_bit_eq_mask [symmetric] top_bit_iff [OF w(1)] signed_extend [OF w] ..
  show ?thesis
  proof (cases "w \<le> unat count")
    case True
    have p: "(2 :: int) ^ w dvd 2 ^ unat count" using True by (rule le_imp_power_dvd)
    have "uint v mod 2 ^ w < 2 ^ unat count"
      using True by (intro less_le_trans [OF pos_mod_bound power_increasing]) simp_all
    then have "(uint v mod 2 ^ w) div 2 ^ unat count = 0" by simp
    moreover have "(uint v * 2 ^ unat count) mod 2 ^ w = 0" using p by simp
    moreover have "uint (take_bit w (- 1 :: u128)) = (- 1) mod 2 ^ w"
      using w by (simp add: uint_take_bit_u128 unsigned_minus_1_eq_mask min_def flip: take_bit_eq_mod take_bit_minus_one_eq_mask)
    ultimately show ?thesis
      unfolding def using True signed_take_bit_div [OF w(1) True, of "uint v"] w by (cases shift) (simp_all add: bit_uint_iff)
  next
    case False
    then have c: "unat count < 128" using w by simp
    have drop: "drop_bit n x = x div 2 ^ n" for n and x :: int by (simp add: drop_bit_eq_div)
    show ?thesis
    proof (cases shift)
      case Shift_Shl
      have "uint (take_bit w (push_bit (unat count) (take_bit w v))) = take_bit w (push_bit (unat count) (take_bit w (uint v)))"
        using w by (simp add: uint_take_bit_u128 unsigned_push_bit_eq min_def)
      then show ?thesis unfolding def using Shift_Shl False by (simp add: take_bit_eq_mod push_bit_eq_mult mod_mult_left_eq)
    next
      case Shift_Shr
      have "uint (take_bit w (drop_bit (unat count) (take_bit w v))) = take_bit w (drop_bit (unat count) (take_bit w (uint v)))"
        using w by (simp add: uint_take_bit_u128 unsigned_drop_bit_eq min_absorb2)
      moreover have "take_bit w (drop_bit (unat count) (take_bit w (uint v))) = drop_bit (unat count) (take_bit w (uint v))"
        by (intro bit_eqI) (auto simp: bit_take_bit_iff bit_drop_bit_eq)
      ultimately show ?thesis unfolding def using Shift_Shr False by (simp add: drop take_bit_eq_mod)
    next
      case Shift_Sar
      have "uint (take_bit w (signed_drop_bit (unat count) (signed_take_bit (w - 1) v))) =
          take_bit w (drop_bit (unat count) (signed_take_bit (w - 1) (uint v)))"
        using w by (intro bit_eqI)
          (auto simp: uint_take_bit_u128 bit_uint_iff bit_take_bit_iff bit_signed_drop_bit_iff bit_drop_bit_eq bit_signed_take_bit_iff min_def)
      then show ?thesis unfolding def using Shift_Sar False by (simp add: drop take_bit_eq_mod)
    qed
  qed
qed

end
