(* ===== verification/Optimize.thy ===== *)
theory Optimize
  imports Micro "HOL-Library.Signed_Division" "HOL-Library.Sublist"
begin

text \<open>
  The optimizer, \<open>src/crates/n0xis-core/src/optimize.rs\<close>: constant folding, copy and expression
  propagation, forwarding of stores to loads, dead stores and dead definitions, over SSA blocks.
  Every round of the code is a function from blocks to blocks and whether it changed anything; the
  log of changes (\<open>delta\<close>) is left out. A closure that keeps a mark while it rewrites is a function
  with that mark as a state.
\<close>

section \<open>Depth\<close>

definition MAX_ROUNDS :: nat where
  "MAX_ROUNDS = 16"

definition MAX_PROPAGATED_DEPTH :: nat where
  "MAX_PROPAGATED_DEPTH = 64"

fun depth_with :: "(string \<times> nat) option \<Rightarrow> MicroExpr \<Rightarrow> nat"
and depths_with :: "(string \<times> nat) option \<Rightarrow> MicroExpr list \<Rightarrow> nat" where
  "depth_with inlined (VarE n) = (case inlined of Some (v, d) \<Rightarrow> if v = n then d else 1 | None \<Rightarrow> 1)"
| "depth_with inlined (ConstE v b) = 1"
| "depth_with inlined (OpaqueFlagsE m) = 1"
| "depth_with inlined (UnknownE s) = 1"
| "depth_with inlined (LoadE a b sg) = 1 + depth_with inlined a"
| "depth_with inlined (UnaryE u e) = 1 + depth_with inlined e"
| "depth_with inlined (CastE sg b e) = 1 + depth_with inlined e"
| "depth_with inlined (AddrOfE e) = 1 + depth_with inlined e"
| "depth_with inlined (BinaryE bop l r) = 1 + max (depth_with inlined l) (depth_with inlined r)"
| "depth_with inlined (CompareE k l r) = 1 + max (depth_with inlined l) (depth_with inlined r)"
| "depth_with inlined (SelectE c a b) = 1 + max (depth_with inlined c) (max (depth_with inlined a) (depth_with inlined b))"
| "depth_with inlined (CallE target args) =
     1 + max (case target of Indirect e \<Rightarrow> depth_with inlined e | _ \<Rightarrow> 0) (depths_with inlined args)"
| "depths_with inlined [] = 0"
| "depths_with inlined (e # es) = max (depth_with inlined e) (depths_with inlined es)"

definition expr_depth :: "MicroExpr \<Rightarrow> nat" where
  "expr_depth e = depth_with None e"

fun stmt_read_exprs :: "MicroStmt \<Rightarrow> MicroExpr list" where
  "stmt_read_exprs (AssignS dst val) = [val]"
| "stmt_read_exprs (StoreS addr val bits) = [addr, val]"
| "stmt_read_exprs (CallS target args ret) = args @ (case target of Indirect t \<Rightarrow> [t] | _ \<Rightarrow> [])"
| "stmt_read_exprs (ReturnS (Some e)) = [e]"
| "stmt_read_exprs (ReturnS None) = []"
| "stmt_read_exprs NopS = []"
| "stmt_read_exprs (UnliftedS va txt reads eff) = []"

definition max_depth :: "nat list \<Rightarrow> nat" where
  "max_depth ds = fold max ds 0"

definition stmt_read_depth :: "MicroStmt \<Rightarrow> nat" where
  "stmt_read_depth s = max_depth (map expr_depth (stmt_read_exprs s))"

section \<open>Rewriting\<close>

text \<open>Bottom-up; the children from left to right, then the expression itself.\<close>

type_synonym 's rewrite = "MicroExpr \<Rightarrow> 's \<Rightarrow> MicroExpr \<times> 's"

fun map_expr :: "'s rewrite \<Rightarrow> MicroExpr \<Rightarrow> 's \<Rightarrow> MicroExpr \<times> 's"
and map_exprs :: "'s rewrite \<Rightarrow> MicroExpr list \<Rightarrow> 's \<Rightarrow> MicroExpr list \<times> 's"
and map_target :: "'s rewrite \<Rightarrow> CallTarget \<Rightarrow> 's \<Rightarrow> CallTarget \<times> 's" where
  "map_expr f (ConstE v b) s = f (ConstE v b) s"
| "map_expr f (OpaqueFlagsE m) s = f (OpaqueFlagsE m) s"
| "map_expr f (UnknownE t) s = f (UnknownE t) s"
| "map_expr f (VarE n) s = f (VarE n) s"
| "map_expr f (LoadE a b sg) s = (let (a', s) = map_expr f a s in f (LoadE a' b sg) s)"
| "map_expr f (UnaryE u e) s = (let (e', s) = map_expr f e s in f (UnaryE u e') s)"
| "map_expr f (BinaryE bop l r) s = (let (l', s) = map_expr f l s; (r', s) = map_expr f r s in f (BinaryE bop l' r') s)"
| "map_expr f (CastE sg b e) s = (let (e', s) = map_expr f e s in f (CastE sg b e') s)"
| "map_expr f (AddrOfE e) s = (let (e', s) = map_expr f e s in f (AddrOfE e') s)"
| "map_expr f (CompareE k l r) s = (let (l', s) = map_expr f l s; (r', s) = map_expr f r s in f (CompareE k l' r') s)"
| "map_expr f (SelectE c a b) s = (let (c', s) = map_expr f c s; (a', s) = map_expr f a s; (b', s) = map_expr f b s in f (SelectE c' a' b') s)"
| "map_expr f (CallE target args) s = (let (target', s) = map_target f target s; (args', s) = map_exprs f args s in f (CallE target' args') s)"
| "map_exprs f [] s = ([], s)"
| "map_exprs f (e # es) s = (let (e', s) = map_expr f e s; (es', s) = map_exprs f es s in (e' # es', s))"
| "map_target f (Direct va) s = (Direct va, s)"
| "map_target f (Indirect e) s = (let (e', s) = map_expr f e s in (Indirect e', s))"
| "map_target f (Intrinsic n) s = (Intrinsic n, s)"

fun map_stmt_exprs :: "'s rewrite \<Rightarrow> MicroStmt \<Rightarrow> 's \<Rightarrow> MicroStmt \<times> 's" where
  "map_stmt_exprs f (AssignS dst val) s = (let (v, s) = map_expr f val s in (AssignS dst v, s))"
| "map_stmt_exprs f (StoreS addr val bits) s = (let (a, s) = map_expr f addr s; (v, s) = map_expr f val s in (StoreS a v bits, s))"
| "map_stmt_exprs f (CallS target args ret) s = (let (t, s) = map_target f target s; (as, s) = map_exprs f args s in (CallS t as ret, s))"
| "map_stmt_exprs f (ReturnS None) s = (ReturnS None, s)"
| "map_stmt_exprs f (ReturnS (Some e)) s = (let (e', s) = map_expr f e s in (ReturnS (Some e'), s))"
| "map_stmt_exprs f NopS s = (NopS, s)"
| "map_stmt_exprs f (UnliftedS va txt reads eff) s = (UnliftedS va txt reads eff, s)"

text \<open>The closure \<open>apply\<close>: it keeps whether a rewrite changed an expression beside the state of \<open>f\<close>.\<close>

definition apply_rewrite :: "(MicroExpr \<Rightarrow> 's \<Rightarrow> MicroExpr option \<times> 's) \<Rightarrow> ('s \<times> bool) rewrite" where
  "apply_rewrite f e s = (case f e (fst s) of
     (Some e', s') \<Rightarrow> if e' \<noteq> e then (e', (s', True)) else (e, (s', snd s))
   | (None, s') \<Rightarrow> (e, (s', snd s)))"

fun map_stmts :: "'s rewrite \<Rightarrow> SsaStmt list \<Rightarrow> 's \<Rightarrow> SsaStmt list \<times> 's" where
  "map_stmts f [] s = ([], s)"
| "map_stmts f (x # xs) s = (let (t, s) = map_stmt_exprs f (ss_stmt x) s; (xs', s) = map_stmts f xs s in (x\<lparr>ss_stmt := t\<rparr> # xs', s))"

definition map_block :: "'s rewrite \<Rightarrow> SsaBlock \<Rightarrow> 's \<Rightarrow> SsaBlock \<times> 's" where
  "map_block f b s = (let (ss, s) = map_stmts f (sb_stmts b) s; b' = b\<lparr>sb_stmts := ss\<rparr> in
     case sb_condition b of None \<Rightarrow> (b', s) | Some c \<Rightarrow> (let (c', s) = map_expr f c s in (b'\<lparr>sb_condition := Some c'\<rparr>, s)))"

fun map_blocks :: "'s rewrite \<Rightarrow> SsaBlock list \<Rightarrow> 's \<Rightarrow> SsaBlock list \<times> 's" where
  "map_blocks f [] s = ([], s)"
| "map_blocks f (b # bs) s = (let (b', s) = map_block f b s; (bs', s) = map_blocks f bs s in (b' # bs', s))"

definition for_each_block_expr_mut :: "(MicroExpr \<Rightarrow> 's \<Rightarrow> MicroExpr option \<times> 's) \<Rightarrow> SsaBlock list \<Rightarrow> 's \<Rightarrow> SsaBlock list \<times> 's \<times> bool" where
  "for_each_block_expr_mut f blocks s = map_blocks (apply_rewrite f) blocks (s, False)"

section \<open>Constant folding\<close>

text \<open>
  The arithmetic on \<open>i128\<close> wraps, as in a build without overflow checks: with them, the mask of 127
  bits would stop the pass.
\<close>

definition mask_to_bits :: "i128 \<Rightarrow> Bits \<Rightarrow> i128" where
  "mask_to_bits v bits = (if bits = 0 \<or> 128 \<le> bits then v else v AND (push_bit bits 1 - 1))"

definition sign_extend :: "i128 \<Rightarrow> Bits \<Rightarrow> i128" where
  "sign_extend v bits = (if bits = 0 \<or> 128 \<le> bits then v else signed_drop_bit (128 - bits) (push_bit (128 - bits) v))"

definition i128_div :: "i128 \<Rightarrow> i128 \<Rightarrow> i128" where
  "i128_div l r = word_of_int (sint l sdiv sint r)"

definition i128_rem :: "i128 \<Rightarrow> i128 \<Rightarrow> i128" where
  "i128_rem l r = word_of_int (sint l smod sint r)"

definition fold_binary :: "BinOp \<Rightarrow> i128 \<Rightarrow> i128 \<Rightarrow> Bits \<Rightarrow> i128 option" where
  "fold_binary bop lhs rhs bits = (
     let l = mask_to_bits lhs bits;
         r = mask_to_bits rhs bits;
         sl = sign_extend l bits;
         v = (case bop of
             BinOp_Add \<Rightarrow> Some (l + r)
           | BinOp_Sub \<Rightarrow> Some (l - r)
           | BinOp_Mul \<Rightarrow> Some (l * r)
           | BinOp_UDiv \<Rightarrow> if r = 0 then None else Some (i128_div l r)
           | BinOp_SDiv \<Rightarrow> if r = 0 then None else Some (i128_div l r)
           | BinOp_UMod \<Rightarrow> if r = 0 then None else Some (i128_rem l r)
           | BinOp_SMod \<Rightarrow> if r = 0 then None else Some (i128_rem l r)
           | BinOp_And \<Rightarrow> Some (l AND r)
           | BinOp_Or \<Rightarrow> Some (l OR r)
           | BinOp_Xor \<Rightarrow> Some (l XOR r)
           | _ \<Rightarrow> (case as_shift bop of
               Some s \<Rightarrow> Some (Shift_apply s (if bop = BinOp_Sar then sl else l) rhs 128)
             | None \<Rightarrow> None))
     in case v of
       None \<Rightarrow> None
     | Some v \<Rightarrow> let masked = mask_to_bits v bits in
         if masked \<noteq> v \<and> sign_extend masked bits \<noteq> v then None else Some masked)"

definition fold_compare :: "BinOp \<Rightarrow> i128 \<Rightarrow> i128 \<Rightarrow> Bits \<Rightarrow> i128 option" where
  "fold_compare bop lhs rhs bits = (
     let l = mask_to_bits lhs bits;
         r = mask_to_bits rhs bits;
         sl = sint (sign_extend l bits);
         sr = sint (sign_extend r bits)
     in map_option of_bool (case bop of
         BinOp_Eq \<Rightarrow> Some (l = r)
       | BinOp_Ne \<Rightarrow> Some (l \<noteq> r)
       | BinOp_Ult \<Rightarrow> Some (l < r)
       | BinOp_Ule \<Rightarrow> Some (l \<le> r)
       | BinOp_Ugt \<Rightarrow> Some (r < l)
       | BinOp_Uge \<Rightarrow> Some (r \<le> l)
       | BinOp_Slt \<Rightarrow> Some (sl < sr)
       | BinOp_Sle \<Rightarrow> Some (sl \<le> sr)
       | BinOp_Sgt \<Rightarrow> Some (sr < sl)
       | BinOp_Sge \<Rightarrow> Some (sr \<le> sl)
       | _ \<Rightarrow> None))"

definition is_comparison :: "BinOp \<Rightarrow> bool" where
  "is_comparison bop = (bop \<in> {BinOp_Eq, BinOp_Ne, BinOp_Ult, BinOp_Ule, BinOp_Ugt, BinOp_Uge, BinOp_Slt, BinOp_Sle, BinOp_Sgt, BinOp_Sge})"

fun fold_once :: "MicroExpr \<Rightarrow> MicroExpr option" where
  "fold_once (UnaryE u (ConstE v bits)) = Some (ConstE (mask_to_bits (case u of UnOp_Neg \<Rightarrow> - v | UnOp_Not \<Rightarrow> NOT v) bits) bits)"
| "fold_once (BinaryE bop (ConstE lv lb) (ConstE rv rb)) =
     (if is_comparison bop then map_option (\<lambda>v. ConstE v 1) (fold_compare bop lv rv lb)
      else map_option (\<lambda>v. ConstE v lb) (fold_binary bop lv rv lb))"
| "fold_once (CastE sg bits (ConstE v b)) = Some (ConstE (if sg then sign_extend v bits else mask_to_bits v bits) bits)"
| "fold_once _ = None"

definition const_fold_round :: "SsaBlock list \<Rightarrow> SsaBlock list \<times> bool" where
  "const_fold_round blocks = (let (bs, folded_any, _) =
       for_each_block_expr_mut (\<lambda>e folded_any. case fold_once e of Some e' \<Rightarrow> (Some e', True) | None \<Rightarrow> (None, folded_any)) blocks False
     in (bs, folded_any))"

section \<open>Copy propagation\<close>

definition phi_copy :: "Phi \<Rightarrow> (string \<rightharpoonup> string) \<Rightarrow> (string \<rightharpoonup> string)" where
  "phi_copy phi m = (case ph_inputs phi of
     first # _ \<Rightarrow> if ph_dst phi \<noteq> [] \<and> (\<forall>i \<in> set (ph_inputs phi). pi_value i = pi_value first) then m(ph_dst phi \<mapsto> pi_value first) else m
   | [] \<Rightarrow> m)"

definition stmt_copy :: "SsaStmt \<Rightarrow> (string \<rightharpoonup> string) \<Rightarrow> (string \<rightharpoonup> string)" where
  "stmt_copy s m = (case ss_stmt s of AssignS dst (VarE src) \<Rightarrow> m(dst \<mapsto> src) | _ \<Rightarrow> m)"

definition copies :: "SsaBlock list \<Rightarrow> (string \<rightharpoonup> string)" where
  "copies blocks = fold (\<lambda>b m. fold stmt_copy (sb_stmts b) (fold phi_copy (sb_phis b) m)) blocks Map.empty"

text \<open>The chain of copies from a name, with the guard that ends a cycle.\<close>

function chase :: "(string \<rightharpoonup> string) \<Rightarrow> nat \<Rightarrow> nat \<Rightarrow> string \<Rightarrow> string" where
  "chase copy_of len hops n = (case copy_of n of
     None \<Rightarrow> n
   | Some next \<Rightarrow> if hops > len + 1 then n else chase copy_of len (hops + 1) next)"
  by pat_completeness auto
termination by (relation "measure (\<lambda>(copy_of, len, hops, n). len + 2 - hops)") auto

declare chase.simps [simp del]

definition chase_copy :: "(string \<rightharpoonup> string) \<Rightarrow> string \<Rightarrow> string" where
  "chase_copy copy_of n = chase copy_of (card (dom copy_of)) 0 n"

fun resolve_inputs :: "(string \<rightharpoonup> string) \<Rightarrow> PhiInput list \<Rightarrow> PhiInput list \<times> bool" where
  "resolve_inputs copy_of [] = ([], False)"
| "resolve_inputs copy_of (i # is') = (let r = chase_copy copy_of (pi_value i); (js, changed) = resolve_inputs copy_of is' in
     (i\<lparr>pi_value := r\<rparr> # js, r \<noteq> pi_value i \<or> changed))"

definition resolve_block :: "(string \<rightharpoonup> string) \<Rightarrow> SsaBlock \<Rightarrow> SsaBlock \<times> bool" where
  "resolve_block copy_of b = (b\<lparr>sb_phis := map (\<lambda>p. p\<lparr>ph_inputs := fst (resolve_inputs copy_of (ph_inputs p))\<rparr>) (sb_phis b)\<rparr>,
     \<exists>p \<in> set (sb_phis b). snd (resolve_inputs copy_of (ph_inputs p)))"

definition copy_prop_round :: "SsaBlock list \<Rightarrow> SsaBlock list \<times> bool" where
  "copy_prop_round blocks = (let copy_of = copies blocks in
     if copy_of = Map.empty then (blocks, False)
     else let (bs, changed, _) = for_each_block_expr_mut (\<lambda>e changed. case e of
           VarE n \<Rightarrow> (let r = chase_copy copy_of n in if r \<noteq> n then (Some (VarE r), True) else (None, changed))
         | _ \<Rightarrow> (None, changed)) blocks False
       in (map (\<lambda>b. fst (resolve_block copy_of b)) bs, changed \<or> (\<exists>b \<in> set bs. snd (resolve_block copy_of b))))"

section \<open>Uses\<close>

fun expr_contains_var :: "string \<Rightarrow> MicroExpr \<Rightarrow> bool"
and exprs_contain_var :: "string \<Rightarrow> MicroExpr list \<Rightarrow> bool" where
  "expr_contains_var x (VarE n) = (n = x)"
| "expr_contains_var x (LoadE a b sg) = expr_contains_var x a"
| "expr_contains_var x (UnaryE u e) = expr_contains_var x e"
| "expr_contains_var x (BinaryE bop l r) = (expr_contains_var x l \<or> expr_contains_var x r)"
| "expr_contains_var x (CastE sg b e) = expr_contains_var x e"
| "expr_contains_var x (AddrOfE e) = expr_contains_var x e"
| "expr_contains_var x (CompareE k l r) = (expr_contains_var x l \<or> expr_contains_var x r)"
| "expr_contains_var x (SelectE c a b) = (expr_contains_var x c \<or> expr_contains_var x a \<or> expr_contains_var x b)"
| "expr_contains_var x (CallE target args) =
     ((case target of Indirect t \<Rightarrow> expr_contains_var x t | _ \<Rightarrow> False) \<or> exprs_contain_var x args)"
| "expr_contains_var x (ConstE v b) = False"
| "expr_contains_var x (OpaqueFlagsE m) = False"
| "expr_contains_var x (UnknownE t) = False"
| "exprs_contain_var x [] = False"
| "exprs_contain_var x (e # es) = (expr_contains_var x e \<or> exprs_contain_var x es)"

definition expr_uses_var :: "MicroExpr list \<Rightarrow> string \<Rightarrow> bool" where
  "expr_uses_var es x = exprs_contain_var x es"

text \<open>The names in an expression, in the order of the walk.\<close>

fun walk_expr_vars :: "MicroExpr \<Rightarrow> string list"
and walk_exprs_vars :: "MicroExpr list \<Rightarrow> string list" where
  "walk_expr_vars (VarE n) = [n]"
| "walk_expr_vars (LoadE a b sg) = walk_expr_vars a"
| "walk_expr_vars (UnaryE u e) = walk_expr_vars e"
| "walk_expr_vars (BinaryE bop l r) = walk_expr_vars l @ walk_expr_vars r"
| "walk_expr_vars (CastE sg b e) = walk_expr_vars e"
| "walk_expr_vars (AddrOfE e) = walk_expr_vars e"
| "walk_expr_vars (CompareE k l r) = walk_expr_vars l @ walk_expr_vars r"
| "walk_expr_vars (SelectE c a b) = walk_expr_vars c @ walk_expr_vars a @ walk_expr_vars b"
| "walk_expr_vars (CallE target args) = (case target of Indirect t \<Rightarrow> walk_expr_vars t | _ \<Rightarrow> []) @ walk_exprs_vars args"
| "walk_expr_vars (ConstE v b) = []"
| "walk_expr_vars (OpaqueFlagsE m) = []"
| "walk_expr_vars (UnknownE t) = []"
| "walk_exprs_vars [] = []"
| "walk_exprs_vars (e # es) = walk_expr_vars e @ walk_exprs_vars es"

text \<open>Every name a block reads, once for each read.\<close>

definition stmt_uses :: "SsaStmt \<Rightarrow> string list" where
  "stmt_uses s = concat (map walk_expr_vars (stmt_read_exprs (ss_stmt s))) @
     (case ss_stmt s of UnliftedS va txt reads eff \<Rightarrow> Reads_regs reads | _ \<Rightarrow> [])"

definition block_uses :: "SsaBlock \<Rightarrow> string list" where
  "block_uses b = concat (map (\<lambda>p. map pi_value (ph_inputs p)) (sb_phis b)) @ concat (map stmt_uses (sb_stmts b)) @
     (case sb_condition b of Some c \<Rightarrow> walk_expr_vars c | None \<Rightarrow> [])"

definition count_uses :: "SsaBlock list \<Rightarrow> string \<Rightarrow> nat" where
  "count_uses blocks n = count_list (concat (map block_uses blocks)) n"

section \<open>Expression propagation\<close>

fun stmt_is_barrier :: "MicroStmt \<Rightarrow> bool" where
  "stmt_is_barrier (CallS target args ret) = True"
| "stmt_is_barrier (StoreS addr val bits) = True"
| "stmt_is_barrier (UnliftedS va txt reads eff) = (may_read eff \<or> may_write eff)"
| "stmt_is_barrier _ = False"

text \<open>A name of the stack pointer.\<close>

definition is_sp :: "string option \<Rightarrow> string \<Rightarrow> bool" where
  "is_sp sp n = (case sp of Some sp \<Rightarrow> base_name n = sp | None \<Rightarrow> False)"

fun stmt_def :: "MicroStmt \<Rightarrow> (string \<times> MicroExpr) option" where
  "stmt_def (AssignS dst val) = Some (dst, val)"
| "stmt_def (CallS target args (Some r)) = Some (r, CallE target args)"
| "stmt_def _ = None"

definition inline_once :: "string \<Rightarrow> MicroExpr \<Rightarrow> bool rewrite" where
  "inline_once dst def_expr e did = (if e = VarE dst \<and> \<not> did then (def_expr, True) else (e, did))"

definition fold_here :: "unit rewrite" where
  "fold_here e u = (case fold_once e of Some e' \<Rightarrow> (e', u) | None \<Rightarrow> (e, u))"

definition is_const :: "MicroExpr \<Rightarrow> bool" where
  "is_const e = (case e of ConstE v b \<Rightarrow> True | _ \<Rightarrow> False)"

definition inline_stmt :: "string \<Rightarrow> MicroExpr \<Rightarrow> MicroStmt \<Rightarrow> MicroStmt" where
  "inline_stmt dst def_expr t = (let t' = fst (map_stmt_exprs (inline_once dst def_expr) t False) in
     if is_const def_expr then fst (map_stmt_exprs fold_here t' ()) else t')"

text \<open>
  Whether the definition \<open>s\<close> goes into the statement \<open>t\<close> after it. The search for the use leaves its
  loop in the first turn, as the comment in the code says, so it looks at the next statement only.
\<close>

definition propagates :: "string option \<Rightarrow> (string \<Rightarrow> nat) \<Rightarrow> MicroStmt \<Rightarrow> MicroStmt \<Rightarrow> bool" where
  "propagates sp use_counts s t = (case stmt_def s of
     None \<Rightarrow> False
   | Some (dst, def_expr) \<Rightarrow>
       \<not> is_sp sp dst \<and> def_expr \<noteq> UnknownE CALL_CLOBBER \<and> use_counts dst = 1 \<and>
       (\<not> stmt_is_barrier t \<or> base_name dst = OLD_MEMORY_VAR) \<and> expr_uses_var (stmt_read_exprs t) dst \<and>
       \<not> max_depth (map (depth_with (Some (dst, expr_depth def_expr))) (stmt_read_exprs t)) > MAX_PROPAGATED_DEPTH)"

fun prop_stmts :: "string option \<Rightarrow> (string \<Rightarrow> nat) \<Rightarrow> SsaStmt list \<Rightarrow> SsaStmt list \<times> bool" where
  "prop_stmts sp use_counts [] = ([], False)"
| "prop_stmts sp use_counts [s] = ([s], False)"
| "prop_stmts sp use_counts (s # t # rest) =
     (if propagates sp use_counts (ss_stmt s) (ss_stmt t) then
        (case stmt_def (ss_stmt s) of
           Some (dst, def_expr) \<Rightarrow> (fst (prop_stmts sp use_counts (t\<lparr>ss_stmt := inline_stmt dst def_expr (ss_stmt t)\<rparr> # rest)), True)
         | None \<Rightarrow> (s # t # rest, False))
      else (let (rest', changed) = prop_stmts sp use_counts (t # rest) in (s # rest', changed)))"

definition expr_prop_round :: "string option \<Rightarrow> SsaBlock list \<Rightarrow> SsaBlock list \<times> bool" where
  "expr_prop_round sp blocks = (let use_counts = count_uses blocks in
     (map (\<lambda>b. b\<lparr>sb_stmts := fst (prop_stmts sp use_counts (sb_stmts b))\<rparr>) blocks,
      \<exists>b \<in> set blocks. snd (prop_stmts sp use_counts (sb_stmts b))))"

section \<open>Dead definitions\<close>

definition is_jump :: "string \<Rightarrow> bool" where
  "is_jump n = (base_name n = JUMP_TARGET_VAR)"

definition live_def :: "string option \<Rightarrow> (string \<Rightarrow> nat) \<Rightarrow> string \<Rightarrow> bool" where
  "live_def sp use_counts dst = (is_sp sp dst \<or> is_jump dst \<or> use_counts dst > 0)"

definition live_stmt :: "string option \<Rightarrow> (string \<Rightarrow> nat) \<Rightarrow> SsaStmt \<Rightarrow> bool" where
  "live_stmt sp use_counts s = (case ss_stmt s of AssignS dst val \<Rightarrow> live_def sp use_counts dst | _ \<Rightarrow> True)"

definition live_phi :: "string option \<Rightarrow> (string \<Rightarrow> nat) \<Rightarrow> Phi \<Rightarrow> bool" where
  "live_phi sp use_counts p = (ph_dst p \<noteq> [] \<and> live_def sp use_counts (ph_dst p))"

definition dce_block :: "string option \<Rightarrow> (string \<Rightarrow> nat) \<Rightarrow> SsaBlock \<Rightarrow> SsaBlock" where
  "dce_block sp use_counts b = b\<lparr>sb_stmts := filter (live_stmt sp use_counts) (sb_stmts b),
     sb_phis := filter (live_phi sp use_counts) (sb_phis b)\<rparr>"

definition dce_round :: "string option \<Rightarrow> SsaBlock list \<Rightarrow> SsaBlock list \<times> bool" where
  "dce_round sp blocks = (let use_counts = count_uses blocks; bs = map (dce_block sp use_counts) blocks in
     (bs, \<exists>(b, b') \<in> set (zip blocks bs). length (sb_stmts b') \<noteq> length (sb_stmts b) \<or> length (sb_phis b') \<noteq> length (sb_phis b)))"

end
