(* ===== verification/Emulate.thy ===== *)
theory Emulate
  imports Micro "HOL-Library.Signed_Division" "HOL-Library.List_Lexorder" "HOL-Library.Char_ord"
begin

text \<open>
  The emulator of the micro-IR, \<open>src/crates/n0xis-core/src/emulate.rs\<close>, under its default policy
  \<open>CallPolicy::Refuse\<close>: memory, expressions, statements, phis, successors, and the loop over blocks.

  A function of the emulator maps a state to an error or a value and the state after it: also an
  error leaves the memory it touched and the registers it invented behind. The loop over blocks is
  a partial function to an option, \<^const>\<open>None\<close> where it does not return. The image behind the
  memory is an argument, since a \<open>MemorySource\<close> is a trait; so is the function \<open>intrinsic\<close>, which
  is floating-point and vector arithmetic for the most part. The register file that only a callee
  reads is left out, as no callee is entered.
\<close>

section \<open>Errors and state\<close>

datatype EmuError =
    UndefinedVar string
  | EmuUnlifted u64 string
  | UnknownExpr string
  | EmuOpaqueFlags string
  | CallNotModelled string
  | CallDepthExceeded nat u64
  | IntrinsicNotModelled string
  | UnreadableMemory u64 Bits
  | WidthNotModelled Bits
  | DivideByZero u64
  | NoSuccessor nat string
  | NoCondition nat
  | UnrecordedJump nat u64
  | UnresolvedJump nat u64
  | JumpToNonLeader nat u64
  | StepLimit nat
  | NoEntry

definition WORD_BITS :: Bits where
  "WORD_BITS = 128"

definition DEFAULT_STACK_TOP :: u64 where
  "DEFAULT_STACK_TOP = 0x7fff00000000"

definition RETURN_SENTINEL :: u64 where
  "RETURN_SENTINEL = 0xdead000000000000"

definition CALLER_FRAME :: u64 where
  "CALLER_FRAME = 0x7fff00000100"

definition DEFAULT_FS_BASE :: u64 where
  "DEFAULT_FS_BASE = 0x7f0000000000"

definition DEFAULT_GS_BASE :: u64 where
  "DEFAULT_GS_BASE = 0x7e0000000000"

text \<open>The configuration, with the two arguments of the model: the image and the intrinsics.\<close>

type_synonym image = "u64 \<Rightarrow> nat \<Rightarrow> u8 list option"

record EmuConfig =
  ec_max_steps :: nat
  ec_stack_top :: u64
  ec_fs_base :: u64
  ec_gs_base :: u64
  ec_entry_scratch :: bool
  ec_word_bits :: Bits
  ec_backing :: "image option"
  ec_intrinsic :: "string \<Rightarrow> u128 list \<Rightarrow> u64 \<Rightarrow> u64 \<Rightarrow> u64 \<Rightarrow> EmuError + u128"

definition EmuConfig_default :: "image option \<Rightarrow> (string \<Rightarrow> u128 list \<Rightarrow> u64 \<Rightarrow> u64 \<Rightarrow> u64 \<Rightarrow> EmuError + u128) \<Rightarrow> EmuConfig" where
  "EmuConfig_default backing intr = \<lparr>ec_max_steps = 2000000, ec_stack_top = DEFAULT_STACK_TOP, ec_fs_base = DEFAULT_FS_BASE,
     ec_gs_base = DEFAULT_GS_BASE, ec_entry_scratch = False, ec_word_bits = 64, ec_backing = backing, ec_intrinsic = intr\<rparr>"

record EmuMemory =
  mm_written :: "u64 \<rightharpoonup> u8"
  mm_touched :: "u64 set"

record Emu =
  em_vars :: "string \<rightharpoonup> u128"
  em_mem :: EmuMemory
  em_invented :: "string list"
  em_steps :: nat
  em_blocks_entered :: nat

type_synonym 'a emu = "Emu \<Rightarrow> (EmuError + 'a) \<times> Emu"

definition eret :: "'a \<Rightarrow> 'a emu" where
  "eret x = (\<lambda>st. (Inr x, st))"

definition eerr :: "EmuError \<Rightarrow> 'a emu" where
  "eerr e = (\<lambda>st. (Inl e, st))"

definition ebind :: "'a emu \<Rightarrow> ('a \<Rightarrow> 'b emu) \<Rightarrow> 'b emu" where
  "ebind m f = (\<lambda>st. case m st of (Inl e, st') \<Rightarrow> (Inl e, st') | (Inr x, st') \<Rightarrow> f x st')"

section \<open>Memory\<close>

text \<open>The number of bytes of an access.\<close>

definition access_bytes :: "Bits \<Rightarrow> nat" where
  "access_bytes bits = max 1 (min 16 (bits div 8))"

definition u128_from_le_bytes :: "u8 list \<Rightarrow> u128" where
  "u128_from_le_bytes bs = foldr (\<lambda>b n. ucast b OR push_bit 8 n) bs 0"

definition to_le_bytes :: "u128 \<Rightarrow> u8 list" where
  "to_le_bytes v = map (\<lambda>i. ucast (drop_bit (8 * i) v)) [0..<16]"

text \<open>The loop over the bytes of a read; \<open>backed\<close> is what the image gave, once it was asked.\<close>

fun read_span_bytes :: "image option \<Rightarrow> (u64 \<rightharpoonup> u8) \<Rightarrow> u64 \<Rightarrow> Bits \<Rightarrow> nat \<Rightarrow> u8 list option \<Rightarrow> nat list \<Rightarrow> EmuError + u8 list" where
  "read_span_bytes backing written addr bits n backed [] = Inr []"
| "read_span_bytes backing written addr bits n backed (i # is') = (case written (addr + of_nat i) of
     Some b \<Rightarrow> (case read_span_bytes backing written addr bits n backed is' of Inl e \<Rightarrow> Inl e | Inr bs \<Rightarrow> Inr (b # bs))
   | None \<Rightarrow> (case (case backed of Some bs \<Rightarrow> Some bs | None \<Rightarrow> (case backing of None \<Rightarrow> None | Some src \<Rightarrow> src addr n)) of
       None \<Rightarrow> Inl (UnreadableMemory addr bits)
     | Some got \<Rightarrow> if i < length got
         then (case read_span_bytes backing written addr bits n (Some got) is' of Inl e \<Rightarrow> Inl e | Inr bs \<Rightarrow> Inr (got ! i # bs))
         else Inl (UnreadableMemory addr bits)))"

definition read_inner :: "image option \<Rightarrow> EmuMemory \<Rightarrow> u64 \<Rightarrow> Bits \<Rightarrow> EmuError + u128" where
  "read_inner backing mem addr bits = (let n = access_bytes bits in
     case read_span_bytes backing (mm_written mem) addr bits n None [0..<n] of
       Inl e \<Rightarrow> Inl e
     | Inr bs \<Rightarrow> Inr (u128_from_le_bytes bs))"

definition access_span :: "u64 \<Rightarrow> Bits \<Rightarrow> u64 set" where
  "access_span addr bits = (\<lambda>i. addr + of_nat i) ` {0..<access_bytes bits}"

definition mem_read :: "image option \<Rightarrow> EmuMemory \<Rightarrow> u64 \<Rightarrow> Bits \<Rightarrow> (EmuError + u128) \<times> EmuMemory" where
  "mem_read backing mem addr bits =
     (if bits > WORD_BITS then (Inl (WidthNotModelled bits), mem)
      else let mem' = mem\<lparr>mm_touched := mm_touched mem \<union> access_span addr bits\<rparr> in (read_inner backing mem' addr bits, mem'))"

definition mem_write :: "EmuMemory \<Rightarrow> u64 \<Rightarrow> u128 \<Rightarrow> Bits \<Rightarrow> EmuMemory" where
  "mem_write mem addr val bits = \<lparr>
     mm_written = fold (\<lambda>(i, b) w. w(addr + of_nat i \<mapsto> b)) (zip [0..<access_bytes bits] (to_le_bytes val)) (mm_written mem),
     mm_touched = mm_touched mem \<union> access_span addr bits\<rparr>"

section \<open>Values\<close>

definition extend_bits :: "u128 \<Rightarrow> Bits \<Rightarrow> bool \<Rightarrow> u128" where
  "extend_bits v bits sg = (if bits = 0 \<or> 128 \<le> bits then v
     else let masked = v AND (push_bit bits 1 - 1) in
       if sg \<and> drop_bit (bits - 1) masked AND 1 = 1 then masked OR NOT (push_bit bits 1 - 1) else masked)"

definition is_flags :: "string \<Rightarrow> bool" where
  "is_flags n = (base_name n = FLAGS_VAR)"

text \<open>\<open>rsplit_once('.')\<close>: the version is what follows the last dot.\<close>

definition is_entry_version :: "string \<Rightarrow> bool" where
  "is_entry_version n = (if CHR ''.'' \<in> set n then rev (takeWhile (\<lambda>c. c \<noteq> CHR ''.'') (rev n)) = ''0'' else True)"

definition scratch_value :: "string \<Rightarrow> u128" where
  "scratch_value n = (let h = foldl (\<lambda>h b. (h XOR of_char b) * 0x100000001b3) (0xcbf29ce484222325 :: u64) n in
     ucast (0xA5A5000000000000 OR (h AND 0x0000ffffffffffff)))"

definition sdivide :: "u64 \<Rightarrow> u64 \<Rightarrow> u64" where
  "sdivide a b = word_of_int (sint a sdiv sint b)"

definition smodulo :: "u64 \<Rightarrow> u64 \<Rightarrow> u64" where
  "smodulo a b = word_of_int (sint a smod sint b)"

definition binop :: "BinOp \<Rightarrow> u64 \<Rightarrow> u64 \<Rightarrow> u64 \<Rightarrow> EmuError + u64" where
  "binop bop a b va = (case bop of
     BinOp_Add \<Rightarrow> Inr (a + b)
   | BinOp_Sub \<Rightarrow> Inr (a - b)
   | BinOp_Mul \<Rightarrow> Inr (a * b)
   | BinOp_UDiv \<Rightarrow> if b = 0 then Inl (DivideByZero va) else Inr (a div b)
   | BinOp_SDiv \<Rightarrow> if b = 0 then Inl (DivideByZero va) else Inr (sdivide a b)
   | BinOp_UMod \<Rightarrow> if b = 0 then Inl (DivideByZero va) else Inr (a mod b)
   | BinOp_SMod \<Rightarrow> if b = 0 then Inl (DivideByZero va) else Inr (smodulo a b)
   | BinOp_And \<Rightarrow> Inr (a AND b)
   | BinOp_Or \<Rightarrow> Inr (a OR b)
   | BinOp_Xor \<Rightarrow> Inr (a XOR b)
   | BinOp_Eq \<Rightarrow> Inr (of_bool (a = b))
   | BinOp_Ne \<Rightarrow> Inr (of_bool (a \<noteq> b))
   | BinOp_Ult \<Rightarrow> Inr (of_bool (a < b))
   | BinOp_Ule \<Rightarrow> Inr (of_bool (a \<le> b))
   | BinOp_Ugt \<Rightarrow> Inr (of_bool (b < a))
   | BinOp_Uge \<Rightarrow> Inr (of_bool (b \<le> a))
   | BinOp_Slt \<Rightarrow> Inr (of_bool (sint a < sint b))
   | BinOp_Sle \<Rightarrow> Inr (of_bool (sint a \<le> sint b))
   | BinOp_Sgt \<Rightarrow> Inr (of_bool (sint b < sint a))
   | BinOp_Sge \<Rightarrow> Inr (of_bool (sint b \<le> sint a))
   | _ \<Rightarrow> Inr (case as_shift bop of None \<Rightarrow> 0 | Some s \<Rightarrow> ucast (Shift_apply s (ucast a) (ucast b) 64)))"

definition va_hex_digit :: "nat \<Rightarrow> char" where
  "va_hex_digit d = char_of (if d < 10 then 48 + d else 87 + d)"

text \<open>\<open>{:x}\<close> without leading zeros, one digit for zero.\<close>

definition va_hex :: "u64 \<Rightarrow> string" where
  "va_hex v = (let ds = map (\<lambda>i. unat (drop_bit (4 * i) v AND 15)) (rev [0..<16]);
     ds' = dropWhile (\<lambda>d. d = 0) ds in map va_hex_digit (if ds' = [] then [0] else ds'))"

fun describe_target :: "CallTarget \<Rightarrow> string" where
  "describe_target (Direct va) = ''0x'' @ va_hex va"
| "describe_target (Indirect e) = ''an indirect target''"
| "describe_target (Intrinsic n) = ''intrinsic `'' @ n @ ''`''"

section \<open>Expressions\<close>

definition set_var :: "string \<Rightarrow> u128 \<Rightarrow> unit emu" where
  "set_var n v = (\<lambda>st. (Inr (), st\<lparr>em_vars := (em_vars st)(n \<mapsto> v)\<rparr>))"

definition eval_var :: "EmuConfig \<Rightarrow> string \<Rightarrow> u128 emu" where
  "eval_var cfg n = (\<lambda>st. case em_vars st n of
     Some v \<Rightarrow> (Inr v, st)
   | None \<Rightarrow> if ec_entry_scratch cfg \<and> is_entry_version n
       then (Inr (scratch_value n), st\<lparr>em_vars := (em_vars st)(n \<mapsto> scratch_value n), em_invented := em_invented st @ [n]\<rparr>)
       else (Inl (UndefinedVar n), st))"

definition eval_load :: "EmuConfig \<Rightarrow> u64 \<Rightarrow> Bits \<Rightarrow> bool \<Rightarrow> u128 emu" where
  "eval_load cfg a bits sg = (\<lambda>st. case mem_read (ec_backing cfg) (em_mem st) a bits of
     (Inl e, mem) \<Rightarrow> (Inl e, st\<lparr>em_mem := mem\<rparr>)
   | (Inr raw, mem) \<Rightarrow> (Inr (extend_bits raw bits sg), st\<lparr>em_mem := mem\<rparr>))"

definition lift_emu :: "EmuError + 'a \<Rightarrow> 'a emu" where
  "lift_emu r = (\<lambda>st. (r, st))"

definition eval_unop :: "UnOp \<Rightarrow> u128 \<Rightarrow> u128" where
  "eval_unop u v = (case u of UnOp_Neg \<Rightarrow> - v | UnOp_Not \<Rightarrow> NOT v)"

definition is_bitwise :: "BinOp \<Rightarrow> bool" where
  "is_bitwise bop = (bop = BinOp_And \<or> bop = BinOp_Or \<or> bop = BinOp_Xor)"

definition eval_bitwise :: "BinOp \<Rightarrow> u128 \<Rightarrow> u128 \<Rightarrow> u128" where
  "eval_bitwise bop a b = (case bop of BinOp_And \<Rightarrow> a AND b | BinOp_Or \<Rightarrow> a OR b | _ \<Rightarrow> a XOR b)"

text \<open>Bitwise operations run at the full width, the others at 64 bits.\<close>

definition eval_binary :: "BinOp \<Rightarrow> u128 \<Rightarrow> u128 \<Rightarrow> u64 \<Rightarrow> EmuError + u128" where
  "eval_binary bop a b va = (if is_bitwise bop then Inr (eval_bitwise bop a b)
     else map_sum id ucast (binop bop (ucast a) (ucast b) va))"

definition eval_compare :: "CmpKind \<Rightarrow> u128 \<Rightarrow> u128 \<Rightarrow> u128" where
  "eval_compare kind a b = (if kind = CmpKind_Cmp \<or> kind = CmpKind_Result then of_bool (a \<noteq> b) else of_bool (a AND b \<noteq> 0))"

fun eval :: "EmuConfig \<Rightarrow> u64 \<Rightarrow> MicroExpr \<Rightarrow> u128 emu"
and eval_args :: "EmuConfig \<Rightarrow> u64 \<Rightarrow> MicroExpr list \<Rightarrow> u128 list emu" where
  "eval cfg va (ConstE val bits) = eret (extend_bits val bits False)"
| "eval cfg va (VarE n) = eval_var cfg n"
| "eval cfg va (LoadE addr bits sg) = ebind (eval cfg va addr) (\<lambda>a. eval_load cfg (ucast a) bits sg)"
| "eval cfg va (UnaryE u e) = ebind (eval cfg va e) (\<lambda>v. eret (eval_unop u v))"
| "eval cfg va (BinaryE bop l r) = ebind (eval cfg va l) (\<lambda>a. ebind (eval cfg va r) (\<lambda>b. lift_emu (eval_binary bop a b va)))"
| "eval cfg va (CastE sg bits e) = ebind (eval cfg va e) (\<lambda>v. eret (extend_bits v bits sg))"
| "eval cfg va (AddrOfE e) = eval cfg va e"
| "eval cfg va (CompareE kind l r) = ebind (eval cfg va l) (\<lambda>a. ebind (eval cfg va r) (\<lambda>b. eret (eval_compare kind a b)))"
| "eval cfg va (OpaqueFlagsE m) = eerr (EmuOpaqueFlags m)"
| "eval cfg va (CallE target args) = (case target of
     Intrinsic n \<Rightarrow> ebind (eval_args cfg va args) (\<lambda>vs. lift_emu (ec_intrinsic cfg n vs va (ec_fs_base cfg) (ec_gs_base cfg)))
   | _ \<Rightarrow> eerr (CallNotModelled (describe_target target)))"
| "eval cfg va (SelectE c a b) = ebind (eval cfg va c) (\<lambda>t. if t \<noteq> 0 then eval cfg va a else eval cfg va b)"
| "eval cfg va (UnknownE s) = eerr (UnknownExpr s)"
| "eval_args cfg va [] = eret []"
| "eval_args cfg va (a # as) = ebind (eval cfg va a) (\<lambda>v. ebind (eval_args cfg va as) (\<lambda>vs. eret (v # vs)))"

section \<open>Blocks\<close>

text \<open>Undefining a name.\<close>

definition unset_var :: "string \<Rightarrow> unit emu" where
  "unset_var n = (\<lambda>st. (Inr (), st\<lparr>em_vars := (em_vars st)(n := None)\<rparr>))"

text \<open>The phis of a block: every input is read before any destination is written.\<close>

definition phi_input :: "nat \<Rightarrow> Phi \<Rightarrow> PhiInput option" where
  "phi_input from_block phi = find (\<lambda>i. pi_from_block i = from_block) (ph_inputs phi)"

fun pending_phis :: "EmuConfig \<Rightarrow> nat \<Rightarrow> u64 \<Rightarrow> Phi list \<Rightarrow> (string \<times> u128 option) list emu" where
  "pending_phis cfg from_block va [] = eret []"
| "pending_phis cfg from_block va (phi # phis) = (case phi_input from_block phi of
     None \<Rightarrow> eerr (UndefinedVar (ph_dst phi))
   | Some input \<Rightarrow> (\<lambda>st. case eval cfg va (VarE (pi_value input)) st of
       (Inr v, st') \<Rightarrow> ebind (pending_phis cfg from_block va phis) (\<lambda>ps. eret ((ph_dst phi, Some v) # ps)) st'
     | (Inl (UndefinedVar _), st') \<Rightarrow> ebind (pending_phis cfg from_block va phis) (\<lambda>ps. eret ((ph_dst phi, None) # ps)) st'
     | (Inl e, st') \<Rightarrow> (Inl e, st')))"

fun write_phis :: "(string \<times> u128 option) list \<Rightarrow> unit emu" where
  "write_phis [] = eret ()"
| "write_phis ((dst, v) # ps) = ebind (case v of Some v \<Rightarrow> set_var dst v | None \<Rightarrow> unset_var dst) (\<lambda>_. write_phis ps)"

definition run_phis :: "EmuConfig \<Rightarrow> nat option \<Rightarrow> SsaBlock \<Rightarrow> unit emu" where
  "run_phis cfg prev block = (if sb_phis block = [] then eret ()
     else case prev of
       None \<Rightarrow> eerr NoEntry
     | Some from_block \<Rightarrow> ebind (pending_phis cfg from_block (sb_start block) (sb_phis block)) write_phis)"

text \<open>One statement: \<open>Some\<close> of a value when it returns.\<close>

definition exec_assign :: "EmuConfig \<Rightarrow> u64 \<Rightarrow> string \<Rightarrow> MicroExpr \<Rightarrow> unit emu" where
  "exec_assign cfg va dst val = (if val = UnknownE CALL_CLOBBER then unset_var dst
     else if is_flags dst then eret ()
     else (\<lambda>st. case eval cfg va val st of
         (Inr v, st') \<Rightarrow> set_var dst v st'
       | (Inl (EmuOpaqueFlags _), st') \<Rightarrow> (Inr (), st')
       | (Inl e, st') \<Rightarrow> (Inl e, st')))"

definition exec_store :: "EmuConfig \<Rightarrow> u64 \<Rightarrow> MicroExpr \<Rightarrow> MicroExpr \<Rightarrow> Bits \<Rightarrow> unit emu" where
  "exec_store cfg va addr val bits = (if bits > WORD_BITS then eerr (WidthNotModelled bits)
     else ebind (eval cfg va addr) (\<lambda>a. ebind (eval cfg va val) (\<lambda>v st.
       (Inr (), st\<lparr>em_mem := mem_write (em_mem st) (ucast a) v bits\<rparr>))))"

fun exec_stmt :: "EmuConfig \<Rightarrow> u64 \<Rightarrow> MicroStmt \<Rightarrow> u64 option option emu" where
  "exec_stmt cfg va (AssignS dst val) = ebind (exec_assign cfg va dst val) (\<lambda>_. eret None)"
| "exec_stmt cfg va (StoreS addr val bits) = ebind (exec_store cfg va addr val bits) (\<lambda>_. eret None)"
| "exec_stmt cfg va (CallS target args ret) = eerr (CallNotModelled (describe_target target))"
| "exec_stmt cfg va (ReturnS (Some e)) = ebind (eval cfg va e) (\<lambda>v. eret (Some (Some (ucast v))))"
| "exec_stmt cfg va (ReturnS None) = eret (Some None)"
| "exec_stmt cfg va NopS = eret None"
| "exec_stmt cfg va (UnliftedS at txt reads eff) = eerr (EmuUnlifted at txt)"

definition count_step :: "EmuConfig \<Rightarrow> unit emu" where
  "count_step cfg = (\<lambda>st. let st' = st\<lparr>em_steps := em_steps st + 1\<rparr> in
     (if em_steps st' > ec_max_steps cfg then Inl (StepLimit (ec_max_steps cfg)) else Inr (), st'))"

fun exec_stmts :: "EmuConfig \<Rightarrow> SsaStmt list \<Rightarrow> u64 option option emu" where
  "exec_stmts cfg [] = eret None"
| "exec_stmts cfg (s # ss) = ebind (count_step cfg) (\<lambda>_. ebind (exec_stmt cfg (ss_va s) (ss_stmt s)) (\<lambda>r. case r of
     Some v \<Rightarrow> eret (Some v)
   | None \<Rightarrow> exec_stmts cfg ss))"

text \<open>Which block runs next.\<close>

definition block_at :: "SsaBlock list \<Rightarrow> u64 \<Rightarrow> nat option" where
  "block_at blocks va = map_option sb_id (find (\<lambda>b. sb_start b = va) blocks)"

definition take_edge :: "SsaBlock list \<Rightarrow> SsaBlock \<Rightarrow> (Successor \<Rightarrow> bool) \<Rightarrow> nat emu" where
  "take_edge blocks block wanted = (let no_succ = NoSuccessor (sb_id block) (sb_terminator block) in
     case find wanted (sb_successors block) of
       None \<Rightarrow> eerr no_succ
     | Some edge \<Rightarrow> (case block_at blocks (sc_to edge) of None \<Rightarrow> eerr no_succ | Some i \<Rightarrow> eret i))"

definition jump_value :: "SsaStmt list \<Rightarrow> MicroExpr option" where
  "jump_value stmts = map_option (\<lambda>s. case ss_stmt s of AssignS dst val \<Rightarrow> val | _ \<Rightarrow> UnknownE [])
     (find (\<lambda>s. case ss_stmt s of AssignS dst val \<Rightarrow> base_name dst = JUMP_TARGET_VAR | _ \<Rightarrow> False) (rev stmts))"

definition successor :: "EmuConfig \<Rightarrow> SsaBlock list \<Rightarrow> SsaBlock \<Rightarrow> nat emu" where
  "successor cfg blocks block = (
     if sb_terminator block = ''cjmp'' then (case sb_condition block of
         None \<Rightarrow> eerr (NoCondition (sb_id block))
       | Some cond \<Rightarrow> ebind (eval cfg (sb_end block) cond) (\<lambda>c.
           take_edge blocks block (\<lambda>s. sc_kind s = (if c \<noteq> 0 then ''cjmp-true'' else ''cjmp-false''))))
     else if sb_terminator block = ''ijmp'' then (case jump_value (sb_stmts block) of
         None \<Rightarrow> eerr (NoSuccessor (sb_id block) (sb_terminator block))
       | Some target \<Rightarrow> ebind (eval cfg (sb_end block) target) (\<lambda>t. let addr = ucast t in
           if sb_successors block = [] then eerr (UnresolvedJump (sb_id block) addr)
           else if \<not> (\<exists>s \<in> set (sb_successors block). sc_to s = addr) then eerr (UnrecordedJump (sb_id block) addr)
           else (case block_at blocks addr of None \<Rightarrow> eerr (JumpToNonLeader (sb_id block) addr) | Some i \<Rightarrow> eret i)))
     else if sb_terminator block = ''fall'' \<or> sb_terminator block = ''jmp'' then
       take_edge blocks block (\<lambda>s. sc_kind s = ''fall'' \<or> sc_kind s = ''jmp'')
     else eerr (NoSuccessor (sb_id block) (sb_terminator block)))"

text \<open>Of two blocks with one id the map keeps the later.\<close>

definition by_id :: "SsaBlock list \<Rightarrow> nat \<rightharpoonup> nat" where
  "by_id blocks = map_of (rev (zip (map sb_id blocks) [0..<length blocks]))"

text \<open>One block: the value returned, or the index of the next block.\<close>

definition run_block :: "EmuConfig \<Rightarrow> SsaBlock list \<Rightarrow> nat option \<Rightarrow> nat \<Rightarrow> (u64 option + nat) emu" where
  "run_block cfg blocks prev i = (let block = blocks ! i in
     ebind (\<lambda>st. (Inr (), st\<lparr>em_blocks_entered := em_blocks_entered st + 1\<rparr>)) (\<lambda>_.
     ebind (run_phis cfg prev block) (\<lambda>_.
     ebind (exec_stmts cfg (sb_stmts block)) (\<lambda>r. case r of
       Some v \<Rightarrow> eret (Inl v)
     | None \<Rightarrow> ebind (successor cfg blocks block) (\<lambda>j. case by_id blocks j of
         None \<Rightarrow> eerr (NoSuccessor (sb_id block) (sb_terminator block))
       | Some k \<Rightarrow> eret (Inr k))))))"

partial_function (option) run_from :: "EmuConfig \<Rightarrow> SsaBlock list \<Rightarrow> nat option \<Rightarrow> nat \<Rightarrow> Emu \<Rightarrow> ((EmuError + u64 option) \<times> Emu) option" where
  "run_from cfg blocks prev i st = (case fst (run_block cfg blocks prev i st) of
     Inl e \<Rightarrow> Some (Inl e, snd (run_block cfg blocks prev i st))
   | Inr (Inl v) \<Rightarrow> Some (Inr v, snd (run_block cfg blocks prev i st))
   | Inr (Inr k) \<Rightarrow> run_from cfg blocks (Some (sb_id (blocks ! i))) k (snd (run_block cfg blocks prev i st)))"

definition run_body :: "EmuConfig \<Rightarrow> SsaBlock list \<Rightarrow> Emu \<Rightarrow> ((EmuError + u64 option) \<times> Emu) option" where
  "run_body cfg blocks st = (case by_id blocks 0 of
     None \<Rightarrow> Some (Inl NoEntry, st)
   | Some i \<Rightarrow> run_from cfg blocks None i st)"

section \<open>A run\<close>

definition seed :: "string \<Rightarrow> u128 \<Rightarrow> (string \<rightharpoonup> u128) \<Rightarrow> (string \<rightharpoonup> u128)" where
  "seed n v vars = (let vars' = (if vars n = None then vars(n \<mapsto> v) else vars) in
     if vars' (n @ ''.0'') = None then vars'(n @ ''.0'' \<mapsto> v) else vars')"

definition plant :: "string \<Rightarrow> u64 \<Rightarrow> (string \<rightharpoonup> u128) \<Rightarrow> (string \<rightharpoonup> u128)" where
  "plant n v vars = vars(n \<mapsto> ucast v, n @ ''.0'' \<mapsto> ucast v)"

text \<open>
  The start of a run on an emulator that has not failed before: a failed run of the code leaves the
  values it invented to the report of the next.
\<close>

definition entry_state :: "EmuConfig \<Rightarrow> (string \<rightharpoonup> u128) \<Rightarrow> EmuMemory \<Rightarrow> Emu" where
  "entry_state cfg vars mem = \<lparr>
     em_vars = fold (\<lambda>fp. seed fp (ucast CALLER_FRAME)) [''rbp'', ''ebp'', ''bp'']
       (fold (\<lambda>sp. seed sp (ucast (ec_stack_top cfg))) [''rsp'', ''esp'', ''sp''] vars),
     em_mem = mem_write mem (ec_stack_top cfg) (ucast RETURN_SENTINEL) (ec_word_bits cfg),
     em_invented = [], em_steps = 0, em_blocks_entered = 0\<rparr>"

record EmuResult =
  er_ret :: "u64 option"
  er_steps :: nat
  er_blocks_entered :: nat
  er_invented :: "string list"

definition emu_run :: "EmuConfig \<Rightarrow> SsaBlock list \<Rightarrow> (string \<rightharpoonup> u128) \<Rightarrow> EmuMemory \<Rightarrow> ((EmuError + EmuResult) \<times> Emu) option" where
  "emu_run cfg blocks vars mem = (case run_body cfg blocks (entry_state cfg vars mem) of
     None \<Rightarrow> None
   | Some (Inl e, st) \<Rightarrow> Some (Inl e, st)
   | Some (Inr v, st) \<Rightarrow> Some (Inr \<lparr>er_ret = v, er_steps = em_steps st, er_blocks_entered = em_blocks_entered st,
       er_invented = remdups_adj (sort (em_invented st))\<rparr>, st))"

end
