(* ===== verification/Emulate_Props.thy ===== *)
theory Emulate_Props
  imports Emulate
begin

text \<open>
  What the emulator keeps and promises: what an evaluation may change in the state (a locale over
  the relations between states it respects), that memory returns what was written, and that a run
  ends.
\<close>

section \<open>Effects\<close>

lemma ebind_eret [simp]: "ebind (eret x) f = f x"
  by (simp add: ebind_def eret_def)

lemma ebind_eerr [simp]: "ebind (eerr e) f = eerr e"
  by (simp add: ebind_def eerr_def)

lemma ebind_Inr: "ebind m f st = (Inr y, st'') \<longleftrightarrow> (\<exists>x st'. m st = (Inr x, st') \<and> f x st' = (Inr y, st''))"
  by (auto simp: ebind_def split: prod.splits sum.splits)

lemma eret_Inr: "eret x st = (Inr y, st') \<longleftrightarrow> y = x \<and> st' = st"
  by (auto simp: eret_def)

lemma eerr_Inr [simp]: "\<not> eerr e st = (Inr y, st')"
  by (simp add: eerr_def)

lemmas emu_simps = ebind_Inr eret_Inr

text \<open>Whatever its outcome, a computation keeps to a relation between the states before and after.\<close>

definition keeps :: "(Emu \<Rightarrow> Emu \<Rightarrow> bool) \<Rightarrow> 'a emu \<Rightarrow> bool" where
  "keeps R m \<longleftrightarrow> (\<forall>st. R st (snd (m st)))"

lemma keepsD: "keeps R m \<Longrightarrow> m st = (r, st') \<Longrightarrow> R st st'"
  unfolding keeps_def by (metis snd_conv)

text \<open>
  A relation an evaluation respects: it lets touched addresses be recorded and entry registers be
  invented.
\<close>

locale effect =
  fixes cfg :: EmuConfig
    and R :: "Emu \<Rightarrow> Emu \<Rightarrow> bool"
  assumes R_refl: "R st st"
    and R_trans: "R st st' \<Longrightarrow> R st' st'' \<Longrightarrow> R st st''"
    and R_touch: "R st (st\<lparr>em_mem := (em_mem st)\<lparr>mm_touched := T\<rparr>\<rparr>)"
    and R_invent: "ec_entry_scratch cfg \<Longrightarrow> em_vars st n = None \<Longrightarrow> is_entry_version n \<Longrightarrow>
      R st (st\<lparr>em_vars := (em_vars st)(n \<mapsto> scratch_value n), em_invented := em_invented st @ [n]\<rparr>)"
begin

lemma keeps_eret: "keeps R (eret x)"
  by (simp add: keeps_def eret_def R_refl)

lemma keeps_eerr: "keeps R (eerr e)"
  by (simp add: keeps_def eerr_def R_refl)

lemma keeps_lift: "keeps R (lift_emu r)"
  by (simp add: keeps_def lift_emu_def R_refl)

lemma keeps_ebind: "keeps R m \<Longrightarrow> (\<And>x. keeps R (f x)) \<Longrightarrow> keeps R (ebind m f)"
  unfolding keeps_def ebind_def by (auto split: prod.split sum.split) (metis R_trans snd_conv)+

lemma keeps_load: "keeps R (eval_load cfg a bits sg)"
proof -
  have "snd (eval_load cfg a bits sg st) = st\<lparr>em_mem := snd (mem_read (ec_backing cfg) (em_mem st) a bits)\<rparr>" for st
    by (simp add: eval_load_def split: prod.split sum.split)
  moreover have "snd (mem_read b mem a bits) = mem\<lparr>mm_touched := mm_touched (snd (mem_read b mem a bits))\<rparr>" for b mem
    by (simp add: mem_read_def Let_def)
  ultimately show ?thesis unfolding keeps_def by (metis R_touch)
qed

lemma keeps_var: "keeps R (eval_var cfg n)"
  unfolding keeps_def eval_var_def by (auto simp: R_refl R_invent split: option.split)

lemma keeps_eval_at:
  "c = cfg \<Longrightarrow> keeps R (eval c va e)" "c = cfg \<Longrightarrow> keeps R (eval_args c va es)"
  by (induction c va e and c va es rule: eval_eval_args.induct)
    (auto intro!: keeps_eret keeps_eerr keeps_lift keeps_ebind keeps_load keeps_var split: CallTarget.split)

lemmas keeps_eval = keeps_eval_at [OF refl]

end

text \<open>An evaluation keeps the counters, the bytes of memory, and what a read of a name would answer.\<close>

definition same_counts :: "Emu \<Rightarrow> Emu \<Rightarrow> bool" where
  "same_counts st st' \<longleftrightarrow> em_steps st' = em_steps st"

definition same_bytes :: "Emu \<Rightarrow> Emu \<Rightarrow> bool" where
  "same_bytes st st' \<longleftrightarrow> mm_written (em_mem st') = mm_written (em_mem st)"

definition same_entered :: "Emu \<Rightarrow> Emu \<Rightarrow> bool" where
  "same_entered st st' \<longleftrightarrow> em_blocks_entered st' = em_blocks_entered st"

definition view :: "EmuConfig \<Rightarrow> Emu \<Rightarrow> string \<Rightarrow> u128 option" where
  "view cfg st n = (case em_vars st n of
     Some v \<Rightarrow> Some v
   | None \<Rightarrow> if ec_entry_scratch cfg \<and> is_entry_version n then Some (scratch_value n) else None)"

definition same_view :: "EmuConfig \<Rightarrow> Emu \<Rightarrow> Emu \<Rightarrow> bool" where
  "same_view cfg st st' \<longleftrightarrow> view cfg st' = view cfg st"

interpretation counts: effect cfg same_counts for cfg
  by unfold_locales (auto simp: same_counts_def)

interpretation bytes: effect cfg same_bytes for cfg
  by unfold_locales (auto simp: same_bytes_def)

interpretation entered: effect cfg same_entered for cfg
  by unfold_locales (auto simp: same_entered_def)

interpretation views: effect cfg "same_view cfg" for cfg
  by unfold_locales (auto simp: same_view_def view_def fun_eq_iff)

section \<open>Memory\<close>

lemma access_bytes_bounds: "1 \<le> access_bytes bits" "access_bytes bits \<le> 16"
  by (simp_all add: access_bytes_def)

lemma to_le_bytes_nth: "i < 16 \<Longrightarrow> to_le_bytes v ! i = ucast (drop_bit (8 * i) v)" "length (to_le_bytes v) = 16"
  by (simp_all add: to_le_bytes_def)

lemma u128_from_le_bytes_drop:
  "k + n \<le> 16 \<Longrightarrow> u128_from_le_bytes (map (\<lambda>i. ucast (drop_bit (8 * i) v)) [k..<k + n]) = take_bit (8 * n) (drop_bit (8 * k) v)"
proof (induction n arbitrary: k)
  case 0
  then show ?case by (simp add: u128_from_le_bytes_def)
next
  case (Suc n)
  have "[k..<k + Suc n] = k # [Suc k..<Suc k + n]" by (simp add: upt_conv_Cons)
  then have "u128_from_le_bytes (map (\<lambda>i. ucast (drop_bit (8 * i) v)) [k..<k + Suc n]) =
      ucast (ucast (drop_bit (8 * k) v) :: u8) OR push_bit 8 (take_bit (8 * n) (drop_bit (8 * Suc k) v))"
    using Suc.IH [of "Suc k"] Suc.prems by (simp add: u128_from_le_bytes_def)
  also have "\<dots> = take_bit (8 * Suc n) (drop_bit (8 * k) v)"
    using Suc.prems by (intro bit_eqI) (auto simp: bit_or_iff bit_push_bit_iff bit_take_bit_iff bit_drop_bit_eq bit_ucast_iff)
  finally show ?case .
qed

lemma take_le_bytes: "n \<le> 16 \<Longrightarrow> u128_from_le_bytes (take n (to_le_bytes v)) = take_bit (8 * n) v"
  using u128_from_le_bytes_drop [of 0 n v] by (simp add: to_le_bytes_def take_map take_upt)

lemma offset_inject: "i < 16 \<Longrightarrow> j < 16 \<Longrightarrow> a + of_nat i = a + (of_nat j :: u64) \<longleftrightarrow> i = j"
proof -
  assume "i < 16" "j < 16"
  then have "(of_nat i :: u64) = of_nat j \<longleftrightarrow> i = j" by (simp add: word_unat_eq_iff unat_of_nat)
  then show ?thesis by simp
qed

lemma zip_upt_Suc: "n < length bs \<Longrightarrow> zip [0..<Suc n] bs = zip [0..<n] bs @ [(n, bs ! n)]"
  by (intro nth_equalityI) (auto simp: nth_append less_Suc_eq simp del: upt_Suc)

lemma write_bytes:
  fixes a :: u64
  assumes "n \<le> length bs" "n \<le> 16"
  shows "(\<forall>i < n. fold (\<lambda>(i, b) w. w(a + of_nat i \<mapsto> b)) (zip [0..<n] bs) w (a + of_nat i) = Some (bs ! i)) \<and>
    (\<forall>x. x \<notin> (\<lambda>i. a + of_nat i) ` {0..<n} \<longrightarrow> fold (\<lambda>(i, b) w. w(a + of_nat i \<mapsto> b)) (zip [0..<n] bs) w x = w x)"
  using assms
proof (induction n)
  case (Suc n)
  have z: "zip [0..<Suc n] bs = zip [0..<n] bs @ [(n, bs ! n)]" using Suc.prems by (intro zip_upt_Suc) simp
  have "a + of_nat i \<noteq> a + (of_nat n :: u64)" if "i < n" for i using offset_inject [of i n a] that Suc.prems by simp
  moreover have "(\<lambda>i. a + of_nat i) ` {0..<Suc n} = insert (a + (of_nat n :: u64)) ((\<lambda>i. a + of_nat i) ` {0..<n})"
    by (simp add: atLeast0_lessThan_Suc)
  ultimately show ?case using Suc unfolding z by (auto simp: less_Suc_eq)
qed simp

lemma mem_write_bytes:
  "i < access_bytes bits \<Longrightarrow> mm_written (mem_write mem a v bits) (a + of_nat i) = Some (to_le_bytes v ! i)"
  "x \<notin> access_span a bits \<Longrightarrow> mm_written (mem_write mem a v bits) x = mm_written mem x"
  using write_bytes [of "access_bytes bits" "to_le_bytes v" a "mm_written mem"] access_bytes_bounds [of bits]
  by (simp_all add: mem_write_def access_span_def to_le_bytes_nth(2))

text \<open>What a read depends on: the bytes of its span.\<close>

lemma read_span_bytes_cong:
  "(\<And>i. i \<in> set is' \<Longrightarrow> w' (a + of_nat i) = w (a + of_nat i)) \<Longrightarrow>
    read_span_bytes backing w' a bits n backed is' = read_span_bytes backing w a bits n backed is'"
proof (induction backing w a bits n backed is' rule: read_span_bytes.induct)
  case (2 backing w a bits n backed i is')
  then show ?case by (auto split: option.splits)
qed simp

lemma read_span_bytes_written:
  "(\<And>i. i \<in> set is' \<Longrightarrow> w (a + of_nat i) = Some (f i)) \<Longrightarrow> read_span_bytes backing w a bits n backed is' = Inr (map f is')"
  by (induction is') auto

lemma mem_read_apart:
  assumes "access_span a bits \<inter> access_span b bits' = {}"
  shows "fst (mem_read backing (mem_write mem a v bits) b bits') = fst (mem_read backing mem b bits')"
proof -
  have "mm_written (mem_write mem a v bits) (b + of_nat i) = mm_written mem (b + of_nat i)" if "i \<in> set [0..<access_bytes bits']" for i
  proof (rule mem_write_bytes(2))
    have "b + of_nat i \<in> access_span b bits'" using that by (simp add: access_span_def)
    then show "b + of_nat i \<notin> access_span a bits" using assms by blast
  qed
  then have "read_span_bytes backing (mm_written (mem_write mem a v bits)) b bits' n None [0..<access_bytes bits'] =
      read_span_bytes backing (mm_written mem) b bits' n None [0..<access_bytes bits']" for n by (rule read_span_bytes_cong)
  then show ?thesis by (simp add: mem_read_def read_inner_def Let_def)
qed

lemma mem_read_back:
  assumes "bits \<le> WORD_BITS"
  shows "fst (mem_read backing (mem_write mem a v bits) a bits) = Inr (take_bit (8 * access_bytes bits) v)"
proof -
  let ?n = "access_bytes bits"
  have n: "?n \<le> 16" by (rule access_bytes_bounds)
  have "read_span_bytes backing (mm_written (mem_write mem a v bits)) a bits ?n None [0..<?n] = Inr (map (\<lambda>i. to_le_bytes v ! i) [0..<?n])"
    using mem_write_bytes(1) by (intro read_span_bytes_written) simp
  also have "map (\<lambda>i. to_le_bytes v ! i) [0..<?n] = take ?n (to_le_bytes v)"
    using n by (intro nth_equalityI) (simp_all add: to_le_bytes_nth(2))
  finally show ?thesis using assms take_le_bytes [OF n, of v] by (simp add: mem_read_def read_inner_def Let_def)
qed

section \<open>A run ends\<close>

lemma counts_set: "keeps same_counts (set_var n v)" "keeps same_counts (unset_var n)"
  by (simp_all add: keeps_def set_var_def unset_var_def same_counts_def)

lemma keeps_handled:
  assumes "keeps R m" "\<And>st r st'. m st = (r, st') \<Longrightarrow> R st st' \<Longrightarrow> R st (snd (f r st'))"
  shows "keeps R (\<lambda>st. f (fst (m st)) (snd (m st)))"
  using assms unfolding keeps_def by (metis prod.collapse)

lemma counts_assign: "keeps same_counts (exec_assign cfg va dst val)"
proof -
  have "same_counts st (snd (exec_assign cfg va dst val st))" for st
    using counts.keeps_eval(1) [of cfg va val]
    by (auto simp: exec_assign_def keeps_def unset_var_def set_var_def eret_def same_counts_def split: prod.split sum.split EmuError.split)
      (metis snd_conv)+
  then show ?thesis by (simp add: keeps_def)
qed

lemma counts_store: "keeps same_counts (exec_store cfg va addr val bits)"
  unfolding exec_store_def
  by (auto intro!: counts.keeps_ebind counts.keeps_eval counts.keeps_eerr) (simp add: keeps_def same_counts_def)

lemma counts_stmt: "keeps same_counts (exec_stmt cfg va s)"
  by (cases "(cfg, va, s)" rule: exec_stmt.cases)
    (auto intro!: counts.keeps_ebind counts.keeps_eval counts.keeps_eerr counts.keeps_eret counts_assign counts_store)

lemma counts_pending: "keeps same_counts (pending_phis cfg from_block va phis)"
proof (induction phis)
  case (Cons phi phis)
  show ?case
  proof (cases "phi_input from_block phi")
    case (Some input)
    have rest: "keeps same_counts (ebind (pending_phis cfg from_block va phis) (\<lambda>ps. eret (x # ps)))" for x
      by (intro counts.keeps_ebind Cons.IH counts.keeps_eret)
    have "same_counts st (snd (pending_phis cfg from_block va (phi # phis) st))" for st
    proof -
      obtain r st' where e: "eval cfg va (VarE (pi_value input)) st = (r, st')" by (cases "eval cfg va (VarE (pi_value input)) st")
      have st': "same_counts st st'" by (rule keepsD [OF counts.keeps_eval(1) e])
      have "same_counts st (snd (ebind (pending_phis cfg from_block va phis) (\<lambda>ps. eret (x # ps)) st'))" for x
        using counts.R_trans [OF st'] rest [of x] by (simp add: keeps_def)
      then show ?thesis using st' Some e by (auto split: sum.split EmuError.split)
    qed
    then show ?thesis by (simp add: keeps_def)
  qed (simp add: counts.keeps_eerr)
qed (simp add: counts.keeps_eret)

lemma counts_write_phis: "keeps same_counts (write_phis ps)"
  by (induction ps rule: write_phis.induct) (auto intro!: counts.keeps_ebind counts.keeps_eret counts_set split: option.split)

lemma counts_phis: "keeps same_counts (run_phis cfg prev block)"
  unfolding run_phis_def by (auto intro!: counts.keeps_ebind counts.keeps_eret counts.keeps_eerr counts_pending counts_write_phis split: option.split)

lemma counts_successor: "keeps same_counts (successor cfg blocks block)"
  unfolding successor_def take_edge_def Let_def
  by (auto intro!: counts.keeps_ebind counts.keeps_eret counts.keeps_eerr counts.keeps_eval split: option.split)

lemma exec_stmts_steps:
  "exec_stmts cfg ss st = (Inr None, st') \<Longrightarrow> em_steps st' = em_steps st + length ss \<and> (ss \<noteq> [] \<longrightarrow> em_steps st' \<le> ec_max_steps cfg)"
proof (induction ss arbitrary: st)
  case (Cons s ss)
  then obtain st1 st2 where c: "count_step cfg st = (Inr (), st1)" and s: "exec_stmt cfg (ss_va s) (ss_stmt s) st1 = (Inr None, st2)"
    and r: "exec_stmts cfg ss st2 = (Inr None, st')" by (auto simp: emu_simps split: option.splits)
  have "em_steps st1 = em_steps st + 1" "em_steps st1 \<le> ec_max_steps cfg" using c by (auto simp: count_step_def Let_def split: if_splits)
  moreover have "em_steps st2 = em_steps st1" using keepsD [OF counts_stmt s] by (simp add: same_counts_def)
  ultimately show ?case using Cons.IH [OF r] by (cases ss) auto
qed (simp add: eret_def)

lemma by_id_bound: "by_id blocks j = Some k \<Longrightarrow> k < length blocks"
  by (auto simp: by_id_def in_set_zip dest!: map_of_SomeD)

lemma run_block_next:
  assumes "run_block cfg blocks prev i st = (Inr (Inr k), st')" "sb_stmts (blocks ! i) \<noteq> []"
  shows "em_steps st < em_steps st'" "em_steps st' \<le> ec_max_steps cfg" "k < length blocks"
proof -
  let ?block = "blocks ! i"
  obtain st1 st2 j where s: "run_phis cfg prev ?block (st\<lparr>em_blocks_entered := em_blocks_entered st + 1\<rparr>) = (Inr (), st1)"
    "exec_stmts cfg (sb_stmts ?block) st1 = (Inr None, st2)" "successor cfg blocks ?block st2 = (Inr j, st')" and k: "by_id blocks j = Some k"
    using assms(1) by (auto simp: run_block_def Let_def emu_simps split: option.splits)
  have "em_steps st1 = em_steps st" using keepsD [OF counts_phis s(1)] by (simp add: same_counts_def)
  moreover have "em_steps st' = em_steps st2" using keepsD [OF counts_successor s(3)] by (simp add: same_counts_def)
  ultimately show "em_steps st < em_steps st'" "em_steps st' \<le> ec_max_steps cfg"
    using exec_stmts_steps [OF s(2)] assms(2) by (cases "sb_stmts ?block"; simp)+
  show "k < length blocks" by (rule by_id_bound [OF k])
qed

lemma run_from_returns:
  assumes "\<forall>b \<in> set blocks. sb_stmts b \<noteq> []"
  shows "i < length blocks \<Longrightarrow> \<exists>r. run_from cfg blocks prev i st = Some r"
proof (induction "ec_max_steps cfg + 1 - em_steps st" arbitrary: prev i st rule: less_induct)
  case less
  obtain r st' where b: "run_block cfg blocks prev i st = (r, st')" by (cases "run_block cfg blocks prev i st")
  show ?case
  proof (cases r)
    case (Inl e)
    then show ?thesis using b by (simp add: run_from.simps)
  next
    case (Inr x)
    show ?thesis
    proof (cases x)
      case (Inl v)
      then show ?thesis using b Inr by (simp add: run_from.simps)
    next
      case k: (Inr k)
      have "sb_stmts (blocks ! i) \<noteq> []" using assms less.prems by simp
      note next_block = run_block_next [OF b [unfolded Inr k] this]
      then have "\<exists>r. run_from cfg blocks (Some (sb_id (blocks ! i))) k st' = Some r" by (intro less.hyps) auto
      then show ?thesis using b Inr k by (subst run_from.simps) simp
    qed
  qed
qed

section \<open>A run that does not end\<close>

text \<open>A block of no statements that jumps to itself never counts a step, so no limit ends it.\<close>

definition spin_block :: SsaBlock where
  "spin_block = \<lparr>sb_id = 0, sb_start = 0x1000, sb_end = 0x1002, sb_terminator = ''jmp'',
     sb_successors = [\<lparr>sc_to = 0x1000, sc_kind = ''jmp'', sc_confidence = 100\<rparr>], sb_phis = [], sb_stmts = [], sb_condition = None\<rparr>"

lemma spin_block_turns: "\<exists>st'. run_block cfg [spin_block] prev 0 st = (Inr (Inr 0), st')"
  by (simp add: run_block_def spin_block_def run_phis_def successor_def take_edge_def block_at_def by_id_def ebind_def eret_def Let_def)

lemma spin_never_returns: "run_from cfg [spin_block] prev 0 st = None"
proof -
  have "blocks = [spin_block] \<longrightarrow> i = 0 \<longrightarrow> False" if "run_from cfg blocks prev i st = Some r" for cfg blocks prev i st r
    using that
  proof (induction rule: run_from.raw_induct [rotated, consumes 1, case_names step])
    case (step f cfg blocks prev i st r)
    show ?case
    proof (intro impI)
      assume b: "blocks = [spin_block]" "i = 0"
      obtain st' where "run_block cfg [spin_block] prev 0 st = (Inr (Inr 0), st')" using spin_block_turns by blast
      then have "f cfg blocks (Some (sb_id (blocks ! i))) 0 st' = Some r" using step(2) b by simp
      from step(1) [OF this] b show False by simp
    qed
  qed
  then show ?thesis by (cases "run_from cfg [spin_block] prev 0 st") blast+
qed

end
