(* ===== verification/Optimize_Sim.thy ===== *)
theory Optimize_Sim
  imports Optimize Emulate_Props
begin

text \<open>
  Removing dead definitions keeps what a function computes: a run of the blocks that returns is
  matched by a run of the blocks without the definitions that nothing reads, with the same answer
  and the same memory. The step from blocks to runs is a locale, the interface between one
  optimization and the emulator.
\<close>

section \<open>States that answer alike\<close>

definition alike :: "EmuConfig \<Rightarrow> string set \<Rightarrow> Emu \<Rightarrow> Emu \<Rightarrow> bool" where
  "alike cfg L st st2 \<longleftrightarrow> (\<forall>n \<in> L. view cfg st2 n = view cfg st n) \<and> same_bytes st st2 \<and>
     em_steps st2 \<le> em_steps st \<and> em_blocks_entered st2 = em_blocks_entered st"

definition sim :: "EmuConfig \<Rightarrow> string set \<Rightarrow> 'a emu \<Rightarrow> 'a emu \<Rightarrow> bool" where
  "sim cfg L m m2 \<longleftrightarrow> (\<forall>st st2. alike cfg L st st2 \<longrightarrow> fst (m2 st2) = fst (m st) \<and> alike cfg L (snd (m st)) (snd (m2 st2)))"

lemma simI: "(\<And>st st2. alike cfg L st st2 \<Longrightarrow> fst (m2 st2) = fst (m st) \<and> alike cfg L (snd (m st)) (snd (m2 st2))) \<Longrightarrow> sim cfg L m m2"
  by (simp add: sim_def)

lemma simD:
  assumes "sim cfg L m m2" "alike cfg L st st2" "m st = (r, st')"
  obtains st2' where "m2 st2 = (r, st2')" "alike cfg L st' st2'"
  using assms by (cases "m2 st2") (fastforce simp: sim_def)

lemma alike_refl [simp]: "alike cfg L st st"
  by (simp add: alike_def same_bytes_def)

lemma sim_eret: "sim cfg L (eret x) (eret x)"
  by (simp add: sim_def eret_def)

lemma sim_eerr: "sim cfg L (eerr e) (eerr e)"
  by (simp add: sim_def eerr_def)

lemma sim_lift: "sim cfg L (lift_emu r) (lift_emu r)"
  by (simp add: sim_def lift_emu_def)

lemma sim_ebind:
  assumes "sim cfg L m m2" "\<And>x. sim cfg L (f x) (f2 x)"
  shows "sim cfg L (ebind m f) (ebind m2 f2)"
proof (rule simI)
  fix st st2 assume a: "alike cfg L st st2"
  obtain r st' where m: "m st = (r, st')" by (cases "m st")
  obtain st2' where m2: "m2 st2 = (r, st2')" and a': "alike cfg L st' st2'" by (rule simD [OF assms(1) a m])
  show "fst (ebind m2 f2 st2) = fst (ebind m f st) \<and> alike cfg L (snd (ebind m f st)) (snd (ebind m2 f2 st2))"
    using m m2 a' assms(2) by (cases r) (auto simp: ebind_def sim_def)
qed

lemma alike_set: "alike cfg L st st2 \<Longrightarrow> alike cfg L (st\<lparr>em_vars := (em_vars st)(n \<mapsto> v)\<rparr>) (st2\<lparr>em_vars := (em_vars st2)(n \<mapsto> v)\<rparr>)"
  by (auto simp: alike_def view_def same_bytes_def)

lemma sim_set: "sim cfg L (set_var n v) (set_var n v)"
  by (rule simI) (simp add: set_var_def alike_set)

lemma sim_unset: "sim cfg L (unset_var n) (unset_var n)"
  by (rule simI) (auto simp: unset_var_def alike_def view_def same_bytes_def)

lemma sim_var: "n \<in> L \<Longrightarrow> sim cfg L (eval_var cfg n) (eval_var cfg n)"
proof (rule simI)
  fix st st2 assume n: "n \<in> L" and a: "alike cfg L st st2"
  then have "view cfg st2 n = view cfg st n" by (simp add: alike_def)
  then have "fst (eval_var cfg n st2) = fst (eval_var cfg n st)"
    by (simp add: eval_var_def view_def split: option.splits if_splits)
  moreover have "same_view cfg st (snd (eval_var cfg n st))" "same_view cfg st2 (snd (eval_var cfg n st2))"
    using views.keeps_var [of cfg n] by (simp_all add: keeps_def)
  moreover have "em_mem (snd (eval_var cfg n s)) = em_mem s \<and> em_steps (snd (eval_var cfg n s)) = em_steps s \<and>
      em_blocks_entered (snd (eval_var cfg n s)) = em_blocks_entered s" for s
    by (simp add: eval_var_def split: option.split)
  ultimately show "fst (eval_var cfg n st2) = fst (eval_var cfg n st) \<and> alike cfg L (snd (eval_var cfg n st)) (snd (eval_var cfg n st2))"
    using a by (simp add: alike_def same_view_def same_bytes_def)
qed

lemma mem_read_written: "mm_written m2 = mm_written m \<Longrightarrow> fst (mem_read b m2 a bits) = fst (mem_read b m a bits)"
  by (simp add: mem_read_def read_inner_def Let_def)

lemma mem_read_keeps: "mm_written (snd (mem_read b m a bits)) = mm_written m"
  by (simp add: mem_read_def Let_def)

lemma sim_load: "sim cfg L (eval_load cfg a bits sg) (eval_load cfg a bits sg)"
proof (rule simI)
  fix st st2 assume s: "alike cfg L st st2"
  then have w: "mm_written (em_mem st2) = mm_written (em_mem st)" by (simp add: alike_def same_bytes_def)
  have e: "eval_load cfg a bits sg st = (map_sum id (\<lambda>raw. extend_bits raw bits sg) (fst (mem_read (ec_backing cfg) (em_mem st) a bits)),
      st\<lparr>em_mem := snd (mem_read (ec_backing cfg) (em_mem st) a bits)\<rparr>)" for st
    by (simp add: eval_load_def split: prod.split sum.split)
  show "fst (eval_load cfg a bits sg st2) = fst (eval_load cfg a bits sg st) \<and>
      alike cfg L (snd (eval_load cfg a bits sg st)) (snd (eval_load cfg a bits sg st2))"
    using s mem_read_written [OF w] w unfolding e by (simp add: alike_def view_def same_bytes_def mem_read_keeps)
qed

lemma sim_eval:
  "set (walk_expr_vars e) \<subseteq> L \<Longrightarrow> sim cfg L (eval cfg va e) (eval cfg va e)"
  "set (walk_exprs_vars es) \<subseteq> L \<Longrightarrow> sim cfg L (eval_args cfg va es) (eval_args cfg va es)"
  by (induction cfg va e and cfg va es rule: eval_eval_args.induct)
    (auto intro!: sim_eret sim_eerr sim_lift sim_ebind sim_load sim_var split: CallTarget.split)

text \<open>What an evaluation does beside its answer is not seen.\<close>

lemma alike_left:
  assumes "alike cfg L st st2" "same_view cfg st st'" "same_bytes st st'" "em_steps st \<le> em_steps st'" "em_blocks_entered st' = em_blocks_entered st"
  shows "alike cfg L st' st2"
  using assms by (auto simp: alike_def same_view_def same_bytes_def)

section \<open>Statements that stay and statements that go\<close>

lemma sim_assign:
  assumes "set (walk_expr_vars val) \<subseteq> L"
  shows "sim cfg L (exec_assign cfg va dst val) (exec_assign cfg va dst val)"
proof (rule simI)
  fix st st2 assume a: "alike cfg L st st2"
  obtain r st' where e: "eval cfg va val st = (r, st')" by (cases "eval cfg va val st")
  obtain st2' where e2: "eval cfg va val st2 = (r, st2')" and a': "alike cfg L st' st2'"
    by (rule simD [OF sim_eval(1) [OF assms] a e])
  show "fst (exec_assign cfg va dst val st2) = fst (exec_assign cfg va dst val st) \<and>
      alike cfg L (snd (exec_assign cfg va dst val st)) (snd (exec_assign cfg va dst val st2))"
    using a a' e e2 sim_unset [of cfg L dst] sim_set [of cfg L dst]
    by (auto simp: exec_assign_def sim_def eret_def split: sum.split EmuError.split)
qed

lemma sim_store:
  assumes "set (walk_expr_vars addr) \<union> set (walk_expr_vars val) \<subseteq> L"
  shows "sim cfg L (exec_store cfg va addr val bits) (exec_store cfg va addr val bits)"
proof -
  have "sim cfg L (\<lambda>st. (Inr (), st\<lparr>em_mem := mem_write (em_mem st) a v bits\<rparr>)) (\<lambda>st. (Inr (), st\<lparr>em_mem := mem_write (em_mem st) a v bits\<rparr>))" for a v
    by (rule simI) (auto simp: alike_def view_def same_bytes_def mem_write_def)
  with assms show ?thesis unfolding exec_store_def by (auto intro!: sim_ebind sim_eval sim_eerr)
qed

lemma walk_exprs: "walk_exprs_vars es = concat (map walk_expr_vars es)"
  by (induction es) auto

lemma sim_stmt: "set (concat (map walk_expr_vars (stmt_read_exprs t))) \<subseteq> L \<Longrightarrow> sim cfg L (exec_stmt cfg va t) (exec_stmt cfg va t)"
  by (cases "(cfg, va, t)" rule: exec_stmt.cases) (auto intro!: sim_ebind sim_assign sim_store sim_eerr sim_eret sim_eval)

lemma sim_count_step:
  assumes "alike cfg L st st2" "count_step cfg st = (Inr (), st')"
  shows "\<exists>st2'. count_step cfg st2 = (Inr (), st2') \<and> alike cfg L st' st2'"
  using assms by (auto simp: count_step_def Let_def alike_def view_def same_bytes_def split: if_splits)

text \<open>A definition that nothing reads leaves no trace.\<close>

lemma dead_assign:
  assumes a: "alike cfg L st st2" and dst: "dst \<notin> L" and x: "exec_assign cfg va dst val st = (Inr (), st')"
  shows "alike cfg L st' st2"
proof -
  obtain r st1 where e: "eval cfg va val st = (r, st1)" by (cases "eval cfg va val st")
  have k: "same_view cfg st st1" "same_bytes st st1" "same_counts st st1"
    using keepsD [OF views.keeps_eval(1) e] keepsD [OF bytes.keeps_eval(1) e] keepsD [OF counts.keeps_eval(1) e] by auto
  have b: "em_blocks_entered st1 = em_blocks_entered st" using keepsD [OF entered.keeps_eval(1) e] by (simp add: same_entered_def)
  have a1: "alike cfg L st1 st2" using alike_left [OF a k(1,2)] k(3) b by (simp add: same_counts_def)
  have off: "view cfg (s\<lparr>em_vars := (em_vars s)(dst := v)\<rparr>) n = view cfg s n" if "n \<in> L" for s n v
    using that dst by (auto simp: view_def)
  show ?thesis using a a1 x e off dst
    by (auto simp: exec_assign_def set_var_def unset_var_def eret_def alike_def same_bytes_def split: sum.splits EmuError.splits if_splits)
qed

lemma sim_stmts:
  assumes "\<And>s. s \<in> set ss \<Longrightarrow> set (stmt_uses s) \<subseteq> L"
    and "\<And>s. s \<in> set ss \<Longrightarrow> \<not> keep s \<Longrightarrow> \<exists>dst val. ss_stmt s = AssignS dst val \<and> dst \<notin> L"
  shows "alike cfg L st st2 \<Longrightarrow> exec_stmts cfg ss st = (Inr r, st') \<Longrightarrow>
    \<exists>st2'. exec_stmts cfg (filter keep ss) st2 = (Inr r, st2') \<and> alike cfg L st' st2'"
  using assms
proof (induction ss arbitrary: st st2)
  case Nil
  then show ?case by (auto simp: eret_def)
next
  case (Cons s ss)
  obtain st1 r1 st'' where c: "count_step cfg st = (Inr (), st1)" and x: "exec_stmt cfg (ss_va s) (ss_stmt s) st1 = (Inr r1, st'')"
    and rest: "case r1 of Some v \<Rightarrow> r = Some v \<and> st' = st'' | None \<Rightarrow> exec_stmts cfg ss st'' = (Inr r, st')"
    using Cons.prems(2) by (auto simp: emu_simps split: option.splits)
  have IH: "\<exists>st2'. exec_stmts cfg (filter keep ss) s2 = (Inr r, st2') \<and> alike cfg L st' st2'"
    if "alike cfg L st'' s2" "r1 = None" for s2 using Cons.IH [OF that(1)] rest that(2) Cons.prems(3,4) by simp
  show ?case
  proof (cases "keep s")
    case True
    obtain s2 where c2: "count_step cfg st2 = (Inr (), s2)" and a1: "alike cfg L st1 s2"
      using sim_count_step [OF Cons.prems(1) c] by blast
    have "set (concat (map walk_expr_vars (stmt_read_exprs (ss_stmt s)))) \<subseteq> L"
      using Cons.prems(3) [of s] by (simp add: stmt_uses_def)
    from simD [OF sim_stmt [OF this] a1 x] obtain s2' where x2: "exec_stmt cfg (ss_va s) (ss_stmt s) s2 = (Inr r1, s2')" and a2: "alike cfg L st'' s2'" .
    show ?thesis using True c2 x2 a2 rest IH [OF a2] by (cases r1) (auto simp: ebind_def eret_def)
  next
    case False
    then obtain dst val where s: "ss_stmt s = AssignS dst val" "dst \<notin> L" using Cons.prems(4) [of s] by auto
    have st1: "st1 = st\<lparr>em_steps := em_steps st + 1\<rparr>" using c by (simp add: count_step_def Let_def split: if_splits)
    have a1: "alike cfg L st1 st2" using Cons.prems(1) by (auto simp: st1 alike_def view_def same_bytes_def)
    have "exec_assign cfg (ss_va s) dst val st1 = (Inr (), st'')" "r1 = None" using x by (auto simp: s emu_simps)
    with IH [OF dead_assign [OF a1 s(2) this(1)]] False show ?thesis by simp
  qed
qed

section \<open>Phis and successors\<close>

lemma pending_phis_filter:
  assumes "(\<Union>p \<in> set phis. pi_value ` set (ph_inputs p)) \<subseteq> L"
  shows "alike cfg L st st2 \<Longrightarrow> pending_phis cfg from_block va phis st = (Inr ps, st') \<Longrightarrow>
    \<exists>st2'. pending_phis cfg from_block va (filter (\<lambda>p. keep (ph_dst p)) phis) st2 = (Inr (filter (\<lambda>(d, v). keep d) ps), st2') \<and> alike cfg L st' st2'"
  using assms
proof (induction phis arbitrary: st st2 ps)
  case (Cons p phis)
  obtain i where i: "phi_input from_block p = Some i" using Cons.prems(2) by (cases "phi_input from_block p") auto
  then have "i \<in> set (ph_inputs p)" by (auto simp: phi_input_def find_Some_iff)
  then have l: "pi_value i \<in> L" using Cons.prems(3) by auto
  obtain r st1 where e: "eval cfg va (VarE (pi_value i)) st = (r, st1)" by (cases "eval cfg va (VarE (pi_value i)) st")
  have "sim cfg L (eval cfg va (VarE (pi_value i))) (eval cfg va (VarE (pi_value i)))" using l by (intro sim_eval) simp
  from simD [OF this Cons.prems(1) e] obtain s2 where e2: "eval cfg va (VarE (pi_value i)) st2 = (r, s2)" and a1: "alike cfg L st1 s2" .
  have "same_view cfg st st1" "same_bytes st st1" "em_steps st1 = em_steps st" "em_blocks_entered st1 = em_blocks_entered st"
    using keepsD [OF views.keeps_eval(1) e] keepsD [OF bytes.keeps_eval(1) e] keepsD [OF counts.keeps_eval(1) e] keepsD [OF entered.keeps_eval(1) e]
    by (simp_all add: same_counts_def same_entered_def)
  then have a0: "alike cfg L st1 st2" using alike_left [OF Cons.prems(1)] by simp
  obtain w ps' where w: "(\<exists>v. r = Inr v \<and> w = Some v) \<or> (\<exists>n. r = Inl (UndefinedVar n) \<and> w = None)"
    and rest: "pending_phis cfg from_block va phis st1 = (Inr ps', st')" and ps: "ps = (ph_dst p, w) # ps'"
    using Cons.prems(2) i e by (auto simp: emu_simps split: sum.splits EmuError.splits)
  have prems: "(\<Union>p \<in> set phis. pi_value ` set (ph_inputs p)) \<subseteq> L" using Cons.prems(3) by simp
  show ?case
  proof (cases "keep (ph_dst p)")
    case True
    from Cons.IH [OF a1 rest prems] obtain s3 where
      "pending_phis cfg from_block va (filter (\<lambda>p. keep (ph_dst p)) phis) s2 = (Inr (filter (\<lambda>(d, v). keep d) ps'), s3)" "alike cfg L st' s3" by blast
    then show ?thesis using True i e2 w ps by (auto simp: ebind_def eret_def)
  next
    case False
    then show ?thesis using Cons.IH [OF a0 rest prems] ps by auto
  qed
qed (simp add: eret_def)

lemma write_phis_filter:
  assumes "\<forall>d \<in> fst ` set ps. \<not> keep d \<longrightarrow> d \<notin> L"
  shows "alike cfg L st st2 \<Longrightarrow> write_phis ps st = (Inr (), st') \<Longrightarrow>
    \<exists>st2'. write_phis (filter (\<lambda>(d, v). keep d) ps) st2 = (Inr (), st2') \<and> alike cfg L st' st2'"
  using assms
proof (induction ps arbitrary: st st2)
  case (Cons x ps)
  obtain d v where x: "x = (d, v)" by (cases x)
  let ?m = "case v of Some v \<Rightarrow> set_var d v | None \<Rightarrow> unset_var d"
  obtain st1 where m: "?m st = (Inr (), st1)" and rest: "write_phis ps st1 = (Inr (), st')" using Cons.prems(2) x by (auto simp: emu_simps)
  have st1: "st1 = st\<lparr>em_vars := (em_vars st)(d := v)\<rparr>" using m by (auto simp: set_var_def unset_var_def split: option.splits)
  have prems: "\<forall>d \<in> fst ` set ps. \<not> keep d \<longrightarrow> d \<notin> L" using Cons.prems(3) by simp
  show ?case
  proof (cases "keep d")
    case True
    have s: "sim cfg L ?m ?m" by (cases v) (simp_all add: sim_set sim_unset)
    from simD [OF s Cons.prems(1) m] obtain s2 where m2: "?m st2 = (Inr (), s2)" and a1: "alike cfg L st1 s2" .
    from Cons.IH [OF a1 rest prems] show ?thesis using True m2 by (auto simp: x ebind_def)
  next
    case False
    then have "d \<notin> L" using Cons.prems(3) x by simp
    then have a1: "alike cfg L st1 st2" using Cons.prems(1) by (auto simp: st1 alike_def view_def same_bytes_def)
    from Cons.IH [OF a1 rest prems] show ?thesis using False by (simp add: x)
  qed
qed (simp add: eret_def)

lemma pending_dsts: "pending_phis cfg from_block va phis st = (Inr ps, st') \<Longrightarrow> map fst ps = map ph_dst phis"
proof (induction phis arbitrary: st ps)
  case (Cons p phis)
  then show ?case by (auto simp: emu_simps split: option.splits sum.splits EmuError.splits prod.splits)
qed (simp add: eret_def)

lemma run_phis_filter:
  assumes "(\<Union>p \<in> set (sb_phis b). pi_value ` set (ph_inputs p)) \<subseteq> L"
    and "\<forall>p \<in> set (sb_phis b). \<not> keep (ph_dst p) \<longrightarrow> ph_dst p \<notin> L"
    and a: "alike cfg L st st2" and r: "run_phis cfg prev b st = (Inr (), st')"
    and b2: "sb_phis b2 = filter (\<lambda>p. keep (ph_dst p)) (sb_phis b)" "sb_start b2 = sb_start b"
  shows "\<exists>st2'. run_phis cfg prev b2 st2 = (Inr (), st2') \<and> alike cfg L st' st2'"
proof (cases "sb_phis b = []")
  case True
  then show ?thesis using a r b2 by (simp add: run_phis_def eret_def)
next
  case False
  then obtain f ps st1 where f: "prev = Some f" and p: "pending_phis cfg f (sb_start b) (sb_phis b) st = (Inr ps, st1)"
    and w: "write_phis ps st1 = (Inr (), st')" using r by (auto simp: run_phis_def emu_simps split: option.splits)
  obtain s2 where p2: "pending_phis cfg f (sb_start b) (filter (\<lambda>p. keep (ph_dst p)) (sb_phis b)) st2 = (Inr (filter (\<lambda>(d, v). keep d) ps), s2)"
    and a1: "alike cfg L st1 s2" using pending_phis_filter [OF assms(1) a p] by blast
  have "fst ` set ps = ph_dst ` set (sb_phis b)" using pending_dsts [OF p] by (metis list.set_map)
  then have "\<forall>d \<in> fst ` set ps. \<not> keep d \<longrightarrow> d \<notin> L" using assms(2) by auto
  from write_phis_filter [OF this a1 w] obtain s3 where w2: "write_phis (filter (\<lambda>(d, v). keep d) ps) s2 = (Inr (), s3)" and a2: "alike cfg L st' s3" by blast
  show ?thesis
  proof (cases "filter (\<lambda>p. keep (ph_dst p)) (sb_phis b) = []")
    case True
    then have "filter (\<lambda>(d, v). keep d) ps = []" "s2 = st2" using p2 by (auto simp: eret_def)
    then show ?thesis using True w2 a2 b2 by (simp add: run_phis_def eret_def)
  next
    case False
    then have "sb_phis b2 \<noteq> []" using b2 by simp
    moreover have "ebind (pending_phis cfg f (sb_start b2) (sb_phis b2)) write_phis st2 = (Inr (), s3)"
      using p2 w2 unfolding b2 by (simp only: ebind_Inr) blast
    ultimately have "run_phis cfg prev b2 st2 = (Inr (), s3)" by (simp add: run_phis_def f)
    with a2 show ?thesis by blast
  qed
qed

lemma find_filter: "(\<And>x. x \<in> set xs \<Longrightarrow> P x \<Longrightarrow> keep x) \<Longrightarrow> find P (filter keep xs) = find P xs"
  by (induction xs) auto

lemma find_map: "find P (map f xs) = map_option f (find (\<lambda>x. P (f x)) xs)"
  by (induction xs) auto

lemma jump_value_filter:
  assumes "\<And>s dst val. s \<in> set ss \<Longrightarrow> ss_stmt s = AssignS dst val \<Longrightarrow> is_jump dst \<Longrightarrow> keep s"
  shows "jump_value (filter keep ss) = jump_value ss"
  unfolding jump_value_def rev_filter using assms
  by (subst find_filter) (auto simp: is_jump_def split: MicroStmt.splits)

lemma jump_value_uses:
  assumes "jump_value ss = Some e" "\<And>s. s \<in> set ss \<Longrightarrow> set (stmt_uses s) \<subseteq> L"
  shows "set (walk_expr_vars e) \<subseteq> L"
proof -
  obtain s where s: "s \<in> set ss" and e: "e = (case ss_stmt s of AssignS dst val \<Rightarrow> val | _ \<Rightarrow> UnknownE [])"
  proof -
    obtain s where f: "find (\<lambda>s. case ss_stmt s of AssignS dst val \<Rightarrow> base_name dst = JUMP_TARGET_VAR | _ \<Rightarrow> False) (rev ss) = Some s"
      and e: "e = (case ss_stmt s of AssignS dst val \<Rightarrow> val | _ \<Rightarrow> UnknownE [])" using assms(1) by (auto simp: jump_value_def)
    from f have "s \<in> set (rev ss)" unfolding find_Some_iff using nth_mem by blast
    with e that show thesis by simp
  qed
  show ?thesis using assms(2) [OF s] by (cases "ss_stmt s") (simp_all add: e stmt_uses_def)
qed

lemma sim_take_edge: "sim cfg L (take_edge blocks b wanted) (take_edge blocks b wanted)"
  by (auto simp: take_edge_def Let_def intro: sim_eerr sim_eret split: option.split)

lemma sim_successor:
  assumes "\<And>c. sb_condition b = Some c \<Longrightarrow> set (walk_expr_vars c) \<subseteq> L"
    and "\<And>e. jump_value (sb_stmts b) = Some e \<Longrightarrow> set (walk_expr_vars e) \<subseteq> L"
  shows "sim cfg L (successor cfg blocks b) (successor cfg blocks b)"
proof -
  have c: "sim cfg L (eval cfg va c) (eval cfg va c)" if "sb_condition b = Some c" for c va
    by (rule sim_eval(1) [OF assms(1) [OF that]])
  have j: "sim cfg L (eval cfg va e) (eval cfg va e)" if "jump_value (sb_stmts b) = Some e" for e va
    by (rule sim_eval(1) [OF assms(2) [OF that]])
  show ?thesis unfolding successor_def Let_def
    by (auto intro!: sim_ebind sim_take_edge sim_eerr sim_eret intro: c j split: option.split)
qed

section \<open>From blocks to runs\<close>

text \<open>
  What an optimization promises: it keeps the identities of the blocks, and from related states a
  block that runs to its end is matched by the optimized block, with the same answer or the same
  next block. Then a run that returns is matched by a run of the optimized blocks.
\<close>

locale block_refinement =
  fixes opt :: "SsaBlock list \<Rightarrow> SsaBlock list"
    and ok :: "SsaBlock list \<Rightarrow> bool"
    and R :: "EmuConfig \<Rightarrow> SsaBlock list \<Rightarrow> Emu \<Rightarrow> Emu \<Rightarrow> bool"
  assumes ids: "map sb_id (opt blocks) = map sb_id blocks"
    and start: "R cfg blocks st st"
    and block: "ok blocks \<Longrightarrow> i < length blocks \<Longrightarrow> R cfg blocks st st2 \<Longrightarrow> run_block cfg blocks prev i st = (Inr r, st') \<Longrightarrow>
      \<exists>st2'. run_block cfg (opt blocks) prev i st2 = (Inr r, st2') \<and> R cfg blocks st' st2'"
begin

lemma same_length: "length (opt blocks) = length blocks"
  using arg_cong [OF ids [of blocks], of length] by simp

lemma same_by_id: "by_id (opt blocks) = by_id blocks"
  by (simp add: by_id_def ids same_length)

lemma same_id: "i < length blocks \<Longrightarrow> sb_id (opt blocks ! i) = sb_id (blocks ! i)"
  using arg_cong [OF ids [of blocks], of "\<lambda>xs. xs ! i"] by (simp add: same_length)

lemma run_block_target: "run_block cfg blocks prev i st = (Inr (Inr k), st') \<Longrightarrow> k < length blocks"
  by (auto simp: run_block_def Let_def emu_simps split: option.splits dest: by_id_bound)

lemma run_from_refined:
  assumes "run_from cfg blocks prev i st = Some r" "ok blocks" "i < length blocks" "R cfg blocks st st2"
  shows "\<forall>v st'. r = (Inr v, st') \<longrightarrow> (\<exists>st2'. run_from cfg (opt blocks) prev i st2 = Some (Inr v, st2') \<and> R cfg blocks st' st2')"
  using assms
proof (induction arbitrary: st2 rule: run_from.raw_induct [rotated, consumes 1, case_names step])
  case (step run_from' cfg blocks prev i st r)
  obtain x st1 where b: "run_block cfg blocks prev i st = (x, st1)" by (cases "run_block cfg blocks prev i st")
  show ?case
  proof (cases x)
    case (Inl e)
    then show ?thesis using step(2) b by auto
  next
    case (Inr y)
    obtain st2' where b2: "run_block cfg (opt blocks) prev i st2 = (Inr y, st2')" and rel: "R cfg blocks st1 st2'"
      using block [OF step(3,4,5) b [unfolded Inr]] by blast
    show ?thesis
    proof (cases y)
      case (Inl v)
      then show ?thesis using step(2) b b2 rel Inr by (auto simp: run_from.simps)
    next
      case k: (Inr k)
      have "run_from' cfg blocks (Some (sb_id (blocks ! i))) k st1 = Some r" using step(2) b Inr k by simp
      moreover have "k < length blocks" by (rule run_block_target [OF b [unfolded Inr k]])
      ultimately have "\<forall>v st'. r = (Inr v, st') \<longrightarrow>
          (\<exists>st2''. run_from cfg (opt blocks) (Some (sb_id (blocks ! i))) k st2' = Some (Inr v, st2'') \<and> R cfg blocks st' st2'')"
        using step(1) step(3) rel by blast
      then show ?thesis using b2 k same_id [OF step(4)] by (subst run_from.simps) simp
    qed
  qed
qed

lemma run_refined:
  assumes "emu_run cfg blocks vars mem = Some (Inr r, st)" "ok blocks"
  shows "\<exists>r2 st2. emu_run cfg (opt blocks) vars mem = Some (Inr r2, st2) \<and> er_ret r2 = er_ret r \<and>
    er_steps r = em_steps st \<and> er_steps r2 = em_steps st2 \<and> R cfg blocks st st2"
proof -
  obtain v where b: "run_body cfg blocks (entry_state cfg vars mem) = Some (Inr v, st)" and v: "er_ret r = v" and s: "er_steps r = em_steps st"
    using assms(1) by (auto simp: emu_run_def split: option.splits sum.splits)
  obtain i where i: "by_id blocks 0 = Some i" and f: "run_from cfg blocks None i (entry_state cfg vars mem) = Some (Inr v, st)"
    using b by (auto simp: run_body_def split: option.splits)
  obtain st2 where "run_from cfg (opt blocks) None i (entry_state cfg vars mem) = Some (Inr v, st2)" and rel: "R cfg blocks st st2"
    using run_from_refined [OF f assms(2) by_id_bound [OF i] start] by blast
  then show ?thesis using i v s by (auto simp: emu_run_def run_body_def same_by_id)
qed

end

section \<open>Dead definitions\<close>

abbreviation live_name :: "string option \<Rightarrow> SsaBlock list \<Rightarrow> string set" where
  "live_name sp blocks \<equiv> {n. live_def sp (count_uses blocks) n}"

lemma used_live: "b \<in> set blocks \<Longrightarrow> set (block_uses b) \<subseteq> live_name sp blocks"
  by (auto simp: live_def_def count_uses_def count_list_0_iff)

lemma dce_block_fields:
  "sb_id (dce_block sp u b) = sb_id b" "sb_start (dce_block sp u b) = sb_start b" "sb_end (dce_block sp u b) = sb_end b"
  "sb_terminator (dce_block sp u b) = sb_terminator b" "sb_successors (dce_block sp u b) = sb_successors b"
  "sb_condition (dce_block sp u b) = sb_condition b" "sb_stmts (dce_block sp u b) = filter (live_stmt sp u) (sb_stmts b)"
  "sb_phis (dce_block sp u b) = filter (live_phi sp u) (sb_phis b)"
  by (simp_all add: dce_block_def)

lemma dce_block_refined:
  assumes ok: "\<not> live_def sp (count_uses blocks) []" and i: "i < length blocks" and a: "alike cfg (live_name sp blocks) st st2"
    and r: "run_block cfg blocks prev i st = (Inr r, st')"
  shows "\<exists>st2'. run_block cfg (fst (dce_round sp blocks)) prev i st2 = (Inr r, st2') \<and> alike cfg (live_name sp blocks) st' st2'"
proof -
  let ?L = "live_name sp blocks" and ?u = "count_uses blocks" and ?b = "blocks ! i"
  let ?opt = "map (dce_block sp ?u) blocks"
  have opt: "fst (dce_round sp blocks) = ?opt" by (simp add: dce_round_def Let_def)
  have b: "?b \<in> set blocks" using i by simp
  have uses: "set (block_uses ?b) \<subseteq> ?L" by (rule used_live [OF b])
  let ?st = "\<lambda>st. st\<lparr>em_blocks_entered := em_blocks_entered st + 1\<rparr>"
  obtain st1 r1 st3 where p: "run_phis cfg prev ?b (?st st) = (Inr (), st1)"
    and x: "exec_stmts cfg (sb_stmts ?b) st1 = (Inr r1, st3)"
    and rest: "case r1 of Some v \<Rightarrow> r = Inl v \<and> st' = st3 | None \<Rightarrow> (\<exists>j k. successor cfg blocks ?b st3 = (Inr j, st') \<and> by_id blocks j = Some k \<and> r = Inr k)"
    using r by (auto simp: run_block_def Let_def emu_simps split: option.splits)
  have a0: "alike cfg ?L (?st st) (?st st2)" using a by (auto simp: alike_def view_def same_bytes_def)
  have "(\<Union>p \<in> set (sb_phis ?b). pi_value ` set (ph_inputs p)) \<subseteq> ?L" using uses by (auto simp: block_uses_def)
  moreover have "\<forall>p \<in> set (sb_phis ?b). \<not> (ph_dst p \<noteq> [] \<and> live_def sp ?u (ph_dst p)) \<longrightarrow> ph_dst p \<notin> ?L" using ok by auto
  ultimately obtain s1 where p2: "run_phis cfg prev (dce_block sp ?u ?b) (?st st2) = (Inr (), s1)" and a1: "alike cfg ?L st1 s1"
    using run_phis_filter [where keep = "\<lambda>d. d \<noteq> [] \<and> live_def sp ?u d" and ?b2.0 = "dce_block sp ?u ?b", OF _ _ a0 p]
    by (elim impE exE conjE meta_impE) (simp_all add: dce_block_def live_phi_def [abs_def])
  have su: "set (stmt_uses s) \<subseteq> ?L" if "s \<in> set (sb_stmts ?b)" for s using uses that by (auto simp: block_uses_def)
  have dead: "\<exists>dst val. ss_stmt s = AssignS dst val \<and> dst \<notin> ?L" if "\<not> live_stmt sp ?u s" for s
    using that by (auto simp: live_stmt_def split: MicroStmt.splits)
  obtain s3 where x2: "exec_stmts cfg (sb_stmts (dce_block sp ?u ?b)) s1 = (Inr r1, s3)" and a3: "alike cfg ?L st3 s3"
    using sim_stmts [OF su dead a1 x] by (auto simp: dce_block_def)
  have jv: "jump_value (filter (live_stmt sp ?u) (sb_stmts ?b)) = jump_value (sb_stmts ?b)"
    by (rule jump_value_filter) (auto simp: live_stmt_def live_def_def)
  have sc: "successor cfg ?opt (dce_block sp ?u ?b) = successor cfg blocks ?b"
  proof -
    have at: "block_at ?opt = block_at blocks" by (simp add: fun_eq_iff block_at_def find_map o_def option.map_comp dce_block_fields)
    show ?thesis unfolding successor_def take_edge_def at dce_block_fields jv ..
  qed
  have "sim cfg ?L (successor cfg blocks ?b) (successor cfg blocks ?b)"
    using uses jump_value_uses [OF _ su] by (intro sim_successor) (auto simp: block_uses_def)
  note succ = simD [OF this a3]
  have bi: "by_id ?opt = by_id blocks" by (simp add: by_id_def o_def dce_block_def)
  have ob: "?opt ! i = dce_block sp ?u ?b" using i by simp
  show ?thesis unfolding opt
  proof (cases r1)
    case (Some v)
    then show "\<exists>st2'. run_block cfg ?opt prev i st2 = (Inr r, st2') \<and> alike cfg ?L st' st2'"
      using p2 x2 a3 rest unfolding run_block_def Let_def ob by (auto simp: ebind_def eret_def)
  next
    case None
    then obtain j k where s: "successor cfg blocks ?b st3 = (Inr j, st')" "by_id blocks j = Some k" "r = Inr k" using rest by auto
    obtain s' where "successor cfg blocks ?b s3 = (Inr j, s')" "alike cfg ?L st' s'" by (rule succ [OF s(1)])
    then show "\<exists>st2'. run_block cfg ?opt prev i st2 = (Inr r, st2') \<and> alike cfg ?L st' st2'"
      using p2 x2 None s(2,3) unfolding run_block_def Let_def ob sc bi by (auto simp: ebind_def eret_def)
  qed
qed

interpretation dce: block_refinement "\<lambda>blocks. fst (dce_round sp blocks)" "\<lambda>blocks. \<not> live_def sp (count_uses blocks) []"
  "\<lambda>cfg blocks. alike cfg (live_name sp blocks)" for sp
proof unfold_locales
  show "map sb_id (fst (dce_round sp blocks)) = map sb_id blocks" for blocks
    by (simp add: dce_round_def Let_def dce_block_def)
qed (simp, rule dce_block_refined)

lemma dce_run:
  assumes "emu_run cfg blocks vars mem = Some (Inr r, st)" "\<not> live_def sp (count_uses blocks) []"
  shows "\<exists>r2 st2. emu_run cfg (fst (dce_round sp blocks)) vars mem = Some (Inr r2, st2) \<and> er_ret r2 = er_ret r \<and>
    er_steps r2 \<le> er_steps r \<and> mm_written (em_mem st2) = mm_written (em_mem st)"
  using dce.run_refined [OF assms] by (auto simp: alike_def same_bytes_def)

end
