(* ===== verification/Optimize_Mem.thy ===== *)
theory Optimize_Mem
  imports Optimize
begin

text \<open>
  The part of the optimizer that follows values through memory,
  \<open>src/crates/n0xis-core/src/optimize.rs\<close>: the slot an address names, which slots escape, what a
  statement does to the stores that are available, the flow of those facts between blocks, and dead
  stores; with the frame registers of \<open>src/crates/n0xis-core/src/typeinfer.rs\<close>, and the pass that
  runs the rounds until none changes a block.
\<close>

section \<open>Slots\<close>

definition ABS_BASE :: string where
  "ABS_BASE = ''__abs''"

definition mem_key :: "MicroExpr \<Rightarrow> (string \<times> i128) option" where
  "mem_key addr = (case addr of
     VarE n \<Rightarrow> Some (n, 0)
   | ConstE v b \<Rightarrow> Some (ABS_BASE, v)
   | BinaryE bop l r \<Rightarrow>
       if bop = BinOp_Add then (case (l, r) of
           (VarE n, ConstE v b) \<Rightarrow> Some (n, v)
         | (ConstE v b, VarE n) \<Rightarrow> Some (n, v)
         | _ \<Rightarrow> None)
       else if bop = BinOp_Sub then (case (l, r) of
           (VarE n, ConstE v b) \<Rightarrow> if v = push_bit 127 1 then None else Some (n, - v)
         | _ \<Rightarrow> None)
       else None
   | _ \<Rightarrow> None)"

fun expr_is_pure :: "MicroExpr \<Rightarrow> bool" where
  "expr_is_pure (ConstE v b) = True"
| "expr_is_pure (VarE n) = True"
| "expr_is_pure (OpaqueFlagsE m) = True"
| "expr_is_pure (UnknownE t) = True"
| "expr_is_pure (LoadE a b sg) = False"
| "expr_is_pure (CallE target args) = False"
| "expr_is_pure (UnaryE u e) = expr_is_pure e"
| "expr_is_pure (BinaryE bop l r) = (expr_is_pure l \<and> expr_is_pure r)"
| "expr_is_pure (CastE sg b e) = expr_is_pure e"
| "expr_is_pure (AddrOfE e) = expr_is_pure e"
| "expr_is_pure (CompareE k l r) = (expr_is_pure l \<and> expr_is_pure r)"
| "expr_is_pure (SelectE c a b) = (expr_is_pure c \<and> expr_is_pure a \<and> expr_is_pure b)"

definition bytes_of_bits :: "Bits \<Rightarrow> i128" where
  "bytes_of_bits bits = of_nat (max bits 8 div 8)"

text \<open>The sums wrap here; in a debug build an overflow would panic.\<close>

definition ranges_overlap :: "i128 \<Rightarrow> i128 \<Rightarrow> i128 \<Rightarrow> i128 \<Rightarrow> bool" where
  "ranges_overlap a_off a_bytes b_off b_bytes = (sint a_off < sint (b_off + b_bytes) \<and> sint b_off < sint (a_off + a_bytes))"

record Avail =
  av_base :: string
  av_off :: i128
  av_bits :: Bits
  av_value :: MicroExpr
  av_from_seed :: bool

fun all_vars_are_entry :: "MicroExpr \<Rightarrow> bool" where
  "all_vars_are_entry (VarE n) = suffix ''.0'' n"
| "all_vars_are_entry (ConstE v b) = True"
| "all_vars_are_entry (OpaqueFlagsE m) = True"
| "all_vars_are_entry (UnknownE t) = True"
| "all_vars_are_entry (LoadE a b sg) = all_vars_are_entry a"
| "all_vars_are_entry (UnaryE u e) = all_vars_are_entry e"
| "all_vars_are_entry (BinaryE bop l r) = (all_vars_are_entry l \<and> all_vars_are_entry r)"
| "all_vars_are_entry (CastE sg b e) = all_vars_are_entry e"
| "all_vars_are_entry (AddrOfE e) = all_vars_are_entry e"
| "all_vars_are_entry (CompareE k l r) = (all_vars_are_entry l \<and> all_vars_are_entry r)"
| "all_vars_are_entry (SelectE c a b) = (all_vars_are_entry c \<and> all_vars_are_entry a \<and> all_vars_are_entry b)"
| "all_vars_are_entry (CallE target args) = False"

definition is_cross_block_stable :: "MicroExpr \<Rightarrow> bool" where
  "is_cross_block_stable e = (expr_is_pure e \<and> all_vars_are_entry e)"

definition same_slot :: "Avail \<Rightarrow> string \<Rightarrow> i128 \<Rightarrow> Bits \<Rightarrow> bool" where
  "same_slot a base off bits = (av_base a = base \<and> av_off a = off \<and> av_bits a = bits)"

section \<open>Escapes\<close>

record Escape =
  es_bases :: "string set"
  es_slots :: "(string \<times> i128) set"
  es_alloc_bases :: "string set"
  es_win64 :: bool

definition call_safe :: "Escape \<Rightarrow> string \<Rightarrow> i128 \<Rightarrow> bool" where
  "call_safe esc base off = (base \<noteq> ABS_BASE \<and> base \<notin> es_bases esc \<and> (base, off) \<notin> es_slots esc)"

definition distinct_alloc :: "Escape \<Rightarrow> string \<Rightarrow> string \<Rightarrow> bool" where
  "distinct_alloc esc a b = (a \<noteq> b \<and> a \<in> es_alloc_bases esc \<and> b \<in> es_alloc_bases esc)"

definition allocator_tokens :: "string list" where
  "allocator_tokens = [''malloc'', ''calloc'', ''zalloc'', ''aligned_alloc'', ''HeapAlloc'', ''LocalAlloc'', ''GlobalAlloc'',
     ''VirtualAlloc'', ''RtlAllocateHeap'']"

definition is_allocator :: "string \<Rightarrow> bool" where
  "is_allocator name = (let n = rev (takeWhile (\<lambda>c. c \<noteq> CHR ''!'') (rev name)) in
     (\<exists>a \<in> set allocator_tokens. n = a \<or> suffix (CHR ''_'' # a) n) \<or>
     prefix ''_Znwm'' n \<or> prefix ''_Znam'' n \<or> prefix ''??2'' n \<or> prefix ''??_U'' n \<or> sublist ''operator new'' n)"

record Callsite =
  cs_from :: u64
  cs_kind :: string
  cs_target :: "u64 option"
  cs_target_name :: "string option"
  cs_via_slot :: "u64 option"

definition alloc_result :: "Callsite list \<Rightarrow> SsaStmt \<Rightarrow> string option" where
  "alloc_result callsites s = (case ss_stmt s of
     CallS target args (Some v) \<Rightarrow> (case find (\<lambda>c. cs_from c = ss_va s) callsites of
         Some cs \<Rightarrow> (case cs_target_name cs of Some name \<Rightarrow> if is_allocator name then Some v else None | None \<Rightarrow> None)
       | None \<Rightarrow> None)
   | _ \<Rightarrow> None)"

definition allocation_bases :: "SsaBlock list \<Rightarrow> Callsite list \<Rightarrow> string set" where
  "allocation_bases blocks callsites = set (List.map_filter (alloc_result callsites) (concat (map sb_stmts blocks)))"

fun visit_escape :: "MicroExpr \<Rightarrow> bool \<Rightarrow> Escape \<Rightarrow> Escape"
and visit_escapes :: "MicroExpr list \<Rightarrow> Escape \<Rightarrow> Escape" where
  "visit_escape (VarE n) value_ctx esc = (if value_ctx then esc\<lparr>es_bases := insert n (es_bases esc)\<rparr> else esc)"
| "visit_escape (ConstE v b) value_ctx esc = esc"
| "visit_escape (OpaqueFlagsE m) value_ctx esc = esc"
| "visit_escape (UnknownE t) value_ctx esc = esc"
| "visit_escape (LoadE a b sg) value_ctx esc = visit_escape a False esc"
| "visit_escape (AddrOfE e) value_ctx esc = (case mem_key e of
     Some slot \<Rightarrow> esc\<lparr>es_slots := insert slot (es_slots esc)\<rparr>
   | None \<Rightarrow> visit_escape e True esc)"
| "visit_escape (UnaryE u e) value_ctx esc = visit_escape e value_ctx esc"
| "visit_escape (BinaryE bop l r) value_ctx esc = visit_escape r value_ctx (visit_escape l value_ctx esc)"
| "visit_escape (CastE sg b e) value_ctx esc = visit_escape e value_ctx esc"
| "visit_escape (CompareE k l r) value_ctx esc = visit_escape r value_ctx (visit_escape l value_ctx esc)"
| "visit_escape (SelectE c a b) value_ctx esc = visit_escape b value_ctx (visit_escape a value_ctx (visit_escape c value_ctx esc))"
| "visit_escape (CallE target args) value_ctx esc =
     visit_escapes args (case target of Indirect t \<Rightarrow> visit_escape t True esc | _ \<Rightarrow> esc)"
| "visit_escapes [] esc = esc"
| "visit_escapes (e # es) esc = visit_escapes es (visit_escape e True esc)"

fun escape_stmt :: "MicroStmt \<Rightarrow> Escape \<Rightarrow> Escape" where
  "escape_stmt (AssignS dst val) esc = visit_escape val True esc"
| "escape_stmt (StoreS addr val bits) esc = visit_escape val True (visit_escape addr False esc)"
| "escape_stmt (CallS target args ret) esc = visit_escapes args (case target of Indirect t \<Rightarrow> visit_escape t True esc | _ \<Rightarrow> esc)"
| "escape_stmt (ReturnS (Some e)) esc = visit_escape e True esc"
| "escape_stmt (ReturnS None) esc = esc"
| "escape_stmt NopS esc = esc"
| "escape_stmt (UnliftedS va txt reads eff) esc = esc\<lparr>es_bases := es_bases esc \<union> set (Reads_regs reads)\<rparr>"

definition escape_block :: "SsaBlock \<Rightarrow> Escape \<Rightarrow> Escape" where
  "escape_block b esc = (let esc' = fold (\<lambda>s. escape_stmt (ss_stmt s)) (sb_stmts b) esc in
     case sb_condition b of Some c \<Rightarrow> visit_escape c True esc' | None \<Rightarrow> esc')"

definition escape_info :: "SsaBlock list \<Rightarrow> bool \<Rightarrow> Escape" where
  "escape_info blocks win64 = fold escape_block blocks \<lparr>es_bases = {}, es_slots = {}, es_alloc_bases = {}, es_win64 = win64\<rparr>"

section \<open>Available stores\<close>

definition call_clobbers_frame_slot :: "string \<Rightarrow> i128 \<Rightarrow> bool \<Rightarrow> bool" where
  "call_clobbers_frame_slot base off win64 =
     (if prefix ''rsp'' base then (if win64 then sint off < 0x20 else sint off < 0)
      else if prefix ''rbp'' base then win64 \<and> 0 \<le> sint off \<and> sint off < 0x20
      else False)"

definition survives_store :: "Escape \<Rightarrow> MicroExpr \<Rightarrow> Bits \<Rightarrow> Avail \<Rightarrow> bool" where
  "survives_store esc addr bits a = (case mem_key addr of
     Some (base, off) \<Rightarrow>
       if av_base a = base then \<not> ranges_overlap (av_off a) (bytes_of_bits (av_bits a)) off (bytes_of_bits bits)
       else distinct_alloc esc base (av_base a) \<or> call_safe esc (av_base a) (av_off a)
   | None \<Rightarrow> call_safe esc (av_base a) (av_off a))"

definition clobber_for_stmt :: "Escape \<Rightarrow> MicroStmt \<Rightarrow> Avail list \<Rightarrow> Avail list" where
  "clobber_for_stmt esc t avail = (case t of
     StoreS addr val bits \<Rightarrow> filter (survives_store esc addr bits) avail
   | CallS target args ret \<Rightarrow> filter (\<lambda>a. call_safe esc (av_base a) (av_off a) \<and>
       \<not> call_clobbers_frame_slot (av_base a) (av_off a) (es_win64 esc)) avail
   | UnliftedS va txt reads eff \<Rightarrow> if may_write eff then [] else avail
   | _ \<Rightarrow> avail)"

text \<open>The store of a statement as a fact, if its value is one that \<open>ok\<close> admits.\<close>

definition gen_fact :: "(MicroExpr \<Rightarrow> bool) \<Rightarrow> MicroStmt \<Rightarrow> Avail list" where
  "gen_fact ok t = (case t of
     StoreS addr val bits \<Rightarrow> (case mem_key addr of
         Some (base, off) \<Rightarrow> if ok val then [\<lparr>av_base = base, av_off = off, av_bits = bits, av_value = val, av_from_seed = False\<rparr>] else []
       | None \<Rightarrow> [])
   | _ \<Rightarrow> [])"

definition transfer_cross :: "Escape \<Rightarrow> SsaBlock \<Rightarrow> Avail list \<Rightarrow> Avail list" where
  "transfer_cross esc b entry =
     fold (\<lambda>s avail. clobber_for_stmt esc (ss_stmt s) avail @ gen_fact is_cross_block_stable (ss_stmt s)) (sb_stmts b) entry"

definition same_fact :: "Avail \<Rightarrow> Avail \<Rightarrow> bool" where
  "same_fact x y = (same_slot y (av_base x) (av_off x) (av_bits x) \<and> av_value y = av_value x)"

fun intersect_facts :: "Avail list list \<Rightarrow> Avail list" where
  "intersect_facts [] = []"
| "intersect_facts (first # rest) = filter (\<lambda>a. \<forall>s \<in> set rest. \<exists>y \<in> set s. same_fact a y) first"

definition facts_eq :: "Avail list \<Rightarrow> Avail list \<Rightarrow> bool" where
  "facts_eq xs ys = (length xs = length ys \<and> (\<forall>x \<in> set xs. \<exists>y \<in> set ys. same_fact x y))"

section \<open>Forwarding\<close>

text \<open>Of two blocks that start at one address the map keeps the later.\<close>

definition idx_of :: "SsaBlock list \<Rightarrow> u64 \<rightharpoonup> nat" where
  "idx_of blocks = map_of (rev (zip (map sb_start blocks) [0..<length blocks]))"

definition block_preds :: "SsaBlock list \<Rightarrow> nat list list" where
  "block_preds blocks = fold (\<lambda>i preds. fold (\<lambda>s preds. case idx_of blocks (sc_to s) of
       Some j \<Rightarrow> preds[j := preds ! j @ [i]] | None \<Rightarrow> preds) (sb_successors (blocks ! i)) preds)
     [0..<length blocks] (replicate (length blocks) [])"

type_synonym cross = "Avail list list \<times> Avail list list"

definition cross_block :: "Escape \<Rightarrow> SsaBlock list \<Rightarrow> nat list list \<Rightarrow> nat \<Rightarrow> cross \<times> bool \<Rightarrow> cross \<times> bool" where
  "cross_block esc blocks preds b = (\<lambda>((cross_in, cross_out), changed).
     let new_in = (if preds ! b = [] then [] else intersect_facts (map (\<lambda>p. cross_out ! p) (preds ! b))) in
     if \<not> facts_eq new_in (cross_in ! b)
     then ((cross_in[b := new_in], cross_out[b := transfer_cross esc (blocks ! b) new_in]), True)
     else ((cross_in, cross_out), changed))"

fun cross_passes :: "Escape \<Rightarrow> SsaBlock list \<Rightarrow> nat list list \<Rightarrow> nat \<Rightarrow> cross \<Rightarrow> cross" where
  "cross_passes esc blocks preds 0 c = c"
| "cross_passes esc blocks preds (Suc k) c = (let (c', changed) = fold (cross_block esc blocks preds) [0..<length blocks] (c, False) in
     if changed then cross_passes esc blocks preds k c' else c')"

definition cross_facts :: "Escape \<Rightarrow> SsaBlock list \<Rightarrow> Avail list list" where
  "cross_facts esc blocks = fst (cross_passes esc blocks (block_preds blocks) (length blocks + 2)
     (replicate (length blocks) [], map (\<lambda>b. transfer_cross esc b []) blocks))"

text \<open>One load; the state says whether a load was forwarded.\<close>

definition forward_load :: "Avail list \<Rightarrow> nat \<Rightarrow> bool rewrite" where
  "forward_load avail read_depth e hit = (case e of
     LoadE addr bits sg \<Rightarrow> (case mem_key addr of
         Some (base, off) \<Rightarrow> (case find (\<lambda>a. same_slot a base off bits) avail of
             Some a \<Rightarrow> if read_depth + expr_depth (av_value a) \<le> MAX_PROPAGATED_DEPTH then (av_value a, True) else (e, hit)
           | None \<Rightarrow> (e, hit))
       | None \<Rightarrow> (e, hit))
   | _ \<Rightarrow> (e, hit))"

fun forward_stmts :: "Escape \<Rightarrow> SsaStmt list \<Rightarrow> Avail list \<Rightarrow> SsaStmt list \<times> bool" where
  "forward_stmts esc [] avail = ([], False)"
| "forward_stmts esc (s # ss) avail = (
     let (t, hit) = map_stmt_exprs (forward_load avail (stmt_read_depth (ss_stmt s))) (ss_stmt s) False;
         s' = (if hit then s\<lparr>ss_stmt := t\<rparr> else s);
         (ss', changed) = forward_stmts esc ss (clobber_for_stmt esc (ss_stmt s') avail @ gen_fact expr_is_pure (ss_stmt s'))
     in (s' # ss', hit \<or> changed))"

definition forward_block :: "Escape \<Rightarrow> SsaBlock list \<Rightarrow> SsaBlock \<Rightarrow> SsaStmt list \<times> bool" where
  "forward_block esc blocks b = (let facts = cross_facts esc blocks ! the (idx_of blocks (sb_start b)) in
     forward_stmts esc (sb_stmts b) (map (\<lambda>a. a\<lparr>av_from_seed := True\<rparr>) facts))"

definition mem_forward_round :: "string set \<Rightarrow> bool \<Rightarrow> SsaBlock list \<Rightarrow> SsaBlock list \<times> bool" where
  "mem_forward_round alloc_bases win64 blocks = (let esc = (escape_info blocks win64)\<lparr>es_alloc_bases := alloc_bases\<rparr> in
     (map (\<lambda>b. b\<lparr>sb_stmts := fst (forward_block esc blocks b)\<rparr>) blocks, \<exists>b \<in> set blocks. snd (forward_block esc blocks b)))"

section \<open>Frame registers\<close>

fun derived_from_sp :: "string set \<Rightarrow> MicroExpr \<Rightarrow> bool" where
  "derived_from_sp known (VarE v) = (base_name v = ''rsp'' \<or> v \<in> known)"
| "derived_from_sp known (AddrOfE x) = derived_from_sp known x"
| "derived_from_sp known (BinaryE bop l r) = ((bop = BinOp_Add \<or> bop = BinOp_Sub) \<and> is_const r \<and> derived_from_sp known l)"
| "derived_from_sp known _ = False"

definition frame_stmt :: "SsaStmt \<Rightarrow> string set \<Rightarrow> string set" where
  "frame_stmt s from_sp = (case ss_stmt s of
     AssignS dst val \<Rightarrow> if derived_from_sp from_sp val then insert dst from_sp else from_sp
   | _ \<Rightarrow> from_sp)"

definition frame_phi :: "Phi \<Rightarrow> string set \<Rightarrow> string set" where
  "frame_phi p from_sp = (if ph_inputs p \<noteq> [] \<and>
       (\<forall>i \<in> set (ph_inputs p). pi_value i = ph_dst p \<or> base_name (pi_value i) = ''rsp'' \<or> pi_value i \<in> from_sp)
     then insert (ph_dst p) from_sp else from_sp)"

definition frame_round :: "SsaBlock list \<Rightarrow> string set \<Rightarrow> string set" where
  "frame_round blocks from_sp = fold (\<lambda>b x. fold frame_phi (sb_phis b) (fold frame_stmt (sb_stmts b) x)) blocks from_sp"

definition block_defs :: "SsaBlock list \<Rightarrow> string set" where
  "block_defs blocks = (\<Union>b \<in> set blocks. ph_dst ` set (sb_phis b) \<union>
     (\<Union>s \<in> set (sb_stmts b). case ss_stmt s of AssignS dst val \<Rightarrow> {dst} | _ \<Rightarrow> {}))"

lemma fold_between:
  assumes "\<And>x S. x \<in> set xs \<Longrightarrow> S \<subseteq> f x S \<and> f x S \<subseteq> S \<union> D"
  shows "S \<subseteq> fold f xs S \<and> fold f xs S \<subseteq> S \<union> D"
  using assms
proof (induction xs arbitrary: S)
  case (Cons x xs)
  have "S \<subseteq> f x S \<and> f x S \<subseteq> S \<union> D" by (rule Cons.prems) simp
  moreover have "f x S \<subseteq> fold f xs (f x S) \<and> fold f xs (f x S) \<subseteq> f x S \<union> D" by (rule Cons.IH, rule Cons.prems) simp
  ultimately show ?case by (simp add: subset_iff) blast
qed simp

lemma finite_block_defs: "finite (block_defs blocks)"
  by (auto simp: block_defs_def split: MicroStmt.split)

lemma frame_round_between: "S \<subseteq> frame_round blocks S \<and> frame_round blocks S \<subseteq> S \<union> block_defs blocks"
  unfolding frame_round_def
proof (rule fold_between)
  fix b S assume b: "b \<in> set blocks"
  have "S \<subseteq> fold frame_stmt (sb_stmts b) S \<and> fold frame_stmt (sb_stmts b) S \<subseteq> S \<union> block_defs blocks" for S
  proof (rule fold_between)
    fix s S assume "s \<in> set (sb_stmts b)"
    with b show "S \<subseteq> frame_stmt s S \<and> frame_stmt s S \<subseteq> S \<union> block_defs blocks"
      by (cases "ss_stmt s") (auto simp: frame_stmt_def block_defs_def intro!: bexI [of _ b] bexI [of _ s])
  qed
  moreover have "S \<subseteq> fold frame_phi (sb_phis b) S \<and> fold frame_phi (sb_phis b) S \<subseteq> S \<union> block_defs blocks" for S
  proof (rule fold_between)
    fix p S assume "p \<in> set (sb_phis b)"
    with b show "S \<subseteq> frame_phi p S \<and> frame_phi p S \<subseteq> S \<union> block_defs blocks"
      by (auto simp: frame_phi_def block_defs_def intro!: bexI [of _ b])
  qed
  ultimately show "S \<subseteq> fold frame_phi (sb_phis b) (fold frame_stmt (sb_stmts b) S) \<and>
      fold frame_phi (sb_phis b) (fold frame_stmt (sb_stmts b) S) \<subseteq> S \<union> block_defs blocks"
    by (meson Un_least Un_upper2 order_trans)
qed

function frame_loop :: "SsaBlock list \<Rightarrow> string set \<Rightarrow> string set" where
  "frame_loop blocks from_sp = (let from_sp' = frame_round blocks from_sp in
     if card from_sp' = card from_sp then from_sp' else frame_loop blocks from_sp')"
  by pat_completeness auto
termination
proof (relation "measure (\<lambda>(blocks, S). card (block_defs blocks - S))")
  fix blocks and S S' :: "string set"
  assume S': "S' = frame_round blocks S" and grown: "card S' \<noteq> card S"
  have "S \<subseteq> S'" "S' \<subseteq> S \<union> block_defs blocks" using frame_round_between S' by auto
  moreover from this grown have "S \<noteq> S'" by auto
  ultimately have "block_defs blocks - S' \<subset> block_defs blocks - S" by auto
  then show "((blocks, S'), (blocks, S)) \<in> measure (\<lambda>(blocks, S). card (block_defs blocks - S))"
    using finite_block_defs by (simp add: psubset_card_mono)
qed simp

declare frame_loop.simps [simp del]

definition frame_versions :: "SsaBlock list \<Rightarrow> string set" where
  "frame_versions blocks = {v \<in> frame_loop blocks {}. base_name v = ''rbp''}"

definition is_stack_base :: "string \<Rightarrow> string set \<Rightarrow> bool" where
  "is_stack_base base frames = (base_name base = ''rsp'' \<or> base \<in> frames)"

section \<open>Dead stores\<close>

definition load_slot :: "MicroExpr \<Rightarrow> Bits \<Rightarrow> (string \<times> i128 \<times> Bits) list" where
  "load_slot addr bits = (case mem_key addr of Some (base, off) \<Rightarrow> [(base, off, bits)] | None \<Rightarrow> [])"

fun collect_load_slots :: "MicroExpr \<Rightarrow> (string \<times> i128 \<times> Bits) list"
and collects_load_slots :: "MicroExpr list \<Rightarrow> (string \<times> i128 \<times> Bits) list" where
  "collect_load_slots (LoadE a bits sg) = load_slot a bits @ collect_load_slots a"
| "collect_load_slots (UnaryE u e) = collect_load_slots e"
| "collect_load_slots (BinaryE bop l r) = collect_load_slots l @ collect_load_slots r"
| "collect_load_slots (CastE sg b e) = collect_load_slots e"
| "collect_load_slots (AddrOfE e) = collect_load_slots e"
| "collect_load_slots (CompareE k l r) = collect_load_slots l @ collect_load_slots r"
| "collect_load_slots (SelectE c a b) = collect_load_slots c @ collect_load_slots a @ collect_load_slots b"
| "collect_load_slots (CallE target args) =
     (case target of Indirect t \<Rightarrow> collect_load_slots t | _ \<Rightarrow> []) @ collects_load_slots args"
| "collect_load_slots (ConstE v b) = []"
| "collect_load_slots (VarE n) = []"
| "collect_load_slots (OpaqueFlagsE m) = []"
| "collect_load_slots (UnknownE t) = []"
| "collects_load_slots [] = []"
| "collects_load_slots (e # es) = collect_load_slots e @ collects_load_slots es"

definition block_load_slots :: "SsaBlock \<Rightarrow> (string \<times> i128 \<times> Bits) list" where
  "block_load_slots b = concat (map (\<lambda>s. concat (map collect_load_slots (stmt_read_exprs (ss_stmt s)))) (sb_stmts b)) @
     (case sb_condition b of Some c \<Rightarrow> collect_load_slots c | None \<Rightarrow> [])"

definition dead_store :: "Escape \<Rightarrow> string set \<Rightarrow> (string \<times> i128 \<times> Bits) list \<Rightarrow> SsaStmt \<Rightarrow> bool" where
  "dead_store esc frames loaded s = (case ss_stmt s of
     StoreS addr val bits \<Rightarrow> (case mem_key addr of
         Some (base, off) \<Rightarrow> is_stack_base base frames \<and> call_safe esc base off \<and> expr_is_pure val \<and>
           \<not> (\<exists>(lb, lo, lb_bits) \<in> set loaded. lb = base \<and> ranges_overlap lo (bytes_of_bits lb_bits) off (bytes_of_bits bits))
       | None \<Rightarrow> False)
   | _ \<Rightarrow> False)"

definition unlifted_reader :: "SsaStmt \<Rightarrow> bool" where
  "unlifted_reader s = (case ss_stmt s of UnliftedS va txt reads eff \<Rightarrow> may_read eff | _ \<Rightarrow> False)"

definition dead_store_round :: "bool \<Rightarrow> SsaBlock list \<Rightarrow> SsaBlock list \<times> bool" where
  "dead_store_round win64 blocks = (if \<exists>b \<in> set blocks. \<exists>s \<in> set (sb_stmts b). unlifted_reader s then (blocks, False)
     else let esc = escape_info blocks win64;
         loaded = concat (map block_load_slots blocks);
         frames = frame_versions blocks;
         keep = (\<lambda>b. filter (\<lambda>s. \<not> dead_store esc frames loaded s) (sb_stmts b))
       in (map (\<lambda>b. b\<lparr>sb_stmts := keep b\<rparr>) blocks, \<exists>b \<in> set blocks. length (keep b) \<noteq> length (sb_stmts b)))"

section \<open>The pass\<close>

text \<open>One round of the loop: the six passes in their order.\<close>

definition optimize_round :: "string set \<Rightarrow> bool \<Rightarrow> string option \<Rightarrow> SsaBlock list \<Rightarrow> SsaBlock list \<times> bool" where
  "optimize_round alloc_bases win64 sp blocks = (
     let (b1, c1) = const_fold_round blocks;
         (b2, c2) = copy_prop_round b1;
         (b3, c3) = mem_forward_round alloc_bases win64 b2;
         (b4, c4) = dead_store_round win64 b3;
         (b5, c5) = expr_prop_round sp b4;
         (b6, c6) = dce_round sp b5
     in (b6, c1 \<or> c2 \<or> c3 \<or> c4 \<or> c5 \<or> c6))"

fun optimize_rounds :: "string set \<Rightarrow> bool \<Rightarrow> string option \<Rightarrow> nat \<Rightarrow> nat \<Rightarrow> SsaBlock list \<Rightarrow> SsaBlock list \<times> nat" where
  "optimize_rounds alloc_bases win64 sp 0 rounds blocks = (blocks, rounds)"
| "optimize_rounds alloc_bases win64 sp (Suc k) rounds blocks = (
     let (blocks', changed) = optimize_round alloc_bases win64 sp blocks in
     if changed then optimize_rounds alloc_bases win64 sp k (rounds + 1) blocks' else (blocks', rounds + 1))"

text \<open>The whole pass; the ABI and the stack pointer's name come from the context.\<close>

definition optimize_run :: "string \<Rightarrow> string option \<Rightarrow> Callsite list \<Rightarrow> SsaBlock list \<Rightarrow> SsaBlock list \<times> nat" where
  "optimize_run abi_name sp callsites blocks =
     optimize_rounds (allocation_bases blocks callsites) (abi_name \<noteq> ''sysv'') sp MAX_ROUNDS 0 blocks"

end
