(* ===== verification/Optimize_Depth.thy ===== *)
theory Optimize_Depth
  imports Optimize_Mem
begin

text \<open>
  How deep the optimizer lets an expression grow: the depth of an expression under the rewrites, and
  the bound that every round keeps. And where a chain of copies ends.
\<close>

section \<open>Depth under rewriting\<close>

lemma depth_pos: "1 \<le> depth_with inlined e"
  if "\<And>n d. inlined = Some (n, d) \<Longrightarrow> 1 \<le> d"
  using that by (cases e) (auto split: option.split)

lemma depth_None_pos: "1 \<le> expr_depth e"
  unfolding expr_depth_def by (rule depth_pos) simp

lemmas depth_Suc = depth_None_pos [unfolded One_nat_def] depth_None_pos [unfolded expr_depth_def One_nat_def]

abbreviation target_depth :: "(string \<times> nat) option \<Rightarrow> CallTarget \<Rightarrow> nat" where
  "target_depth inlined t \<equiv> (case t of Indirect e \<Rightarrow> depth_with inlined e | _ \<Rightarrow> 0)"

text \<open>
  A rewrite that gives a name at most the depth \<open>inlined\<close> says, and any other expression at most its
  own depth or \<open>c\<close>.
\<close>

definition grows_by :: "'s rewrite \<Rightarrow> (string \<times> nat) option \<Rightarrow> nat \<Rightarrow> bool" where
  "grows_by f inlined c \<longleftrightarrow> (\<forall>e s. expr_depth (fst (f e s)) \<le> max (case e of VarE n \<Rightarrow> depth_with inlined e | _ \<Rightarrow> expr_depth e) c)"

lemma grows_byD:
  assumes "grows_by f inlined c" "(case e of VarE n \<Rightarrow> depth_with inlined e | _ \<Rightarrow> depth_with None e) \<le> k" "c \<le> k"
  shows "depth_with None (fst (f e s)) \<le> k"
  using assms unfolding grows_by_def expr_depth_def by (meson max.boundedI order_trans)

lemma max_plus: "a \<le> x + c \<Longrightarrow> b \<le> y + c \<Longrightarrow> max a b \<le> max x y + (c :: nat)"
  by simp linarith

lemma map_exprs_depth:
  assumes "\<And>e s. e \<in> set es \<Longrightarrow> depth_with None (fst (map_expr f e s)) \<le> depth_with inlined e + c"
  shows "depths_with None (fst (map_exprs f es s)) \<le> depths_with inlined es + c"
  using assms by (induction es arbitrary: s) (simp_all add: split_def Let_def max_plus del: max.bounded_iff)

lemma map_expr_depth:
  assumes g: "grows_by f inlined c"
  shows "depth_with None (fst (map_expr f e s)) \<le> depth_with inlined e + c"
    and "target_depth None (fst (map_target f t s)) \<le> target_depth inlined t + c"
  by (induction e and t arbitrary: s and s)
    (simp_all add: split_def Let_def del: max.bounded_iff, (rule grows_byD [OF g]; simp add: max_plus map_exprs_depth del: max.bounded_iff)+)

lemma max_depth_le: "max_depth ds \<le> k \<longleftrightarrow> (\<forall>d \<in> set ds. d \<le> k)"
proof -
  have "fold max ds m \<le> k \<longleftrightarrow> m \<le> k \<and> (\<forall>d \<in> set ds. d \<le> k)" for m by (induction ds arbitrary: m) auto
  then show ?thesis by (simp add: max_depth_def)
qed

lemma depths_with_le: "depths_with inlined es \<le> k \<longleftrightarrow> (\<forall>e \<in> set es. depth_with inlined e \<le> k)"
  by (induction es) auto

lemma set_map_exprs: "x \<in> set (fst (map_exprs f es s)) \<Longrightarrow> \<exists>e \<in> set es. \<exists>s. x = fst (map_expr f e s)"
  by (induction es arbitrary: s) (auto simp: split_def Let_def)

lemma map_stmt_depth:
  assumes g: "grows_by f inlined c" and k: "\<And>e. e \<in> set (stmt_read_exprs t) \<Longrightarrow> depth_with inlined e + c \<le> k"
  shows "stmt_read_depth (fst (map_stmt_exprs f t s)) \<le> k"
proof -
  have e: "depth_with None (fst (map_expr f e s)) \<le> k" if "e \<in> set (stmt_read_exprs t)" for e s
    using map_expr_depth(1) [OF g, of e s] k [OF that] by linarith
  have "\<forall>x \<in> set (stmt_read_exprs (fst (map_stmt_exprs f t s))). depth_with None x \<le> k"
  proof (cases t)
    case (CallS target args ret)
    have args: "\<forall>x \<in> set (fst (map_exprs f args s)). depth_with None x \<le> k" for s
      using e CallS by (auto dest!: set_map_exprs)
    have "\<forall>e. target = Indirect e \<longrightarrow> (\<forall>s. depth_with None (fst (map_expr f e s)) \<le> k)" using e CallS by simp
    with args show ?thesis using CallS by (cases target) (auto simp: split_def Let_def)
  next
    case (ReturnS r)
    then show ?thesis using e by (cases r) (auto simp: split_def Let_def)
  qed (use e in \<open>auto simp: split_def Let_def\<close>)
  then show ?thesis by (simp add: stmt_read_depth_def max_depth_le expr_depth_def)
qed

section \<open>The bound of every round\<close>

definition depth_le :: "nat \<Rightarrow> SsaBlock list \<Rightarrow> bool" where
  "depth_le k blocks \<longleftrightarrow> (\<forall>b \<in> set blocks. (\<forall>s \<in> set (sb_stmts b). stmt_read_depth (ss_stmt s) \<le> k) \<and>
     (\<forall>c. sb_condition b = Some c \<longrightarrow> expr_depth c \<le> k))"

lemma stmt_read_depth_le: "e \<in> set (stmt_read_exprs t) \<Longrightarrow> expr_depth e \<le> stmt_read_depth t"
  by (metis (no_types, lifting) max_depth_le le_refl image_eqI list.set_map stmt_read_depth_def)

lemma shrinks_iff: "grows_by f None 0 \<longleftrightarrow> (\<forall>e s. expr_depth (fst (f e s)) \<le> expr_depth e)"
  unfolding grows_by_def by (intro iff_allI) (simp add: expr_depth_def split: MicroExpr.split)

lemma shrink_stmt: "grows_by f None 0 \<Longrightarrow> stmt_read_depth t \<le> k \<Longrightarrow> stmt_read_depth (fst (map_stmt_exprs f t s)) \<le> k"
  using map_stmt_depth [of f None 0 t k s] stmt_read_depth_le [of _ t] by (simp add: expr_depth_def) (meson order_trans)

lemma shrink_stmts:
  "grows_by f None 0 \<Longrightarrow> \<forall>x \<in> set ss. stmt_read_depth (ss_stmt x) \<le> k \<Longrightarrow> \<forall>x \<in> set (fst (map_stmts f ss s)). stmt_read_depth (ss_stmt x) \<le> k"
  by (induction ss arbitrary: s) (auto simp: shrink_stmt split_def Let_def)

lemma shrink_blocks: "grows_by f None 0 \<Longrightarrow> depth_le k blocks \<Longrightarrow> depth_le k (fst (map_blocks f blocks s))"
proof (induction blocks arbitrary: s)
  case (Cons b bs)
  have "\<forall>x \<in> set (fst (map_stmts f (sb_stmts b) s)). stmt_read_depth (ss_stmt x) \<le> k"
    using Cons.prems by (intro shrink_stmts) (simp_all add: depth_le_def)
  moreover have "expr_depth (fst (map_expr f c s)) \<le> k" if "sb_condition b = Some c" for c s
    using map_expr_depth(1) [OF Cons.prems(1), of c s] Cons.prems(2) that by (fastforce simp: depth_le_def expr_depth_def)
  ultimately have "depth_le k [fst (map_block f b s)]"
    by (auto simp: depth_le_def map_block_def split_def Let_def split: option.splits)
  moreover have "depth_le k (fst (map_blocks f bs (snd (map_block f b s))))"
    using Cons.prems by (intro Cons.IH) (simp_all add: depth_le_def)
  ultimately show ?case by (simp add: depth_le_def split_def Let_def)
qed (simp add: depth_le_def)

lemma shrinks_apply: "(\<And>e s e' s'. g e s = (Some e', s') \<Longrightarrow> expr_depth e' \<le> expr_depth e) \<Longrightarrow> grows_by (apply_rewrite g) None 0"
  unfolding shrinks_iff apply_rewrite_def by (auto split: prod.split option.split)

lemma fold_once_depth: "fold_once e = Some e' \<Longrightarrow> expr_depth e' = 1"
  by (cases e rule: fold_once.cases) (auto simp: expr_depth_def split: if_splits)

lemma const_fold_depth: "depth_le k blocks \<Longrightarrow> depth_le k (fst (const_fold_round blocks))"
  unfolding const_fold_round_def for_each_block_expr_mut_def
  by (auto simp: split_def Let_def fold_once_depth depth_Suc split: option.splits intro!: shrink_blocks shrinks_apply)

lemma depth_le_blocks:
  "depth_le k blocks \<Longrightarrow> (\<And>b. b \<in> set blocks \<Longrightarrow> sb_condition (f b) = sb_condition b) \<Longrightarrow>
    (\<And>b s. b \<in> set blocks \<Longrightarrow> s \<in> set (sb_stmts (f b)) \<Longrightarrow> stmt_read_depth (ss_stmt s) \<le> k) \<Longrightarrow> depth_le k (map f blocks)"
  by (auto simp: depth_le_def)

lemma depth_leD: "depth_le k blocks \<Longrightarrow> b \<in> set blocks \<Longrightarrow> s \<in> set (sb_stmts b) \<Longrightarrow> stmt_read_depth (ss_stmt s) \<le> k"
  by (simp add: depth_le_def)

lemma copy_prop_depth:
  assumes "depth_le k blocks"
  shows "depth_le k (fst (copy_prop_round blocks))"
proof -
  let ?g = "\<lambda>e changed. case e of VarE n \<Rightarrow>
      (let r = chase_copy (copies blocks) n in if r \<noteq> n then (Some (VarE r), True) else (None, changed)) | _ \<Rightarrow> (None, changed)"
  have c: "depth_le k (fst (for_each_block_expr_mut ?g blocks False))"
    unfolding for_each_block_expr_mut_def using assms
    by (intro shrink_blocks shrinks_apply) (auto simp: expr_depth_def Let_def split: MicroExpr.splits if_splits)
  have "depth_le k (map (\<lambda>b. fst (resolve_block (copies blocks) b)) (fst (for_each_block_expr_mut ?g blocks False)))"
    using depth_leD [OF c] by (intro depth_le_blocks [OF c]) (simp_all add: resolve_block_def)
  with assms show ?thesis by (simp add: copy_prop_round_def Let_def split_def)
qed

lemma forward_load_depth: "grows_by (forward_load avail d) None (MAX_PROPAGATED_DEPTH - d)"
  by (auto simp: grows_by_def forward_load_def expr_depth_def split: MicroExpr.split option.split)

lemma forward_stmt_depth:
  "stmt_read_depth t \<le> k \<Longrightarrow> MAX_PROPAGATED_DEPTH \<le> k \<Longrightarrow>
    stmt_read_depth (fst (map_stmt_exprs (forward_load avail (stmt_read_depth t)) t s)) \<le> k"
  using stmt_read_depth_le [of _ t]
  by (intro map_stmt_depth [OF forward_load_depth]) (fastforce simp: expr_depth_def)

lemma forward_stmts_depth:
  "\<forall>s \<in> set ss. stmt_read_depth (ss_stmt s) \<le> k \<Longrightarrow> MAX_PROPAGATED_DEPTH \<le> k \<Longrightarrow>
    \<forall>s \<in> set (fst (forward_stmts esc ss avail)). stmt_read_depth (ss_stmt s) \<le> k"
  by (induction ss arbitrary: avail) (auto simp: split_def Let_def forward_stmt_depth)

lemma inline_once_depth: "grows_by (inline_once dst d) (Some (dst, expr_depth d)) 0"
  by (auto simp: grows_by_def inline_once_def expr_depth_def depth_Suc split: MicroExpr.split)

lemma inline_stmt_depth:
  assumes "propagates sp uses s t" "stmt_def s = Some (dst, d)"
  shows "stmt_read_depth (inline_stmt dst d t) \<le> MAX_PROPAGATED_DEPTH"
proof -
  have "\<forall>e \<in> set (stmt_read_exprs t). depth_with (Some (dst, expr_depth d)) e \<le> MAX_PROPAGATED_DEPTH"
    using assms by (simp add: propagates_def not_less max_depth_le)
  then have i: "stmt_read_depth (fst (map_stmt_exprs (inline_once dst d) t False)) \<le> MAX_PROPAGATED_DEPTH"
    by (intro map_stmt_depth [OF inline_once_depth]) simp
  have "grows_by fold_here None 0"
    unfolding shrinks_iff by (auto simp: fold_here_def fold_once_depth depth_Suc split: option.split)
  with i show ?thesis by (simp add: inline_stmt_def Let_def shrink_stmt)
qed

lemma prop_stmts_depth:
  "\<forall>s \<in> set ss. stmt_read_depth (ss_stmt s) \<le> k \<Longrightarrow> MAX_PROPAGATED_DEPTH \<le> k \<Longrightarrow>
    \<forall>s \<in> set (fst (prop_stmts sp uses ss)). stmt_read_depth (ss_stmt s) \<le> k"
proof (induction sp uses ss rule: prop_stmts.induct)
  case (3 sp uses s t rest)
  show ?case
  proof (cases "propagates sp uses (ss_stmt s) (ss_stmt t)")
    case True
    then obtain dst d where d: "stmt_def (ss_stmt s) = Some (dst, d)" by (auto simp: propagates_def split: option.splits)
    have "\<forall>s \<in> set (t\<lparr>ss_stmt := inline_stmt dst d (ss_stmt t)\<rparr> # rest). stmt_read_depth (ss_stmt s) \<le> k"
      using 3(3,4) inline_stmt_depth [OF True d] by auto
    from 3(1) [OF True d refl this 3(4)] True d show ?thesis by simp
  next
    case False
    then show ?thesis using 3(2) [OF False] 3(3,4) by (auto simp: split_def Let_def)
  qed
qed simp_all

text \<open>The bound: no round makes an expression deeper than the deepest one was, or the limit.\<close>

lemma optimize_round_depth:
  assumes "depth_le k blocks" "MAX_PROPAGATED_DEPTH \<le> k"
  shows "depth_le k (fst (optimize_round allocs win64 sp blocks))"
proof -
  have forward: "depth_le k (fst (mem_forward_round allocs win64 bs))" if "depth_le k bs" for bs
    unfolding mem_forward_round_def Let_def fst_conv
    using that forward_stmts_depth [OF _ assms(2)] by (intro depth_le_blocks) (auto simp: forward_block_def Let_def depth_le_def)
  have stores: "depth_le k (fst (dead_store_round win64 bs))" if "depth_le k bs" for bs
    using that by (auto simp: dead_store_round_def Let_def depth_le_def)
  have exprs: "depth_le k (fst (expr_prop_round sp bs))" if "depth_le k bs" for bs
    unfolding expr_prop_round_def Let_def fst_conv
    using that prop_stmts_depth [OF _ assms(2)] by (intro depth_le_blocks) (auto simp: depth_le_def)
  have dce: "depth_le k (fst (dce_round sp bs))" if "depth_le k bs" for bs
    using that by (auto simp: dce_round_def dce_block_def Let_def depth_le_def)
  show ?thesis using assms(1)
    by (simp add: optimize_round_def split_def Let_def forward stores exprs dce const_fold_depth copy_prop_depth)
qed

lemma optimize_rounds_depth:
  "depth_le k blocks \<Longrightarrow> MAX_PROPAGATED_DEPTH \<le> k \<Longrightarrow> depth_le k (fst (optimize_rounds allocs win64 sp fuel rounds blocks))"
proof (induction fuel arbitrary: rounds blocks)
  case (Suc fuel)
  then show ?case using optimize_round_depth [OF Suc.prems] by (auto simp: split_def Let_def)
qed simp

lemma optimize_run_depth:
  "depth_le k blocks \<Longrightarrow> MAX_PROPAGATED_DEPTH \<le> k \<Longrightarrow> depth_le k (fst (optimize_run abi_name sp callsites blocks))"
  unfolding optimize_run_def by (rule optimize_rounds_depth)

section \<open>Where a chain of copies ends\<close>

definition copy_step :: "(string \<rightharpoonup> string) \<Rightarrow> (string \<times> string) set" where
  "copy_step copy_of = {(n, m). copy_of n = Some m}"

lemma copy_path_Suc: "(n, r) \<in> copy_step c ^^ Suc k \<longleftrightarrow> (\<exists>m. c n = Some m \<and> (m, r) \<in> copy_step c ^^ k)"
proof -
  have "copy_step c ^^ Suc k = copy_step c O copy_step c ^^ k" by (simp add: relpow_commute)
  then show ?thesis by (simp add: relcomp_unfold copy_step_def)
qed

lemma copy_path_unique: "(n, r) \<in> copy_step c ^^ i \<Longrightarrow> (n, r) \<in> copy_step c ^^ j \<Longrightarrow> c r = None \<Longrightarrow> i = j"
proof (induction i arbitrary: n j)
  case 0
  then show ?case by (cases j) (auto simp: copy_path_Suc simp del: relpow.simps(2))
next
  case (Suc i)
  then obtain j' where j: "j = Suc j'" by (cases j) (auto simp: copy_path_Suc simp del: relpow.simps(2))
  obtain m where m: "c n = Some m" "(m, r) \<in> copy_step c ^^ i" using Suc.prems(1) by (auto simp: copy_path_Suc simp del: relpow.simps(2))
  have "(m, r) \<in> copy_step c ^^ j'" using Suc.prems(2) m(1) by (auto simp: j copy_path_Suc simp del: relpow.simps(2))
  from Suc.IH [OF m(2) this Suc.prems(3)] show ?case by (simp add: j)
qed

text \<open>A chain that ends visits each name once, so the guard does not cut it short.\<close>

lemma copy_path_length:
  assumes "finite (dom c)" "(n, r) \<in> copy_step c ^^ k" "c r = None"
  shows "k \<le> card (dom c)"
proof -
  have "\<exists>S \<subseteq> dom c. card S = k \<and> (\<forall>a \<in> S. \<exists>j \<le> k. 0 < j \<and> (a, r) \<in> copy_step c ^^ j)" using assms(2)
  proof (induction k arbitrary: n)
    case 0
    show ?case by (rule exI [of _ "{}"]) simp
  next
    case (Suc k)
    obtain m where m: "c n = Some m" "(m, r) \<in> copy_step c ^^ k" using Suc.prems by (auto simp: copy_path_Suc simp del: relpow.simps(2))
    obtain S where S: "S \<subseteq> dom c" "card S = k" "\<forall>a \<in> S. \<exists>j \<le> k. 0 < j \<and> (a, r) \<in> copy_step c ^^ j" using Suc.IH [OF m(2)] by blast
    have "n \<notin> S" using S(3) copy_path_unique [OF Suc.prems _ assms(3)] by fastforce
    moreover have "finite S" using S(1) assms(1) finite_subset by blast
    ultimately have "card (insert n S) = Suc k" using S(2) by simp
    moreover have "insert n S \<subseteq> dom c" using S(1) m(1) by auto
    moreover have "\<forall>a \<in> insert n S. \<exists>j \<le> Suc k. 0 < j \<and> (a, r) \<in> copy_step c ^^ j"
      using S(3) Suc.prems by (metis insert_iff le_SucI order_refl zero_less_Suc)
    ultimately show ?case by blast
  qed
  then show ?thesis using card_mono [OF assms(1)] by auto
qed

lemma chase_path:
  "(n, r) \<in> copy_step c ^^ k \<Longrightarrow> c r = None \<Longrightarrow> hops + k \<le> len + 1 \<Longrightarrow> chase c len hops n = r"
proof (induction k arbitrary: n hops)
  case 0
  then show ?case by (simp add: chase.simps)
next
  case (Suc k)
  then obtain m where m: "c n = Some m" "(m, r) \<in> copy_step c ^^ k" by (auto simp: copy_path_Suc simp del: relpow.simps(2))
  then show ?case using Suc.IH [OF m(2) Suc.prems(2), of "hops + 1"] Suc.prems(3) by (subst chase.simps) simp
qed

lemma finite_copies: "finite (dom (copies blocks))"
proof -
  have f: "(\<And>x m. finite (dom m) \<Longrightarrow> finite (dom (f x m))) \<Longrightarrow> finite (dom m) \<Longrightarrow> finite (dom (fold f xs m))"
    for f :: "'b \<Rightarrow> (string \<rightharpoonup> string) \<Rightarrow> (string \<rightharpoonup> string)" and xs m
    by (induction xs arbitrary: m) auto
  show ?thesis unfolding copies_def
    by (intro f) (auto simp: phi_copy_def stmt_copy_def split: list.split MicroStmt.split MicroExpr.split)
qed

lemma chase_copy_root:
  assumes "(n, r) \<in> (copy_step (copies blocks))\<^sup>*" "copies blocks r = None"
  shows "chase_copy (copies blocks) n = r"
proof -
  obtain k where k: "(n, r) \<in> copy_step (copies blocks) ^^ k" using assms(1) rtrancl_power by blast
  from chase_path [OF k assms(2)] copy_path_length [OF finite_copies k assms(2)] show ?thesis by (simp add: chase_copy_def)
qed

end
