(* ===== verification/Optimize_Alias.thy ===== *)
theory Optimize_Alias
  imports Optimize_Mem Emulate_Props
begin

text \<open>
  What the forwarding of stores rests on: two bases that hold one address. A slot is followed by the
  name of its base, and a store through another base is taken not to touch a base that is only ever
  an address. A frame register set from the stack pointer is such a base, so a store to the same
  bytes through the stack pointer goes unseen, and the load gives the older value.
\<close>

definition alias_block :: SsaBlock where
  "alias_block = \<lparr>sb_id = 0, sb_start = 0x1000, sb_end = 0x1010, sb_terminator = ''ret'', sb_successors = [], sb_phis = [],
     sb_stmts = [
       \<lparr>ss_va = 0x1000, ss_stmt = AssignS ''rbp.1'' (BinaryE BinOp_Sub (VarE ''rsp.0'') (ConstE 16 64))\<rparr>,
       \<lparr>ss_va = 0x1004, ss_stmt = StoreS (VarE ''rbp.1'') (ConstE 1 64) 64\<rparr>,
       \<lparr>ss_va = 0x1008, ss_stmt = StoreS (BinaryE BinOp_Sub (VarE ''rsp.0'') (ConstE 16 64)) (ConstE 2 64) 64\<rparr>,
       \<lparr>ss_va = 0x100c, ss_stmt = ReturnS (Some (LoadE (VarE ''rbp.1'') 64 False))\<rparr>],
     sb_condition = None\<rparr>"

definition alias_forwarded :: SsaBlock where
  "alias_forwarded = alias_block\<lparr>sb_stmts := take 3 (sb_stmts alias_block) @ [\<lparr>ss_va = 0x100c, ss_stmt = ReturnS (Some (ConstE 1 64))\<rparr>]\<rparr>"

lemma alias_escape: "es_bases (escape_info [alias_block] win64) = {''rsp.0''}" "es_slots (escape_info [alias_block] win64) = {}"
  by (simp_all add: escape_info_def escape_block_def alias_block_def)

lemma alias_cross: "cross_facts esc [alias_block] = [[]]"
  by (simp add: cross_facts_def block_preds_def cross_block_def idx_of_def facts_eq_def alias_block_def numeral_2_eq_2)

lemma alias_survives:
  "call_safe (escape_info [alias_block] win64) ''rbp.1'' 0"
  by (simp add: call_safe_def alias_escape ABS_BASE_def)

text \<open>One step of the walk, for a statement without and with a forwarded load.\<close>

lemma forward_miss:
  "map_stmt_exprs (forward_load avail (stmt_read_depth (ss_stmt s))) (ss_stmt s) False = (t, False) \<Longrightarrow>
    clobber_for_stmt esc (ss_stmt s) avail @ gen_fact expr_is_pure (ss_stmt s) = avail' \<Longrightarrow>
    forward_stmts esc ss avail' = (ss', c) \<Longrightarrow> forward_stmts esc (s # ss) avail = (s # ss', c)"
  by simp

lemma forward_hit:
  "map_stmt_exprs (forward_load avail (stmt_read_depth (ss_stmt s))) (ss_stmt s) False = (t, True) \<Longrightarrow>
    forward_stmts esc [s] avail = ([s\<lparr>ss_stmt := t\<rparr>], True)"
  by simp

definition alias_fact :: Avail where
  "alias_fact = \<lparr>av_base = ''rbp.1'', av_off = 0, av_bits = 64, av_value = ConstE 1 64, av_from_seed = False\<rparr>"

lemma alias_forward:
  assumes "call_safe esc ''rbp.1'' 0"
  shows "forward_stmts esc (sb_stmts alias_block) [] = (sb_stmts alias_forwarded, True)"
proof -
  let ?s = "\<lambda>i. sb_stmts alias_block ! i"
  let ?f2 = "\<lparr>av_base = ''rsp.0'', av_off = - 16, av_bits = 64, av_value = ConstE 2 64, av_from_seed = False\<rparr>"
  have d: "stmt_read_depth (ss_stmt (?s 3)) = 2" by (simp add: alias_block_def stmt_read_depth_def max_depth_def expr_depth_def)
  have s3: "forward_stmts esc [?s 3] [alias_fact, ?f2] = ([(?s 3)\<lparr>ss_stmt := ReturnS (Some (ConstE 1 64))\<rparr>], True)"
    by (rule forward_hit, unfold d)
      (simp add: alias_block_def forward_load_def mem_key_def same_slot_def alias_fact_def expr_depth_def MAX_PROPAGATED_DEPTH_def)
  have s2: "forward_stmts esc [?s 2, ?s 3] [alias_fact] = ([?s 2, (?s 3)\<lparr>ss_stmt := ReturnS (Some (ConstE 1 64))\<rparr>], True)"
    by (rule forward_miss [OF _ _ s3]) (simp_all add: alias_block_def forward_load_def clobber_for_stmt_def survives_store_def
      gen_fact_def mem_key_def alias_fact_def assms)
  have s1: "forward_stmts esc [?s 1, ?s 2, ?s 3] [] = ([?s 1, ?s 2, (?s 3)\<lparr>ss_stmt := ReturnS (Some (ConstE 1 64))\<rparr>], True)"
    by (rule forward_miss [OF _ _ s2]) (simp_all add: alias_block_def forward_load_def clobber_for_stmt_def gen_fact_def mem_key_def alias_fact_def)
  have s0: "forward_stmts esc [?s 0, ?s 1, ?s 2, ?s 3] [] = ([?s 0, ?s 1, ?s 2, (?s 3)\<lparr>ss_stmt := ReturnS (Some (ConstE 1 64))\<rparr>], True)"
    by (rule forward_miss [OF _ _ s1]) (simp_all add: alias_block_def forward_load_def clobber_for_stmt_def gen_fact_def)
  have "sb_stmts alias_block = [?s 0, ?s 1, ?s 2, ?s 3]" by (simp add: alias_block_def)
  moreover have "sb_stmts alias_forwarded = [?s 0, ?s 1, ?s 2, (?s 3)\<lparr>ss_stmt := ReturnS (Some (ConstE 1 64))\<rparr>]"
    by (simp add: alias_forwarded_def alias_block_def numeral_3_eq_3)
  ultimately show ?thesis using s0 by simp
qed

lemma alias_forwards: "mem_forward_round {} False [alias_block] = ([alias_forwarded], True)"
proof -
  let ?esc = "(escape_info [alias_block] False)\<lparr>es_alloc_bases := {}\<rparr>"
  have safe: "call_safe ?esc ''rbp.1'' 0" using alias_survives [of False] by (simp add: call_safe_def)
  have i: "idx_of [alias_block] (sb_start alias_block) = Some 0" by (simp add: idx_of_def)
  from alias_forward [OF safe] show ?thesis by (simp add: mem_forward_round_def forward_block_def Let_def alias_cross i alias_forwarded_def)
qed

lemma count_step_ok: "em_steps st < ec_max_steps cfg \<Longrightarrow> count_step cfg st = (Inr (), st\<lparr>em_steps := Suc (em_steps st)\<rparr>)"
  by (simp add: count_step_def Let_def)

lemma exec_stmts_step:
  assumes "em_steps st < ec_max_steps cfg" "exec_stmt cfg (ss_va s) (ss_stmt s) (st\<lparr>em_steps := Suc (em_steps st)\<rparr>) = (Inr None, st')"
  shows "exec_stmts cfg (s # ss) st = exec_stmts cfg ss st'"
  using assms by (simp add: count_step_ok ebind_def)

lemma alias_slot: "em_vars st ''rsp.0'' = Some 0x7000 \<Longrightarrow> eval cfg va (BinaryE BinOp_Sub (VarE ''rsp.0'') (ConstE 16 64)) st = (Inr 0x6ff0, st)"
  by (simp add: eval_var_def ebind_def eret_def lift_emu_def eval_binary_def is_bitwise_def binop_def extend_bits_def)

lemma alias_assign:
  assumes "em_vars st ''rsp.0'' = Some 0x7000"
  shows "exec_stmt cfg va (AssignS ''rbp.1'' (BinaryE BinOp_Sub (VarE ''rsp.0'') (ConstE 16 64))) st =
    (Inr None, st\<lparr>em_vars := (em_vars st)(''rbp.1'' \<mapsto> 0x6ff0)\<rparr>)"
  using alias_slot [OF assms, of cfg va]
  by (simp add: exec_assign_def is_flags_def base_name_def FLAGS_VAR_def set_var_def ebind_def eret_def del: eval.simps)

lemma store_step:
  "eval cfg va addr st = (Inr a, st) \<Longrightarrow> eval cfg va val st = (Inr v, st) \<Longrightarrow>
    exec_stmt cfg va (StoreS addr val 64) st = (Inr None, st\<lparr>em_mem := mem_write (em_mem st) (ucast a) v 64\<rparr>)"
  by (simp add: exec_store_def ebind_def eret_def WORD_BITS_def)

lemma load_step:
  assumes "eval cfg va addr st = (Inr a, st)" "em_mem st = mem_write m (ucast a) v 64" and v: "take_bit 64 v = v"
  shows "\<exists>st'. eval cfg va (LoadE addr 64 False) st = (Inr v, st')"
proof -
  have a: "access_bytes 64 = 8" by (simp add: access_bytes_def)
  have m: "fst (mem_read (ec_backing cfg) (em_mem st) (ucast a) 64) = Inr v"
    using mem_read_back [of 64 "ec_backing cfg" m "ucast a" v] v by (simp add: assms(2) a WORD_BITS_def)
  then obtain mem where "mem_read (ec_backing cfg) (em_mem st) (ucast a) 64 = (Inr v, mem)" by (metis prod.collapse)
  moreover have "extend_bits v 64 False = v" using v by (simp add: extend_bits_def Let_def take_bit_eq_mask mask_eq_decr_exp)
  ultimately show ?thesis using assms(1) by (simp add: ebind_def eval_load_def)
qed

lemma alias_prefix:
  assumes "em_vars st ''rsp.0'' = Some 0x7000" "em_steps st + 3 < ec_max_steps cfg"
  shows "\<exists>st' m. exec_stmts cfg (take 3 (sb_stmts alias_block) @ ss) st = exec_stmts cfg ss st' \<and>
    em_vars st' ''rbp.1'' = Some 0x6ff0 \<and> em_mem st' = mem_write m 0x6ff0 2 64 \<and> em_steps st' = em_steps st + 3"
proof -
  let ?s = "\<lambda>i. sb_stmts alias_block ! i"
  let ?st1 = "st\<lparr>em_steps := Suc (em_steps st), em_vars := (em_vars st)(''rbp.1'' \<mapsto> 0x6ff0)\<rparr>"
  let ?st2 = "?st1\<lparr>em_steps := Suc (em_steps ?st1), em_mem := mem_write (em_mem st) 0x6ff0 1 64\<rparr>"
  let ?st3 = "?st2\<lparr>em_steps := Suc (em_steps ?st2), em_mem := mem_write (em_mem ?st2) 0x6ff0 2 64\<rparr>"
  have c: "eval cfg va (ConstE 1 64) s = (Inr 1, s)" "eval cfg va (ConstE 2 64) s = (Inr 2, s)" for va s
    by (simp_all add: eret_def extend_bits_def)
  have e1: "exec_stmts cfg (?s 0 # ss) st = exec_stmts cfg ss ?st1" for ss
    using assms alias_assign [of "st\<lparr>em_steps := Suc (em_steps st)\<rparr>" cfg] by (intro exec_stmts_step) (simp_all add: alias_block_def)
  have e2: "exec_stmts cfg (?s 1 # ss) ?st1 = exec_stmts cfg ss ?st2" for ss
    using assms store_step [OF _ c(1), where addr = "VarE ''rbp.1''" and a = "0x6ff0" and st = "?st1\<lparr>em_steps := Suc (em_steps ?st1)\<rparr>"]
    by (intro exec_stmts_step) (simp_all add: alias_block_def eval_var_def)
  have e3: "exec_stmts cfg (?s 2 # ss) ?st2 = exec_stmts cfg ss ?st3" for ss
    using assms store_step [OF alias_slot c(2), of "?st2\<lparr>em_steps := Suc (em_steps ?st2)\<rparr>"]
    by (intro exec_stmts_step) (simp_all add: alias_block_def del: eval.simps)
  have "take 3 (sb_stmts alias_block) = [?s 0, ?s 1, ?s 2]" by (simp add: alias_block_def numeral_3_eq_3)
  then have "exec_stmts cfg (take 3 (sb_stmts alias_block) @ ss) st = exec_stmts cfg ss ?st3"
    by (simp only: append.simps e1 e2 e3)
  then show ?thesis by (intro exI conjI, assumption) simp_all
qed

text \<open>The block answers \<open>2\<close>; the block the optimizer makes of it answers \<open>1\<close>.\<close>

lemma alias_answers:
  assumes "em_vars st ''rsp.0'' = Some 0x7000" "em_steps st + 3 < ec_max_steps cfg"
  shows "fst (exec_stmts cfg (sb_stmts alias_block) st) = Inr (Some (Some 2))"
    and "fst (exec_stmts cfg (sb_stmts alias_forwarded) st) = Inr (Some (Some 1))"
proof -
  have s: "sb_stmts alias_block = take 3 (sb_stmts alias_block) @ [\<lparr>ss_va = 0x100c, ss_stmt = ReturnS (Some (LoadE (VarE ''rbp.1'') 64 False))\<rparr>]"
    by (simp add: alias_block_def numeral_3_eq_3)
  have f: "sb_stmts alias_forwarded = take 3 (sb_stmts alias_block) @ [\<lparr>ss_va = 0x100c, ss_stmt = ReturnS (Some (ConstE 1 64))\<rparr>]"
    by (simp add: alias_forwarded_def)
  show "fst (exec_stmts cfg (sb_stmts alias_block) st) = Inr (Some (Some 2))"
  proof -
    obtain st' m where st': "exec_stmts cfg (sb_stmts alias_block) st = exec_stmts cfg [\<lparr>ss_va = 0x100c, ss_stmt = ReturnS (Some (LoadE (VarE ''rbp.1'') 64 False))\<rparr>] st'"
      "em_vars st' ''rbp.1'' = Some 0x6ff0" "em_mem st' = mem_write m 0x6ff0 2 64" "em_steps st' = em_steps st + 3"
      using alias_prefix [OF assms] s by metis
    let ?st = "st'\<lparr>em_steps := Suc (em_steps st')\<rparr>"
    obtain st2 where "eval cfg 0x100c (LoadE (VarE ''rbp.1'') 64 False) ?st = (Inr 2, st2)"
      using load_step [where addr = "VarE ''rbp.1''" and a = "0x6ff0" and st = ?st and v = "2" and m = m] st'(2,3) by (auto simp: eval_var_def)
    then show ?thesis using assms(2) st'(1,4) by (simp add: count_step_ok ebind_def eret_def)
  qed
  show "fst (exec_stmts cfg (sb_stmts alias_forwarded) st) = Inr (Some (Some 1))"
  proof -
    obtain st' where st': "exec_stmts cfg (sb_stmts alias_forwarded) st = exec_stmts cfg [\<lparr>ss_va = 0x100c, ss_stmt = ReturnS (Some (ConstE 1 64))\<rparr>] st'"
      "em_steps st' = em_steps st + 3"
      using alias_prefix [OF assms] f by metis
    then show ?thesis using assms(2) by (simp add: count_step_ok ebind_def eret_def extend_bits_def)
  qed
qed

end
