(* ===== verification/Optimize_Fold.thy ===== *)
theory Optimize_Fold
  imports Optimize Emulate_Props
begin

text \<open>
  Constant folding against the emulator: a folded operation over two literals of one width is what
  the emulator computes, cut to that width.
\<close>

section \<open>Widths\<close>

lemma low_bits: "1 \<le> b \<Longrightarrow> b < 128 \<Longrightarrow> v AND (push_bit b 1 - 1) = take_bit b (v :: u128)"
  by (metis (no_types, lifting) less_imp_le low_mask take_bit_eq_mask less_irrefl)

lemma mask_to_bits_take: "1 \<le> b \<Longrightarrow> b < 128 \<Longrightarrow> mask_to_bits v b = take_bit b v"
  unfolding mask_to_bits_def by (simp only: low_bits) simp

lemma extend_bits_take: "1 \<le> b \<Longrightarrow> b < 128 \<Longrightarrow> extend_bits v b False = take_bit b v"
  unfolding extend_bits_def Let_def by (simp only: low_bits) simp

lemma sign_extend_signed:
  assumes b: "1 \<le> b" "b < 128"
  shows "sign_extend v b = signed_take_bit (b - 1) v"
proof (intro bit_eqI)
  fix n assume "possible_bit TYPE(i128) n"
  then have n: "n < 128" by simp
  show "bit (sign_extend v b) n \<longleftrightarrow> bit (signed_take_bit (b - 1) v) n"
  proof (cases "n < b")
    case True
    then have "n = b - 1" if "b - 1 \<le> n" using that by linarith
    with True b n show ?thesis
      by (auto simp: sign_extend_def bit_signed_drop_bit_iff bit_push_bit_iff bit_signed_take_bit_iff min_def)
  next
    case False
    with b n show ?thesis
      by (auto simp: sign_extend_def bit_signed_drop_bit_iff bit_push_bit_iff bit_signed_take_bit_iff min_def)
  qed
qed

lemma sint_sign_extend: "1 \<le> b \<Longrightarrow> b < 128 \<Longrightarrow> sint (sign_extend v b) = signed_take_bit (b - 1) (uint v)"
  using sint_signed_extend [of b v] by (simp add: sign_extend_signed)

lemma uint_take: "1 \<le> b \<Longrightarrow> b < 128 \<Longrightarrow> take_bit b (v :: u128) = v \<longleftrightarrow> uint v < 2 ^ b"
  by (metis take_bit_int_eq_self_iff uint_0_iff uint_lt_0 uint_take_bit_u128 word_uint_eq_iff not_le)

text \<open>A literal that fits in a width of at most 64 bits.\<close>

lemma fits_64:
  assumes "uint (v :: u128) < 2 ^ b" "b \<le> 64"
  shows "uint (ucast v :: u64) = uint v" "sint v = uint v" "unat (ucast v :: u64) = unat v" "uint v < 2 ^ 64"
proof -
  have "(2 :: int) ^ b \<le> 2 ^ 64" using assms(2) by (rule power_increasing) simp
  then show l: "uint v < 2 ^ 64" using assms(1) by linarith
  then show u: "uint (ucast v :: u64) = uint v" by (simp add: unsigned_ucast_eq take_bit_int_eq_self)
  then show "unat (ucast v :: u64) = unat v" by (metis nat_uint_eq)
  have "signed_take_bit 127 (uint v) = uint v" 
  proof (rule signed_take_bit_int_eq_self)
    show "- (2 ^ 127) \<le> uint v" using uint_ge_0 [of v] by (rule order_trans [rotated]) simp
    show "uint v < 2 ^ 127" using l by (rule less_trans) simp
  qed
  then show "sint v = uint v" by (simp add: sint_uint)
qed

section \<open>One operation\<close>

lemma cut_eqI:
  assumes "b \<le> 64" "take_bit b (uint (x :: u128)) = take_bit b (uint (w :: u64))"
  shows "take_bit b x = take_bit b (ucast w :: u128)"
  using assms by (intro word_uint_eqI) (simp add: uint_take_bit_u128 unsigned_ucast_eq min_def)

definition runs_at_64 :: "BinOp \<Rightarrow> bool" where
  "runs_at_64 bop \<longleftrightarrow> bop \<in> {BinOp_Sar, BinOp_Slt, BinOp_Sle, BinOp_Sgt, BinOp_Sge}"

text \<open>Two literals that fit in \<open>b\<close> bits.\<close>

definition fit :: "nat \<Rightarrow> u128 \<Rightarrow> u128 \<Rightarrow> bool" where
  "fit b l r \<longleftrightarrow> 1 \<le> b \<and> b \<le> 64 \<and> uint l < 2 ^ b \<and> uint r < 2 ^ b"

lemma fitD:
  assumes "fit b l r"
  shows "1 \<le> b" "b \<le> 64" "b < 128" "uint (ucast l :: u64) = uint l" "sint l = uint l" "unat (ucast l :: u64) = unat l" "uint l < 2 ^ 64"
    "uint (ucast r :: u64) = uint r" "sint r = uint r" "unat (ucast r :: u64) = unat r" "uint r < 2 ^ 64"
    "mask_to_bits l b = l" "mask_to_bits r b = r" "take_bit b l = l" "take_bit b r = r"
  using assms fits_64 [of l b] fits_64 [of r b] by (simp_all add: fit_def mask_to_bits_take uint_take)

lemma ring_cut:
  assumes "fit b l r"
  shows "take_bit b (l + r) = take_bit b (ucast (ucast l + ucast r :: u64))"
    "take_bit b (l - r) = take_bit b (ucast (ucast l - ucast r :: u64))"
    "take_bit b (l * r) = take_bit b (ucast (ucast l * ucast r :: u64))"
  using fitD [OF assms] by (intro cut_eqI; simp add: uint_word_arith_bintrs)+

lemma uint_wide: "uint (ucast (w :: u64) :: u128) = uint w"
  by (rule uint_up_ucast) (simp add: is_up)

lemma uint_of_small: "0 \<le> k \<Longrightarrow> k < 2 ^ 64 \<Longrightarrow> uint (word_of_int k :: u128) = k"
  by (simp add: uint_word_of_int)

lemma nonneg_signed: "0 \<le> k \<Longrightarrow> 0 \<le> n \<Longrightarrow> k sdiv n = k div (n :: int)" "0 \<le> k \<Longrightarrow> 0 \<le> n \<Longrightarrow> k smod n = k mod (n :: int)"
  by (auto simp: signed_divide_int_def signed_modulo_int_def sgn_if)

lemma div_cut:
  assumes "fit b l r"
  shows "i128_div l r = ucast (ucast l div ucast r :: u64)" "i128_rem l r = ucast (ucast l mod ucast r :: u64)"
proof -
  note f = fitD [OF assms]
  have "uint l div uint r \<le> uint l" by (metis div_le_dividend of_nat_le_iff of_nat_unat zdiv_int)
  then have d: "0 \<le> uint l div uint r" "uint l div uint r < 2 ^ 64" 
    using f(7) uint_ge_0 [of "l div r"] by (simp only: uint_div, linarith)
  have m: "0 \<le> uint l mod uint r" "uint l mod uint r < 2 ^ 64"
    using zmod_le_nonneg_dividend [OF uint_ge_0, of l "uint r"] f(7) uint_ge_0 [of "l mod r"] by (simp only: uint_mod, linarith)
  show "i128_div l r = ucast (ucast l div ucast r :: u64)"
    by (rule word_uint_eqI) (simp only: i128_div_def f nonneg_signed uint_ge_0 uint_of_small [OF d] uint_wide uint_div)
  show "i128_rem l r = ucast (ucast l mod ucast r :: u64)"
    by (rule word_uint_eqI) (simp only: i128_rem_def f nonneg_signed uint_ge_0 uint_of_small [OF m] uint_wide uint_mod)
qed

lemma shift_cut:
  assumes "fit b l r"
  shows "take_bit b (Shift_apply Shift_Shl l r 128) = take_bit b (ucast (ucast (Shift_apply Shift_Shl (ucast (ucast l :: u64)) (ucast (ucast r :: u64)) 64) :: u64))"
    "take_bit b (Shift_apply Shift_Shr l r 128) = take_bit b (ucast (ucast (Shift_apply Shift_Shr (ucast (ucast l :: u64)) (ucast (ucast r :: u64)) 64) :: u64))"
    "b = 64 \<Longrightarrow> take_bit b (Shift_apply Shift_Sar (sign_extend l b) r 128) =
       take_bit b (ucast (ucast (Shift_apply Shift_Sar (ucast (ucast l :: u64)) (ucast (ucast r :: u64)) 64) :: u64))"
proof -
  note f = fitD [OF assms]
  have u: "uint (ucast (ucast l :: u64) :: u128) = uint l" "unat (ucast (ucast r :: u64) :: u128) = unat r"
    using f by (simp_all add: uint_wide) (metis nat_uint_eq uint_wide)
  have n: "uint (ucast x :: u64) = take_bit 64 (uint x)" for x :: u128 by (simp add: unsigned_ucast_eq)
  have w: "max (1 :: nat) (min 128 128) = 128" "max (1 :: nat) (min 128 64) = 64" by simp_all
  have c: "take_bit b (take_bit 128 k) = take_bit b k" "take_bit b (take_bit 64 k) = take_bit b k" for k :: int using f(1-3) by simp_all
  show "take_bit b (Shift_apply Shift_Shl l r 128) = take_bit b (ucast (ucast (Shift_apply Shift_Shl (ucast (ucast l :: u64)) (ucast (ucast r :: u64)) 64) :: u64))"
    using f(2) by (intro cut_eqI) (simp_all only: n Shift_apply_exact w u Shift.case take_bit_eq_mod [symmetric] c)
  show "take_bit b (Shift_apply Shift_Shr l r 128) = take_bit b (ucast (ucast (Shift_apply Shift_Shr (ucast (ucast l :: u64)) (ucast (ucast r :: u64)) 64) :: u64))"
    using f(2,7) by (intro cut_eqI) (simp_all add: n Shift_apply_exact u)
  assume b: "b = 64"
  have s: "signed_take_bit 127 (uint (sign_extend l 64)) = signed_take_bit 63 (uint l)"
    using sint_sign_extend [of 64 l] by (simp add: sint_uint)
  show "take_bit b (Shift_apply Shift_Sar (sign_extend l b) r 128) =
       take_bit b (ucast (ucast (Shift_apply Shift_Sar (ucast (ucast l :: u64)) (ucast (ucast r :: u64)) 64) :: u64))"
    unfolding b by (intro cut_eqI) (simp_all only: n Shift_apply_exact w u s Shift.case take_bit_eq_mod [symmetric] take_bit_take_bit, simp_all add: s)
qed

lemma fold_binary_agrees:
  assumes f: "fit b l r" and ops: "bop \<noteq> BinOp_SDiv" "bop \<noteq> BinOp_SMod" "runs_at_64 bop \<Longrightarrow> b = 64"
    and v: "fold_binary bop l r b = Some v"
  shows "\<exists>w. eval_binary bop l r va = Inr w \<and> v = take_bit b w"
proof -
  note c = fitD [OF f]
  have m: "mask_to_bits x b = take_bit b x" for x using c by (simp add: mask_to_bits_take)
  have z: "(ucast r :: u64) = 0 \<longleftrightarrow> r = 0" using c(8) by (metis uint_0_iff)
  show ?thesis
  proof (cases bop)
    case BinOp_Sar
    then have "b = 64" using ops(3) by (simp add: runs_at_64_def)
    have "v = take_bit b (Shift_apply Shift_Sar (sign_extend l b) r 128)"
      using v BinOp_Sar by (auto simp: fold_binary_def Let_def c m split: if_splits)
    with BinOp_Sar shift_cut(3) [OF f \<open>b = 64\<close>] show ?thesis
      by (simp add: eval_binary_def is_bitwise_def binop_def)
  qed (use v ops(1,2) ring_cut [OF f] div_cut [OF f] shift_cut(1,2) [OF f] z in
    \<open>auto simp: fold_binary_def Let_def c m eval_binary_def is_bitwise_def eval_bitwise_def binop_def split: if_splits\<close>)
qed

lemma fold_compare_agrees:
  assumes f: "fit b l r" and ops: "runs_at_64 bop \<Longrightarrow> b = 64" and v: "fold_compare bop l r b = Some v"
  shows "eval_binary bop l r va = Inr v \<and> uint v < 2"
proof -
  note c = fitD [OF f]
  have less: "(ucast l :: u64) < ucast r \<longleftrightarrow> l < r" "(ucast r :: u64) < ucast l \<longleftrightarrow> r < l"
    "(ucast l :: u64) \<le> ucast r \<longleftrightarrow> l \<le> r" "(ucast r :: u64) \<le> ucast l \<longleftrightarrow> r \<le> l" "(ucast l :: u64) = ucast r \<longleftrightarrow> l = r"
    using c(4,8) by (simp_all add: word_less_def word_le_def) (metis word_uint_eq_iff)
  have s: "sint (ucast x :: u64) = sint (sign_extend x 64)" if "uint (ucast x :: u64) = uint x" for x
    using that sint_sign_extend [of 64 x] by (simp add: sint_uint)
  note ss = s [OF c(4)] s [OF c(8)]
  show ?thesis
  proof (cases "runs_at_64 bop")
    case True
    have ss': "sint (sign_extend l b) = sint (ucast l :: u64)" "sint (sign_extend r b) = sint (ucast r :: u64)"
      using ss ops [OF True] by simp_all
    from v True show ?thesis unfolding fold_compare_def Let_def c(12,13) ss'
      by (cases bop) (auto simp: runs_at_64_def eval_binary_def is_bitwise_def binop_def)
  next
    case False
    with v show ?thesis
      by (cases bop) (auto simp: runs_at_64_def fold_compare_def Let_def c less eval_binary_def is_bitwise_def binop_def)
  qed
qed

text \<open>A folded operation over two literals: what the emulator computes, cut to their width.\<close>

lemma fold_agrees:
  assumes f: "fit b l r" and ops: "bop \<noteq> BinOp_SDiv" "bop \<noteq> BinOp_SMod" "runs_at_64 bop \<Longrightarrow> b = 64"
    and e: "fold_once (BinaryE bop (ConstE l b) (ConstE r b)) = Some e'"
  shows "\<exists>w. eval cfg va (BinaryE bop (ConstE l b) (ConstE r b)) st = (Inr w, st) \<and>
    eval cfg va e' st = (Inr (take_bit (if is_comparison bop then 1 else b) w), st)"
proof -
  note c = fitD [OF f]
  have lits: "extend_bits l b False = l" "extend_bits r b False = r" using c by (simp_all add: extend_bits_take)
  show ?thesis
  proof (cases "is_comparison bop")
    case True
    then obtain v where v: "fold_compare bop l r b = Some v" and e': "e' = ConstE v 1" using e by auto
    have w: "eval_binary bop l r va = Inr v" "uint v < 2" using fold_compare_agrees [OF f ops(3) v] by auto
    have t: "take_bit 1 v = v" by (rule iffD2 [OF uint_take]) (use w(2) in simp_all)
    have "extend_bits v 1 False = v" using extend_bits_take [of 1 v] t by simp
    then show ?thesis using w(1) True t by (simp add: e' lits ebind_def eret_def lift_emu_def del: take_bit_numeral_1)
  next
    case False
    then obtain v where v: "fold_binary bop l r b = Some v" and e': "e' = ConstE v b" using e by auto
    obtain w where w: "eval_binary bop l r va = Inr w" "v = take_bit b w" using fold_binary_agrees [OF f ops v] by auto
    have "extend_bits v b False = v" using c by (simp add: extend_bits_take w(2))
    then show ?thesis using w False by (simp add: e' lits ebind_def eret_def lift_emu_def)
  qed
qed

section \<open>Where folding and the emulator part\<close>

text \<open>
  A signed division is folded on the unsigned operands: \<open>-6 / 2\<close> at 64 bits becomes \<open>2 ^ 63 - 3\<close>. The right
  literal is cut to the width of the left one. A signed cast of a literal keeps its sign in the value
  and loses it when the literal is read.
\<close>

lemma fold_signed_division:
  "fold_once (BinaryE BinOp_SDiv (ConstE 0xfffffffffffffffa 64) (ConstE 2 64)) = Some (ConstE 0x7ffffffffffffffd 64)"
  "eval_binary BinOp_SDiv 0xfffffffffffffffa 2 va = Inr 0xfffffffffffffffd"
  by code_simp+

lemma fold_narrow_left:
  "fold_once (BinaryE BinOp_Add (ConstE 1 32) (ConstE 0x10000000000 64)) = Some (ConstE 1 32)"
  "eval_binary BinOp_Add 1 0x10000000000 va = Inr 0x10000000001"
  by code_simp+

lemma fold_signed_cast:
  "fold_once (CastE True 8 (ConstE 0xff 8)) = Some (ConstE (- 1) 8)"
  "extend_bits (extend_bits 0xff 8 False) 8 True = - 1"
  "extend_bits (- 1) 8 False = 0xff"
  by code_simp+

end
