(* ===== verification/Value_Set.thy ===== *)
theory Value_Set
  imports Micro "HOL-Library.Signed_Division"
begin

text \<open>
  The value-set analysis, \<open>src/crates/n0xis-core/src/valueset.rs\<close>: the values a variable may hold, an
  expression over such sets, one pass over the blocks, the passes until nothing changes, and what two
  addresses say of each other. A \<open>BTreeSet\<close> is a finite set; where the code walks pairs of values and
  leaves the loops early it answers \<open>Top\<close>, in whatever order it walks them.
\<close>

section \<open>Value sets\<close>

definition MAX_TRACKED_VALUES :: nat where
  "MAX_TRACKED_VALUES = 8"

definition MAX_ITERATIONS :: nat where
  "MAX_ITERATIONS = 20"

datatype ValueSet = VS_Bottom | VS_Values "i128 set" | VS_Top

fun VS_join :: "ValueSet \<Rightarrow> ValueSet \<Rightarrow> ValueSet" where
  "VS_join VS_Bottom x = x"
| "VS_join x VS_Bottom = x"
| "VS_join VS_Top _ = VS_Top"
| "VS_join _ VS_Top = VS_Top"
| "VS_join (VS_Values x) (VS_Values y) = (if card (x \<union> y) > MAX_TRACKED_VALUES then VS_Top else VS_Values (x \<union> y))"

definition VS_singleton :: "i128 \<Rightarrow> ValueSet" where
  "VS_singleton v = VS_Values {v}"

definition as_single :: "ValueSet \<Rightarrow> i128 option" where
  "as_single s = (case s of VS_Values xs \<Rightarrow> if card xs = 1 then Some (the_elem xs) else None | _ \<Rightarrow> None)"

datatype AliasResult = MustAlias | NoAlias | MayAlias

section \<open>Expressions\<close>

definition i128_wrapping_div :: "i128 \<Rightarrow> i128 \<Rightarrow> i128" where
  "i128_wrapping_div l r = word_of_int (sint l sdiv sint r)"

definition i128_wrapping_rem :: "i128 \<Rightarrow> i128 \<Rightarrow> i128" where
  "i128_wrapping_rem l r = word_of_int (sint l smod sint r)"

definition vs_binop :: "BinOp \<Rightarrow> i128 \<Rightarrow> i128 \<Rightarrow> i128 option" where
  "vs_binop bop l r = (case bop of
     BinOp_Add \<Rightarrow> Some (l + r)
   | BinOp_Sub \<Rightarrow> Some (l - r)
   | BinOp_Mul \<Rightarrow> Some (l * r)
   | BinOp_UDiv \<Rightarrow> if r = 0 then None else Some (i128_wrapping_div l r)
   | BinOp_SDiv \<Rightarrow> if r = 0 then None else Some (i128_wrapping_div l r)
   | BinOp_UMod \<Rightarrow> if r = 0 then None else Some (i128_wrapping_rem l r)
   | BinOp_SMod \<Rightarrow> if r = 0 then None else Some (i128_wrapping_rem l r)
   | BinOp_And \<Rightarrow> Some (l AND r)
   | BinOp_Or \<Rightarrow> Some (l OR r)
   | BinOp_Xor \<Rightarrow> Some (l XOR r)
   | BinOp_Eq \<Rightarrow> Some (of_bool (l = r))
   | BinOp_Ne \<Rightarrow> Some (of_bool (l \<noteq> r))
   | BinOp_Ult \<Rightarrow> Some (of_bool (l < r))
   | BinOp_Ule \<Rightarrow> Some (of_bool (l \<le> r))
   | BinOp_Ugt \<Rightarrow> Some (of_bool (r < l))
   | BinOp_Uge \<Rightarrow> Some (of_bool (r \<le> l))
   | BinOp_Slt \<Rightarrow> Some (of_bool (sint l < sint r))
   | BinOp_Sle \<Rightarrow> Some (of_bool (sint l \<le> sint r))
   | BinOp_Sgt \<Rightarrow> Some (of_bool (sint r < sint l))
   | BinOp_Sge \<Rightarrow> Some (of_bool (sint r \<le> sint l))
   | _ \<Rightarrow> Some (case as_shift bop of None \<Rightarrow> 0 | Some s \<Rightarrow> Shift_apply s l r 128))"

text \<open>As in the optimizer, the mask of 127 bits wraps.\<close>

definition truncate_bits :: "i128 \<Rightarrow> nat \<Rightarrow> bool \<Rightarrow> i128" where
  "truncate_bits v bits sg = (if bits = 0 \<or> 128 \<le> bits then v
     else let masked = v AND (push_bit bits 1 - 1) in
       if sg \<and> masked AND push_bit (bits - 1) 1 \<noteq> 0 then masked - push_bit bits 1 else masked)"

text \<open>Every value of one set with every value of another.\<close>

definition vs_pairs :: "BinOp \<Rightarrow> i128 set \<Rightarrow> i128 set \<Rightarrow> ValueSet" where
  "vs_pairs bop ls rs = (if \<exists>l \<in> ls. \<exists>r \<in> rs. vs_binop bop l r = None then VS_Top
     else let out = (\<Union>l \<in> ls. (\<lambda>r. the (vs_binop bop l r)) ` rs) in
       if out = {} \<or> card out > MAX_TRACKED_VALUES then VS_Top else VS_Values out)"

type_synonym vs_env = "string \<rightharpoonup> ValueSet"

fun vs_eval :: "vs_env \<Rightarrow> MicroExpr \<Rightarrow> ValueSet" where
  "vs_eval env (ConstE v b) = VS_singleton v"
| "vs_eval env (VarE n) = (case env n of Some s \<Rightarrow> s | None \<Rightarrow> VS_Top)"
| "vs_eval env (UnaryE u e) = (case vs_eval env e of
     VS_Values vs \<Rightarrow> VS_Values ((\<lambda>v. case u of UnOp_Neg \<Rightarrow> - v | UnOp_Not \<Rightarrow> NOT v) ` vs)
   | s \<Rightarrow> s)"
| "vs_eval env (BinaryE bop l r) = (case (vs_eval env l, vs_eval env r) of
     (VS_Values ls, VS_Values rs) \<Rightarrow> vs_pairs bop ls rs
   | (x, y) \<Rightarrow> if x = VS_Bottom \<or> y = VS_Bottom then VS_Bottom else VS_Top)"
| "vs_eval env (CastE sg bits e) = (case vs_eval env e of
     VS_Values vs \<Rightarrow> VS_Values ((\<lambda>v. truncate_bits v bits sg) ` vs)
   | s \<Rightarrow> s)"
| "vs_eval env (SelectE c a b) = VS_join (vs_eval env a) (vs_eval env b)"
| "vs_eval env (LoadE a b sg) = VS_Top"
| "vs_eval env (CallE target args) = VS_Top"
| "vs_eval env (AddrOfE e) = VS_Top"
| "vs_eval env (CompareE k l r) = VS_Top"
| "vs_eval env (OpaqueFlagsE m) = VS_Top"
| "vs_eval env (UnknownE t) = VS_Top"

section \<open>The passes\<close>

text \<open>A slot is set; the flag says whether any was set to something new.\<close>

definition vs_set :: "string \<Rightarrow> ValueSet \<Rightarrow> vs_env \<times> bool \<Rightarrow> vs_env \<times> bool" where
  "vs_set dst v = (\<lambda>(env, changed). let old = (case env dst of Some s \<Rightarrow> s | None \<Rightarrow> VS_Bottom) in (env(dst \<mapsto> v), changed \<or> old \<noteq> v))"

definition vs_phi :: "Phi \<Rightarrow> vs_env \<times> bool \<Rightarrow> vs_env \<times> bool" where
  "vs_phi p = (\<lambda>(env, changed).
     vs_set (ph_dst p) (fold (\<lambda>i merged. VS_join merged (case env (pi_value i) of Some s \<Rightarrow> s | None \<Rightarrow> VS_Bottom)) (ph_inputs p) VS_Bottom) (env, changed))"

definition vs_stmt :: "SsaStmt \<Rightarrow> vs_env \<times> bool \<Rightarrow> vs_env \<times> bool" where
  "vs_stmt s = (\<lambda>(env, changed). case ss_stmt s of
     AssignS dst val \<Rightarrow> vs_set dst (vs_eval env val) (env, changed)
   | CallS target args (Some dst) \<Rightarrow> vs_set dst VS_Top (env, changed)
   | _ \<Rightarrow> (env, changed))"

definition vs_step :: "SsaBlock list \<Rightarrow> vs_env \<Rightarrow> vs_env \<times> bool" where
  "vs_step blocks env = fold (\<lambda>b x. fold vs_stmt (sb_stmts b) (fold vs_phi (sb_phis b) x)) blocks (env, False)"

fun vs_passes :: "SsaBlock list \<Rightarrow> nat \<Rightarrow> nat \<Rightarrow> vs_env \<Rightarrow> vs_env \<times> nat" where
  "vs_passes blocks 0 iterations env = (env, iterations)"
| "vs_passes blocks (Suc k) iterations env = (let (env', changed) = vs_step blocks env in
     if changed then vs_passes blocks k (iterations + 1) env' else (env', iterations + 1))"

definition vs_close :: "vs_env \<Rightarrow> vs_env" where
  "vs_close env = (\<lambda>n. map_option (\<lambda>s. if s = VS_Bottom then VS_Top else s) (env n))"

definition vs_run :: "SsaBlock list \<Rightarrow> vs_env \<times> nat" where
  "vs_run blocks = (let (env, iterations) = vs_passes blocks MAX_ITERATIONS 0 Map.empty in (vs_close env, iterations))"

section \<open>Addresses\<close>

definition addr_pairs :: "BinOp \<Rightarrow> i128 set \<Rightarrow> i128 set \<Rightarrow> ValueSet" where
  "addr_pairs bop ls rs = (let out = (\<Union>l \<in> ls. (\<Union>r \<in> rs. set_option (vs_binop bop l r))) in
     if out = {} \<or> card out > MAX_TRACKED_VALUES then VS_Top else VS_Values out)"

fun resolve_addr :: "vs_env \<Rightarrow> MicroExpr \<Rightarrow> ValueSet" where
  "resolve_addr sets (ConstE v b) = VS_singleton v"
| "resolve_addr sets (VarE n) = (case sets n of Some s \<Rightarrow> s | None \<Rightarrow> VS_Top)"
| "resolve_addr sets (BinaryE bop l r) = (if bop = BinOp_Add \<or> bop = BinOp_Sub then
     (case (resolve_addr sets l, resolve_addr sets r) of
        (VS_Values ls, VS_Values rs) \<Rightarrow> addr_pairs bop ls rs
      | _ \<Rightarrow> VS_Top)
     else VS_Top)"
| "resolve_addr sets _ = VS_Top"

definition alias_of :: "MicroExpr \<Rightarrow> MicroExpr \<Rightarrow> vs_env \<Rightarrow> AliasResult" where
  "alias_of a b sets = (case (resolve_addr sets a, resolve_addr sets b) of
     (VS_Values x, VS_Values y) \<Rightarrow> if card x = 1 \<and> x = y then MustAlias else if x \<inter> y = {} then NoAlias else MayAlias
   | _ \<Rightarrow> MayAlias)"

end
