(* ===== verification/Value_Set_Props.thy ===== *)
theory Value_Set_Props
  imports Value_Set Emulate_Props
begin

text \<open>
  What the value sets say of a run: where the passes settled, every value the emulator gives a
  variable is in the variable's set, modulo \<open>2 ^ 64\<close>. And what the answer about two addresses says of
  the addresses.
\<close>

section \<open>Cover\<close>

definition same64 :: "i128 \<Rightarrow> u128 \<Rightarrow> bool" where
  "same64 x v \<longleftrightarrow> (ucast x :: u64) = ucast v"

fun covers :: "ValueSet \<Rightarrow> u128 \<Rightarrow> bool" where
  "covers VS_Bottom v = False"
| "covers (VS_Values xs) v = (\<exists>x \<in> xs. same64 x v)"
| "covers VS_Top v = True"

lemma covers_join: "covers a v \<Longrightarrow> covers (VS_join a b) v" "covers b v \<Longrightarrow> covers (VS_join a b) v"
  by (cases "(a, b)" rule: VS_join.cases; auto)+

lemma ucast_ring:
  fixes x y :: u128
  shows "(ucast (x + y) :: u64) = ucast x + ucast y" "(ucast (x - y) :: u64) = ucast x - ucast y" "(ucast (x * y) :: u64) = ucast x * ucast y"
    "(ucast (- x) :: u64) = - ucast x"
  by (intro word_uint_eqI; simp add: uint_word_arith_bintrs unsigned_ucast_eq take_bit_add take_bit_diff take_bit_mult take_bit_minus)+

lemma ucast_bits:
  fixes x y :: u128
  shows "(ucast (x AND y) :: u64) = ucast x AND ucast y" "(ucast (x OR y) :: u64) = ucast x OR ucast y" "(ucast (x XOR y) :: u64) = ucast x XOR ucast y"
    "(ucast (NOT x) :: u64) = NOT (ucast x)"
  by (intro bit_eqI; auto simp: bit_ucast_iff bit_and_iff bit_or_iff bit_xor_iff bit_not_iff)+

lemma ucast_down_up: "(ucast (ucast (w :: u64) :: u128) :: u64) = w"
  by (rule ucast_up_ucast_id) (simp add: is_up)

section \<open>Expressions\<close>

text \<open>An operation that agrees with its result modulo \<open>2 ^ 64\<close> when its operands agree.\<close>

definition ring_op :: "BinOp \<Rightarrow> bool" where
  "ring_op bop \<longleftrightarrow> bop \<in> {BinOp_Add, BinOp_Sub, BinOp_Mul, BinOp_And, BinOp_Or, BinOp_Xor}"

lemma ring_op_agrees:
  assumes "ring_op bop" "same64 x a" "same64 y b"
  shows "\<exists>z w. vs_binop bop x y = Some z \<and> eval_binary bop a b va = Inr w \<and> same64 z w"
  using assms by (cases bop) (simp_all add: ring_op_def same64_def vs_binop_def eval_binary_def is_bitwise_def eval_bitwise_def binop_def ucast_ring ucast_bits ucast_down_up)

text \<open>Expressions whose set is unknown, whatever the sets of the names in \<open>D\<close>.\<close>

fun vs_unknown :: "string set \<Rightarrow> MicroExpr \<Rightarrow> bool" where
  "vs_unknown D (ConstE v b) = False"
| "vs_unknown D (VarE n) = (n \<notin> D)"
| "vs_unknown D (UnaryE u e) = vs_unknown D e"
| "vs_unknown D (BinaryE bop l r) = (vs_unknown D l \<or> vs_unknown D r)"
| "vs_unknown D (CastE sg b e) = vs_unknown D e"
| "vs_unknown D (SelectE c a b) = False"
| "vs_unknown D _ = True"

text \<open>
  Expressions the analysis computes as the emulator does, modulo \<open>2 ^ 64\<close>: literals that fit their
  width, ring operations, casts to at most 64 bits. Other operations need an operand that is unknown.
\<close>

fun vs_exact :: "string set \<Rightarrow> MicroExpr \<Rightarrow> bool" where
  "vs_exact D (ConstE v b) = same64 v (extend_bits v b False)"
| "vs_exact D (UnaryE u e) = vs_exact D e"
| "vs_exact D (BinaryE bop l r) = ((ring_op bop \<or> vs_unknown D l \<or> vs_unknown D r) \<and> vs_exact D l \<and> vs_exact D r)"
| "vs_exact D (CastE sg b e) = ((b \<le> 64 \<or> 128 \<le> b) \<and> vs_exact D e)"
| "vs_exact D (SelectE c a b) = (vs_exact D a \<and> vs_exact D b)"
| "vs_exact D _ = True"

lemma cast_agrees:
  assumes "same64 x v" "b \<le> 64 \<or> 128 \<le> b"
  shows "same64 (truncate_bits x b sg) (extend_bits v b sg)"
proof (cases "b = 0 \<or> 128 \<le> b")
  case True
  then show ?thesis using assms(1) by (auto simp: truncate_bits_def extend_bits_def)
next
  case False
  then have b: "1 \<le> b" "b \<le> 64" "b < 128" using assms(2) by auto
  have t: "y AND (push_bit b 1 - 1) = take_bit b (y :: u128)" for y using low_mask [of b] b by (simp add: take_bit_eq_mask)
  have "take_bit b (take_bit 64 (uint x)) = take_bit b (take_bit 64 (uint v))"
    using arg_cong [OF assms(1) [unfolded same64_def], of uint] by (simp add: unsigned_ucast_eq)
  then have m: "take_bit b x = take_bit b v" using b by (intro word_uint_eqI) (simp add: uint_take_bit_u128)
  have i: "y AND push_bit k 1 \<noteq> 0 \<longleftrightarrow> bit y k" for y :: u128 and k
    by (simp add: push_bit_of_1 and_exp_eq_0_iff_not_bit)
  have "take_bit b v + NOT (mask b) = take_bit b v OR NOT (mask b)"
    by (rule disjunctive_add) (auto simp: bit_take_bit_iff bit_not_iff bit_mask_iff)
  moreover have "NOT (mask b) = (- push_bit b 1 :: u128)" by (simp add: not_eq_complement mask_eq_exp_minus_1 push_bit_of_1)
  moreover have "push_bit b 1 - 1 = (mask b :: u128)" by (simp add: mask_eq_exp_minus_1 push_bit_of_1)
  ultimately have s: "take_bit b v OR NOT (push_bit b 1 - 1) = take_bit b v - push_bit b 1" by simp
  have "drop_bit (b - 1) (take_bit b v) AND 1 = 1 \<longleftrightarrow> bit (take_bit b v) (b - 1)"
    using top_bit_iff [OF b(1), of v] b by (simp add: bit_take_bit_iff)
  then show ?thesis unfolding same64_def truncate_bits_def extend_bits_def t Let_def using False b m s i [of "take_bit b v" "b - 1"] by simp
qed

text \<open>Without invented entry registers an evaluation sets no variable.\<close>

definition kept_vars :: "EmuConfig \<Rightarrow> Emu \<Rightarrow> Emu \<Rightarrow> bool" where
  "kept_vars cfg st st' \<longleftrightarrow> ec_entry_scratch cfg \<or> em_vars st' = em_vars st"

interpretation kept: effect cfg "kept_vars cfg" for cfg
  by unfold_locales (auto simp: kept_vars_def)

text \<open>A variable the analysis names holds a value of its set.\<close>

definition covered :: "vs_env \<Rightarrow> Emu \<Rightarrow> bool" where
  "covered env st \<longleftrightarrow> (\<forall>n s v. env n = Some s \<longrightarrow> em_vars st n = Some v \<longrightarrow> covers s v)"

lemma covered_eval: "\<not> ec_entry_scratch cfg \<Longrightarrow> eval cfg va e st = (r, st') \<Longrightarrow> covered env st \<Longrightarrow> covered env st'"
  using keepsD [OF kept.keeps_eval(1)] by (fastforce simp: kept_vars_def covered_def)

lemma covers_pairs:
  assumes "ring_op bop" "x \<in> ls" "y \<in> rs" "same64 x a" "same64 y b" "eval_binary bop a b va = Inr w"
  shows "covers (vs_pairs bop ls rs) w"
proof -
  obtain z where z: "vs_binop bop x y = Some z" "same64 z w" using ring_op_agrees [OF assms(1,4,5), of va] assms(6) by auto
  then have "z \<in> (\<Union>l \<in> ls. (\<lambda>r. the (vs_binop bop l r)) ` rs)" using assms(2,3) by force
  with z(2) show ?thesis by (auto simp: vs_pairs_def Let_def)
qed

lemma unknown_Top:
  "vs_unknown (dom env) e \<Longrightarrow> vs_eval env e = VS_Top \<or> vs_eval env e = VS_Bottom"
  by (induction e) (auto split: option.splits ValueSet.splits)

lemma covers_eval:
  assumes "\<not> ec_entry_scratch cfg"
  shows "vs_exact (dom env) e \<Longrightarrow> covered env st \<Longrightarrow> eval cfg va e st = (Inr v, st') \<Longrightarrow> covers (vs_eval env e) v"
proof (induction e arbitrary: st v st' rule: vs_eval.induct [of _ env])
  case (1 env w b)
  then show ?case by (auto simp: eret_def VS_singleton_def)
next
  case (2 env n)
  then show ?case using assms by (auto simp: eval_var_def covered_def split: option.splits)
next
  case (3 env u e)
  obtain w where w: "eval cfg va e st = (Inr w, st')" "v = eval_unop u w" using 3(4) by (auto simp: emu_simps)
  have c: "covers (vs_eval env e) w" using 3(1) [OF _ 3(3) w(1)] 3(2) by simp
  show ?case using c by (cases u; cases "vs_eval env e") (auto simp: w(2) eval_unop_def same64_def ucast_ring ucast_bits intro: bexI)
next
  case (4 env bop l r)
  obtain a st1 b where a: "eval cfg va l st = (Inr a, st1)" and b: "eval cfg va r st1 = (Inr b, st')" and v: "eval_binary bop a b va = Inr v"
    using 4(5) by (auto simp: emu_simps lift_emu_def)
  have ca: "covers (vs_eval env l) a" using 4(1) [OF _ 4(4) a] 4(3) by simp
  have cb: "covers (vs_eval env r) b" using 4(2) [OF _ covered_eval [OF assms a 4(4)] b] 4(3) by simp
  show ?case
  proof (cases "ring_op bop")
    case True
    then show ?thesis using ca cb covers_pairs [OF True _ _ _ _ v] by (cases "vs_eval env l"; cases "vs_eval env r") auto
  next
    case False
    then have "vs_eval env l = VS_Top \<or> vs_eval env r = VS_Top"
      using 4(3) unknown_Top [of env l] unknown_Top [of env r] ca cb by auto
    then show ?thesis using ca cb by (cases "vs_eval env l"; cases "vs_eval env r") auto
  qed
next
  case (5 env sg bits e)
  obtain w where w: "eval cfg va e st = (Inr w, st')" "v = extend_bits w bits sg" using 5(4) by (auto simp: emu_simps)
  have "covers (vs_eval env e) w" using 5(1) [OF _ 5(3) w(1)] 5(2) by simp
  then show ?case using cast_agrees [of _ w bits sg] 5(2) by (cases "vs_eval env e") (auto simp: w(2))
next
  case (6 env c a b)
  obtain t st1 where t: "eval cfg va c st = (Inr t, st1)" and x: "eval cfg va (if t \<noteq> 0 then a else b) st1 = (Inr v, st')"
    using 6(5) by (auto simp: emu_simps split: if_splits)
  have s1: "covered env st1" by (rule covered_eval [OF assms t 6(4)])
  show ?case using 6(1) [OF _ s1, of v st'] 6(2) [OF _ s1, of v st'] 6(3) x by (cases "t \<noteq> 0") (auto intro: covers_join)
qed auto

section \<open>Where the passes settle\<close>

text \<open>A fold of updates whose flag stays down, over names that are known, changes nothing.\<close>

definition quiet :: "('x \<Rightarrow> vs_env \<times> bool \<Rightarrow> vs_env \<times> bool) \<Rightarrow> ('x \<Rightarrow> string set) \<Rightarrow> ('x \<Rightarrow> vs_env \<Rightarrow> bool) \<Rightarrow> bool" where
  "quiet f defs P \<longleftrightarrow> (\<forall>x env c env'. f x (env, c) = (env', False) \<longrightarrow> \<not> c \<and> (defs x \<subseteq> dom env \<longrightarrow> env' = env \<and> P x env))"

lemma quiet_fold:
  assumes "quiet f defs P"
  shows "quiet (fold f) (\<lambda>xs. \<Union>x \<in> set xs. defs x) (\<lambda>xs env. \<forall>x \<in> set xs. P x env)"
proof -
  have "fold f xs (env, c) = (env', False) \<Longrightarrow> \<not> c \<and> ((\<Union>x \<in> set xs. defs x) \<subseteq> dom env \<longrightarrow> env' = env \<and> (\<forall>x \<in> set xs. P x env))" for xs env c env'
  proof (induction xs arbitrary: env' rule: rev_induct)
    case (snoc x xs)
    obtain env1 c1 where e: "fold f xs (env, c) = (env1, c1)" by (cases "fold f xs (env, c)")
    have f: "f x (env1, c1) = (env', False)" using snoc.prems e by simp
    have x: "\<not> c1 \<and> (defs x \<subseteq> dom env1 \<longrightarrow> env' = env1 \<and> P x env1)" using assms f unfolding quiet_def by blast
    then show ?case using snoc.IH [of env1] e by auto
  qed simp
  then show ?thesis unfolding quiet_def by blast
qed

definition phi_join :: "vs_env \<Rightarrow> Phi \<Rightarrow> ValueSet" where
  "phi_join env p = fold (\<lambda>i merged. VS_join merged (case env (pi_value i) of Some s \<Rightarrow> s | None \<Rightarrow> VS_Bottom)) (ph_inputs p) VS_Bottom"

definition vs_stmt_defs :: "SsaStmt \<Rightarrow> string set" where
  "vs_stmt_defs s = (case ss_stmt s of AssignS dst val \<Rightarrow> {dst} | CallS target args (Some dst) \<Rightarrow> {dst} | _ \<Rightarrow> {})"

definition vs_defs :: "SsaBlock list \<Rightarrow> string set" where
  "vs_defs blocks = (\<Union>b \<in> set blocks. ph_dst ` set (sb_phis b) \<union> (\<Union>s \<in> set (sb_stmts b). vs_stmt_defs s))"

definition stmt_settled :: "SsaStmt \<Rightarrow> vs_env \<Rightarrow> bool" where
  "stmt_settled s env \<longleftrightarrow> (\<forall>dst val. ss_stmt s = AssignS dst val \<longrightarrow> env dst = Some (vs_eval env val))"

definition settled :: "SsaBlock list \<Rightarrow> vs_env \<Rightarrow> bool" where
  "settled blocks env \<longleftrightarrow> (\<forall>b \<in> set blocks. (\<forall>p \<in> set (sb_phis b). env (ph_dst p) = Some (phi_join env p)) \<and> (\<forall>s \<in> set (sb_stmts b). stmt_settled s env))"

lemma quietD: "quiet f defs P \<Longrightarrow> f x (env, c) = (env', False) \<Longrightarrow> \<not> c \<and> (defs x \<subseteq> dom env \<longrightarrow> env' = env \<and> P x env)"
  unfolding quiet_def by blast

lemma vs_set_quiet: "vs_set dst v (env, c) = (env', False) \<Longrightarrow> \<not> c \<and> (dst \<in> dom env \<longrightarrow> env' = env \<and> env dst = Some v)"
  by (auto simp: vs_set_def Let_def split: option.splits)

lemma quiet_phi: "quiet vs_phi (\<lambda>p. {ph_dst p}) (\<lambda>p env. env (ph_dst p) = Some (phi_join env p))"
  unfolding quiet_def vs_phi_def phi_join_def [symmetric] by (auto dest!: vs_set_quiet)

lemma quiet_stmt: "quiet vs_stmt vs_stmt_defs stmt_settled"
  unfolding quiet_def vs_stmt_def vs_stmt_defs_def stmt_settled_def
  by (auto split: MicroStmt.splits option.splits dest!: vs_set_quiet)

lemma vs_step_settled:
  assumes "vs_step blocks env = (env', False)" "vs_defs blocks \<subseteq> dom env"
  shows "env' = env" "settled blocks env"
proof -
  let ?f = "\<lambda>b x. fold vs_stmt (sb_stmts b) (fold vs_phi (sb_phis b) x)"
  let ?d = "\<lambda>b. ph_dst ` set (sb_phis b) \<union> (\<Union>s \<in> set (sb_stmts b). vs_stmt_defs s)"
  let ?P = "\<lambda>b env. (\<forall>p \<in> set (sb_phis b). env (ph_dst p) = Some (phi_join env p)) \<and> (\<forall>s \<in> set (sb_stmts b). stmt_settled s env)"
  have "quiet ?f ?d ?P" unfolding quiet_def
  proof (intro allI impI)
    fix b env c env' assume f: "?f b (env, c) = (env', False)"
    obtain env1 c1 where p: "fold vs_phi (sb_phis b) (env, c) = (env1, c1)" by (cases "fold vs_phi (sb_phis b) (env, c)")
    have s: "\<not> c1 \<and> ((\<Union>s \<in> set (sb_stmts b). vs_stmt_defs s) \<subseteq> dom env1 \<longrightarrow> env' = env1 \<and> (\<forall>s \<in> set (sb_stmts b). stmt_settled s env1))"
      using f p by (intro quietD [OF quiet_fold [OF quiet_stmt]]) simp
    have "\<not> c \<and> ((\<Union>p \<in> set (sb_phis b). {ph_dst p}) \<subseteq> dom env \<longrightarrow> env1 = env \<and> (\<forall>p \<in> set (sb_phis b). env (ph_dst p) = Some (phi_join env p)))"
      using p s by (intro quietD [OF quiet_fold [OF quiet_phi]]) simp
    with s show "\<not> c \<and> (?d b \<subseteq> dom env \<longrightarrow> env' = env \<and> ?P b env)" by auto
  qed
  from quietD [OF quiet_fold [OF this] assms(1) [unfolded vs_step_def]] assms(2) show "env' = env" "settled blocks env"
    by (simp_all add: settled_def vs_defs_def)
qed

lemma vs_set_dom: "dom (fst (vs_set dst v x)) = insert dst (dom (fst x))"
  by (auto simp: vs_set_def Let_def split: prod.split)

lemma fold_dom:
  assumes "\<And>x e. dom (fst (f x e)) = d x \<union> dom (fst e)"
  shows "dom (fst (fold f xs (e :: vs_env \<times> bool))) = (\<Union>x \<in> set xs. d x) \<union> dom (fst e)"
  by (induction xs arbitrary: e) (auto simp: assms)

lemma vs_step_dom: "dom (fst (vs_step blocks env)) = vs_defs blocks \<union> dom env"
proof -
  have p: "dom (fst (vs_phi p e)) = {ph_dst p} \<union> dom (fst e)" for p e by (auto simp: vs_phi_def vs_set_dom split: prod.split)
  have s: "dom (fst (vs_stmt s e)) = vs_stmt_defs s \<union> dom (fst e)" for s e
    by (auto simp: vs_stmt_def vs_stmt_defs_def vs_set_dom split: prod.split MicroStmt.split option.split)
  have b: "dom (fst (fold vs_stmt (sb_stmts b) (fold vs_phi (sb_phis b) e))) =
      (ph_dst ` set (sb_phis b) \<union> (\<Union>s \<in> set (sb_stmts b). vs_stmt_defs s)) \<union> dom (fst e)" for b e
    by (subst fold_dom [OF s], subst fold_dom [OF p]) auto
  show ?thesis unfolding vs_step_def vs_defs_def by (subst fold_dom [OF b]) auto
qed

lemma vs_passes_settled:
  "vs_passes blocks k it env = (env', it') \<Longrightarrow> it' < it + k \<Longrightarrow> vs_defs blocks \<subseteq> dom env \<Longrightarrow> settled blocks env' \<and> dom env' = dom env"
proof (induction blocks k it env rule: vs_passes.induct)
  case (2 blocks k it env)
  obtain env1 c where s: "vs_step blocks env = (env1, c)" by (cases "vs_step blocks env")
  have d: "dom env1 = dom env" using vs_step_dom [of blocks env] s 2(4) by auto
  show ?case
  proof (cases c)
    case True
    then show ?thesis using 2(1) [OF refl s [symmetric] True] 2(2-4) s d by (simp add: Let_def)
  next
    case False
    then show ?thesis using vs_step_settled [of blocks env env1] s 2(2,4) by (simp add: Let_def)
  qed
qed simp

text \<open>A first pass that changes nothing leaves every set empty.\<close>

definition low :: "vs_env \<Rightarrow> bool" where
  "low env \<longleftrightarrow> (\<forall>n s. env n = Some s \<longrightarrow> s = VS_Bottom)"

lemma low_fold:
  assumes "\<forall>x env c env'. f x (env, c) = (env', False) \<longrightarrow> \<not> c \<and> (low env \<longrightarrow> low env')"
  shows "fold f xs (env, c) = (env', False) \<Longrightarrow> \<not> c \<and> (low env \<longrightarrow> low env')"
proof (induction xs arbitrary: env' rule: rev_induct)
  case (snoc x xs)
  obtain env1 c1 where e: "fold f xs (env, c) = (env1, c1)" by (cases "fold f xs (env, c)")
  then have "f x (env1, c1) = (env', False)" using snoc.prems by simp
  with assms have "\<not> c1 \<and> (low env1 \<longrightarrow> low env')" by blast
  with snoc.IH [of env1] e show ?case by auto
qed simp

lemma low_set: "vs_set dst v (env, c) = (env', False) \<Longrightarrow> \<not> c \<and> (low env \<longrightarrow> low env')"
  by (auto simp: vs_set_def Let_def low_def split: option.splits if_splits)

lemma low_phis: "fold vs_phi phis (env, c) = (env', False) \<Longrightarrow> \<not> c \<and> (low env \<longrightarrow> low env')"
  by (rule low_fold) (auto simp: vs_phi_def dest!: low_set)

lemma low_stmts: "fold vs_stmt ss (env, c) = (env', False) \<Longrightarrow> \<not> c \<and> (low env \<longrightarrow> low env')"
  by (rule low_fold) (auto simp: vs_stmt_def split: MicroStmt.splits option.splits dest!: low_set)

lemma vs_step_low: "vs_step blocks env = (env', False) \<Longrightarrow> low env \<Longrightarrow> low env'"
proof -
  assume s: "vs_step blocks env = (env', False)" and l: "low env"
  have "\<forall>b env c env'. fold vs_stmt (sb_stmts b) (fold vs_phi (sb_phis b) (env, c)) = (env', False) \<longrightarrow> \<not> c \<and> (low env \<longrightarrow> low env')"
  proof (intro allI impI)
    fix b env c env' assume f: "fold vs_stmt (sb_stmts b) (fold vs_phi (sb_phis b) (env, c)) = (env', False)"
    obtain env1 c1 where p: "fold vs_phi (sb_phis b) (env, c) = (env1, c1)" by (cases "fold vs_phi (sb_phis b) (env, c)")
    have "\<not> c1 \<and> (low env1 \<longrightarrow> low env')" using f p by (intro low_stmts) simp
    with low_phis [of "sb_phis b" env c env1] p show "\<not> c \<and> (low env \<longrightarrow> low env')" by simp
  qed
  from low_fold [OF this s [unfolded vs_step_def]] l show "low env'" by simp
qed

lemma vs_run_settled:
  assumes "vs_run blocks = (sets, it)" "it < MAX_ITERATIONS"
  shows "\<exists>env. sets = vs_close env \<and> dom env = vs_defs blocks \<and> (settled blocks env \<or> low env)"
proof -
  obtain env where p: "vs_passes blocks MAX_ITERATIONS 0 Map.empty = (env, it)" and s: "sets = vs_close env"
    using assms(1) by (auto simp: vs_run_def split: prod.splits)
  have m: "MAX_ITERATIONS = Suc 19" by (simp add: MAX_ITERATIONS_def)
  obtain env1 c where e: "vs_step blocks Map.empty = (env1, c)" by (cases "vs_step blocks Map.empty")
  have d: "dom env1 = vs_defs blocks" using vs_step_dom [of blocks Map.empty] e by simp
  show ?thesis
  proof (cases c)
    case True
    then have "vs_passes blocks 19 1 env1 = (env, it)" using p unfolding m vs_passes.simps(2) e by simp
    moreover have "it < 1 + 19" using assms(2) unfolding MAX_ITERATIONS_def by linarith
    ultimately have "settled blocks env \<and> dom env = dom env1" using d by (metis order_refl vs_passes_settled)
    with s d show ?thesis by auto
  next
    case False
    then have "env = env1" using p unfolding m vs_passes.simps(2) e by simp
    moreover have "low env1" using vs_step_low [of blocks Map.empty env1] e False by (simp add: low_def)
    ultimately show ?thesis using s d by auto
  qed
qed

section \<open>A run under the sets\<close>

text \<open>What a run keeps, as one more relation an evaluation respects.\<close>

definition keeps_cover :: "EmuConfig \<Rightarrow> vs_env \<Rightarrow> Emu \<Rightarrow> Emu \<Rightarrow> bool" where
  "keeps_cover cfg env st st' \<longleftrightarrow> ec_entry_scratch cfg \<or> (covered env st \<longrightarrow> covered env st')"

interpretation cover: effect cfg "keeps_cover cfg env" for cfg env
  by unfold_locales (auto simp: keeps_cover_def covered_def)

lemma cover_set: "(\<And>s. env n = Some s \<Longrightarrow> covers s v) \<Longrightarrow> covered env st \<Longrightarrow> covered env (st\<lparr>em_vars := (em_vars st)(n \<mapsto> v)\<rparr>)"
  by (auto simp: covered_def)

lemma cover_assign:
  assumes "env dst = Some (vs_eval env val)" "vs_exact (dom env) val"
  shows "keeps (keeps_cover cfg env) (exec_assign cfg va dst val)"
proof -
  have "covered env (snd (exec_assign cfg va dst val st))" if "\<not> ec_entry_scratch cfg" "covered env st" for st
  proof -
    obtain r st1 where e: "eval cfg va val st = (r, st1)" by (cases "eval cfg va val st")
    have c: "covered env st1" by (rule covered_eval [OF that(1) e that(2)])
    have "covers (vs_eval env val) v" if "r = Inr v" for v
      using covers_eval [OF \<open>\<not> ec_entry_scratch cfg\<close> assms(2) \<open>covered env st\<close>] e that by simp
    then show ?thesis using that(2) c e assms(1)
      by (auto simp: exec_assign_def unset_var_def set_var_def eret_def intro!: cover_set split: sum.split EmuError.split)
        (auto simp: covered_def)
  qed
  then show ?thesis by (auto simp: keeps_def keeps_cover_def)
qed

lemma cover_stmt:
  assumes "stmt_settled s env" "\<And>dst val. ss_stmt s = AssignS dst val \<Longrightarrow> vs_exact (dom env) val"
  shows "keeps (keeps_cover cfg env) (exec_stmt cfg va (ss_stmt s))"
proof -
  have store: "keeps (keeps_cover cfg env) (exec_store cfg va addr val bits)" for addr val bits
    unfolding exec_store_def
    by (auto intro!: cover.keeps_ebind cover.keeps_eval cover.keeps_eerr) (simp add: keeps_def keeps_cover_def covered_def)
  have a: "keeps (keeps_cover cfg env) (exec_assign cfg va dst val)" if "ss_stmt s = AssignS dst val" for dst val
    using assms that by (intro cover_assign) (auto simp: stmt_settled_def)
  show ?thesis using a
    by (cases "(cfg, va, ss_stmt s)" rule: exec_stmt.cases)
      (auto intro!: cover.keeps_ebind cover.keeps_eval cover.keeps_eerr cover.keeps_eret store)
qed

lemma cover_stmts:
  "(\<And>s. s \<in> set ss \<Longrightarrow> stmt_settled s env \<and> (\<forall>dst val. ss_stmt s = AssignS dst val \<longrightarrow> vs_exact (dom env) val)) \<Longrightarrow>
    keeps (keeps_cover cfg env) (exec_stmts cfg ss)"
proof (induction ss)
  case (Cons s ss)
  have "keeps (keeps_cover cfg env) (count_step cfg)" by (simp add: keeps_def keeps_cover_def count_step_def Let_def covered_def)
  moreover have "keeps (keeps_cover cfg env) (exec_stmt cfg va (ss_stmt s))" for va using Cons.prems [of s] by (intro cover_stmt) auto
  moreover have "keeps (keeps_cover cfg env) (exec_stmts cfg ss)" using Cons.prems by (intro Cons.IH) (meson list.set_intros(2))
  ultimately show ?case by (auto intro!: cover.keeps_ebind cover.keeps_eret split: option.split)
qed (simp add: cover.keeps_eret)

lemma eval_var_plain: "\<not> ec_entry_scratch cfg \<Longrightarrow> eval cfg va (VarE n) st = (case em_vars st n of Some v \<Rightarrow> (Inr v, st) | None \<Rightarrow> (Inl (UndefinedVar n), st))"
  by (simp add: eval_var_def split: option.split)

lemma pending_plain:
  "\<not> ec_entry_scratch cfg \<Longrightarrow> snd (pending_phis cfg f va phis st) = st"
  "\<not> ec_entry_scratch cfg \<Longrightarrow> pending_phis cfg f va phis st = (Inr ps, st') \<Longrightarrow> (d, Some v) \<in> set ps \<Longrightarrow>
    \<exists>p \<in> set phis. \<exists>i \<in> set (ph_inputs p). d = ph_dst p \<and> em_vars st (pi_value i) = Some v"
proof -
  assume c: "\<not> ec_entry_scratch cfg"
  show s: "snd (pending_phis cfg f va phis st) = st" for phis
    by (induction phis) (auto simp: eret_def eerr_def ebind_def eval_var_plain [OF c] simp del: eval.simps split: option.split sum.split prod.splits)
  show "pending_phis cfg f va phis st = (Inr ps, st') \<Longrightarrow> (d, Some v) \<in> set ps \<Longrightarrow>
    \<exists>p \<in> set phis. \<exists>i \<in> set (ph_inputs p). d = ph_dst p \<and> em_vars st (pi_value i) = Some v"
  proof (induction phis arbitrary: ps st')
    case (Cons p phis)
    obtain i where i: "phi_input f p = Some i" using Cons.prems(1) by (cases "phi_input f p") auto
    then have m: "i \<in> set (ph_inputs p)" by (auto simp: phi_input_def find_Some_iff)
    obtain w ps' where rest: "pending_phis cfg f va phis st = (Inr ps', st')" and ps: "ps = (ph_dst p, w) # ps'" and w: "w = em_vars st (pi_value i)"
      using Cons.prems(1) i by (auto simp: emu_simps eval_var_plain [OF c] simp del: eval.simps split: option.splits)
    show ?case
    proof (cases "(d, Some v) \<in> set ps'")
      case True
      then show ?thesis using Cons.IH [OF rest] by auto
    next
      case False
      then show ?thesis using Cons.prems(2) ps w m by auto
    qed
  qed (simp add: eret_def)
qed

lemma covers_phi: "i \<in> set (ph_inputs p) \<Longrightarrow> env (pi_value i) = Some s \<Longrightarrow> covers s v \<Longrightarrow> covers (phi_join env p) v"
proof -
  assume i: "i \<in> set (ph_inputs p)" "env (pi_value i) = Some s" "covers s v"
  let ?f = "\<lambda>i merged. VS_join merged (case env (pi_value i) of Some s \<Rightarrow> s | None \<Rightarrow> VS_Bottom)"
  have up: "covers acc v \<Longrightarrow> covers (fold ?f xs acc) v" for xs acc by (induction xs arbitrary: acc) (auto intro: covers_join)
  have "i \<in> set xs \<Longrightarrow> covers (fold ?f xs acc) v" for xs acc
  proof (induction xs arbitrary: acc)
    case (Cons j xs)
    have "covers (?f i acc) v" using i(2,3) by (simp add: covers_join(2))
    from up [OF this, of xs] Cons show ?case by auto
  qed simp
  then show ?thesis using i(1) by (simp add: phi_join_def)
qed

lemma cover_write:
  "(\<And>d v s. (d, Some v) \<in> set ps \<Longrightarrow> env d = Some s \<Longrightarrow> covers s v) \<Longrightarrow> covered env st \<Longrightarrow> covered env (snd (write_phis ps st))"
proof (induction ps arbitrary: st)
  case (Cons x ps)
  obtain d v where x: "x = (d, v)" by (cases x)
  have "covered env (st\<lparr>em_vars := (em_vars st)(d := v)\<rparr>)" using Cons.prems x by (cases v) (auto simp: covered_def)
  then have "covered env (snd (write_phis ps (st\<lparr>em_vars := (em_vars st)(d := v)\<rparr>)))" using Cons.prems(1) by (intro Cons.IH) auto
  then show ?case by (cases v) (simp_all add: x ebind_def set_var_def unset_var_def)
qed (simp add: eret_def)

lemma cover_phis:
  assumes "\<And>p. p \<in> set (sb_phis b) \<Longrightarrow> env (ph_dst p) = Some (phi_join env p) \<and> (\<forall>i \<in> set (ph_inputs p). pi_value i \<in> dom env)"
  shows "keeps (keeps_cover cfg env) (run_phis cfg prev b)"
proof -
  have "covered env (snd (ebind (pending_phis cfg f (sb_start b) (sb_phis b)) write_phis st))"
    if c: "\<not> ec_entry_scratch cfg" and st: "covered env st" for f st
  proof -
    obtain r where p: "pending_phis cfg f (sb_start b) (sb_phis b) st = (r, st)" using pending_plain(1) [OF c] by (metis prod.collapse)
    show ?thesis
    proof (cases r)
      case (Inr ps)
      have "covers s v" if d: "(d, Some v) \<in> set ps" "env d = Some s" for d v s
      proof -
        obtain q i where q: "q \<in> set (sb_phis b)" "i \<in> set (ph_inputs q)" "d = ph_dst q" "em_vars st (pi_value i) = Some v"
          using pending_plain(2) [OF c p [unfolded Inr] d(1)] by blast
        obtain s' where s': "env (pi_value i) = Some s'" using assms [OF q(1)] q(2) by blast
        then have "covers s' v" using st q(4) by (simp add: covered_def)
        with covers_phi [where env = env, OF q(2) s'] assms [OF q(1)] d(2) q(3) show ?thesis by simp
      qed
      then show ?thesis using p Inr st by (simp add: ebind_def cover_write)
    qed (use p st in \<open>simp add: ebind_def\<close>)
  qed
  then show ?thesis
    by (auto simp: run_phis_def keeps_def keeps_cover_def eret_def eerr_def split: option.split)
qed

definition analysed :: "SsaBlock list \<Rightarrow> vs_env \<Rightarrow> bool" where
  "analysed blocks env \<longleftrightarrow> (\<forall>b \<in> set blocks. (\<forall>p \<in> set (sb_phis b). \<forall>i \<in> set (ph_inputs p). pi_value i \<in> dom env) \<and>
     (\<forall>s \<in> set (sb_stmts b). \<forall>dst val. ss_stmt s = AssignS dst val \<longrightarrow> vs_exact (dom env) val))"

lemma cover_block:
  assumes "settled blocks env" "analysed blocks env" "i < length blocks"
  shows "keeps (keeps_cover cfg env) (run_block cfg blocks prev i)"
proof -
  let ?b = "blocks ! i"
  have b: "?b \<in> set blocks" using assms(3) by simp
  have p: "keeps (keeps_cover cfg env) (run_phis cfg prev ?b)" using assms(1,2) b by (intro cover_phis) (auto simp: settled_def analysed_def)
  have s: "keeps (keeps_cover cfg env) (exec_stmts cfg (sb_stmts ?b))" using assms(1,2) b by (intro cover_stmts) (auto simp: settled_def analysed_def)
  have u: "keeps (keeps_cover cfg env) (successor cfg blocks ?b)" unfolding successor_def take_edge_def Let_def
    by (auto intro!: cover.keeps_ebind cover.keeps_eret cover.keeps_eerr cover.keeps_eval split: option.split)
  have e: "keeps (keeps_cover cfg env) (\<lambda>st. (Inr (), st\<lparr>em_blocks_entered := Suc (em_blocks_entered st)\<rparr>))"
    by (simp add: keeps_def keeps_cover_def covered_def)
  show ?thesis unfolding run_block_def Let_def
    by (auto intro!: cover.keeps_ebind cover.keeps_eret cover.keeps_eerr e p s u split: option.split)
qed

lemma cover_run_from:
  assumes "run_from cfg blocks prev i st = Some r" "i < length blocks" "settled blocks env" "analysed blocks env"
  shows "keeps_cover cfg env st (snd r)"
  using assms
proof (induction rule: run_from.raw_induct [rotated, consumes 1, case_names step])
  case (step run_from' cfg blocks prev i st r)
  obtain x st1 where b: "run_block cfg blocks prev i st = (x, st1)" by (cases "run_block cfg blocks prev i st")
  have k: "keeps_cover cfg env st st1" by (rule keepsD [OF cover_block [OF step(4,5,3)] b])
  show ?case
  proof (cases "\<exists>k. x = Inr (Inr k)")
    case True
    then obtain j where j: "x = Inr (Inr j)" by blast
    have "j < length blocks" using b j by (auto simp: run_block_def Let_def emu_simps split: option.splits dest: by_id_bound)
    moreover have "run_from' cfg blocks (Some (sb_id (blocks ! i))) j st1 = Some r" using step(2) b j by simp
    ultimately have "keeps_cover cfg env st1 (snd r)" using step(1) step(4,5) by blast
    with cover.R_trans [OF k] show ?thesis by blast
  next
    case False
    then show ?thesis using step(2) b k by (auto split: sum.splits)
  qed
qed

lemma vs_run_covers:
  assumes v: "vs_run blocks = (sets, it)" "it < MAX_ITERATIONS" and a: "analysed blocks sets"
    and cfg: "\<not> ec_entry_scratch cfg" and entry: "\<forall>n \<in> dom sets. em_vars (entry_state cfg vars mem) n = None"
    and r: "emu_run cfg blocks vars mem = Some (r, st)"
  shows "covered sets st"
proof -
  obtain env where env: "sets = vs_close env" "settled blocks env \<or> low env" using vs_run_settled [OF v] by blast
  have d: "dom env = dom sets" by (auto simp: env(1) vs_close_def)
  show ?thesis
  proof (cases "settled blocks env")
    case True
    have "analysed blocks env" using a d by (simp add: analysed_def)
    note f = cover_run_from [OF _ _ True this, where r = "(q, s)" for q s]
    have e: "covered env (entry_state cfg vars mem)" using entry unfolding d [symmetric] covered_def by (metis domI option.distinct(1))
    obtain q where b: "run_body cfg blocks (entry_state cfg vars mem) = Some (q, st)" using r
      by (auto simp: emu_run_def split: option.splits sum.splits)
    have "covered env st"
    proof (cases "by_id blocks 0")
      case None
      then show ?thesis using b e by (simp add: run_body_def)
    next
      case (Some i)
      then show ?thesis using f [of cfg None i "entry_state cfg vars mem" q st] by_id_bound [OF Some] b e cfg by (simp add: run_body_def keeps_cover_def)
    qed
    then show ?thesis by (auto simp: covered_def env(1) vs_close_def)
  next
    case False
    then have "low env" using env(2) by simp
    then have "s = VS_Top" if "sets n = Some s" for n s using that by (auto simp: env(1) vs_close_def low_def)
    then show ?thesis unfolding covered_def using covers.simps(3) by blast
  qed
qed

section \<open>Addresses\<close>

text \<open>The address of an access reads only names, literals, sums and differences.\<close>

fun addr_exact :: "MicroExpr \<Rightarrow> bool" where
  "addr_exact (ConstE v b) = same64 v (extend_bits v b False)"
| "addr_exact (VarE n) = True"
| "addr_exact (BinaryE bop l r) = (addr_exact l \<and> addr_exact r)"
| "addr_exact _ = True"

lemma resolve_covers:
  assumes "\<not> ec_entry_scratch cfg"
  shows "addr_exact e \<Longrightarrow> covered sets st \<Longrightarrow> eval cfg va e st = (Inr v, st') \<Longrightarrow> resolve_addr sets e = VS_Values xs \<Longrightarrow> \<exists>x \<in> xs. same64 x v"
proof (induction sets e arbitrary: st v st' xs rule: resolve_addr.induct)
  case (1 sets w b)
  then show ?case by (auto simp: eret_def VS_singleton_def)
next
  case (2 sets n)
  then show ?case using assms by (fastforce simp: eval_var_def covered_def split: option.splits)
next
  case (3 sets bop l r)
  obtain a st1 b where a: "eval cfg va l st = (Inr a, st1)" and b: "eval cfg va r st1 = (Inr b, st')" and v: "eval_binary bop a b va = Inr v"
    using 3(5) by (auto simp: emu_simps lift_emu_def)
  have bop: "bop = BinOp_Add \<or> bop = BinOp_Sub" using 3(6) by (auto split: if_splits)
  obtain ls rs where l: "resolve_addr sets l = VS_Values ls" and r: "resolve_addr sets r = VS_Values rs" and p: "addr_pairs bop ls rs = VS_Values xs"
    using 3(6) bop by (auto split: ValueSet.splits)
  obtain x where x: "x \<in> ls" "same64 x a" using 3(1) [OF bop _ 3(4) a l] 3(3) by auto
  obtain y where y: "y \<in> rs" "same64 y b" using 3(2) [OF bop _ covered_eval [OF assms a 3(4)] b r] 3(3) by auto
  have "ring_op bop" using bop by (auto simp: ring_op_def)
  from ring_op_agrees [OF this x(2) y(2), of va] v obtain z where z: "vs_binop bop x y = Some z" "same64 z v" by auto
  have "z \<in> (\<Union>l \<in> ls. \<Union>r \<in> rs. set_option (vs_binop bop l r))" using x(1) y(1) z(1) by force
  then show ?case using p z(2) by (auto simp: addr_pairs_def Let_def split: if_splits)
qed auto

text \<open>
  Two addresses that must alias are equal; two that do not are different, when the values of the sets
  are addresses: read as integers they are below \<open>2 ^ 64\<close>.
\<close>

definition addresses :: "ValueSet \<Rightarrow> bool" where
  "addresses s \<longleftrightarrow> (case s of VS_Values xs \<Rightarrow> \<forall>x \<in> xs. uint x < 2 ^ 64 | _ \<Rightarrow> True)"

lemma same64_address: "uint x < 2 ^ 64 \<Longrightarrow> uint y < 2 ^ 64 \<Longrightarrow> (ucast x :: u64) = ucast y \<Longrightarrow> x = (y :: u128)"
proof -
  assume x: "uint x < 2 ^ 64" and y: "uint y < 2 ^ 64" and eq: "(ucast x :: u64) = ucast y"
  have "take_bit 64 (uint x) = take_bit 64 (uint y)" using arg_cong [OF eq, of uint] by (simp add: unsigned_ucast_eq)
  moreover have "take_bit 64 (uint x) = uint x" by (rule take_bit_int_eq_self [OF uint_ge_0 x])
  moreover have "take_bit 64 (uint y) = uint y" by (rule take_bit_int_eq_self [OF uint_ge_0 y])
  ultimately show ?thesis by (intro word_uint_eqI) simp
qed

lemma alias_answer:
  assumes cfg: "\<not> ec_entry_scratch cfg" and e: "addr_exact a" "addr_exact b" and st: "covered sets st" "covered sets st2"
    and va: "eval cfg va a st = (Inr v, st')" "eval cfg va2 b st2 = (Inr w, st2')"
  shows "alias_of a b sets = MustAlias \<Longrightarrow> (ucast v :: u64) = ucast w"
    and "alias_of a b sets = NoAlias \<Longrightarrow> addresses (resolve_addr sets a) \<Longrightarrow> addresses (resolve_addr sets b) \<Longrightarrow> (ucast v :: u64) \<noteq> ucast w"
proof -
  have sets: "\<exists>xs ys x y. resolve_addr sets a = VS_Values xs \<and> resolve_addr sets b = VS_Values ys \<and> x \<in> xs \<and> y \<in> ys \<and> same64 x v \<and> same64 y w"
    if "alias_of a b sets \<noteq> MayAlias"
    using that resolve_covers [OF cfg e(1) st(1) va(1)] resolve_covers [OF cfg e(2) st(2) va(2)]
    by (auto simp: alias_of_def split: ValueSet.splits)
  show "(ucast v :: u64) = ucast w" if m: "alias_of a b sets = MustAlias"
  proof -
    obtain xs ys x y where s: "resolve_addr sets a = VS_Values xs" "resolve_addr sets b = VS_Values ys" "x \<in> xs" "y \<in> ys" "same64 x v" "same64 y w"
      using sets m by auto
    then have "card xs = 1" "xs = ys" using m by (auto simp: alias_of_def split: if_splits)
    then have "x = y" using s(3,4) by (metis card_1_singletonE singletonD)
    with s(5,6) show ?thesis by (simp add: same64_def)
  qed
  show "(ucast v :: u64) \<noteq> ucast w" if m: "alias_of a b sets = NoAlias" "addresses (resolve_addr sets a)" "addresses (resolve_addr sets b)"
  proof
    assume eq: "(ucast v :: u64) = ucast w"
    obtain xs ys x y where s: "resolve_addr sets a = VS_Values xs" "resolve_addr sets b = VS_Values ys" "x \<in> xs" "y \<in> ys" "same64 x v" "same64 y w"
      using sets m by auto
    have "uint x < 2 ^ 64" "uint y < 2 ^ 64" using m(2,3) s(1-4) by (simp_all add: addresses_def)
    moreover have "(ucast x :: u64) = ucast y" using s(5,6) eq unfolding same64_def by (simp only:)
    ultimately have "x = y" by (rule same64_address)
    moreover have "xs \<inter> ys = {}" using m(1) s(1,2) by (auto simp: alias_of_def split: if_splits)
    ultimately show False using s(3,4) by blast
  qed
qed

section \<open>Where the answers go wrong\<close>

text \<open>
  A name that nothing defines counts as no value at all in a phi: with an entry value on one edge, the
  phi is said to be exactly the value of the other.
\<close>

definition entry_phi_block :: SsaBlock where
  "entry_phi_block = \<lparr>sb_id = 0, sb_start = 0x1000, sb_end = 0x1008, sb_terminator = ''ret'', sb_successors = [],
     sb_phis = [\<lparr>ph_var = ''rax'', ph_dst = ''rax.2'', ph_inputs = [\<lparr>pi_from_block = 1, pi_value = ''rax.0''\<rparr>, \<lparr>pi_from_block = 2, pi_value = ''rax.1''\<rparr>]\<rparr>],
     sb_stmts = [\<lparr>ss_va = 0x1000, ss_stmt = AssignS ''rax.1'' (ConstE 5 64)\<rparr>], sb_condition = None\<rparr>"

lemma entry_phi_single: "fst (vs_run [entry_phi_block]) ''rax.2'' = Some (VS_Values {5})"
  by code_simp

text \<open>
  One address written with and without its sign is two values, and two accesses that overlap are told
  apart by where they start.
\<close>

lemma alias_signed_address:
  "alias_of (ConstE (- 8) 64) (ConstE 0xfffffffffffffff8 64) sets = NoAlias"
  "extend_bits (- 8) 64 False = extend_bits 0xfffffffffffffff8 64 False"
  by (simp add: alias_of_def VS_singleton_def) code_simp

lemma alias_overlap:
  "alias_of (ConstE 0x1000 64) (ConstE 0x1004 64) sets = NoAlias"
  "access_span 0x1000 64 \<inter> access_span 0x1004 64 \<noteq> {}"
proof -
  show "alias_of (ConstE 0x1000 64) (ConstE 0x1004 64) sets = NoAlias" by (simp add: alias_of_def VS_singleton_def)
  have "0x1000 + of_nat 4 \<in> access_span 0x1000 64" unfolding access_span_def by (rule imageI) (simp add: access_bytes_def)
  moreover have "0x1004 + of_nat 0 \<in> access_span 0x1004 64" unfolding access_span_def by (rule imageI) (simp add: access_bytes_def)
  ultimately show "access_span 0x1000 64 \<inter> access_span 0x1004 64 \<noteq> {}" by auto
qed

end
