(* ===== verification/Micro_Props.thy ===== *)
theory Micro_Props
  imports Optimize_Sim Optimize_Depth Optimize_Alias Optimize_Fold Value_Set_Props
begin

text \<open>
  What the emulator, the optimizer and the value sets promise of the micro-IR, each on the whole
  operation, with a program on which it applies.
\<close>

section \<open>The emulator\<close>

text \<open>
  C40. A shift is the shift of the integers: left and right of the value cut to the width, arithmetic right
  of the value read as signed at the width, by any count, cut to the width.
\<close>

theorem shift_exact:
  "uint (Shift_apply shift v count width) = (let w = max 1 (min 128 width) in case shift of
      Shift_Shl \<Rightarrow> uint v * 2 ^ unat count mod 2 ^ w
    | Shift_Shr \<Rightarrow> (uint v mod 2 ^ w) div 2 ^ unat count
    | Shift_Sar \<Rightarrow> (signed_take_bit (w - 1) (uint v) div 2 ^ unat count) mod 2 ^ w)"
  unfolding Let_def by (rule Shift_apply_exact)

text \<open>
  C20. Reading back what was written gives the bytes written, and reading an access that shares no byte
  with the one written gives what it gave before.
\<close>

theorem memory_read_back:
  assumes "bits \<le> WORD_BITS"
  shows "fst (mem_read backing (mem_write mem a v bits) a bits) = Inr (take_bit (8 * access_bytes bits) v) \<and>
    (\<forall>b bits'. access_span a bits \<inter> access_span b bits' = {} \<longrightarrow>
      fst (mem_read backing (mem_write mem a v bits) b bits') = fst (mem_read backing mem b bits'))"
  using mem_read_back [OF assms] mem_read_apart by blast

theorem memory_read_back_witness:
  "fst (mem_read None (mem_write \<lparr>mm_written = Map.empty, mm_touched = {}\<rparr> 0x1000 0x1234 16) 0x1000 16) = Inr 0x1234"
  using memory_read_back [of 16 None "\<lparr>mm_written = Map.empty, mm_touched = {}\<rparr>" "0x1000" "0x1234"]
  by (simp add: WORD_BITS_def access_bytes_def)

text \<open>
  C19. A run of blocks that all hold a statement returns: with an answer, an error, or the step limit.
\<close>

theorem run_returns:
  assumes "\<forall>b \<in> set blocks. sb_stmts b \<noteq> []"
  shows "\<exists>r st. emu_run cfg blocks vars mem = Some (r, st)"
proof -
  obtain q st where "run_body cfg blocks (entry_state cfg vars mem) = Some (q, st)"
  proof (cases "by_id blocks 0")
    case None
    then show ?thesis using that by (simp add: run_body_def)
  next
    case (Some i)
    then show ?thesis using run_from_returns [OF assms by_id_bound [OF Some]] that by (force simp: run_body_def)
  qed
  then show ?thesis by (cases q) (simp_all add: emu_run_def)
qed

text \<open>A block that jumps to itself: the step limit ends it.\<close>

definition turning_block :: SsaBlock where
  "turning_block = spin_block\<lparr>sb_stmts := [\<lparr>ss_va = 0x1000, ss_stmt = NopS\<rparr>]\<rparr>"

theorem run_returns_witness:
  "\<exists>r st. emu_run (EmuConfig_default None (\<lambda>n vs va fs gs. Inr 0)) [turning_block] Map.empty
    \<lparr>mm_written = Map.empty, mm_touched = {}\<rparr> = Some (r, st)"
  by (rule run_returns) (simp add: turning_block_def)

section \<open>The optimizer\<close>

text \<open>A block with a definition that nothing reads.\<close>

definition dead_block :: SsaBlock where
  "dead_block = \<lparr>sb_id = 0, sb_start = 0x1000, sb_end = 0x1008, sb_terminator = ''ret'', sb_successors = [], sb_phis = [],
     sb_stmts = [
       \<lparr>ss_va = 0x1000, ss_stmt = AssignS ''rcx.1'' (ConstE 7 64)\<rparr>,
       \<lparr>ss_va = 0x1004, ss_stmt = ReturnS (Some (ConstE 5 64))\<rparr>],
     sb_condition = None\<rparr>"

lemma dead_block_dce: "fst (dce_round None [dead_block]) = [dead_block\<lparr>sb_stmts := [\<lparr>ss_va = 0x1004, ss_stmt = ReturnS (Some (ConstE 5 64))\<rparr>]\<rparr>]"
  "\<not> live_def None (count_uses [dead_block]) []"
  by code_simp+

lemma dead_block_run:
  assumes "1 < ec_max_steps cfg"
  shows "\<exists>r st. emu_run cfg [dead_block] vars mem = Some (Inr r, st) \<and> er_ret r = Some 5"
proof -
  let ?b = dead_block
  have const: "eval cfg va (ConstE v 64) st = (Inr (extend_bits v 64 False), st)" for va v st by (simp add: eret_def)
  have assign: "exec_stmt cfg va (AssignS ''rcx.1'' (ConstE 7 64)) st = (Inr None, st\<lparr>em_vars := (em_vars st)(''rcx.1'' \<mapsto> extend_bits 7 64 False)\<rparr>)" for va st
    by (simp add: exec_assign_def is_flags_def base_name_def FLAGS_VAR_def const set_var_def ebind_def eret_def)
  have five: "ucast (extend_bits 5 64 False) = (5 :: u64)" by (simp add: extend_bits_def)
  have ret: "exec_stmt cfg va (ReturnS (Some (ConstE 5 64))) st = (Inr (Some (Some 5)), st)" for va st
    using five by (simp add: const ebind_def eret_def)
  let ?st = "(entry_state cfg vars mem)\<lparr>em_blocks_entered := em_blocks_entered (entry_state cfg vars mem) + 1\<rparr>"
  obtain st' where x: "exec_stmts cfg (sb_stmts ?b) ?st = (Inr (Some (Some 5)), st')"
    using assms ret assign by (simp add: dead_block_def ebind_def count_step_ok entry_state_def eret_def)
  have i: "by_id [?b] 0 = Some 0" by (simp add: by_id_def dead_block_def)
  have "run_block cfg [?b] None 0 (entry_state cfg vars mem) = (Inr (Inl (Some 5)), st')"
  proof -
    have p: "run_phis cfg None ?b = eret ()" by (simp add: run_phis_def dead_block_def)
    show ?thesis using x by (simp add: run_block_def p ebind_def eret_def)
  qed
  then show ?thesis using i by (simp add: emu_run_def run_body_def run_from.simps)
qed

text \<open>
  C2. Removing the definitions that nothing reads keeps what a function computes: a run that returns is
  matched by a run of the blocks without them, with the same answer and the same memory, in no more
  steps.
\<close>

theorem dce_preserves_run:
  assumes "emu_run cfg blocks vars mem = Some (Inr r, st)" "\<not> live_def sp (count_uses blocks) []"
  shows "\<exists>r2 st2. emu_run cfg (fst (dce_round sp blocks)) vars mem = Some (Inr r2, st2) \<and> er_ret r2 = er_ret r \<and>
    er_steps r2 \<le> er_steps r \<and> mm_written (em_mem st2) = mm_written (em_mem st)"
  by (rule dce_run [OF assms])

theorem dce_preserves_run_witness:
  "\<exists>r2 st2. emu_run (EmuConfig_default None (\<lambda>n vs va fs gs. Inr 0)) [dead_block\<lparr>sb_stmts := [\<lparr>ss_va = 0x1004, ss_stmt = ReturnS (Some (ConstE 5 64))\<rparr>]\<rparr>]
    Map.empty \<lparr>mm_written = Map.empty, mm_touched = {}\<rparr> = Some (Inr r2, st2) \<and> er_ret r2 = Some 5"
proof -
  let ?cfg = "EmuConfig_default None (\<lambda>n vs va fs gs. Inr 0)" and ?mem = "\<lparr>mm_written = Map.empty, mm_touched = {}\<rparr>"
  obtain r st where r: "emu_run ?cfg [dead_block] Map.empty ?mem = Some (Inr r, st)" "er_ret r = Some 5"
    using dead_block_run [of ?cfg Map.empty ?mem] by (auto simp: EmuConfig_default_def)
  from dce_preserves_run [OF r(1) dead_block_dce(2)] r(2) show ?thesis unfolding dead_block_dce(1) by auto
qed

text \<open>
  C10. The optimizer deepens no expression past the deepest one it was given, or past its own limit:
  not in any number of rounds.
\<close>

theorem optimizer_depth_bounded:
  assumes "depth_le k blocks" "MAX_PROPAGATED_DEPTH \<le> k"
  shows "depth_le k (fst (optimize_run abi_name sp callsites blocks))"
  by (rule optimize_run_depth [OF assms])

theorem optimizer_depth_bounded_witness: "depth_le 64 (fst (optimize_run ''sysv'' (Some ''rsp'') [] [alias_block]))"
  by (rule optimizer_depth_bounded)
    (simp_all add: MAX_PROPAGATED_DEPTH_def depth_le_def alias_block_def stmt_read_depth_def max_depth_def expr_depth_def)

text \<open>
  C23. Where a chain of copies ends, copy propagation takes a name to its end: the guard against cycles
  cuts no such chain short.
\<close>

theorem copy_chain_root:
  assumes "(n, r) \<in> {(a, b). copies blocks a = Some b}\<^sup>*" "copies blocks r = None"
  shows "chase_copy (copies blocks) n = r"
  by (rule chase_copy_root) (use assms in \<open>simp_all add: copy_step_def\<close>)

definition copy_block :: SsaBlock where
  "copy_block = dead_block\<lparr>sb_stmts := [\<lparr>ss_va = 0x1000, ss_stmt = AssignS ''a.1'' (VarE ''b.1'')\<rparr>, \<lparr>ss_va = 0x1004, ss_stmt = AssignS ''b.1'' (VarE ''c.0'')\<rparr>]\<rparr>"

theorem copy_chain_root_witness: "chase_copy (copies [copy_block]) ''a.1'' = ''c.0''"
proof (rule copy_chain_root)
  have c: "copies [copy_block] = [''a.1'' \<mapsto> ''b.1'', ''b.1'' \<mapsto> ''c.0'']"
    by (simp add: copies_def copy_block_def dead_block_def stmt_copy_def)
  have "copies [copy_block] ''a.1'' = Some ''b.1''" "copies [copy_block] ''b.1'' = Some ''c.0''" by (simp_all add: c)
  then show "(''a.1'', ''c.0'') \<in> {(a, b). copies [copy_block] a = Some b}\<^sup>*"
    by (intro converse_rtrancl_into_rtrancl [of "''a.1''" "''b.1''"] r_into_rtrancl) simp_all
  show "copies [copy_block] ''c.0'' = None" by (simp add: c)
qed



section \<open>Value sets\<close>

text \<open>
  C3. Where the passes of the value-set analysis settled, every value a run gives a variable is equal,
  modulo \<open>2 ^ 64\<close>, to one in the set reported for it, whatever way the run ends. The blocks must be
  \<open>analysed\<close>: every input of a phi has a set, so none is an entry value, and what is assigned is
  built from names and literals that fit their width by sums, differences, products, bitwise and unary
  operations, selections and casts to at most 64 bits, or has an unknown set. The run must not invent
  entry values, nor start with a value for a name that has a set.
\<close>

theorem value_sets_cover_run:
  assumes "vs_run blocks = (sets, iterations)" "iterations < MAX_ITERATIONS" "analysed blocks sets"
    and "\<not> ec_entry_scratch cfg" "\<forall>n \<in> dom sets. em_vars (entry_state cfg vars mem) n = None"
    and "emu_run cfg blocks vars mem = Some (r, st)" "em_vars st n = Some v" "sets n = Some s"
  shows "covers s v"
  using vs_run_covers [OF assms(1-6)] assms(7,8) by (simp add: covered_def)

text \<open>A block whose names are computed from a literal.\<close>

definition sum_block :: SsaBlock where
  "sum_block = dead_block\<lparr>sb_stmts := [
     \<lparr>ss_va = 0x1000, ss_stmt = AssignS ''a.1'' (ConstE 5 64)\<rparr>,
     \<lparr>ss_va = 0x1004, ss_stmt = AssignS ''b.1'' (BinaryE BinOp_Add (VarE ''a.1'') (ConstE 3 64))\<rparr>,
     \<lparr>ss_va = 0x1008, ss_stmt = ReturnS (Some (VarE ''b.1''))\<rparr>]\<rparr>"

lemma sum_block_sets: "vs_run [sum_block] = ([''a.1'' \<mapsto> VS_Values {5}, ''b.1'' \<mapsto> VS_Values {8}], 2)"
proof -
  let ?env = "[''a.1'' \<mapsto> VS_Values {5}, ''b.1'' \<mapsto> VS_Values {8}]"
  have p: "vs_pairs BinOp_Add {5} {3} = VS_Values {8}" by (simp add: vs_pairs_def vs_binop_def MAX_TRACKED_VALUES_def)
  have s1: "vs_step [sum_block] Map.empty = (?env, True)"
    by (simp add: vs_step_def sum_block_def dead_block_def vs_stmt_def vs_set_def Let_def VS_singleton_def p)
  have s2: "vs_step [sum_block] ?env = (?env, False)"
    by (simp add: vs_step_def sum_block_def dead_block_def vs_stmt_def vs_set_def Let_def VS_singleton_def p fun_eq_iff)
  have m: "MAX_ITERATIONS = Suc (Suc 18)" by (simp add: MAX_ITERATIONS_def)
  show ?thesis unfolding vs_run_def m vs_passes.simps s1 by (simp add: s2 vs_close_def fun_eq_iff)
qed

lemma sum_block_run:
  assumes "2 < ec_max_steps cfg"
  shows "\<exists>r st. emu_run cfg [sum_block] vars mem = Some (r, st) \<and> em_vars st ''b.1'' = Some 8"
proof -
  let ?b = sum_block
  let ?st = "(entry_state cfg vars mem)\<lparr>em_blocks_entered := em_blocks_entered (entry_state cfg vars mem) + 1\<rparr>"
  have five: "extend_bits 5 64 False = 5" "extend_bits 3 64 False = 3" by code_simp+
  have add: "eval_binary BinOp_Add 5 3 va = Inr 8" for va by (simp add: eval_binary_def is_bitwise_def binop_def)
  have a: "exec_stmt cfg va (AssignS ''a.1'' (ConstE 5 64)) st = (Inr None, st\<lparr>em_vars := (em_vars st)(''a.1'' \<mapsto> 5)\<rparr>)" for va st
    by (simp add: exec_assign_def is_flags_def base_name_def FLAGS_VAR_def set_var_def ebind_def eret_def five)
  have b: "exec_stmt cfg va (AssignS ''b.1'' (BinaryE BinOp_Add (VarE ''a.1'') (ConstE 3 64))) st = (Inr None, st\<lparr>em_vars := (em_vars st)(''b.1'' \<mapsto> 8)\<rparr>)"
    if "em_vars st ''a.1'' = Some 5" for va st
    using that by (simp add: exec_assign_def is_flags_def base_name_def FLAGS_VAR_def set_var_def ebind_def eret_def five eval_var_def lift_emu_def add)
  have r: "exec_stmt cfg va (ReturnS (Some (VarE ''b.1''))) st = (Inr (Some (Some 8)), st)" if "em_vars st ''b.1'' = Some 8" for va st
    using that by (simp add: eval_var_def ebind_def eret_def)
  obtain st' where x: "exec_stmts cfg (sb_stmts ?b) ?st = (Inr (Some (Some 8)), st')" "em_vars st' ''b.1'' = Some 8"
    using assms a b r by (simp add: sum_block_def ebind_def count_step_ok entry_state_def eret_def del: exec_stmt.simps)
  have i: "by_id [?b] 0 = Some 0" by (simp add: by_id_def sum_block_def dead_block_def)
  have "run_block cfg [?b] None 0 (entry_state cfg vars mem) = (Inr (Inl (Some 8)), st')"
  proof -
    have p: "run_phis cfg None ?b = eret ()" by (simp add: run_phis_def sum_block_def dead_block_def)
    show ?thesis using x by (simp add: run_block_def p ebind_def eret_def)
  qed
  then show ?thesis using i x(2) by (simp add: emu_run_def run_body_def run_from.simps)
qed

theorem value_sets_cover_run_witness: "covers (VS_Values {8}) 8"
proof -
  let ?cfg = "EmuConfig_default None (\<lambda>n vs va fs gs. Inr 0)" and ?mem = "\<lparr>mm_written = Map.empty, mm_touched = {}\<rparr>"
  have e: "same64 5 (extend_bits 5 64 False)" "same64 3 (extend_bits 3 64 False)" by code_simp+
  obtain r st where r: "emu_run ?cfg [sum_block] Map.empty ?mem = Some (r, st)" "em_vars st ''b.1'' = Some 8"
    using sum_block_run [of ?cfg Map.empty ?mem] by (auto simp: EmuConfig_default_def)
  show ?thesis
  proof (rule value_sets_cover_run [OF sum_block_sets])
    show "analysed [sum_block] [''a.1'' \<mapsto> VS_Values {5}, ''b.1'' \<mapsto> VS_Values {8}]"
      by (simp add: analysed_def sum_block_def dead_block_def e ring_op_def)
    show "\<forall>n \<in> dom [''a.1'' \<mapsto> VS_Values {5}, ''b.1'' \<mapsto> VS_Values {8}]. em_vars (entry_state ?cfg Map.empty ?mem) n = None"
      by (simp add: entry_state_def seed_def Let_def)
  qed (use r in \<open>simp_all add: EmuConfig_default_def MAX_ITERATIONS_def\<close>)
qed

text \<open>
  C13. Two addresses the analysis says must alias are equal, and two it says do not are different when
  the values of their sets are below \<open>2 ^ 64\<close>.
\<close>

theorem alias_answers_sound:
  assumes "\<not> ec_entry_scratch cfg" "addr_exact a" "addr_exact b" "covered sets st" "covered sets st2"
    and "eval cfg va a st = (Inr v, st')" "eval cfg va2 b st2 = (Inr w, st2')"
  shows "(alias_of a b sets = MustAlias \<longrightarrow> (ucast v :: u64) = ucast w) \<and>
    (alias_of a b sets = NoAlias \<and> addresses (resolve_addr sets a) \<and> addresses (resolve_addr sets b) \<longrightarrow> (ucast v :: u64) \<noteq> ucast w)"
  using alias_answer [OF assms] by blast

theorem alias_answers_sound_witness: "(ucast (0x1008 :: u128) :: u64) \<noteq> ucast (0x1010 :: u128)"
proof -
  let ?cfg = "EmuConfig_default None (\<lambda>n vs va fs gs. Inr 0)"
  let ?sets = "[''a.1'' \<mapsto> VS_Values {0x1000}]" and ?a = "BinaryE BinOp_Add (VarE ''a.1'') (ConstE 8 64)" and ?b = "ConstE 0x1010 64"
  define st :: Emu where "st = \<lparr>em_vars = [''a.1'' \<mapsto> 0x1000], em_mem = \<lparr>mm_written = Map.empty, mm_touched = {}\<rparr>, em_invented = [],
    em_steps = 0, em_blocks_entered = 0\<rparr>"
  then have st: "em_vars st = [''a.1'' \<mapsto> 0x1000]" by simp
  have e: "same64 8 (extend_bits 8 64 False)" "same64 0x1010 (extend_bits 0x1010 64 False)" "extend_bits 8 64 False = 8"
    "extend_bits 0x1010 64 False = 0x1010" by code_simp+
  have add: "eval_binary BinOp_Add 0x1000 8 0 = Inr 0x1008" by (simp add: eval_binary_def is_bitwise_def binop_def)
  have c: "covered ?sets st" by (simp add: covered_def st same64_def)
  have va: "eval ?cfg 0 ?a st = (Inr 0x1008, st)" by (simp add: ebind_def eret_def eval_var_def st lift_emu_def e add)
  have vb: "eval ?cfg 0 ?b st = (Inr 0x1010, st)" by (simp add: eret_def e)
  have p: "addr_pairs BinOp_Add {0x1000} {8} = VS_Values {0x1008}" by (simp add: addr_pairs_def vs_binop_def MAX_TRACKED_VALUES_def)
  have no: "alias_of ?a ?b ?sets = NoAlias" "addresses (resolve_addr ?sets ?a)" "addresses (resolve_addr ?sets ?b)"
    by (simp_all add: alias_of_def VS_singleton_def p addresses_def)
  have x: "\<not> ec_entry_scratch ?cfg" "addr_exact ?a" "addr_exact ?b" by (simp_all add: EmuConfig_default_def e same64_def)
  from alias_answers_sound [OF x c c va vb] no show ?thesis by blast
qed

end
