(* ===== verification/Spec2Isabelle.thy ===== *)
theory Spec2Isabelle
  imports Wasm_Eval Wasm_Text_Instr Wasm_Arch_Threads Flirt_Props Dom_Frontier Micro_Props
begin

text \<open>
  N0xis is a reverse-engineering toolkit of several Rust crates: readers turn files into functions,
  instruction sets turn bytes into instructions and these into a micro-IR, and passes over the
  micro-IR analyse, simplify and run a function. This development covers four parts of it.

  \<^bold>\<open>The program's parts and how they interact.\<close>
    \<^item> The WebAssembly path: the crate \<open>n0xis-wasm\<close>, which reads a module from its bytes, and
      \<open>n0xis-wasm-arch\<close>, which serves the decoded code through the instruction-set interface of
      \<open>n0xis-arch\<close>. A \<open>Reader\<close> (\<open>reader.rs\<close>) is a cursor over a window of the file, and every
      other reader is built on it: \<open>types.rs\<close> reads the type grammar, \<open>instr.rs\<close> the immediates and,
      by one table, the instructions; \<open>body.rs\<close> drives the decoder over a body and matches the block
      structure with a stack of frames; \<open>names.rs\<close> reads the \<open>name\<close> section, collecting problems
      instead of failing; \<open>module.rs\<close> walks the sections, builds the index spaces and the findings,
      and answers queries by index and by file offset; \<open>lib.rs\<close> holds the guarded entry points,
      which turn a panic into a value. The architecture answers \<open>decode\<close>, \<open>decode_range\<close> and
      \<open>decode_stream\<close> at file offsets, with a cache of the body decoded last.
    \<^item> The signature matcher \<open>n0xis-flirt\<close>: patterns of bytes with wildcards, a database that names
      a function by its first bytes, and the texts it is loaded from.
    \<^item> Dominators (\<open>n0xis-core/src/dom.rs\<close>): the passes that place phis, find loops and structure
      code ask its trees which block lies on every path to another.
    \<^item> The micro-IR (\<open>n0xis-arch/src/microir.rs\<close>) in SSA form (\<open>n0xis-core/src/ssa.rs\<close>) and three
      passes over it: the emulator (\<open>emulate.rs\<close>) runs a function, the optimizer (\<open>optimize.rs\<close>)
      rewrites it, and the value sets (\<open>valueset.rs\<close>) say which values a variable may hold. The
      emulator is the meaning the other two are measured against: what the optimizer writes must
      run as before, and what a run computes must be in the set.

  \<^bold>\<open>Which theory models which part.\<close> Paths are under \<open>src/crates/\<close>.
    \<^item> \<open>Prelude\<close>: words of the Rust integer types, the result type, shared lemmas.
    \<^item> \<open>Wasm_Error\<close> (\<open>n0xis-wasm/src/error.rs\<close>): one constructor for each problem. A panic of the
      Rust code (an overflow, an index out of range) is the constructor \<open>Internal\<close>, so that
      never panicking is a theorem about values.
    \<^item> \<open>Wasm_Reader\<close>, \<open>Wasm_Leb\<close> (\<open>reader.rs\<close>): the cursor as a record of the bytes, a position and
      a limit; a reader is a function from a cursor to an error or a value and the moved cursor.
      \<open>Wasm_Leb\<close> states the integer encodings of the specification and proves that the two
      loops accept exactly these.
    \<^item> \<open>Wasm_Types\<close>, \<open>Wasm_Grammar\<close> (\<open>types.rs\<close>): the types and their readers; the grammar of the
      specification as relations on byte strings, and the exactness of the readers.
    \<^item> \<open>Wasm_Instr\<close>, \<open>Wasm_Opcodes\<close> (\<open>instr.rs\<close>): immediates; the rows of the macro
      \<open>instructions!\<close> for the five opcode spaces and \<open>decode\<close>.
    \<^item> \<open>Wasm_Body\<close> (\<open>body.rs\<close>): locals, the frame machine, constant expressions; the block grammar
      and the equivalence of the machine with it.
    \<^item> \<open>Wasm_Names\<close> (\<open>names.rs\<close>): the name section.
    \<^item> \<open>Wasm_Module\<close> with \<open>Wasm_Module_Reads\<close>, \<open>Wasm_Module_Inv\<close> and \<open>Wasm_Module_Props\<close>
      (\<open>module.rs\<close>, \<open>lib.rs\<close>): the state of the section loop, every section reader, \<open>read\<close> and the
      queries; in the other three theories the bounds of every reader, the invariant of the
      loop, and what the queries answer on a module that was read.
    \<^item> \<open>Wasm_Text\<close> with \<open>Wasm_Text_Numbers\<close>, \<open>Wasm_Text_Exact\<close> and \<open>Wasm_Text_Instr\<close> (\<open>Display\<close> and
      \<open>write\<close> of \<open>types.rs\<close> and \<open>instr.rs\<close>): the text format; numerals and hexadecimal floats read
      back, the text of types and immediates determines them.
    \<^item> \<open>Wasm_Arch\<close> (\<open>n0xis-wasm-arch/src/lib.rs\<close>, with the data of \<open>n0xis-arch/src/lib.rs\<close> and
      \<open>insn.rs\<close>): the architecture with its cache as explicit state. \<open>Wasm_Arch_Props\<close> keeps the
      invariant of the cache, \<open>Wasm_Arch_Answers\<close> gives the answers as functions of the module
      alone, \<open>Wasm_Arch_Range\<close> the sweep of a window, \<open>Wasm_Arch_Queries\<close> sequences of questions.
      \<open>Wasm_Arch_Threads\<close> has the threads that share the cache: a step relation on the holder of
      the lock, the cache and the phases of the callers, with taking and dropping the lock as steps.
    \<^item> \<open>Wasm_Eval\<close>: rewriting rules that evaluate the readers on concrete bytes, and the sample
      module of the witnesses.
    \<^item> \<open>Flirt\<close>, \<open>Flirt_Props\<close> (\<open>n0xis-flirt/src/lib.rs\<close>): patterns, the database and its index by first
      byte, lookup; the index loses nothing, ties are refused, the order of loading does not matter.
    \<^item> \<open>Dom\<close> (\<open>dom.rs\<close>): the numbering of the blocks, the passes that settle parents, the walk that
      gives intervals, forward and reverse trees, frontiers. \<open>Dom_Chain\<close> and \<open>Dom_Order\<close> hold the
      theory of parent chains and of dominance over all paths, \<open>Dom_Walk\<close> and \<open>Dom_Settle\<close> the two
      loops, \<open>Dom_Spans\<close> the intervals, and \<open>Dom_Graph\<close>, \<open>Dom_Tree\<close>, \<open>Dom_Reverse\<close> and \<open>Dom_Frontier\<close>
      what the queries answer.
    \<^item> \<open>Micro\<close> (\<open>microir.rs\<close>, the block types of \<open>ssa.rs\<close>): expressions, statements, blocks; shifts at
      a width and what they compute on integers.
    \<^item> \<open>Emulate\<close>, \<open>Emulate_Props\<close> (\<open>emulate.rs\<close>): the memory as the bytes written over a backing image,
      the state as a record of variables, memory, counters and invented values; evaluation and
      statements as functions from a state to an error or a value and the next state; the run over
      blocks. \<open>Emulate_Props\<close> has what every operation keeps of the state, and that a run returns.
    \<^item> \<open>Optimize\<close> and \<open>Optimize_Mem\<close> (\<open>optimize.rs\<close>, \<open>frame_versions\<close> of \<open>typeinfer.rs\<close>): each round as a
      function on the list of blocks with its changed flag, and the loop over rounds.
      \<open>Optimize_Sim\<close> proves that removing dead code keeps every run, \<open>Optimize_Depth\<close> the bound on
      the depth of expressions and the end of copy chains, \<open>Optimize_Fold\<close> where folding and the
      emulator agree, with the inputs on which they do not, and \<open>Optimize_Alias\<close> runs a block that
      memory forwarding changes.
    \<^item> \<open>Value_Set\<close>, \<open>Value_Set_Props\<close> (\<open>valueset.rs\<close>): sets of values, the passes, the alias answers;
      the sets cover every run once the passes have settled.
    \<^item> \<open>Micro_Props\<close>: the properties of the emulator, the optimizer and the value sets.

  \<^bold>\<open>Interfaces.\<close> The locales state what one part relies on in another: an item reader that
  moves forward and stays in its window (\<open>Wasm_Reader\<close>, used by vectors, sections and bodies), a
  reader that accepts exactly a production (\<open>Wasm_Grammar\<close>), a text that ends at a blank or
  bracket (\<open>Wasm_Text_Exact\<close>), a service whose answers do not depend on the questions before
  (\<open>Wasm_Arch_Queries\<close>), a relation between the states before and after that every effect of the
  emulator keeps (\<open>Emulate_Props\<close>, interpreted for the counters, the memory, the blocks entered,
  the variables and the value sets), and a rewriting of blocks that runs as before
  (\<open>Optimize_Sim\<close>). Each is interpreted on the definitions of the model.

  \<^bold>\<open>Bounds, fuel and panics.\<close> Most loops are total functions whose termination is proved from
  what is left: the bytes (\<open>read_sections\<close>, \<open>expression_from\<close>, the LEB128 loops), the interval
  (\<open>partition_from\<close>), the names not yet marked (\<open>frame_loop\<close>). Three take a count that is the
  code's own bound, not fuel of the model: \<open>cross_passes\<close> (number of blocks plus two),
  \<open>optimize_rounds\<close> (\<open>MAX_ROUNDS\<close>) and \<open>vs_passes\<close> (\<open>MAX_ITERATIONS\<close>). The loops of the dominator
  trees and the run of the emulator are \<open>partial_function (option)\<close>, so that not returning
  is the value \<open>None\<close>: the trees are proved to return on every graph, when two times the number
  of blocks is at most the largest \<open>u32\<close>, and a run returns when every block holds a statement
  (without one it may not, \<open>spin_never_returns\<close>). Integers have their widths; a position is a
  natural number, since a file fits in memory, and where the Rust code adds positions with an
  overflow check the model has the check. The optimizer and the value
  sets compute on \<open>i128\<close> with wrap-around, as a build without overflow checks does.

  \<^bold>\<open>Not modelled.\<close> The \<open>Display\<close> text of refusals, findings and parse errors; the panic hook of
  \<open>lib.rs\<close> (its effect, an \<open>Internal\<close> value, is modelled). Of the emulator, calls under
  \<open>CallPolicy::Execute\<close> with their \<open>CodeProvider\<close>, the register file beside the variables, and what an
  intrinsic computes, which is an argument, as are the bytes of the image; and what a failed
  run leaves to the report of the next one. Of the optimizer, the
  log of what changed. The other passes of \<open>n0xis-core\<close> (construction of the CFG and of the SSA
  form, structuring, type inference, rendering, scanning); the native instruction sets and their
  lifts (\<open>n0xis-arch\<close> beyond its data), which rest on decoders outside the repository;
  processes, files and archives (\<open>n0xis-sources\<close>, \<open>n0xis-bitsquid\<close>, \<open>n0xis-pdb\<close>, \<open>n0xis-il2cpp\<close>,
  \<open>n0xis-lua\<close>, \<open>n0xis-luajit\<close>); and the front ends (\<open>n0xis-cli\<close>, \<open>n0xis-mcp\<close>, \<open>n0xis-frontend\<close>,
  \<open>n0xis-pipeline\<close>, \<open>n0xis-project\<close>, \<open>n0xis-update\<close>, \<open>n0xis-contracts\<close>).
\<close>

section \<open>Reading a module\<close>

text \<open>
  C1. Whatever the bytes, \<open>read\<close> does not stop in a panic: an error is a refusal with an
  offset in the file.
\<close>

theorem read_refuses_within_file:
  assumes "read bytes = Inl e"
  shows "\<exists>off problem. e = Unreadable off problem \<and> off \<le> length bytes"
  using read_refusal [OF assms] by (auto elim: refusal_withinE)

theorem read_refuses_within_file_witness:
  "\<exists>off problem. Unreadable 8 (UnknownSection 14) = Unreadable off problem \<and> off \<le> length (take 8 sample @ [14, 0])"
  by (rule read_refuses_within_file)
    (simp add: cursor_eval module_eval sample_def cong: lazy)

text \<open>
  C4. The sections of a module that was read lie one after the other inside the file, and
  its standard sections stand in the order of the format, each at most once.
\<close>

theorem read_sections_in_order:
  assumes "read bytes = Inr m"
  shows "mo_bytes m = bytes \<and> laid_out 0 (map se_contents (mo_sections m)) (length bytes) \<and>
    sorted_wrt (<) (map SectionKind_rank (standard_kinds m))"
proof -
  obtain st r where inv: "reading_inv bytes st r" "rpos r = length bytes" "finish_bodies (rd_module st) = Inr m"
    by (rule read_stages [OF assms])
  obtain fs where m: "m = (rd_module st)\<lparr>mo_imported_functions := of_nat (imported_count (rd_module st)),
      mo_findings := mo_findings (rd_module st) @ fs\<rparr>"
    by (rule finish_bodies_Inr [OF inv(3)])
  show ?thesis
    using inv(1,2) unfolding m by (simp add: reading_inv_def Let_def ranks_ok_def standard_kinds_def)
qed

theorem read_sections_in_order_witness:
  "mo_bytes sample_module = sample \<and> laid_out 0 (map se_contents (mo_sections sample_module)) (length sample) \<and>
    sorted_wrt (<) (map SectionKind_rank (standard_kinds sample_module))"
  by (rule read_sections_in_order [OF read_sample])

text \<open>
  C5. In every index space of a module that was read the imports come first; the defined
  functions are numbered in order, one for each body, and every body lies in the file.
\<close>

theorem read_index_spaces:
  assumes "read bytes = Inr m"
  shows "imports_first is_imported (mo_functions m) \<and> imports_first table_imported (mo_tables m) \<and>
    imports_first memory_imported (mo_memories m) \<and> imports_first tag_imported (mo_tags m) \<and>
    imports_first global_imported (mo_globals m) \<and>
    map fu_origin (dropWhile is_imported (mo_functions m)) = map FuncOrigin_Defined [0..<length (mo_bodies m)] \<and>
    laid_out 0 (mo_bodies m) (length (mo_bytes m))"
proof -
  obtain st r where inv: "reading_inv bytes st r" "finish_bodies (rd_module st) = Inr m"
    by (rule read_stages [OF assms])
  obtain fs where m: "m = (rd_module st)\<lparr>mo_imported_functions := of_nat (imported_count (rd_module st)),
      mo_findings := mo_findings (rd_module st) @ fs\<rparr>"
    by (rule finish_bodies_Inr [OF inv(2)])
  have "spaces_ok (last_rank st) (rd_module st)" using inv(1) by (simp add: reading_inv_def Let_def module_inv_def)
  then have "spaces_ok (max 7 (last_rank st)) (rd_module st)" by (rule spaces_ok_mono) simp
  then show ?thesis
    using read_module_ok [OF assms] unfolding m
    by (simp add: module_ok_def defs_ok_def spaces_ok_def space_ok_def)
qed

theorem read_index_spaces_witness:
  "map fu_origin (dropWhile is_imported (mo_functions sample_module)) =
    map FuncOrigin_Defined [0..<length (mo_bodies sample_module)] \<and> mo_bodies sample_module = [(31, 36)]"
  using read_index_spaces [OF read_sample] by (simp add: sample_module_def)

text \<open>
  C16. The table between a function's index and its position: \<open>function_at\<close> never stops, and
  answers \<open>f\<close> exactly where \<open>body_start\<close> says the body of \<open>f\<close> starts.
\<close>

theorem function_at_inverts_body_start:
  assumes "read bytes = Inr m"
  shows "(\<exists>answer. function_at m off = Inr answer) \<and>
    (function_at m off = Inr (Some f) \<longleftrightarrow> body_start m f = Some off)"
  using function_at_lemma [OF read_module_ok [OF assms]] by (cases f) auto

theorem function_at_inverts_body_start_witness:
  "function_at sample_module 31 = Inr (Some (FuncIdx 1)) \<and> body_start sample_module (FuncIdx 1) = Some 31"
  using function_at_inverts_body_start [OF read_sample, of 31 "FuncIdx 1"]
  by (simp add: sample_module_def body_start_def get_def Module_empty_def)

text \<open>
  C17. \<open>function_containing\<close> never stops, and answers a function with its body's range exactly
  when that body holds the offset (or is empty and stands there).
\<close>

theorem function_containing_exact:
  assumes "read bytes = Inr m"
  shows "(\<exists>answer. function_containing m off = Inr answer) \<and>
    (function_containing m off = Inr (Some (FuncIdx f, rg)) \<longleftrightarrow>
      (\<exists>i < length (mo_bodies m). unat f = imported_count m + i \<and> mo_bodies m ! i = rg \<and> holds_offset rg off))"
  using function_containing_lemma [OF read_module_ok [OF assms]] by blast

theorem function_containing_exact_witness:
  "function_containing sample_module 35 = Inr (Some (FuncIdx 1, (31, 36)))"
  using function_containing_exact [OF read_sample, where off = 35 and f = 1 and rg = "(31, 36)"]
  by (simp add: sample_module_def Module_empty_def holds_offset_def imported_count_def is_imported_def)

text \<open>
  C18. A finding about a body is recorded exactly for the functions whose body \<open>Module::body\<close>
  cannot decode, with the same error.
\<close>

theorem body_finding_iff:
  assumes "read bytes = Inr m"
  shows "Finding_Body f e \<in> set (mo_findings m) \<longleftrightarrow> Module_body m f = Some (Inl e)"
proof -
  obtain st r where inv: "reading_inv bytes st r" "finish_bodies (rd_module st) = Inr m"
    by (rule read_stages [OF assms])
  obtain fs where m: "m = (rd_module st)\<lparr>mo_imported_functions := of_nat (imported_count (rd_module st)),
      mo_findings := mo_findings (rd_module st) @ fs\<rparr>"
    and fs: "body_findings ((rd_module st)\<lparr>mo_imported_functions := of_nat (imported_count (rd_module st))\<rparr>) 0
      (mo_bodies (rd_module st)) = Inr fs"
    by (rule finish_bodies_Inr [OF inv(2)])
  note ok = read_module_ok [OF assms]
  have "Finding_Body f e \<notin> set (mo_findings (rd_module st))"
    using inv(1) by (auto simp: reading_inv_def Let_def list_all_iff)
  then have "Finding_Body f e \<in> set (mo_findings m) \<longleftrightarrow> (\<exists>i < length (mo_bodies m).
      body (data_indices m) (Reader_over (mo_bytes m) (mo_bodies m ! i)) = Inl e \<and>
      func_at (mo_imported_functions m) i = Inr f)"
    using body_findings_iff [OF fs, of f e] by (simp add: m data_indices_def)
  also have "\<dots> \<longleftrightarrow> Module_body m f = Some (Inl e)"
    by (rule body_error_iff [OF ok])
  finally show ?thesis .
qed

theorem body_finding_iff_witness:
  "Finding_Body (FuncIdx 1) (Unreadable 36 NotEnded) \<notin> set (mo_findings sample_module) \<and>
    Module_body sample_module (FuncIdx 1) \<noteq> Some (Inl (Unreadable 36 NotEnded))"
  using body_finding_iff [OF read_sample, of "FuncIdx 1" "Unreadable 36 NotEnded"]
  by (simp add: sample_module_def Module_empty_def)

section \<open>Bodies and instructions\<close>

text \<open>
  C8. An expression is read exactly when the bytes are instructions whose blocks nest as the
  format says, closed by the final \<open>end\<close>; without a data count section none of them names a
  data segment.
\<close>

theorem expression_grammar:
  "expression d r = Inr (ls, r') \<longleftrightarrow>
     decodes r ls r' \<and> (\<exists>b. instrs b \<and> map (\<lambda>l. arm (lo_instr l)) ls = b @ [A_End]) \<and>
     (d = DataIndices_Allowed \<or> list_all (\<lambda>l. data_index (lo_instr l) = None) ls)"
  by (cases d) (auto simp: expression_iff list_all_iff)

text \<open>
  C9. One instruction is read exactly by the table: a prefix and a code that a row has, then
  the immediate that row names.
\<close>

theorem decode_is_table:
  assumes "reader_wf r"
  shows "decode r = Inr (i, r') \<longleftrightarrow> (\<exists>pfx code v k n imm bs.
     prefix bs (window r) \<and> opcode_bytes pfx code bs \<and> (code, v, k, n) \<in> set (space pfx) \<and>
     Immediate_read k (advance (length bs) r) = Inr (imm, r') \<and> i = Instr v imm)"
  by (rule decode_iff [OF assms])

theorem decode_is_table_witness:
  "\<exists>pfx code v k n imm bs. prefix bs (window (Reader_new [0x10, 5])) \<and> opcode_bytes pfx code bs \<and> (code, v, k, n) \<in> set (space pfx) \<and>
     Immediate_read k (advance (length bs) (Reader_new [0x10, 5])) = Inr (imm, advance 2 (Reader_new [0x10, 5])) \<and>
     Instr ''Call'' (Imm_FuncIdx (FuncIdx 5)) = Instr v imm"
proof -
  have "decode (Reader_new [0x10, 5]) = Inr (Instr ''Call'' (Imm_FuncIdx (FuncIdx 5)), advance 2 (Reader_new [0x10, 5]))"
    by (simp add: cursor_eval type_eval body_eval cong: lazy)
  then show ?thesis unfolding decode_is_table [OF Reader_new_wf] .
qed

text \<open>
  The codes of a space increase along its table, so no opcode is listed twice.
\<close>

theorem opcode_codes_increase:
  "sorted_wrt (<) (map fst (space pfx))"
  using plain_codes fb_codes fc_codes fd_codes fe_codes
  by (auto simp: space_def ascending_iff split: option.split)

text \<open>
  C24. The instructions of a body that was decoded start one after the other inside its range,
  and the locals it declares number at most \<open>u32::MAX\<close>, which \<open>local_count\<close> returns.
\<close>

theorem body_order_and_locals:
  assumes "decode_body bytes rg d = Inr b" "fst rg \<le> snd rg" "snd rg \<le> length bytes"
  shows "sorted_wrt (<) (map lo_offset (bo_instructions b)) \<and>
    list_all (\<lambda>l. fst rg \<le> lo_offset l \<and> lo_offset l < snd rg) (bo_instructions b) \<and>
    unat (local_count b) = runs_total (bo_locals b) \<and> unat (local_count b) \<le> u32_MAX"
proof -
  from assms(1) obtain r' where b: "body d (Reader_over bytes rg) = Inr ((bo_locals b, bo_instructions b), r')"
    by (auto simp: decode_body_def split: sum.splits prod.splits)
  have r: "reader_wf (Reader_over bytes rg)" "rpos (Reader_over bytes rg) = fst rg" "rend (Reader_over bytes rg) = snd rg"
    using assms(2,3) by (simp_all add: Reader_over_def reader_wf_def Let_def)
  show ?thesis
    using body_offsets [OF b r(1)] r(2,3) body_locals [OF b] runs_total_sum [OF body_locals [OF b]]
    by (auto simp: local_count_def list_all_iff)
qed

theorem body_order_and_locals_witness:
  "unat (local_count \<lparr>bo_range = (0, 4), bo_locals = [\<lparr>lr_count = 3, lr_ty = ValType_I32\<rparr>],
      bo_instructions = [\<lparr>lo_offset = 3, lo_instr = Instr ''End'' Imm_None\<rparr>]\<rparr>) = 3"
proof -
  have "decode_body [1, 3, 0x7f, 0x0b] (0, 4) DataIndices_Allowed = Inr \<lparr>bo_range = (0, 4),
      bo_locals = [\<lparr>lr_count = 3, lr_ty = ValType_I32\<rparr>],
      bo_instructions = [\<lparr>lo_offset = 3, lo_instr = Instr ''End'' Imm_None\<rparr>]\<rparr>"
    by (simp add: decode_body_def cursor_eval type_eval body_eval cong: lazy)
  from body_order_and_locals [OF this] show ?thesis by (simp add: runs_total_def)
qed

text \<open>
  A body is decoded from the bytes of its range alone: two files that agree there give
  the same body or the same error.
\<close>

theorem decode_body_local:
  assumes "fst rg \<le> snd rg" "snd rg \<le> length bytes" "snd rg \<le> length bytes'"
    "take (snd rg - fst rg) (drop (fst rg) bytes) = take (snd rg - fst rg) (drop (fst rg) bytes')"
  shows "decode_body bytes rg d = decode_body bytes' rg d"
proof -
  have "same_window (Reader_over bytes rg) (Reader_over bytes' rg)"
    using assms by (simp add: same_window_def Reader_over_def reader_wf_def window_def Let_def)
  from body.window_only [OF this, of d] show ?thesis
    by (cases "body d (Reader_over bytes rg)"; cases "body d (Reader_over bytes' rg)") (auto simp: decode_body_def)
qed

theorem decode_body_local_witness:
  "decode_body [7, 0, 0x0b, 9] (1, 3) DataIndices_Allowed = decode_body [8, 0, 0x0b] (1, 3) DataIndices_Allowed"
  by (rule decode_body_local) simp_all

text \<open>
  C25. The loop over a body's instructions ends: with as many turns as there are bytes left,
  and one more, a bounded loop gives the same answer.
\<close>

theorem expression_terminates:
  assumes "reader_wf r" "remaining r < n"
  shows "expression_from d fs r = expression_fuel n d fs r"
  using assms by (rule expression_from_fuel)

theorem expression_terminates_witness:
  "expression_from DataIndices_Allowed [] (Reader_new [1, 0x0b]) = expression_fuel 3 DataIndices_Allowed [] (Reader_new [1, 0x0b])"
  by (rule expression_terminates) (simp_all add: Reader_new_wf, simp add: remaining_def Reader_new_def)

section \<open>Integers and types\<close>

text \<open>
  C26. The unsigned integers are exactly the \<open>uN\<close> of the format, at every width up to 64.
\<close>

theorem unsigned_exact:
  assumes "reader_wf r" "0 < bits" "bits \<le> 64"
  shows "unsigned_leb bits r = Inr (v, r') \<longleftrightarrow>
    (\<exists>bs. prefix bs (window r) \<and> uN bits bs (unat v) \<and> r' = advance (length bs) r)"
  using assms by (rule unsigned_leb_iff)

theorem unsigned_exact_witness:
  "unsigned_leb 32 (Reader_new [0xe5, 0x8e, 0x26]) = Inr (624485, advance 3 (Reader_new [0xe5, 0x8e, 0x26]))"
proof -
  let ?r = "Reader_new [0xe5, 0x8e, 0x26]"
  have "\<exists>bs. prefix bs (window ?r) \<and> uN 32 bs (unat (624485 :: u64)) \<and> advance 3 ?r = advance (length bs) ?r"
    by (rule exI [of _ "[0xe5, 0x8e, 0x26]"]) (simp add: window_def Reader_new_def uN_Cons)
  then show ?thesis by (subst unsigned_exact [OF Reader_new_wf]) simp_all
qed

text \<open>
  C27. The signed integers are exactly the \<open>sN\<close> of the format, at every width up to 64.
\<close>

theorem signed_exact:
  assumes "reader_wf r" "0 < bits" "bits \<le> 64"
  shows "signed_leb bits r = Inr (v, r') \<longleftrightarrow>
    (\<exists>bs. prefix bs (window r) \<and> sN bits bs (sint v) \<and> r' = advance (length bs) r)"
  using assms by (rule signed_leb_iff)

theorem signed_exact_witness:
  "signed_leb 33 (Reader_new [0xc0, 0xbb, 0x78]) = Inr (- 123456, advance 3 (Reader_new [0xc0, 0xbb, 0x78]))"
proof -
  let ?r = "Reader_new [0xc0, 0xbb, 0x78]"
  have "\<exists>bs. prefix bs (window ?r) \<and> sN 33 bs (sint (- 123456 :: i64)) \<and> advance 3 ?r = advance (length bs) ?r"
    by (rule exI [of _ "[0xc0, 0xbb, 0x78]"]) (simp add: window_def Reader_new_def sN_Cons)
  then show ?thesis by (subst signed_exact [OF Reader_new_wf]) simp_all
qed

text \<open>
  C28. An entry of the type section is read exactly when its bytes are a subtype of the
  format's grammar, and as the type they encode.
\<close>

theorem subtype_exact:
  assumes "reader_wf r"
  shows "SubType_read r = Inr (t, r') \<longleftrightarrow>
    (\<exists>bs. prefix bs (window r) \<and> subtype_prod bs t \<and> r' = advance (length bs) r)"
  by (rule parsesD [OF subtype_parses assms])

theorem subtype_exact_witness:
  "\<exists>bs. prefix bs (window (Reader_new [0x60, 0, 0])) \<and>
     subtype_prod bs \<lparr>su_final = True, su_supertypes = [], su_composite = CompositeType_Func \<lparr>fn_params = [], fn_results = []\<rparr>\<rparr> \<and>
     advance 3 (Reader_new [0x60, 0, 0]) = advance (length bs) (Reader_new [0x60, 0, 0])"
proof -
  have "SubType_read (Reader_new [0x60, 0, 0]) = Inr (\<lparr>su_final = True, su_supertypes = [],
      su_composite = CompositeType_Func \<lparr>fn_params = [], fn_results = []\<rparr>\<rparr>, advance 3 (Reader_new [0x60, 0, 0]))"
    by (simp add: cursor_eval type_eval cong: lazy)
  then show ?thesis unfolding subtype_exact [OF Reader_new_wf] .
qed

text \<open>
  The type of a block is read exactly by the format's grammar: empty, a value type, or
  a type index as a non-negative \<open>s33\<close>.
\<close>

theorem blocktype_exact:
  assumes "reader_wf r"
  shows "BlockType_read r = Inr (t, r') \<longleftrightarrow>
    (\<exists>bs. prefix bs (window r) \<and> blocktype_prod bs t \<and> r' = advance (length bs) r)"
  by (rule parsesD [OF blocktype_parses assms])

theorem blocktype_exact_witness:
  "BlockType_read (Reader_new [0x40]) = Inr (BlockType_Empty, advance 1 (Reader_new [0x40]))"
proof -
  have "\<exists>bs. prefix bs (window (Reader_new [0x40])) \<and> blocktype_prod bs BlockType_Empty \<and>
      advance 1 (Reader_new [0x40]) = advance (length bs) (Reader_new [0x40])"
    by (rule exI [of _ "[0x40]"]) (simp add: window_def Reader_new_def blocktype_prod.intros)
  then show ?thesis by (subst blocktype_exact [OF Reader_new_wf])
qed

text \<open>
  A vector of value types is read exactly when the bytes are a count and as many value
  types: the bound on the count that is checked before the loop refuses no vector.
\<close>

theorem valtype_vec_exact:
  assumes "reader_wf r"
  shows "ValType_read_vec r = Inr (ts, r') \<longleftrightarrow>
    (\<exists>bs. prefix bs (window r) \<and> vec_prod valtype_prod bs ts \<and> r' = advance (length bs) r)"
  by (rule parsesD [OF valtype_vec_parses assms])

theorem valtype_vec_exact_witness:
  "\<exists>bs. prefix bs (window (Reader_new [1, 0x7f])) \<and> vec_prod valtype_prod bs [ValType_I32] \<and>
     advance 2 (Reader_new [1, 0x7f]) = advance (length bs) (Reader_new [1, 0x7f])"
proof -
  have "ValType_read_vec (Reader_new [1, 0x7f]) = Inr ([ValType_I32], advance 2 (Reader_new [1, 0x7f]))"
    by (simp add: cursor_eval type_eval cong: lazy)
  then show ?thesis unfolding valtype_vec_exact [OF Reader_new_wf] .
qed

text \<open>
  \<open>ValType::starts_with\<close> says exactly which bytes begin a value type.
\<close>

theorem starts_with_exact: "ValType_starts_with b \<longleftrightarrow> (\<exists>bs t. valtype_prod (b # bs) t)"
  by (rule starts_with_iff)

text \<open>
  The byte of an abstract heap type and the heap type of a byte invert each other, and
  the list of all of them is complete.
\<close>

theorem abs_heap_type_bytes:
  "(AbsHeapType_from_byte b = Some h \<longleftrightarrow> AbsHeapType_byte h = b) \<and> h \<in> set AbsHeapType_ALL \<and> distinct AbsHeapType_ALL"
proof -
  have "h \<in> set AbsHeapType_ALL" by (cases h) (simp_all add: AbsHeapType_ALL_def)
  moreover have "distinct AbsHeapType_ALL" by (simp add: AbsHeapType_ALL_def)
  ultimately show ?thesis by (auto simp: AbsHeapType_from_byte_iff)
qed

section \<open>Names\<close>

text \<open>
  C29. Placing a name map: an index keeps the first name it is given, here and in the maps
  before, and a problem is recorded for exactly the entries that do not increase.
\<close>

theorem place_exact:
  "place m entries key sb inside problems =
     (map_of (map (\<lambda>(i, n). (key i, n)) entries) ++ m,
      problems @ map (NameProblem_IndexOrder sb inside) (breaks None (map fst entries))) \<and>
   (breaks None (map fst entries) = [] \<longleftrightarrow> sorted_wrt (<) (map fst entries))"
  by (simp add: place_eq breaks_Nil_iff)

text \<open>
  C30. Whatever its bytes, reading a name section gives names and problems, never an error,
  and every error a problem carries lies in the section.
\<close>

theorem names_read_total:
  assumes "reader_wf r"
  shows "\<exists>names problems. names_read r (Names_default, []) = Inr (names, problems) \<and>
    list_all (problem_within (rpos r) (rend r)) problems"
  by (rule names_read_problems [OF assms order_refl order_refl])

theorem names_read_total_witness:
  "\<exists>names problems. names_read (Reader_new [0xff, 3, 1]) (Names_default, []) = Inr (names, problems) \<and>
    list_all (problem_within (rpos (Reader_new [0xff, 3, 1])) (rend (Reader_new [0xff, 3, 1]))) problems"
  by (rule names_read_total [OF Reader_new_wf])

section \<open>Binary search\<close>

text \<open>
  Over a list whose elements with the property come first, \<open>partition_point\<close> is how many
  have it.
\<close>

theorem partition_point_counts:
  assumes "partitioned P xs"
  shows "partition_point P xs = length (takeWhile P xs) \<and> takeWhile P xs = filter P xs"
proof -
  note pp = partition_point [OF assms]
  let ?k = "partition_point P xs"
  have tw: "takeWhile P xs = take ?k xs"
    by (rule takeWhile_eq_take_P_nth) (use pp in auto)
  have "filter P (take ?k xs) = take ?k xs" using pp(1,2) by (auto simp: filter_id_conv in_set_conv_nth)
  moreover have "filter P (drop ?k xs) = []" using pp(3) by (auto simp: filter_empty_conv in_set_conv_nth)
  ultimately have "filter P xs = take ?k xs" by (metis append_Nil2 append_take_drop_id filter_append)
  with tw pp(1) show ?thesis by simp
qed

theorem partition_point_counts_witness:
  "partition_point (\<lambda>x. x < 3) [1, 2, 3, 4 :: nat] = 2"
proof -
  have "sorted [1, 2, 3, 4 :: nat]" by simp
  then have "partitioned (\<lambda>x. x < 3) [1, 2, 3, 4 :: nat]"
    unfolding partitioned_def by (metis le_less_trans sorted_nth_mono)
  from partition_point_counts [OF this] show ?thesis by simp
qed

section \<open>The text rendering\<close>

text \<open>
  C31. Every instruction that was decoded has a text, which begins with its name: the one
  shift of the rendering never overflows.
\<close>

theorem instr_renders:
  assumes "reader_wf r" "decode r = Inr (i, r')"
  shows "\<exists>n s. Instr_name i = Some n \<and> Instr_fmt i = Some (n @ s)"
  using assms by (rule Instr_fmt_total)

theorem instr_renders_witness:
  "\<exists>n s. Instr_name (Instr ''Call'' (Imm_FuncIdx (FuncIdx 5))) = Some n \<and>
     Instr_fmt (Instr ''Call'' (Imm_FuncIdx (FuncIdx 5))) = Some (n @ s)"
  by (rule instr_renders [OF Reader_new_wf [of "[0x10, 5]"], where r' = "advance 2 (Reader_new [0x10, 5])"])
    (simp add: cursor_eval type_eval body_eval cong: lazy)

text \<open>
  C32. The text of an immediate determines it: two values of one kind that can be read and
  have the same text are the same, floats and vectors to the last bit.
\<close>

theorem immediate_text_determines:
  assumes "Immediate_read k r = Inr (x, r')" "Immediate_read k q = Inr (y, q')" "Immediate_write x = Immediate_write y"
  shows "x = y"
  using assms by (rule Immediate_text_exact)

theorem immediate_text_determines_witness:
  "Imm_LaneIdx (LaneIdx 7) = Imm_LaneIdx (LaneIdx 7)"
  by (rule immediate_text_determines [of K_LaneIdx "Reader_new [7]" _ "advance 1 (Reader_new [7])"
        "Reader_new [7, 8]" _ "advance 1 (Reader_new [7, 8])"])
    (simp_all add: LaneIdx_read_def cursor_eval)

text \<open>
  The text of a type of the type index space determines it.
\<close>

theorem subtype_text_determines:
  "SubType_fmt x = SubType_fmt y \<longleftrightarrow> x = y"
  using SubType_fmt_inject by auto

text \<open>
  C33. The hexadecimal text of a finite float that is not zero denotes its value exactly, and
  the text of any float determines its bits.
\<close>

theorem hex_float_exact:
  assumes "float_format M E"
  shows "(float_exponent M E (unat bits) \<noteq> 2 ^ E - 1 \<and> unat bits mod 2 ^ (M + E) \<noteq> 0 \<longrightarrow>
      (\<exists>sgn f p. hex_float bits M E = sgn @ finite_text M (f, p) \<and> f < 2 ^ M \<and>
        sgn = (if odd (unat bits div 2 ^ (M + E)) then ''-'' else []) \<and>
        (2 ^ M + of_nat f) * 2 powi (p - int M) = float_value M E (unat bits))) \<and>
    (hex_float bits M E = hex_float bits' M E \<and> unat bits < 2 ^ (M + E + 1) \<and> unat bits' < 2 ^ (M + E + 1) \<longrightarrow> bits = bits')"
proof (intro conjI impI)
  assume h: "float_exponent M E (unat bits) \<noteq> 2 ^ E - 1 \<and> unat bits mod 2 ^ (M + E) \<noteq> 0"
  have nz: "float_exponent M E (unat bits) \<noteq> 0 \<or> float_mantissa M (unat bits) \<noteq> 0"
  proof (rule ccontr)
    assume "\<not> ?thesis"
    with float_split [of "unat bits" M E] have "unat bits = unat bits div 2 ^ (M + E) * 2 ^ (M + E)" by simp
    with h show False by (metis mod_mult_self2_is_0)
  qed
  show "\<exists>sgn f p. hex_float bits M E = sgn @ finite_text M (f, p) \<and> f < 2 ^ M \<and>
        sgn = (if odd (unat bits div 2 ^ (M + E)) then ''-'' else []) \<and>
        (2 ^ M + of_nat f) * 2 powi (p - int M) = float_value M E (unat bits)"
    using h nz float_parts_value [OF nz] float_parts_fraction [OF nz]
    by (intro exI [of _ "if odd (unat bits div 2 ^ (M + E)) then ''-'' else []"]
        exI [of _ "fst (float_parts M E (unat bits))"] exI [of _ "snd (float_parts M E (unat bits))"])
      (auto simp: hex_float_eq [OF assms] float_text_sign unsigned_text_def)
next
  assume "hex_float bits M E = hex_float bits' M E \<and> unat bits < 2 ^ (M + E + 1) \<and> unat bits' < 2 ^ (M + E + 1)"
  then have "unat bits = unat bits'"
    using float_text_inject [of M "unat bits" E "unat bits'"] assms by (simp add: hex_float_eq float_format_def)
  then show "bits = bits'" by (simp add: word_unat_eq_iff)
qed

theorem hex_float_exact_witness:
  "\<exists>f p. hex_float 0x3fc00000 23 8 = finite_text 23 (f, p) \<and> f < 2 ^ 23 \<and>
     (2 ^ 23 + of_nat f) * 2 powi (p - int 23) = float_value 23 8 0x3fc00000"
  using hex_float_exact [OF float_formats(1), of "0x3fc00000" "0x3fc00000"] by (simp add: float_exponent_def)

section \<open>The architecture\<close>

lemma sample_size: "length sample \<le> usize_MAX"
  by (simp add: sample_def)

lemma sample_body:
  "Module_body sample_module (FuncIdx 1) = Some (Inr \<lparr>bo_range = (31, 36), bo_locals = [],
     bo_instructions = [\<lparr>lo_offset = 32, lo_instr = Instr ''Block'' (Imm_BlockType BlockType_Empty)\<rparr>,
       \<lparr>lo_offset = 34, lo_instr = Instr ''End'' Imm_None\<rparr>, \<lparr>lo_offset = 35, lo_instr = Instr ''End'' Imm_None\<rparr>]\<rparr>)"
  "body_start sample_module (FuncIdx 1) = Some 31"
  by (simp_all add: Module_body_def body_start_def get_def decode_body_def sample_module_def sample_def Module_empty_def
    data_indices_def cursor_eval type_eval body_eval cong: lazy)

text \<open>
  C12. The cache of the architecture never shows: any sequence of \<open>decode\<close>, \<open>decode_stream\<close> and
  \<open>decode_range\<close> runs to its end without a panic, and each question gets the answer a fresh
  architecture of the same module gives to it.
\<close>

theorem arch_history_free:
  assumes "read bytes = Inr m" "length bytes \<le> usize_MAX"
  shows "\<exists>answers w. asks ask (Wasm_new m identity) qs = Inr (answers, w) \<and> length answers = length qs \<and>
    (\<forall>i < length qs. \<exists>w'. ask (Wasm_new m identity) (qs ! i) = Inr (answers ! i, w'))"
proof -
  have ready: "arch_ready (Wasm_new m identity)" by (rule arch_ready_new [OF read_served [OF assms]])
  obtain w where w: "asks ask (Wasm_new m identity) qs = Inr (map (module_answer (wa_module (Wasm_new m identity))) qs, w)"
    using arch.in_sequence [OF ready] by blast
  have "\<exists>w'. ask (Wasm_new m identity) q = Inr (module_answer (wa_module (Wasm_new m identity)) q, w')" for q
    using arch.serve [OF ready] by blast
  then show ?thesis unfolding w by simp
qed

theorem arch_history_free_witness:
  "\<exists>answers w. asks ask (Wasm_new sample_module ''m'') [Query_Decode [0x02, 0x40] 32, Query_Range sample 0 10] = Inr (answers, w) \<and>
    length answers = 2"
  using arch_history_free [OF read_sample sample_size, of "''m''" "[Query_Decode [0x02, 0x40] 32, Query_Range sample 0 10]"]
  by auto

text \<open>
  C34. \<open>decode\<close> answers an instruction exactly when a body that can be decoded has it at that
  address and the bytes handed over begin with the module's own bytes of it.
\<close>

theorem arch_decode_exact:
  assumes "read bytes = Inr m" "length bytes \<le> usize_MAX"
  shows "(\<exists>w. arch_decode (Wasm_new m identity) bs va = Inr (Inr x, w)) \<longleftrightarrow>
    (\<exists>d. decoded_at m (unat va) = Some d \<and> x \<in> set (code_of m d) \<and> di_va x = va \<and> prefix (di_bytes x) bs)"
proof -
  note s = read_served [OF assms]
  have "(\<exists>w. arch_decode (Wasm_new m identity) bs va = Inr (Inr x, w)) \<longleftrightarrow> decode_answer m bs va = Inr x"
    using arch_decode_answer [OF s arch_inv_new, of identity bs va] by auto
  also have "\<dots> \<longleftrightarrow> (\<exists>d. decoded_at m (unat va) = Some d \<and> x \<in> set (code_of m d) \<and> di_va x = va \<and> prefix (di_bytes x) bs)"
    by (rule decode_answer_Inr [OF s])
  finally show ?thesis .
qed

theorem arch_decode_exact_witness:
  "\<forall>x. (\<exists>w. arch_decode (Wasm_new sample_module ''m'') [0x02, 0x40] 32 = Inr (Inr x, w)) \<longleftrightarrow>
    (\<exists>d. decoded_at sample_module (unat (32 :: Va)) = Some d \<and> x \<in> set (code_of sample_module d) \<and> di_va x = 32 \<and>
      prefix (di_bytes x) [0x02, 0x40])"
  using arch_decode_exact [OF read_sample sample_size] by blast

text \<open>
  C35. \<open>decode_stream\<close> from the start of a function whose body can be decoded gives the locals
  declaration and then every instruction of the body, one after the other: their bytes put
  together are the body's bytes.
\<close>

theorem decode_stream_fills_body:
  assumes "read bytes = Inr m" "length bytes \<le> usize_MAX"
    "Module_body m (FuncIdx f) = Some (Inr b)" "body_start m (FuncIdx f) = Some start"
  shows "\<exists>xs w. decode_stream (Wasm_new m identity) (drop start bytes) (of_nat start) (length bytes) = Inr (xs, w) \<and>
    chain bytes start xs (snd (bo_range b)) \<and>
    concat (map di_bytes xs) = take (snd (bo_range b) - start) (drop start bytes) \<and>
    map pos_of xs = start # map lo_offset (bo_instructions b)"
proof -
  note s = read_served [OF assms(1,2)] and bytes = read_bytes [OF assms(1)]
  let ?d = "\<lparr>de_func = FuncIdx f, de_range = (start, snd (bo_range b)), de_body = b\<rparr>"
  obtain i where i: "i < length (mo_bodies m)" "mo_bodies m ! i = (start, snd (bo_range b))" and d: "decoded_at m start = Some ?d"
    by (rule body_decoded_at [OF s assms(3,4)])
  obtain w where w: "decode_stream (Wasm_new m identity) (drop start bytes) (of_nat start) (length bytes) = Inr (code_of m ?d, w)"
    using decode_stream_answer [OF s arch_inv_new, of identity "drop start bytes" "of_nat start" "length bytes"]
      stream_answer_body [OF s i d, of "length bytes"] unfolding bytes by auto
  have c: "chain bytes start (code_of m ?d) (snd (bo_range b))" using code_chain [OF s d] unfolding bytes by simp
  have "decoded_ok ?d" by (rule decoded_at_ok [OF s d])
  from stream_spec_pos [OF this, of "Wasm_new m []"] have "map pos_of (code_of m ?d) = start # map lo_offset (bo_instructions b)"
    by (simp add: code_of_def)
  with w c chain_bytes [OF c] show ?thesis by (intro exI conjI)
qed

theorem decode_stream_fills_body_witness:
  "\<exists>xs w. decode_stream (Wasm_new sample_module ''m'') (drop 31 sample) (of_nat 31) (length sample) = Inr (xs, w) \<and>
    concat (map di_bytes xs) = [0, 0x02, 0x40, 0x0b, 0x0b] \<and> map pos_of xs = [31, 32, 34, 35]"
  using decode_stream_fills_body [OF read_sample sample_size sample_body, of "''m''"] by (auto simp: sample_def)

text \<open>
  C15. \<open>decode_range\<close> over any window of the module's own bytes returns, in the order of the file
  and up to the limit asked for, exactly the instructions of all decodable bodies that lie in
  the window.
\<close>

theorem decode_range_window:
  assumes "read bytes = Inr m" "length bytes \<le> usize_MAX" "lo + n \<le> length bytes"
  shows "\<exists>w. decode_range (Wasm_new m identity) (take n (drop lo bytes)) (of_nat lo) most =
    Inr (take most (filter (\<lambda>x. lo \<le> pos_of x \<and> pos_of x + unat (di_len x) \<le> lo + n) (all_code m)), w)"
proof -
  note s = read_served [OF assms(1,2)] and bytes = read_bytes [OF assms(1)]
  show ?thesis
    using decode_range_answer [OF s arch_inv_new, of identity "take n (drop lo bytes)" "of_nat lo" most]
      range_answer_window [OF s, of lo n most] assms(3) unfolding bytes by auto
qed

theorem decode_range_window_witness:
  "\<exists>w. decode_range (Wasm_new sample_module ''m'') (take 5 (drop 31 sample)) (of_nat 31) 2 =
    Inr (take 2 (filter (\<lambda>x. 31 \<le> pos_of x \<and> pos_of x + unat (di_len x) \<le> 31 + 5) (all_code sample_module)), w)"
  by (rule decode_range_window [OF read_sample sample_size]) (simp add: sample_def)

text \<open>
  C36. Threads that call \<open>body_at\<close> on one architecture at the same time, each taking the lock to
  look and again to store, step by step in any order: a thread that has its answer has the one a
  lone caller gets for the offset it asked.
\<close>

theorem body_at_threads:
  assumes "read bytes = Inr m"
    "(lock_step m)\<^sup>*\<^sup>* (callers offs) (l, c, ts)" "ts t = Some (Phase_Done off a)"
  shows "offs t = Some off \<and> (\<exists>w. body_at (Wasm_new m identity) off = Inr (a, w))"
proof -
  have ok: "module_ok m" by (rule read_module_ok [OF assms(1)])
  from answer_of_done [OF lock_run_inv [OF ok assms(2)] assms(3)] have "offs t = Some off" "a = decoded_at m off" by simp_all
  moreover obtain w where "body_at (Wasm_new m identity) off = Inr (decoded_at m off, w)"
    by (rule body_at_spec [OF ok arch_inv_new])
  ultimately show ?thesis by blast
qed

text \<open>One caller of the sample, from its first step to its answer.\<close>

definition sample_decoded :: Decoded where
  "sample_decoded = \<lparr>de_func = FuncIdx 1, de_range = (31, 36), de_body = \<lparr>bo_range = (31, 36), bo_locals = [],
     bo_instructions = [\<lparr>lo_offset = 32, lo_instr = Instr ''Block'' (Imm_BlockType BlockType_Empty)\<rparr>,
       \<lparr>lo_offset = 34, lo_instr = Instr ''End'' Imm_None\<rparr>, \<lparr>lo_offset = 35, lo_instr = Instr ''End'' Imm_None\<rparr>]\<rparr>\<rparr>"

lemma sample_found: "function_containing sample_module 33 = Inr (Some (FuncIdx 1, (31, 36)))"
  using function_containing_lemma(1) [OF read_module_ok [OF read_sample], of 33 1 "(31, 36)"]
  by (simp add: sample_module_def Module_empty_def holds_offset_def imported_count_def is_imported_def)

lemma lone_turn: "body_step m 0 (l, c, p) (l', c', p') \<Longrightarrow> lock_step m (l, c, [0 \<mapsto> p]) (l', c', [0 \<mapsto> p'])"
  using turn [of "[0 \<mapsto> p]" 0 p m l c l' c' p'] by simp

lemma sample_run:
  "(lock_step sample_module ^^ 8) (callers [0 \<mapsto> 33]) (None, Some sample_decoded, [0 \<mapsto> Phase_Done 33 (Some sample_decoded)])"
proof -
  let ?R = "lock_step sample_module" and ?f = "FuncIdx 1" and ?rg = "(31 :: nat, 36 :: nat)" and ?d = sample_decoded
  have start: "callers [0 \<mapsto> 33] = (None, None, [0 \<mapsto> Phase_Start 33])" by (auto simp: callers_def)
  have 1: "?R (None, None, [0 \<mapsto> Phase_Start 33]) (None, None, [0 \<mapsto> Phase_Look 33 ?f ?rg])"
    by (rule lone_turn [OF found [OF sample_found]])
  have 2: "?R (None, None, [0 \<mapsto> Phase_Look 33 ?f ?rg]) (Some 0, None, [0 \<mapsto> Phase_Looking 33 ?f ?rg])"
    by (rule lone_turn [OF lock_look])
  have 3: "?R (Some 0, None, [0 \<mapsto> Phase_Looking 33 ?f ?rg]) (Some 0, None, [0 \<mapsto> Phase_Missed 33 ?f ?rg])"
    by (rule lone_turn [OF miss]) simp
  have 4: "?R (Some 0, None, [0 \<mapsto> Phase_Missed 33 ?f ?rg]) (None, None, [0 \<mapsto> Phase_Decode 33 ?f ?rg])"
    by (rule lone_turn [OF unlock_missed])
  have 5: "?R (None, None, [0 \<mapsto> Phase_Decode 33 ?f ?rg]) (None, None, [0 \<mapsto> Phase_Store 33 ?d])"
    unfolding sample_decoded_def by (rule lone_turn [OF decoded [OF sample_body(1)]])
  have 6: "?R (None, None, [0 \<mapsto> Phase_Store 33 ?d]) (Some 0, None, [0 \<mapsto> Phase_Storing 33 ?d])"
    by (rule lone_turn [OF lock_store])
  have 7: "?R (Some 0, None, [0 \<mapsto> Phase_Storing 33 ?d]) (Some 0, Some ?d, [0 \<mapsto> Phase_Leave 33 ?d])"
    by (rule lone_turn [OF store])
  have 8: "?R (Some 0, Some ?d, [0 \<mapsto> Phase_Leave 33 ?d]) (None, Some ?d, [0 \<mapsto> Phase_Done 33 (Some ?d)])"
    by (rule lone_turn [OF unlock])
  have eight: "(8 :: nat) = Suc (Suc (Suc (Suc (Suc (Suc (Suc (Suc 0)))))))" by simp
  show ?thesis unfolding start eight
    by (rule relpowp_Suc_I2, rule 1, rule relpowp_Suc_I2, rule 2, rule relpowp_Suc_I2, rule 3, rule relpowp_Suc_I2, rule 4,
      rule relpowp_Suc_I2, rule 5, rule relpowp_Suc_I2, rule 6, rule relpowp_Suc_I2, rule 7, rule relpowp_Suc_I2, rule 8,
      rule relpowp_0_I)
qed

theorem body_at_threads_witness:
  "\<exists>w. body_at (Wasm_new sample_module ''m'') 33 = Inr (Some sample_decoded, w)"
  using body_at_threads [OF read_sample relpowp_imp_rtranclp [OF sample_run], of 0 33 "Some sample_decoded" "''m''"] by simp



section \<open>Signatures\<close>

text \<open>Three signatures: a prologue of six fixed bytes, a longer one with wildcards, and a lone jump.\<close>

definition prologue :: Signature where
  "prologue = \<lparr>sg_pattern = Pattern (map Fixed [0x48, 0x89, 0x5c, 0x24, 0x08, 0x57]), sg_name = chars ''f''\<rparr>"

definition wild_prologue :: Signature where
  "wild_prologue = \<lparr>sg_pattern = Pattern [Fixed 0x48, Fixed 0x89, Any, Any, Any, Fixed 0x57, Fixed 0x48, Fixed 0x83],
     sg_name = chars ''g''\<rparr>"

definition lone_jump :: Signature where
  "lone_jump = \<lparr>sg_pattern = Pattern [Fixed 0xe9], sg_name = chars ''h''\<rparr>"

lemmas signature_eval = prologue_def wild_prologue_def lone_jump_def Db_new_def Db_add_def Let_def first_fixed_def or_default_def
  Db_lookup_def lookup_min_fixed_def candidate_indices_def sig_at_def better_def Pattern_len_def fixed_count_def
  Pattern_matches_def pat_byte_matches_def DEFAULT_MIN_FIXED_BYTES_def chars_def

text \<open>
  C14. A lookup in a database of any signatures never indexes out of bounds, and gives a name
  exactly when a matching signature with enough fixed bytes has it and every other match is
  less specific, or equally specific and of the same name.
\<close>

theorem flirt_lookup_exact:
  "(\<exists>answer. lookup_min_fixed (foldl Db_add Db_new sigs) code min_fixed = Inr answer) \<and>
   (lookup_min_fixed (foldl Db_add Db_new sigs) code min_fixed = Inr (Some name) \<longleftrightarrow>
     (\<exists>s \<in> set sigs. sig_matches code s \<and> sg_name s = name \<and> min_fixed \<le> fixed_count (sg_pattern s) \<and>
       (\<forall>t \<in> set sigs. sig_matches code t \<longrightarrow>
         specificity t < specificity s \<or> specificity t = specificity s \<and> sg_name t = name)))"
proof -
  let ?db = "foldl Db_add Db_new sigs"
  have "db_inv ?db" by (rule db_inv_adds [OF db_inv_new])
  moreover have "db_sigs ?db = sigs" by (simp add: Db_new_def)
  ultimately obtain answer where "lookup_min_fixed ?db code min_fixed = Inr answer"
    "answer = Some name \<longleftrightarrow> named_by (set sigs) code min_fixed name"
    using lookup_named [of ?db code min_fixed name] by auto
  then show ?thesis unfolding named_by_def by auto
qed

theorem flirt_lookup_exact_witness:
  "\<not> (\<exists>s \<in> set [lone_jump]. sig_matches [0xe9, 1, 2, 3, 4] s \<and> sg_name s = chars ''h'' \<and> 6 \<le> fixed_count (sg_pattern s) \<and>
      (\<forall>t \<in> set [lone_jump]. sig_matches [0xe9, 1, 2, 3, 4] t \<longrightarrow>
        specificity t < specificity s \<or> specificity t = specificity s \<and> sg_name t = chars ''h''))"
proof -
  have "lookup_min_fixed (foldl Db_add Db_new [lone_jump]) [0xe9, 1, 2, 3, 4] 6 \<noteq> Inr (Some (chars ''h''))"
    by (simp add: signature_eval)
  with flirt_lookup_exact [of "[lone_jump]" "[0xe9, 1, 2, 3, 4]" 6 "chars ''h''"] show ?thesis by blast
qed

text \<open>
  C38. The order in which two corpora are loaded never changes an answer: whatever the bytes and
  the floor, the databases name the same function or none.
\<close>

theorem flirt_order_free:
  assumes "extend_npat Db_new a = (None, da)" "extend_npat da b = (None, dab)"
    "extend_npat Db_new b = (None, db)" "extend_npat db a = (None, dba)"
  shows "lookup_min_fixed dab code min_fixed = lookup_min_fixed dba code min_fixed"
proof -
  let ?sa = "snd (npat_sigs 0 (str_lines a))" and ?sb = "snd (npat_sigs 0 (str_lines b))"
  have d: "dab = foldl Db_add (foldl Db_add Db_new ?sa) ?sb" "dba = foldl Db_add (foldl Db_add Db_new ?sb) ?sa"
    using assms by (auto simp: extend_npat_sigs)
  have "set (db_sigs dab) = set (db_sigs dba)" unfolding d by auto
  moreover have "db_inv dab" "db_inv dba" unfolding d by (intro db_inv_adds db_inv_new)+
  ultimately show ?thesis by (intro lookup_set)
qed

theorem flirt_order_free_witness:
  "lookup_min_fixed (foldl Db_add (foldl Db_add Db_new [lone_jump]) [wild_prologue]) [0xe9] 0 =
   lookup_min_fixed (foldl Db_add (foldl Db_add Db_new [wild_prologue]) [lone_jump]) [0xe9] 0"
proof (rule flirt_order_free)
  have jump: "npat_sigs 0 (str_lines (chars ''e9 h'')) = (None, [lone_jump])"
    by (simp add: lone_jump_def chars_def str_lines_def trim_def is_whitespace_def rsplit_once_whitespace_def Pattern_parse_def
      split_whitespace_def str_len_def len_utf8_def u8_from_str_radix16_def to_digit16_def)
  have wild: "npat_sigs 0 (str_lines (chars ''48 89 .. .. .. 57 48 83 g'')) = (None, [wild_prologue])"
    by (simp add: wild_prologue_def chars_def str_lines_def trim_def is_whitespace_def rsplit_once_whitespace_def Pattern_parse_def
      split_whitespace_def str_len_def len_utf8_def u8_from_str_radix16_def to_digit16_def)
  show "extend_npat Db_new (chars ''e9 h'') = (None, foldl Db_add Db_new [lone_jump])"
    "extend_npat (foldl Db_add Db_new [wild_prologue]) (chars ''e9 h'') = (None, foldl Db_add (foldl Db_add Db_new [wild_prologue]) [lone_jump])"
    by (simp_all add: extend_npat_sigs jump)
  show "extend_npat Db_new (chars ''48 89 .. .. .. 57 48 83 g'') = (None, foldl Db_add Db_new [wild_prologue])"
    "extend_npat (foldl Db_add Db_new [lone_jump]) (chars ''48 89 .. .. .. 57 48 83 g'') =
      (None, foldl Db_add (foldl Db_add Db_new [lone_jump]) [wild_prologue])"
    by (simp_all add: extend_npat_sigs wild)
qed

text \<open>
  C39. A pattern's text gives the pattern back: \<open>parse\<close> inverts \<open>to_npat\<close> on every pattern but the
  empty one, which it refuses.
\<close>

theorem flirt_npat_roundtrip:
  "Pattern_parse (to_npat p) = (if pat_bytes p = [] then Inl Empty else Inr p)"
  by (rule parse_to_npat)

text \<open>
  The pattern of a window ends with the last byte no wildcard covers, and matches exactly the
  code that is long enough and agrees with the window outside the wildcards.
\<close>

theorem flirt_from_window:
  assumes "length win \<le> usize_MAX"
  shows "\<exists>n \<le> length win. Pattern_len (from_window win wildcards) = n \<and>
    (\<forall>i. n \<le> i \<and> i < length win \<longrightarrow> masked wildcards i) \<and> (0 < n \<longrightarrow> \<not> masked wildcards (n - 1)) \<and>
    (\<forall>code. Pattern_matches (from_window win wildcards) code \<longleftrightarrow>
       n \<le> length code \<and> (\<forall>i < n. masked wildcards i \<or> code ! i = win ! i))"
  by (rule from_window_matches [OF assms])

theorem flirt_from_window_witness:
  "\<exists>n \<le> length [0xe8, 0x11, 0x22, 0x33, 0x44, 0x90 :: u8]. Pattern_len (from_window [0xe8, 0x11, 0x22, 0x33, 0x44, 0x90] [(1, 4)]) = n"
  using flirt_from_window [of "[0xe8, 0x11, 0x22, 0x33, 0x44, 0x90]" "[(1, 4)]"] by auto

text \<open>
  Two remarks the code does not keep. A match that ranks first by length can have fewer fixed
  bytes than a shorter match, so a refusal of the best match does not mean that every match is
  below the floor; and a plus sign passes for the first digit of a byte.
\<close>

lemma flirt_floor_hides_match:
  "sig_matches [0x48, 0x89, 0x5c, 0x24, 0x08, 0x57, 0x48, 0x83] prologue \<and> 6 \<le> fixed_count (sg_pattern prologue) \<and>
   Db_lookup (foldl Db_add Db_new [prologue, wild_prologue]) [0x48, 0x89, 0x5c, 0x24, 0x08, 0x57, 0x48, 0x83] = Inr None"
  by (simp add: signature_eval)

lemma flirt_plus_sign: "Pattern_parse (chars ''+f'') = Inr (Pattern [Fixed 0x0f])"
  by (simp add: Pattern_parse_def chars_def split_whitespace_def is_whitespace_def str_len_def len_utf8_def
    u8_from_str_radix16_def to_digit16_def)

section \<open>Dominators\<close>

definition fork_blocks :: "(u64 \<times> Successor list) list" where
  "fork_blocks = [(0, [\<lparr>sc_to = 4, sc_kind = ''cond'', sc_confidence = 0x3f800000\<rparr>, \<lparr>sc_to = 8, sc_kind = ''fall'', sc_confidence = 0x3f800000\<rparr>]), (4, [\<lparr>sc_to = 8, sc_kind = ''jmp'', sc_confidence = 0x3f800000\<rparr>]), (8, [])]"

lemma fork_jumps: "jumps fork_blocks = {(0, 1), (0, 2), (1, 2)}"
proof -
  have idx: "addr_to_idx fork_blocks 4 = Some 1" "addr_to_idx fork_blocks 8 = Some 2"
    by (simp_all add: fork_blocks_def addr_to_idx_def upt_rec)
  have "i < length fork_blocks \<longleftrightarrow> i = 0 \<or> i = 1 \<or> i = 2" for i by (auto simp: fork_blocks_def)
  moreover have "snd (fork_blocks ! 0) = [\<lparr>sc_to = 4, sc_kind = ''cond'', sc_confidence = 0x3f800000\<rparr>, \<lparr>sc_to = 8, sc_kind = ''fall'', sc_confidence = 0x3f800000\<rparr>]"
    "snd (fork_blocks ! 1) = [\<lparr>sc_to = 8, sc_kind = ''jmp'', sc_confidence = 0x3f800000\<rparr>]" "snd (fork_blocks ! 2) = []" by (simp_all add: fork_blocks_def)
  ultimately have "(i, j) \<in> jumps fork_blocks \<longleftrightarrow> (i, j) \<in> {(0, 1), (0, 2), (1, 2)}" for i j
    unfolding jumps_def using idx by (cases "i = 0"; cases "i = 1"; cases "i = 2") (simp_all, auto)
  then show ?thesis by (intro set_eqI) (simp only: split_paired_all)
qed

lemma fork_trails: "trail (jumps fork_blocks) 0 [0, 2] 2" "trail (jumps fork_blocks) 0 [0, 1, 2] 2"
  using trail_step [OF trail_root, of 0 2 "jumps fork_blocks"]
    trail_step [OF trail_step [OF trail_root, of 0 1 "jumps fork_blocks"], of 2] by (simp_all add: fork_jumps)

text \<open>A block that loops on itself behind the entry.\<close>

lemma loop_reached: "reached [[], [0, 1]] 0 1" "edges [[], [0, 1]] = {(0, 1), (1, 1)}" "doms {(0, 1), (1, 1)} 0 1 = {0, 1}"
proof -
  show e: "edges [[], [0, 1]] = {(0, 1), (1, 1)}" by (auto simp: edges_def less_Suc_eq)
  have t: "trail {(0, 1), (1, 1)} 0 [0, 1] 1" using trail_step [OF trail_root, of 0 1 "{(0, 1), (1, 1)}"] by simp
  then show "reached [[], [0, 1]] 0 1" unfolding reached_def e by blast
  show "doms {(0, 1), (1, 1)} 0 1 = {0, 1}"
    using t doms_root(1) [of 0 _ 1] doms_root(2) [of 1] by (fastforce simp: doms_def)
qed

text \<open>
  C6. On the block graph of any function \<open>forward\<close> returns, never stops, and \<open>dominates\<close> then says
  exactly whether every way along the jumps from the first block to a reached block passes the
  other; an unreached block is dominated by itself alone.
\<close>

theorem dom_forward_exact:
  assumes "2 * length blocks \<le> u32_MAX"
  shows "\<exists>t. DomTree_forward (length blocks) (snd (block_graph_of blocks)) = Some (Inr t) \<and>
    (\<forall>a < length blocks. \<forall>b < length blocks. dominates t a b =
      Inr (a = b \<or> (\<exists>vs. trail (jumps blocks) 0 vs b) \<and> (\<forall>vs. trail (jumps blocks) 0 vs b \<longrightarrow> a \<in> set vs)))"
proof -
  obtain succ pred where g: "block_graph_of blocks = (succ, pred)" "graph_ok (length blocks) pred" "edges pred = jumps blocks"
    using block_graph_of_result [of blocks] by blast
  then show ?thesis using forward_result [OF g(2) assms] by (auto simp: reached_def doms_def)
qed

theorem dom_forward_exact_witness:
  "\<exists>t. DomTree_forward (length fork_blocks) (snd (block_graph_of fork_blocks)) = Some (Inr t) \<and>
    dominates t 0 2 = Inr True \<and> dominates t 1 2 = Inr False"
proof -
  have "2 * length fork_blocks \<le> u32_MAX" by (simp add: fork_blocks_def)
  from dom_forward_exact [OF this] obtain t where t: "DomTree_forward (length fork_blocks) (snd (block_graph_of fork_blocks)) = Some (Inr t)"
    "\<forall>a < length fork_blocks. \<forall>b < length fork_blocks. dominates t a b =
      Inr (a = b \<or> (\<exists>vs. trail (jumps fork_blocks) 0 vs b) \<and> (\<forall>vs. trail (jumps fork_blocks) 0 vs b \<longrightarrow> a \<in> set vs))" by blast
  have n: "length fork_blocks = 3" by (simp add: fork_blocks_def)
  have "\<exists>vs. trail (jumps fork_blocks) 0 vs 2 \<and> 1 \<notin> set vs" using fork_trails(1) by (intro exI [of _ "[0, 2]"]) simp
  then show ?thesis using t fork_trails trail_root_in [of "jumps fork_blocks" 0 _ 2] unfolding n by auto
qed

text \<open>
  C21. The parents of the forward tree are the immediate dominators: a reached block's parent
  strictly dominates it and is dominated by every other block that does, and a block without
  such a dominator has none.
\<close>

theorem dom_forward_immediate:
  assumes "graph_ok n pred" "2 * n \<le> u32_MAX"
  shows "\<exists>t. DomTree_forward n pred = Some (Inr t) \<and> length (dt_idom t) = n \<and>
    (\<forall>b < n. \<forall>d. dt_idom t ! b = Some d \<longleftrightarrow> reached pred 0 b \<and> immediate_dom (edges pred) 0 d b)"
  using forward_result [OF assms] by blast

theorem dom_forward_immediate_witness: "\<exists>t. DomTree_forward 2 [[], [0, 1]] = Some (Inr t) \<and> dt_idom t ! 1 = Some 0"
proof -
  have "graph_ok 2 [[], [0, 1]]" "2 * 2 \<le> u32_MAX" by (simp_all add: graph_ok_def)
  from dom_forward_immediate [OF this] obtain t where t: "DomTree_forward 2 [[], [0, 1]] = Some (Inr t)"
    "\<forall>b < 2. \<forall>d. dt_idom t ! b = Some d \<longleftrightarrow> reached [[], [0, 1]] 0 b \<and> immediate_dom (edges [[], [0, 1]]) 0 d b" by blast
  have "immediate_dom (edges [[], [0, 1]]) 0 0 1" unfolding immediate_dom_def loop_reached(2,3) doms_root(3) by auto
  then show ?thesis using t loop_reached(1) by auto
qed

text \<open>
  C7. \<open>reverse\<close> returns and never stops; \<open>dominates\<close> then says exactly whether every way from a
  block out of the function, by an exit or a dead end that is no abort, passes the other; and the
  parent of every block, of one with no way out too, is its nearest post-dominator among the
  blocks, if it has one.
\<close>

theorem dom_reverse_exact:
  assumes "graph_ok n succ" "length is_exit = n" "length is_abort = n" "2 * (n + 1) \<le> u32_MAX"
  shows "\<exists>t. DomTree_reverse n succ is_exit is_abort = Some (Inr t) \<and> length (dt_idom t) = n \<and>
    (\<forall>a < n. \<forall>b < n. dominates t a b = Inr (post_dom n (back_edges succ is_exit is_abort) a b)) \<and>
    (\<forall>b < n. case dt_idom t ! b of
       Some d \<Rightarrow> nearest_post_dom n (back_edges succ is_exit is_abort) d b
     | None \<Rightarrow> \<forall>d. \<not> nearest_post_dom n (back_edges succ is_exit is_abort) d b)"
  by (rule reverse_result [OF assms])

theorem dom_reverse_exact_witness:
  "\<exists>t. DomTree_reverse 2 [[1], []] [False, False] [False, False] = Some (Inr t) \<and> dominates t 1 0 = Inr True"
proof -
  let ?E = "back_edges [[1], []] [False, False] [False, False]"
  have "graph_ok 2 [[1], []]" "length [False, False] = 2" "2 * (2 + 1) \<le> u32_MAX" by (simp_all add: graph_ok_def)
  from dom_reverse_exact [OF this(1,2,2,3)] obtain t where t: "DomTree_reverse 2 [[1], []] [False, False] [False, False] = Some (Inr t)"
    "\<forall>a < 2. \<forall>b < 2. dominates t a b = Inr (post_dom 2 ?E a b)" by blast
  have e: "p = 1" if "(p, 0) \<in> ?E" for p using that by (auto simp: back_edges_def leaves_def)
  have "1 \<in> set vs" if "trail ?E 2 vs 0" for vs
    using that
  proof cases
    case (trail_step us p)
    with e [of p] trail_last_in [of ?E 2 us p] show ?thesis by simp
  qed simp
  then have "post_dom 2 ?E 1 0" unfolding post_dom_def by blast
  then show ?thesis using t by auto
qed

text \<open>
  C22. On the tree of \<open>forward\<close>, \<open>dominance_frontier\<close> gives every reached block its frontier: the
  blocks with a predecessor that it dominates and that it does not strictly dominate. The entry
  block is left out when it has a single predecessor, although the entry is then a join of that
  edge and the way into the function.
\<close>

theorem dominance_frontier_exact:
  assumes "graph_ok n pred" "2 * n \<le> u32_MAX" "0 < n"
  shows "\<exists>t df. DomTree_forward n pred = Some (Inr t) \<and> dominance_frontier n pred (dt_idom t) = Inr df \<and> length df = n \<and>
    (\<forall>a < n. reached pred 0 a \<longrightarrow> df ! a = frontier pred 0 a - {b. b = 0 \<and> length (pred ! b) < 2})"
proof -
  obtain t where "DomTree_forward n pred = Some (Inr t)" "length (dt_idom t) = n" "forest pred 0 (dt_idom t)"
    using forward_result [OF assms(1,2)] assms(3) by auto
  then show ?thesis using frontier_result [OF assms(1), of "dt_idom t"] by blast
qed

theorem dominance_frontier_exact_witness:
  "\<exists>t df. DomTree_forward 2 [[], [0, 1]] = Some (Inr t) \<and> dominance_frontier 2 [[], [0, 1]] (dt_idom t) = Inr df \<and> df ! 1 = {1}"
proof -
  have "graph_ok 2 [[], [0, 1]]" "2 * 2 \<le> u32_MAX" "0 < (2 :: nat)" by (simp_all add: graph_ok_def)
  from dominance_frontier_exact [OF this] obtain t df where t: "DomTree_forward 2 [[], [0, 1]] = Some (Inr t)"
    "dominance_frontier 2 [[], [0, 1]] (dt_idom t) = Inr df" "length df = 2"
    "\<forall>a < 2. reached [[], [0, 1]] 0 a \<longrightarrow> df ! a = frontier [[], [0, 1]] 0 a - {b. b = 0 \<and> length ([[], [0, 1 :: nat]] ! b) < 2}" by (elim exE conjE) (rule that)
  have "df ! 1 = frontier [[], [0, 1]] 0 1 - {b. b = 0 \<and> length ([[], [0, 1 :: nat]] ! b) < 2}"
    by (intro t(4) [rule_format, OF _ loop_reached(1)]) simp
  moreover have "b \<in> frontier [[], [0, 1]] 0 1 \<longleftrightarrow> b = 1" for b
    using loop_reached doms_root(2) [of 1] unfolding frontier_def by (cases "b = 0"; cases "b = 1") simp_all
  ultimately have "df ! 1 = {1}" by auto
  with t(1,2) show ?thesis by blast
qed

lemma frontier_misses_entry: "dominance_frontier 1 [[0]] [None] = Inr [{}] \<and> frontier [[0]] 0 0 = {0}"
  using reached_root [of "[[0]]" 0] doms_root(2)
  by (auto simp: dominance_frontier_def idx_def frontier_def)

end
